(* ===== verification/Prelude.thy ===== *)
theory Prelude
  imports Main "HOL-Library.AList" "HOL-Library.Char_ord" "HOL-Library.List_Lexorder"
begin

text \<open>
  Shared vocabulary of the development.

  \<^item> Exceptions: a TypeScript function that may throw returns \<open>'e + 'a\<close>, with \<open>Inl\<close> for
    the thrown error and \<open>Inr\<close> for the returned value. \<open>bindR\<close> is "run the first, and
    go on if it did not throw"; \<open>check\<close> is \<open>if (!condition) throw error\<close>;
    \<open>mapR\<close> is \<open>Array.prototype.map\<close> with a callback that may throw.
  \<^item> \<open>Map\<close>: a JavaScript \<open>Map\<close> iterates in insertion order and \<open>set\<close> on a present key
    keeps its position. That is an association list with \<^const>\<open>AList.update\<close>, read with
    \<^const>\<open>map_of\<close>.
  \<^item> Sorting with a comparator: \<open>sort_le\<close> is the stable sort of \<open>Array.prototype.sort\<close>.
  The collection \<open>result_simps\<close> carries the case analysis of results; \<open>js_map\<close> the
  facts on insertion-ordered maps.
\<close>

named_theorems result_simps "rewriting of results built with bindR, check and mapR"
named_theorems js_map "insertion-ordered maps"

section \<open>Results\<close>

fun bindR :: "'e + 'a \<Rightarrow> ('a \<Rightarrow> 'e + 'b) \<Rightarrow> 'e + 'b" where
  "bindR (Inl e) f = Inl e"
| "bindR (Inr x) f = f x"

definition check :: "bool \<Rightarrow> 'e \<Rightarrow> 'e + unit" where
  "check b e = (if b then Inr () else Inl e)"

fun mapR :: "('a \<Rightarrow> 'e + 'b) \<Rightarrow> 'a list \<Rightarrow> 'e + 'b list" where
  "mapR f [] = Inr []"
| "mapR f (x # xs) = bindR (f x) (\<lambda>y. bindR (mapR f xs) (\<lambda>ys. Inr (y # ys)))"

text \<open>A loop over a list whose body only checks: it throws the first error.\<close>

fun forR :: "('a \<Rightarrow> 'e + unit) \<Rightarrow> 'a list \<Rightarrow> 'e + unit" where
  "forR f [] = Inr ()"
| "forR f (x # xs) = bindR (f x) (\<lambda>_. forR f xs)"

lemma bindR_eq_Inr [result_simps]: "bindR r f = Inr y \<longleftrightarrow> (\<exists>x. r = Inr x \<and> f x = Inr y)"
  by (cases r) auto

lemma bindR_eq_Inl [result_simps]:
  "bindR r f = Inl e \<longleftrightarrow> r = Inl e \<or> (\<exists>x. r = Inr x \<and> f x = Inl e)"
  by (cases r) auto

lemma check_eq_Inr [result_simps]: "check b e = Inr u \<longleftrightarrow> b"
  by (auto simp: check_def)

lemma check_eq_Inl [result_simps]: "check b e = Inl e' \<longleftrightarrow> \<not> b \<and> e' = e"
  by (auto simp: check_def)

lemma check_True [simp]: "check True e = Inr ()"
  by (simp add: check_def)

lemma check_False [simp]: "check False e = Inl e"
  by (simp add: check_def)

lemma bindR_assoc: "bindR (bindR r f) g = bindR r (\<lambda>x. bindR (f x) g)"
  by (cases r) auto

lemma bindR_cong [fundef_cong]:
  "r = r' \<Longrightarrow> (\<And>x. r' = Inr x \<Longrightarrow> f x = g x) \<Longrightarrow> bindR r f = bindR r' g"
  by (cases r') auto

lemma mapR_eq_Inr: "mapR f xs = Inr ys \<longleftrightarrow> list_all2 (\<lambda>x y. f x = Inr y) xs ys"
proof (induction xs arbitrary: ys)
  case Nil
  then show ?case by auto
next
  case (Cons x xs)
  then show ?case by (cases ys) (auto simp: result_simps)
qed

lemma mapR_length: "mapR f xs = Inr ys \<Longrightarrow> length ys = length xs"
  by (auto simp: mapR_eq_Inr dest: list_all2_lengthD)

lemma mapR_set: "mapR f xs = Inr ys \<Longrightarrow> y \<in> set ys \<Longrightarrow> \<exists>x \<in> set xs. f x = Inr y"
  by (auto simp: mapR_eq_Inr in_set_conv_nth list_all2_conv_all_nth) (metis nth_mem)

lemma forR_eq_Inr: "forR f xs = Inr u \<longleftrightarrow> (\<forall>x \<in> set xs. f x = Inr ())"
  by (induction xs) (auto simp: result_simps)

text \<open>A loop that threads an accumulator and may throw.\<close>

fun foldR :: "('a \<Rightarrow> 's \<Rightarrow> 'e + 's) \<Rightarrow> 'a list \<Rightarrow> 's \<Rightarrow> 'e + 's" where
  "foldR f [] s = Inr s"
| "foldR f (x # xs) s = bindR (f x s) (foldR f xs)"

lemma foldR_invariant:
  assumes "foldR f xs s = Inr s'" "P s"
    and "\<And>x s s'. x \<in> set xs \<Longrightarrow> f x s = Inr s' \<Longrightarrow> P s \<Longrightarrow> P s'"
  shows "P s'"
  using assms by (induction xs arbitrary: s) (auto simp: result_simps)

lemma foldR_measure:
  assumes "foldR f xs s = Inr s'" "\<And>x s s'. f x s = Inr s' \<Longrightarrow> m s' = Suc (m s)"
  shows "m s' = m s + length xs"
  using assms(1) by (induction xs arbitrary: s) (auto simp: result_simps dest!: assms(2))

lemma mapR_cong [fundef_cong]:
  "xs = ys \<Longrightarrow> (\<And>x. x \<in> set ys \<Longrightarrow> f x = g x) \<Longrightarrow> mapR f xs = mapR g ys"
  by (induction ys arbitrary: xs) auto

lemma mapR_map: "(\<And>x. x \<in> set xs \<Longrightarrow> f (g x) = Inr (h x)) \<Longrightarrow> mapR f (map g xs) = Inr (map h xs)"
  by (induction xs) auto

section \<open>Insertion-ordered maps\<close>

text \<open>Reordering a map with distinct keys does not change what it maps to what.\<close>

lemma map_of_reorder:
  assumes "distinct (map fst m)" "distinct (map fst m')" "set m = set m'"
  shows "map_of m = map_of m'"
proof
  fix k
  show "map_of m k = map_of m' k"
    using assms by (metis map_of_eq_None_iff map_of_eq_Some_iff option.exhaust)
qed

lemma map_of_update [simp, js_map]:
  "map_of (AList.update k v m) k' = (if k' = k then Some v else map_of m k')"
  by (simp add: update_conv')

lemma distinct_keys_update [js_map]:
  "distinct (map fst m) \<Longrightarrow> distinct (map fst (AList.update k v m))"
  by (simp add: distinct_update)

lemma keys_update [js_map]: "fst ` set (AList.update k v m) = insert k (fst ` set m)"
  by (induction m) auto

lemma map_of_values:
  assumes "distinct (map fst m)"
  shows "v \<in> set (map snd m) \<longleftrightarrow> (\<exists>k. map_of m k = Some v)"
proof
  assume "v \<in> set (map snd m)"
  then obtain k where "(k, v) \<in> set m" by force
  with assms show "\<exists>k. map_of m k = Some v" by (auto intro: map_of_is_SomeI)
next
  assume "\<exists>k. map_of m k = Some v"
  then show "v \<in> set (map snd m)" by (force dest: map_of_SomeD)
qed

text \<open>A fresh key is appended; the values keep their order.\<close>

lemma update_fresh: "map_of m k = None \<Longrightarrow> AList.update k v m = m @ [(k, v)]"
  by (induction m) (auto split: if_splits)

lemma distinct_update_fresh:
  "distinct (map fst m) \<Longrightarrow> map_of m k = None \<Longrightarrow> distinct (map fst (m @ [(k, v)]))"
  by (auto simp: map_of_eq_None_iff)

section \<open>Stable sorting by a comparator\<close>

fun insert_le :: "('a \<Rightarrow> 'a \<Rightarrow> bool) \<Rightarrow> 'a \<Rightarrow> 'a list \<Rightarrow> 'a list" where
  "insert_le le x [] = [x]"
| "insert_le le x (y # ys) = (if le x y then x # y # ys else y # insert_le le x ys)"

fun sort_le :: "('a \<Rightarrow> 'a \<Rightarrow> bool) \<Rightarrow> 'a list \<Rightarrow> 'a list" where
  "sort_le le [] = []"
| "sort_le le (x # xs) = insert_le le x (sort_le le xs)"

lemma set_insert_le [simp]: "set (insert_le le x xs) = insert x (set xs)"
  by (induction xs) auto

lemma set_sort_le [simp]: "set (sort_le le xs) = set xs"
  by (induction xs) auto

lemma length_insert_le [simp]: "length (insert_le le x xs) = Suc (length xs)"
  by (induction xs) auto

lemma length_sort_le [simp]: "length (sort_le le xs) = length xs"
  by (induction xs) auto

lemma sort_le_Nil [simp]: "sort_le le xs = [] \<longleftrightarrow> xs = []"
  by (metis length_0_conv length_sort_le)

lemma distinct_insert_le [simp]: "distinct (insert_le le x xs) \<longleftrightarrow> x \<notin> set xs \<and> distinct xs"
  by (induction xs) auto

lemma distinct_sort_le [simp]: "distinct (sort_le le xs) \<longleftrightarrow> distinct xs"
  by (induction xs) auto

lemma distinct_map_insert_le [simp]:
  "distinct (map f (insert_le le x xs)) \<longleftrightarrow> f x \<notin> f ` set xs \<and> distinct (map f xs)"
  by (induction xs) auto

lemma distinct_map_sort_le [simp]: "distinct (map f (sort_le le xs)) \<longleftrightarrow> distinct (map f xs)"
  by (induction xs) auto

text \<open>The result is ordered when the comparator is total and transitive.\<close>

lemma sorted_insert_le:
  assumes "\<And>x y. le x y \<or> le y x" "\<And>x y z. le x y \<Longrightarrow> le y z \<Longrightarrow> le x z"
  shows "sorted_wrt le xs \<Longrightarrow> sorted_wrt le (insert_le le x xs)"
proof (induction xs)
  case (Cons y ys)
  then show ?case using assms(1) [of x y] by (auto intro: assms(2))
qed simp

lemma sorted_sort_le:
  assumes "\<And>x y. le x y \<or> le y x" "\<And>x y z. le x y \<Longrightarrow> le y z \<Longrightarrow> le x z"
  shows "sorted_wrt le (sort_le le xs)"
  by (induction xs) (auto intro: sorted_insert_le [OF assms])

lemma insert_le_sorted: "sorted_wrt le (x # xs) \<Longrightarrow> insert_le le x xs = x # xs"
  by (cases xs) auto

lemma sort_le_sorted: "sorted_wrt le xs \<Longrightarrow> sort_le le xs = xs"
  by (induction xs) (simp_all add: insert_le_sorted del: insert_le.simps)

lemma sort_le_by: "sort_le (\<lambda>l r. f l \<le> f r) xs = xs \<longleftrightarrow> sorted (map f xs)" for f :: "'a \<Rightarrow> 'b :: linorder"
proof
  assume eq: "sort_le (\<lambda>l r. f l \<le> f r) xs = xs"
  have "sorted_wrt (\<lambda>l r. f l \<le> f r) (sort_le (\<lambda>l r. f l \<le> f r) xs)"
    by (rule sorted_sort_le) auto
  with eq show "sorted (map f xs)" by (simp add: sorted_wrt_map)
qed (simp add: sort_le_sorted sorted_wrt_map)

lemma sorted_sort_le_by: "sorted (map f (sort_le (\<lambda>l r. f l \<le> f r) xs))" for f :: "'a \<Rightarrow> 'b :: linorder"
  by (simp add: sorted_wrt_map) (rule sorted_sort_le, auto)

text \<open>The comparator sees the keys: sorting commutes with an order-reflecting map.\<close>

lemma map_insert_le:
  "(\<And>x y. le x y \<longleftrightarrow> le' (f x) (f y)) \<Longrightarrow> map f (insert_le le x xs) = insert_le le' (f x) (map f xs)"
  by (induction xs) auto

lemma map_sort_le:
  "(\<And>x y. le x y \<longleftrightarrow> le' (f x) (f y)) \<Longrightarrow> map f (sort_le le xs) = sort_le le' (map f xs)"
  by (induction xs) (auto simp: map_insert_le)

lemma insert_le_linorder: "insert_le (\<le>) x xs = insort x (xs :: 'a :: linorder list)"
  by (induction xs) auto

lemma sort_le_linorder: "sort_le (\<le>) xs = sort (xs :: 'a :: linorder list)"
  by (induction xs) (auto simp: insert_le_linorder)

section \<open>Options\<close>

text \<open>\<open>a ?? b\<close> and the optional comparison \<open>x === undefined || P x\<close>.\<close>

definition opt_all :: "('a \<Rightarrow> bool) \<Rightarrow> 'a option \<Rightarrow> bool" where
  "opt_all P x = (case x of None \<Rightarrow> True | Some y \<Rightarrow> P y)"

lemma opt_all_simps [simp]: "opt_all P None" "opt_all P (Some x) = P x"
  by (simp_all add: opt_all_def)

lemma opt_all_iff: "opt_all P x \<longleftrightarrow> (\<forall>y. x = Some y \<longrightarrow> P y)"
  by (cases x) auto

end
