(* ===== verification/Js_Number.thy ===== *)
theory Js_Number
  imports Complex_Main
begin

text \<open>
  JavaScript numbers. A \<open>number\<close> is \<open>Num q\<close> for a finite value, or one of the non-finite
  values; the sign of zero is not modelled (no modelled code observes it). \<open>safe_integer\<close> is
  \<open>Number.isSafeInteger\<close>, \<open>is_integer\<close> is \<open>Number.isInteger\<close>.

  \<open>fl\<close> rounds a rational to binary64 (53-bit significand, ties to even), so that the code's
  floating-point expressions are modelled operation by operation; exponents are not bounded, so
  overflow to infinity and subnormals are outside the model.
\<close>

datatype jnum = Num rat | NaN | PosInf | NegInf

definition int_val :: "jnum \<Rightarrow> int option" where
  "int_val v = (case v of Num q \<Rightarrow> (if of_int \<lfloor>q\<rfloor> = q then Some \<lfloor>q\<rfloor> else None) | _ \<Rightarrow> None)"

definition is_integer :: "jnum \<Rightarrow> bool" where
  "is_integer v = (int_val v \<noteq> None)"

definition max_safe :: int where
  "max_safe = 2 ^ 53 - 1"

definition safe_int :: "jnum \<Rightarrow> int option" where
  "safe_int v = (case int_val v of Some i \<Rightarrow> (if \<bar>i\<bar> \<le> max_safe then Some i else None) | None \<Rightarrow> None)"

definition is_finite :: "jnum \<Rightarrow> bool" where
  "is_finite v = (case v of Num q \<Rightarrow> True | _ \<Rightarrow> False)"

lemma int_val_Num_of_int [simp]: "int_val (Num (of_int i)) = Some i"
  by (simp add: int_val_def)

lemma int_val_Some: "int_val v = Some i \<longleftrightarrow> v = Num (of_int i)"
  by (auto simp: int_val_def split: jnum.splits if_splits)

lemma safe_int_Some: "safe_int v = Some i \<longleftrightarrow> v = Num (of_int i) \<and> \<bar>i\<bar> \<le> max_safe"
  by (auto simp: safe_int_def int_val_Some split: option.splits)

section \<open>Binary64 rounding\<close>

function ilog2 :: "int \<Rightarrow> int" where
  "ilog2 n = (if n < 2 then 0 else ilog2 (n div 2) + 1)"
  by pat_completeness auto
termination
  by (relation "measure nat") auto

declare ilog2.simps [simp del]

lemma ilog2_bounds: "0 < n \<Longrightarrow> 0 \<le> ilog2 n \<and> 2 ^ nat (ilog2 n) \<le> n \<and> n < 2 ^ nat (ilog2 n + 1)"
proof (induction n rule: ilog2.induct)
  case (1 n)
  show ?case
  proof (cases "n < 2")
    case True
    with "1.prems" show ?thesis by (simp add: ilog2.simps [of n])
  next
    case False
    let ?l = "ilog2 (n div 2)"
    from False "1.IH" have ih: "0 \<le> ?l" "2 ^ nat ?l \<le> n div 2" "n div 2 < 2 ^ nat (?l + 1)"
      by auto
    from False have l: "ilog2 n = ?l + 1" by (simp add: ilog2.simps [of n])
    have "nat (?l + 1) = Suc (nat ?l)" "nat (?l + 1 + 1) = Suc (Suc (nat ?l))"
      using ih(1) by (simp_all add: nat_add_distrib)
    then show ?thesis using ih False by (simp add: l) linarith
  qed
qed

text \<open>\<open>flog2 x\<close> is the binary exponent of a positive rational \<open>x\<close>.\<close>

definition flog2 :: "rat \<Rightarrow> int" where
  "flog2 x = (case quotient_of x of (n, d) \<Rightarrow>
     (let e = ilog2 n - ilog2 d
      in if 2 powi e \<le> x then e else e - 1))"

text \<open>Round to the nearest integer, ties to even.\<close>

definition rne :: "rat \<Rightarrow> int" where
  "rne y = (let f = \<lfloor>y\<rfloor>; r = y - of_int f
            in if r < 1/2 then f else if r > 1/2 then f + 1 else if even f then f else f + 1)"

definition fl :: "rat \<Rightarrow> rat" where
  "fl x = (if x = 0 then 0
           else let k = 52 - flog2 \<bar>x\<bar> in of_int (rne (x * 2 powi k)) * 2 powi (- k))"

text \<open>\<open>Math.round\<close>: the nearest integer, ties towards plus infinity.\<close>

definition math_round :: "rat \<Rightarrow> int" where
  "math_round x = \<lfloor>x + 1/2\<rfloor>"

lemma rne_of_int [simp]: "rne (of_int i) = i"
  by (simp add: rne_def)

lemma rne_nonneg: "0 \<le> y \<Longrightarrow> 0 \<le> rne y"
  by (auto simp: rne_def Let_def)

lemma fl_nonneg: "0 \<le> x \<Longrightarrow> 0 \<le> fl x"
  by (simp add: fl_def Let_def rne_nonneg)

lemma fl_zero [simp]: "fl 0 = 0"
  by (simp add: fl_def)

lemma flog2_of_int: "0 < i \<Longrightarrow> i < 2 ^ 53 \<Longrightarrow> flog2 (of_int i) \<le> 52"
proof -
  assume i: "0 < i" "i < 2 ^ 53"
  have "2 ^ nat (ilog2 i) \<le> i" using ilog2_bounds [of i] i by simp
  also note i(2)
  finally have "(2 :: int) ^ nat (ilog2 i) < 2 ^ 53" .
  then have "nat (ilog2 i) < 53" by (rule power_less_imp_less_exp [rotated]) simp
  then have "ilog2 i < 53" by simp
  moreover have "quotient_of (of_int i) = (i, 1)" by simp
  moreover have "ilog2 1 = 0" by (simp add: ilog2.simps)
  ultimately show ?thesis by (simp add: flog2_def Let_def)
qed

lemma fl_of_int: "\<bar>i\<bar> < 2 ^ 53 \<Longrightarrow> fl (of_int i) = of_int i"
proof (cases "i = 0")
  case False
  assume b: "\<bar>i\<bar> < 2 ^ 53"
  define k where "k = 52 - flog2 \<bar>of_int i :: rat\<bar>"
  have "flog2 (of_int \<bar>i\<bar>) \<le> 52" using b False by (intro flog2_of_int) auto
  then have k0: "0 \<le> k" by (simp add: k_def)
  then have "(2 :: rat) powi k = of_int (2 ^ nat k)"
    by (simp add: power_int_def)
  then have eq: "of_int i * (2 :: rat) powi k = of_int (i * 2 ^ nat k)" by simp
  have "fl (of_int i) = of_int (rne (of_int i * 2 powi k)) * 2 powi (- k)"
    using False by (simp add: fl_def k_def Let_def)
  also have "\<dots> = of_int i * (2 powi k * 2 powi (- k))"
    by (simp only: eq rne_of_int) (simp add: k0 power_int_def)
  also have "\<dots> = of_int i" by (simp add: power_int_minus)
  finally show ?thesis .
qed simp

lemma math_round_of_int [simp]: "math_round (of_int i) = i"
  by (simp add: math_round_def floor_unique)

lemma math_round_nonneg: "0 \<le> x \<Longrightarrow> 0 \<le> math_round x"
  by (simp add: math_round_def)

section \<open>Comparison\<close>

text \<open>\<open><\<close> and \<open><=\<close> on numbers: false as soon as one side is \<open>NaN\<close>.\<close>

fun js_less :: "jnum \<Rightarrow> jnum \<Rightarrow> bool" where
  "js_less (Num a) (Num b) = (a < b)"
| "js_less NaN _ = False"
| "js_less _ NaN = False"
| "js_less PosInf _ = False"
| "js_less _ NegInf = False"
| "js_less NegInf _ = True"
| "js_less _ PosInf = True"

definition js_leq :: "jnum \<Rightarrow> jnum \<Rightarrow> bool" where
  "js_leq a b = (js_less a b \<or> a = b \<and> a \<noteq> NaN)"

lemma js_less_int [simp]: "js_less (Num (of_int a)) (Num (of_int b)) \<longleftrightarrow> a < b"
  by simp

lemma js_leq_int [simp]: "js_leq (Num (of_int a)) (Num (of_int b)) \<longleftrightarrow> a \<le> b"
  by (auto simp: js_leq_def)

lemma js_less_PosInf [simp]: "\<not> js_less PosInf x"
  by (cases x) simp_all

end
