(* ===== verification/Integration_Errors.thy ===== *)
theory Integration_Errors
  imports Prelude Js_Number
begin

text \<open>
  \<open>packages/platform-modules/integration-runtime/src/errors.ts\<close>: the error categories and the
  error class of the integration runtime. A thrown value is either an
  \<open>IntegrationRuntimeError\<close> with its category and \<open>retryable\<close> flag (the \<open>cause\<close> is diagnostic
  only and never read by the runtime), or any other value, \<open>Foreign\<close>.
\<close>

datatype category =
    Authentication
  | Cancelled
  | Circuit_open
  | Concurrency_limited
  | Connection
  | Internal
  | Invalid_input
  | Invalid_response
  | Rate_limited
  | Rejected
  | Replay_detected
  | Signature_invalid
  | Timeout
  | Upstream_unavailable

datatype thrown = Runtime_error category bool | Foreign string

text \<open>\<open>new IntegrationRuntimeError(category, options)\<close>; \<open>retryable\<close> defaults to false.\<close>

definition runtime_error :: "category \<Rightarrow> thrown" where
  "runtime_error c = Runtime_error c False"

definition retryable_error :: "category \<Rightarrow> thrown" where
  "retryable_error c = Runtime_error c True"

fun category_of :: "thrown \<Rightarrow> category option" where
  "category_of (Runtime_error c r) = Some c"
| "category_of (Foreign s) = None"

fun is_retryable :: "thrown \<Rightarrow> bool" where
  "is_retryable (Runtime_error c r) = r"
| "is_retryable (Foreign s) = False"

lemma category_of_simps [simp]:
  "category_of (runtime_error c) = Some c" "category_of (retryable_error c) = Some c"
  "is_retryable (retryable_error c)" "\<not> is_retryable (runtime_error c)"
  by (simp_all add: runtime_error_def retryable_error_def)

text \<open>\<open>Number.isSafeInteger(v) && v >= lo\<close>, the guard of the constructors' options.\<close>

definition safe_at_least :: "int \<Rightarrow> jnum \<Rightarrow> bool" where
  "safe_at_least lo v = (case safe_int v of None \<Rightarrow> False | Some i \<Rightarrow> lo \<le> i)"

definition to_int :: "jnum \<Rightarrow> int" where
  "to_int v = (case safe_int v of None \<Rightarrow> 0 | Some i \<Rightarrow> i)"

lemma safe_at_leastD: "safe_at_least lo v \<Longrightarrow> lo \<le> to_int v"
  by (auto simp: safe_at_least_def to_int_def split: option.splits)

end
