(* ===== verification/Circuit_Breaker.thy ===== *)
theory Circuit_Breaker
  imports Integration_Errors "HOL-Library.Multiset"
begin

text \<open>
  \<open>packages/platform-modules/integration-runtime/src/circuit-breaker.ts\<close>.

  The closure variables \<open>state\<close>, \<open>failures\<close>, \<open>openedAt\<close> and \<open>halfOpenActive\<close> are the record
  \<open>breaker\<close>. \<open>execute\<close> awaits the operation, so other calls run between its start and its end: it
  is split at the \<open>await\<close> into \<open>enter\<close> (up to the call of the operation), \<open>leave_ok\<close> and
  \<open>leave_err\<close> (the rest, with the \<open>finally\<close> block). \<open>cb_execute\<close> composes the parts for a call
  that is not interleaved; \<open>cb_step\<close> is the interleaving of any number of calls.
\<close>

datatype circuit_state = Closed | Half_open | Open

record breaker =
  cb_state :: circuit_state
  failures :: int
  openedAt :: "int option"
  halfOpenActive :: int

record breaker_options =
  failureThreshold :: int
  halfOpenMaxCalls :: int
  openMs :: int
  countsAsFailure :: "thrown \<Rightarrow> bool"

section \<open>Operations\<close>

definition defaultFailureClassifier :: "thrown \<Rightarrow> bool" where
  "defaultFailureClassifier e = (case category_of e of
     None \<Rightarrow> True
   | Some c \<Rightarrow> c \<in> {Authentication, Connection, Invalid_response, Rate_limited, Timeout, Upstream_unavailable})"

definition createCircuitBreaker ::
    "jnum \<Rightarrow> jnum \<Rightarrow> jnum \<Rightarrow> (thrown \<Rightarrow> bool) option \<Rightarrow> thrown + breaker_options \<times> breaker" where
  "createCircuitBreaker threshold maxCalls openFor classifier =
     (if \<not> safe_at_least 1 threshold \<or> \<not> safe_at_least 1 maxCalls \<or> \<not> safe_at_least 1 openFor
      then Inl (runtime_error Invalid_input)
      else Inr (\<lparr>failureThreshold = to_int threshold, halfOpenMaxCalls = to_int maxCalls,
                 openMs = to_int openFor,
                 countsAsFailure = (case classifier of None \<Rightarrow> defaultFailureClassifier | Some f \<Rightarrow> f)\<rparr>,
                \<lparr>cb_state = Closed, failures = 0, openedAt = None, halfOpenActive = 0\<rparr>))"

definition refresh :: "breaker_options \<Rightarrow> int \<Rightarrow> breaker \<Rightarrow> breaker" where
  "refresh opt now b = (case openedAt b of
     Some t0 \<Rightarrow> if cb_state b = Open \<and> t0 + openMs opt \<le> now
                then b\<lparr>cb_state := Half_open, halfOpenActive := 0\<rparr> else b
   | None \<Rightarrow> b)"

definition open_circuit :: "int \<Rightarrow> breaker \<Rightarrow> breaker" where
  "open_circuit now b = b\<lparr>cb_state := Open, openedAt := Some now, halfOpenActive := 0\<rparr>"

text \<open>\<open>execute\<close> up to the call of the operation; the value is the \<open>probe\<close> flag.\<close>

definition enter :: "breaker_options \<Rightarrow> int \<Rightarrow> breaker \<Rightarrow> (thrown + bool) \<times> breaker" where
  "enter opt now b0 = (let b = refresh opt now b0 in
     if cb_state b = Open \<or> cb_state b = Half_open \<and> halfOpenMaxCalls opt \<le> halfOpenActive b
     then (Inl (retryable_error Circuit_open), b)
     else if cb_state b = Half_open
     then (Inr True, b\<lparr>halfOpenActive := halfOpenActive b + 1\<rparr>)
     else (Inr False, b))"

text \<open>The \<open>finally\<close> block.\<close>

definition leave_finally :: "bool \<Rightarrow> breaker \<Rightarrow> breaker" where
  "leave_finally probe b =
     (if probe \<and> cb_state b = Half_open then b\<lparr>halfOpenActive := halfOpenActive b - 1\<rparr> else b)"

definition leave_ok :: "bool \<Rightarrow> breaker \<Rightarrow> breaker" where
  "leave_ok probe b = (let b1 = b\<lparr>failures := 0\<rparr>;
      b2 = (if probe then b1\<lparr>cb_state := Closed, openedAt := None, halfOpenActive := 0\<rparr> else b1)
    in leave_finally probe b2)"

definition leave_err :: "breaker_options \<Rightarrow> int \<Rightarrow> bool \<Rightarrow> thrown \<Rightarrow> breaker \<Rightarrow> breaker" where
  "leave_err opt now probe e b =
     (let b2 = (if countsAsFailure opt e
                then let b1 = b\<lparr>failures := failures b + 1\<rparr>
                     in if probe \<or> failureThreshold opt \<le> failures b1 then open_circuit now b1 else b1
                else b)
      in leave_finally probe b2)"

text \<open>An uninterleaved call: the clock at entry and at exit, and what the operation does.\<close>

definition cb_execute ::
    "breaker_options \<Rightarrow> int \<Rightarrow> int \<Rightarrow> thrown + 'a \<Rightarrow> breaker \<Rightarrow> (thrown + 'a) \<times> breaker" where
  "cb_execute opt t0 t1 operation b = (case enter opt t0 b of
     (Inl e, b') \<Rightarrow> (Inl e, b')
   | (Inr probe, b') \<Rightarrow> (case operation of
        Inr v \<Rightarrow> (Inr v, leave_ok probe b')
      | Inl e \<Rightarrow> (Inl e, leave_err opt t1 probe e b')))"

definition snapshot :: "breaker_options \<Rightarrow> int \<Rightarrow> breaker \<Rightarrow> breaker" where
  "snapshot opt now b = refresh opt now b"

section \<open>Interleaved calls\<close>

text \<open>
  A system state is the breaker with the multiset of the calls in flight, each with its \<open>probe\<close>
  flag and the value \<open>openedAt\<close> had when it was admitted, which names the half-open period a
  probe belongs to (the program does not keep it: it only serves to state properties). A step is
  one call entering (admitted or refused), leaving after success, or leaving after an error; the
  clock reading of a step is arbitrary.
\<close>

type_synonym call = "bool \<times> int option"

inductive cb_step :: "breaker_options \<Rightarrow> breaker \<times> call multiset \<Rightarrow> breaker \<times> call multiset \<Rightarrow> bool"
  for opt where
  admitted: "enter opt now b = (Inr probe, b') \<Longrightarrow> cb_step opt (b, F) (b', add_mset (probe, openedAt b') F)"
| refused: "enter opt now b = (Inl e, b') \<Longrightarrow> cb_step opt (b, F) (b', F)"
| succeeded: "(probe, t) \<in># F \<Longrightarrow> cb_step opt (b, F) (leave_ok probe b, F - {#(probe, t)#})"
| failed: "(probe, t) \<in># F \<Longrightarrow> cb_step opt (b, F) (leave_err opt now probe e b, F - {#(probe, t)#})"
| observed: "cb_step opt (b, F) (snapshot opt now b, F)"

definition cb_initial :: breaker where
  "cb_initial = \<lparr>cb_state = Closed, failures = 0, openedAt = None, halfOpenActive = 0\<rparr>"

inductive cb_reachable :: "breaker_options \<Rightarrow> breaker \<times> call multiset \<Rightarrow> bool" for opt where
  start: "cb_reachable opt (cb_initial, {#})"
| step: "cb_reachable opt s \<Longrightarrow> cb_step opt s s' \<Longrightarrow> cb_reachable opt s'"

definition valid_options :: "breaker_options \<Rightarrow> bool" where
  "valid_options opt = (1 \<le> failureThreshold opt \<and> 1 \<le> halfOpenMaxCalls opt \<and> 1 \<le> openMs opt)"

text \<open>The invariant of the fields.\<close>

definition cb_inv :: "breaker_options \<Rightarrow> breaker \<Rightarrow> bool" where
  "cb_inv opt b = ((cb_state b = Closed \<longleftrightarrow> openedAt b = None)
     \<and> (cb_state b = Closed \<longrightarrow> failures b < failureThreshold opt)
     \<and> 0 \<le> failures b
     \<and> (cb_state b \<noteq> Half_open \<longrightarrow> halfOpenActive b = 0)
     \<and> halfOpenActive b \<le> halfOpenMaxCalls opt)"

lemmas breaker_defs = refresh_def open_circuit_def enter_def leave_finally_def leave_ok_def
  leave_err_def snapshot_def Let_def

lemma createCircuitBreaker_Inr:
  assumes "createCircuitBreaker th mx ms cl = Inr (opt, b)"
  shows "valid_options opt" "b = cb_initial"
  using assms
  by (auto simp: createCircuitBreaker_def valid_options_def cb_initial_def dest: safe_at_leastD split: if_splits)

lemma cb_inv_initial: "valid_options opt \<Longrightarrow> cb_inv opt cb_initial"
  by (simp add: cb_inv_def cb_initial_def valid_options_def)

lemma cb_inv_refresh: "valid_options opt \<Longrightarrow> cb_inv opt b \<Longrightarrow> cb_inv opt (refresh opt now b)"
  by (auto simp: cb_inv_def refresh_def valid_options_def split: option.splits)

lemma cb_inv_enter: "valid_options opt \<Longrightarrow> cb_inv opt b \<Longrightarrow> cb_inv opt (snd (enter opt now b))"
  using cb_inv_refresh [of opt b now] by (auto simp: enter_def Let_def cb_inv_def)

lemma cb_inv_leave_ok: "valid_options opt \<Longrightarrow> cb_inv opt b \<Longrightarrow> cb_inv opt (leave_ok probe b)"
  by (auto simp: cb_inv_def valid_options_def leave_ok_def leave_finally_def Let_def)

lemma cb_inv_leave_err: "valid_options opt \<Longrightarrow> cb_inv opt b \<Longrightarrow> cb_inv opt (leave_err opt now probe e b)"
  by (auto simp: cb_inv_def valid_options_def leave_err_def leave_finally_def open_circuit_def Let_def)

lemma cb_inv_step: "cb_step opt s s' \<Longrightarrow> valid_options opt \<Longrightarrow> cb_inv opt (fst s) \<Longrightarrow> cb_inv opt (fst s')"
proof (induction rule: cb_step.induct)
  case (admitted now b probe b' F)
  then show ?case using cb_inv_enter [of opt b now] by simp
next
  case (refused now b e b' F)
  then show ?case using cb_inv_enter [of opt b now] by simp
qed (simp_all add: cb_inv_leave_ok cb_inv_leave_err snapshot_def cb_inv_refresh)

lemma cb_inv_reachable: "cb_reachable opt s \<Longrightarrow> valid_options opt \<Longrightarrow> cb_inv opt (fst s)"
  by (induction rule: cb_reachable.induct) (auto intro: cb_inv_initial cb_inv_step)

section \<open>The contract: a three-state automaton\<close>

text \<open>
  What \<open>execute\<close> promises a caller whose calls do not overlap: \<open>Counting n\<close> lets calls through
  after \<open>n\<close> counted failures in a row, \<open>Tripped t\<close> refuses them until \<open>t + openMs\<close>, \<open>Probing\<close>
  lets the next call decide.
\<close>

datatype breaker_spec = Counting int | Tripped int | Probing

definition abs_breaker :: "breaker \<Rightarrow> breaker_spec" where
  "abs_breaker b = (case cb_state b of
     Closed \<Rightarrow> Counting (failures b)
   | Half_open \<Rightarrow> Probing
   | Open \<Rightarrow> (case openedAt b of Some t \<Rightarrow> Tripped t | None \<Rightarrow> Probing))"

fun spec_after :: "breaker_options \<Rightarrow> int \<Rightarrow> thrown + 'a \<Rightarrow> breaker_spec \<Rightarrow> breaker_spec" where
  "spec_after opt t1 (Inr v) s = Counting 0"
| "spec_after opt t1 (Inl e) (Counting n) =
     (if \<not> countsAsFailure opt e then Counting n
      else if n + 1 < failureThreshold opt then Counting (n + 1) else Tripped t1)"
| "spec_after opt t1 (Inl e) s = (if countsAsFailure opt e then Tripped t1 else Probing)"

fun spec_execute ::
    "breaker_options \<Rightarrow> int \<Rightarrow> int \<Rightarrow> thrown + 'a \<Rightarrow> breaker_spec \<Rightarrow> (thrown + 'a) \<times> breaker_spec" where
  "spec_execute opt t0 t1 operation (Tripped t) =
     (if t0 < t + openMs opt then (Inl (retryable_error Circuit_open), Tripped t)
      else (operation, spec_after opt t1 operation Probing))"
| "spec_execute opt t0 t1 operation s = (operation, spec_after opt t1 operation s)"

definition quiescent :: "breaker_options \<Rightarrow> breaker \<Rightarrow> bool" where
  "quiescent opt b = (cb_inv opt b \<and> halfOpenActive b = 0)"

lemma cb_execute_refines:
  assumes "valid_options opt" "quiescent opt b"
  shows "fst (cb_execute opt t0 t1 operation b) = fst (spec_execute opt t0 t1 operation (abs_breaker b))
    \<and> abs_breaker (snd (cb_execute opt t0 t1 operation b))
        = snd (spec_execute opt t0 t1 operation (abs_breaker b))
    \<and> quiescent opt (snd (cb_execute opt t0 t1 operation b))"
proof (cases "cb_state b")
  case Closed
  with assms show ?thesis
    by (cases operation)
      (auto simp: cb_execute_def breaker_defs abs_breaker_def quiescent_def cb_inv_def valid_options_def)
next
  case Half_open
  with assms show ?thesis
    by (cases operation; cases "openedAt b")
      (auto simp: cb_execute_def breaker_defs abs_breaker_def quiescent_def cb_inv_def valid_options_def)
next
  case Open
  with assms obtain t where "openedAt b = Some t" by (auto simp: quiescent_def cb_inv_def)
  with Open assms show ?thesis
    by (cases operation)
      (auto simp: cb_execute_def breaker_defs abs_breaker_def quiescent_def cb_inv_def valid_options_def)
qed

text \<open>Runs of calls: the clock readings and the outcome of each.\<close>

fun cb_run :: "breaker_options \<Rightarrow> (int \<times> int \<times> (thrown + 'a)) list \<Rightarrow> breaker \<Rightarrow> (thrown + 'a) list \<times> breaker" where
  "cb_run opt [] b = ([], b)"
| "cb_run opt ((t0, t1, operation) # cs) b =
     (let (r, b1) = cb_execute opt t0 t1 operation b; (rs, b2) = cb_run opt cs b1 in (r # rs, b2))"

fun spec_run :: "breaker_options \<Rightarrow> (int \<times> int \<times> (thrown + 'a)) list \<Rightarrow> breaker_spec
    \<Rightarrow> (thrown + 'a) list \<times> breaker_spec" where
  "spec_run opt [] s = ([], s)"
| "spec_run opt ((t0, t1, operation) # cs) s =
     (let (r, s1) = spec_execute opt t0 t1 operation s; (rs, s2) = spec_run opt cs s1 in (r # rs, s2))"

lemma cb_run_refines:
  "valid_options opt \<Longrightarrow> quiescent opt b \<Longrightarrow>
   fst (cb_run opt cs b) = fst (spec_run opt cs (abs_breaker b))
   \<and> abs_breaker (snd (cb_run opt cs b)) = snd (spec_run opt cs (abs_breaker b))"
proof (induction cs arbitrary: b)
  case Nil
  then show ?case by simp
next
  case (Cons c cs)
  obtain t0 t1 operation where c: "c = (t0, t1, operation)" by (cases c)
  let ?b1 = "snd (cb_execute opt t0 t1 operation b)"
  from cb_execute_refines [OF Cons.prems, of t0 t1 operation] Cons.IH [OF Cons.prems(1), of ?b1] c
  show ?case by (simp add: Let_def split_beta)
qed

lemma quiescent_initial: "valid_options opt \<Longrightarrow> quiescent opt cb_initial"
  by (simp add: quiescent_def cb_inv_initial) (simp add: cb_initial_def)

lemma abs_initial [simp]: "abs_breaker cb_initial = Counting 0"
  by (simp add: abs_breaker_def cb_initial_def)

text \<open>
  Property C11. A freshly created breaker, whatever calls are made on it one after the other,
  answers and evolves exactly as the three-state automaton: it lets calls through until
  \<open>failureThreshold\<close> counted failures in a row, refuses every call for \<open>openMs\<close> from then on
  without running its operation, then lets a probe decide between closing and reopening.
\<close>

theorem breaker_run_refines_contract:
  assumes "createCircuitBreaker th mx ms cl = Inr (opt, b)"
  shows "fst (cb_run opt cs b) = fst (spec_run opt cs (Counting 0))
    \<and> abs_breaker (snd (cb_run opt cs b)) = snd (spec_run opt cs (Counting 0))"
  using createCircuitBreaker_Inr [OF assms] cb_run_refines [of opt cb_initial cs]
    quiescent_initial [of opt] by simp

definition witness_options :: breaker_options where
  "witness_options = \<lparr>failureThreshold = 2, halfOpenMaxCalls = 1, openMs = 1000,
     countsAsFailure = defaultFailureClassifier\<rparr>"

lemma witness_create:
  "createCircuitBreaker (Num 2) (Num 1) (Num 1000) None = Inr (witness_options, cb_initial)"
  by (simp add: createCircuitBreaker_def safe_at_least_def to_int_def safe_int_def int_val_def
      max_safe_def witness_options_def cb_initial_def)

theorem breaker_run_refines_contract_witness:
  "abs_breaker (snd (cb_run witness_options
       [(0, 10, Inl (retryable_error Timeout)), (20, 30, Inl (retryable_error Timeout)),
        (40, 50, Inr True)] cb_initial)) = Tripped 30
   \<and> fst (cb_run witness_options
       [(0, 10, Inl (retryable_error Timeout)), (20, 30, Inl (retryable_error Timeout)),
        (40, 50, Inr True)] cb_initial) ! 2 = Inl (retryable_error Circuit_open)"
  using breaker_run_refines_contract [OF witness_create,
      of "[(0, 10, Inl (retryable_error Timeout)), (20, 30, Inl (retryable_error Timeout)), (40, 50, Inr True)]"]
  by (simp add: witness_options_def defaultFailureClassifier_def Let_def)

text \<open>
  Under any interleaving of concurrent calls the breaker's fields stay consistent:
  it is closed exactly when \<open>openedAt\<close> is undefined, a closed breaker has seen fewer than
  \<open>failureThreshold\<close> counted failures, and \<open>halfOpenActive\<close> never exceeds \<open>halfOpenMaxCalls\<close>
  and is zero outside the half-open state.
\<close>

theorem breaker_invariant:
  assumes "createCircuitBreaker th mx ms cl = Inr (opt, b)" and "cb_reachable opt (b', F)"
  shows "cb_inv opt b'"
  using cb_inv_reachable [OF assms(2)] createCircuitBreaker_Inr [OF assms(1)] by simp

theorem breaker_invariant_witness: "cb_inv witness_options cb_initial"
  using breaker_invariant [OF witness_create cb_reachable.start] .

definition overlap_options :: breaker_options where
  "overlap_options = \<lparr>failureThreshold = 1, halfOpenMaxCalls = 1, openMs = 10,
     countsAsFailure = defaultFailureClassifier\<rparr>"

definition half_open_breaker :: "int \<Rightarrow> int \<Rightarrow> int \<Rightarrow> breaker" where
  "half_open_breaker f t n = \<lparr>cb_state = Half_open, failures = f, openedAt = Some t, halfOpenActive = n\<rparr>"

lemma overlap_trace:
  "cb_reachable overlap_options (half_open_breaker 2 20 1, {#(True, Some 20), (True, Some 20)#})"
  "cb_reachable overlap_options (half_open_breaker 2 20 (- 1), {#})"
proof -
  let ?o = overlap_options
  let ?N = "(False, None) :: call"
  let ?P = "(True, Some 0) :: call"
  let ?Q = "(True, Some 20) :: call"
  note eval = enter_def refresh_def leave_err_def leave_finally_def open_circuit_def overlap_options_def
    defaultFailureClassifier_def cb_initial_def half_open_breaker_def Let_def retryable_error_def runtime_error_def
  have e0: "enter ?o 0 cb_initial = (Inr False, cb_initial)" by (simp add: eval)
  have n: "openedAt cb_initial = None" by (simp add: cb_initial_def)
  have s2: "cb_reachable ?o (cb_initial, {#?N, ?N#})"
    using cb_reachable.step [OF cb_reachable.step [OF cb_reachable.start cb_step.admitted [OF e0]]
        cb_step.admitted [OF e0]] by (simp add: n)
  have leave: "cb_reachable ?o (b', F - {#(p, t)#})"
    if "cb_reachable ?o (b, F)" "(p, t) \<in># F" "leave_err ?o now p e b = b'" for b b' F p t now e
    using cb_reachable.step [OF that(1) cb_step.failed [OF that(2), of ?o b now e]] that(3) by simp
  have join: "cb_reachable ?o (b', add_mset (p, openedAt b') F)"
    if "cb_reachable ?o (b, F)" "enter ?o now b = (Inr p, b')" for b b' F p now
    using cb_reachable.step [OF that(1) cb_step.admitted [OF that(2)]] .
  let ?b3 = "\<lparr>cb_state = Open, failures = 1, openedAt = Some 0, halfOpenActive = 0\<rparr>"
  have s3: "cb_reachable ?o (?b3, {#?N#})"
    using leave [OF s2, of False None 0 "retryable_error Timeout" ?b3] by (simp add: eval)
  have s4: "cb_reachable ?o (half_open_breaker 1 0 1, {#?P, ?N#})"
    using join [OF s3, of 10 True "half_open_breaker 1 0 1"] by (simp add: eval)
  let ?b5 = "\<lparr>cb_state = Open, failures = 2, openedAt = Some 20, halfOpenActive = 0\<rparr>"
  have s5: "cb_reachable ?o (?b5, {#?P#})"
    using leave [OF s4, of False None 20 "retryable_error Timeout" ?b5] by (simp add: eval)
  have s6: "cb_reachable ?o (half_open_breaker 2 20 1, {#?Q, ?P#})"
    using join [OF s5, of 30 True "half_open_breaker 2 20 1"] by (simp add: eval)
  have cancel: "leave_err ?o 40 True (runtime_error Cancelled) (half_open_breaker 2 20 k)
      = half_open_breaker 2 20 (k - 1)" for k
    by (simp add: eval)
  have s7: "cb_reachable ?o (half_open_breaker 2 20 0, {#?Q#})"
    using leave [OF s6, of True "Some 0", OF _ cancel] by simp
  show s8: "cb_reachable ?o (half_open_breaker 2 20 1, {#?Q, ?Q#})"
    using join [OF s7, of 50 True "half_open_breaker 2 20 1"] by (simp add: eval)
  have s9: "cb_reachable ?o (half_open_breaker 2 20 0, {#?Q#})"
    using leave [OF s8, of True "Some 20", OF _ cancel] by simp
  show "cb_reachable ?o (half_open_breaker 2 20 (- 1), {#})"
    using leave [OF s9, of True "Some 20", OF _ cancel] by simp
qed

text \<open>
  Property C12. The bound on \<open>halfOpenActive\<close> is not a bound on the probes in flight: a probe that
  outlives a reopening still decrements the counter of the next half-open period. With
  \<open>halfOpenMaxCalls = 1\<close> two probes of the same half-open period run at the same time, and the
  counter ends below zero (the calls in flight carry the \<open>openedAt\<close> of their admission).
\<close>

theorem breaker_probe_bound_violated:
  "halfOpenMaxCalls overlap_options = 1
   \<and> (\<exists>b t. cb_reachable overlap_options (b, {#(True, Some t), (True, Some t)#})
        \<and> cb_state b = Half_open \<and> openedAt b = Some t \<and> halfOpenActive b = 1)
   \<and> (\<exists>b. cb_reachable overlap_options (b, {#}) \<and> halfOpenActive b < 0)"
  using overlap_trace by (fastforce simp: overlap_options_def half_open_breaker_def)

end
