(* ===== verification/Integration_Limits.thy ===== *)
theory Integration_Limits
  imports Integration_Errors
begin

text \<open>
  \<open>packages/platform-modules/integration-runtime/src/limits.ts\<close>: the concurrency limiter with its
  bounded waiting queue and the fixed-window rate limiter.

  A call of the concurrency limiter's \<open>run\<close> is named by a number (the identity of its
  \<open>WaitingOperation\<close>). \<open>acquire\<close> and \<open>release\<close> are the closures of the same name, \<open>cancel\<close> the
  abort listener; the signals' state is the set of calls whose signal is aborted. \<open>lim_step\<close>
  interleaves any number of calls.
\<close>

section \<open>The concurrency limiter\<close>

record limiter =
  active :: int
  queue :: "nat list"

record limiter_options =
  limit :: int
  maxQueue :: int

definition createConcurrencyLimiter :: "jnum \<Rightarrow> jnum \<Rightarrow> thrown + limiter_options \<times> limiter" where
  "createConcurrencyLimiter l q =
     (if \<not> safe_at_least 1 l \<or> \<not> safe_at_least 0 q then Inl (runtime_error Invalid_input)
      else Inr (\<lparr>limit = to_int l, maxQueue = to_int q\<rparr>, \<lparr>active = 0, queue = []\<rparr>))"

text \<open>The loop of \<open>release\<close>: drop aborted waiters, wake the first live one.\<close>

fun wake_next :: "nat set \<Rightarrow> limiter \<Rightarrow> nat list \<Rightarrow> nat option \<times> limiter" where
  "wake_next ab s [] = (None, s\<lparr>queue := []\<rparr>)"
| "wake_next ab s (w # ws) =
     (if w \<in> ab then wake_next ab s ws
      else (Some w, s\<lparr>active := active s + 1, queue := ws\<rparr>))"

definition release :: "nat set \<Rightarrow> limiter \<Rightarrow> nat option \<times> limiter" where
  "release ab s = wake_next ab (s\<lparr>active := active s - 1\<rparr>) (queue s)"

datatype acquired = Granted | Queued | Refused thrown

definition acquire :: "limiter_options \<Rightarrow> nat set \<Rightarrow> nat \<Rightarrow> limiter \<Rightarrow> acquired \<times> limiter" where
  "acquire opt ab w s =
     (if w \<in> ab then (Refused (runtime_error Cancelled), s)
      else if active s < limit opt then (Granted, s\<lparr>active := active s + 1\<rparr>)
      else if maxQueue opt \<le> int (length (queue s))
      then (Refused (retryable_error Concurrency_limited), s)
      else (Queued, s\<lparr>queue := queue s @ [w]\<rparr>))"

text \<open>The abort listener: \<open>queue.splice(queue.indexOf(waiting), 1)\<close>, when it is queued.\<close>

definition cancel :: "nat \<Rightarrow> limiter \<Rightarrow> limiter" where
  "cancel w s = s\<lparr>queue := remove1 w (queue s)\<rparr>"

text \<open>What \<open>run\<close> does once it holds a slot: the signal is tested again before the operation.\<close>

definition run_granted :: "nat set \<Rightarrow> nat \<Rightarrow> thrown + 'a \<Rightarrow> thrown + 'a" where
  "run_granted ab w operation = (if w \<in> ab then Inl (runtime_error Cancelled) else operation)"

definition lim_snapshot :: "limiter_options \<Rightarrow> limiter \<Rightarrow> int \<times> int \<times> nat" where
  "lim_snapshot opt s = (active s, limit opt, length (queue s))"

text \<open>
  The interleaving: \<open>holders\<close> are the calls between the end of \<open>acquire\<close> and \<open>release\<close>, \<open>seen\<close>
  the calls made so far.
\<close>

record lim_sys =
  lim_st :: limiter
  holders :: "nat set"
  aborted :: "nat set"
  seen :: "nat set"

inductive lim_step :: "limiter_options \<Rightarrow> lim_sys \<Rightarrow> lim_sys \<Rightarrow> bool" for opt where
  granted: "w \<notin> seen s \<Longrightarrow> acquire opt (aborted s) w (lim_st s) = (Granted, l) \<Longrightarrow>
     lim_step opt s (s\<lparr>lim_st := l, holders := insert w (holders s), seen := insert w (seen s)\<rparr>)"
| queued: "w \<notin> seen s \<Longrightarrow> acquire opt (aborted s) w (lim_st s) = (Queued, l) \<Longrightarrow>
     lim_step opt s (s\<lparr>lim_st := l, seen := insert w (seen s)\<rparr>)"
| refused: "w \<notin> seen s \<Longrightarrow> acquire opt (aborted s) w (lim_st s) = (Refused e, l) \<Longrightarrow>
     lim_step opt s (s\<lparr>lim_st := l, seen := insert w (seen s)\<rparr>)"
| signal: "lim_step opt s (s\<lparr>aborted := insert w (aborted s)\<rparr>)"
| listener: "w \<in> aborted s \<Longrightarrow> lim_step opt s (s\<lparr>lim_st := cancel w (lim_st s)\<rparr>)"
| released: "w \<in> holders s \<Longrightarrow> release (aborted s) (lim_st s) = (None, l) \<Longrightarrow>
     lim_step opt s (s\<lparr>lim_st := l, holders := holders s - {w}\<rparr>)"
| handed: "w \<in> holders s \<Longrightarrow> release (aborted s) (lim_st s) = (Some v, l) \<Longrightarrow>
     lim_step opt s (s\<lparr>lim_st := l, holders := insert v (holders s - {w})\<rparr>)"

definition lim_initial :: lim_sys where
  "lim_initial = \<lparr>lim_st = \<lparr>active = 0, queue = []\<rparr>, holders = {}, aborted = {}, seen = {}\<rparr>"

inductive lim_reachable :: "limiter_options \<Rightarrow> lim_sys \<Rightarrow> bool" for opt where
  start: "lim_reachable opt lim_initial"
| step: "lim_reachable opt s \<Longrightarrow> lim_step opt s s' \<Longrightarrow> lim_reachable opt s'"

definition lim_inv :: "limiter_options \<Rightarrow> lim_sys \<Rightarrow> bool" where
  "lim_inv opt s = (finite (holders s) \<and> active (lim_st s) = int (card (holders s))
     \<and> active (lim_st s) \<le> limit opt
     \<and> int (length (queue (lim_st s))) \<le> maxQueue opt
     \<and> (queue (lim_st s) \<noteq> [] \<longrightarrow> active (lim_st s) = limit opt)
     \<and> distinct (queue (lim_st s)) \<and> set (queue (lim_st s)) \<inter> holders s = {}
     \<and> holders s \<subseteq> seen s \<and> set (queue (lim_st s)) \<subseteq> seen s)"

lemma wake_next_None:
  "wake_next ab s ws = (None, l) \<longleftrightarrow> set ws \<subseteq> ab \<and> l = s\<lparr>queue := []\<rparr>"
  by (induction ws) auto

lemma wake_next_Some:
  "wake_next ab s ws = (Some v, l) \<longleftrightarrow>
   (\<exists>xs ys. ws = xs @ v # ys \<and> set xs \<subseteq> ab \<and> v \<notin> ab \<and> l = s\<lparr>active := active s + 1, queue := ys\<rparr>)"
proof (induction ws)
  case Nil
  then show ?case by simp
next
  case (Cons w ws)
  show ?case
  proof (cases "w \<in> ab")
    case True
    with Cons.IH have "wake_next ab s (w # ws) = (Some v, l) \<longleftrightarrow>
       (\<exists>xs ys. ws = xs @ v # ys \<and> set xs \<subseteq> ab \<and> v \<notin> ab \<and> l = s\<lparr>active := active s + 1, queue := ys\<rparr>)"
      by simp
    with True show ?thesis by (auto simp: Cons_eq_append_conv) (metis insert_subset list.set(2))+
  next
    case False
    have "w # ws = xs @ v # ys \<and> set xs \<subseteq> ab \<longleftrightarrow> xs = [] \<and> w = v \<and> ws = ys" for xs ys
      using False by (cases xs) auto
    then have "(\<exists>xs ys. w # ws = xs @ v # ys \<and> set xs \<subseteq> ab \<and> v \<notin> ab
        \<and> l = s\<lparr>active := active s + 1, queue := ys\<rparr>)
      \<longleftrightarrow> (\<exists>xs ys. (xs = [] \<and> w = v \<and> ws = ys) \<and> v \<notin> ab \<and> l = s\<lparr>active := active s + 1, queue := ys\<rparr>)"
      by blast
    with False show ?thesis by auto
  qed
qed

text \<open>\<open>release\<close> hands the slot to the first waiter whose signal is not aborted.\<close>

lemma release_fifo: "fst (release ab s) = find (\<lambda>w. w \<notin> ab) (queue s)"
proof -
  have "fst (wake_next ab s' ws) = find (\<lambda>w. w \<notin> ab) ws" for s' ws
    by (induction ws) auto
  then show ?thesis by (simp add: release_def)
qed

lemma lim_inv_initial: "0 \<le> maxQueue opt \<Longrightarrow> 0 \<le> limit opt \<Longrightarrow> lim_inv opt lim_initial"
  by (simp add: lim_inv_def lim_initial_def)

lemma lim_inv_step:
  assumes "lim_step opt s s'" "lim_inv opt s"
  shows "lim_inv opt s'"
  using assms
proof (induction rule: lim_step.induct)
  case (granted w s l)
  then have "w \<notin> holders s" "w \<notin> set (queue (lim_st s))" by (auto simp: lim_inv_def)
  with granted show ?case by (auto simp: lim_inv_def acquire_def split: if_splits)
next
  case (queued w s l)
  then have "w \<notin> holders s" "w \<notin> set (queue (lim_st s))" by (auto simp: lim_inv_def)
  with queued show ?case by (auto simp: lim_inv_def acquire_def split: if_splits)
next
  case (refused w s e l)
  then show ?case by (auto simp: lim_inv_def acquire_def split: if_splits)
next
  case (signal s w)
  then show ?case by (auto simp: lim_inv_def)
next
  case (listener w s)
  then have "length (remove1 w (queue (lim_st s))) \<le> length (queue (lim_st s))"
    by (simp add: length_remove1)
  with listener show ?case
    by (auto simp: lim_inv_def cancel_def dest: notin_set_remove1)
next
  case (released w s l)
  then have "card (holders s) \<ge> 1" by (auto simp: lim_inv_def Suc_le_eq card_gt_0_iff)
  with released show ?case
    by (auto simp: lim_inv_def release_def wake_next_None of_nat_diff)
next
  case (handed w s v l)
  then obtain xs ys where q: "queue (lim_st s) = xs @ v # ys"
      and l: "l = (lim_st s)\<lparr>active := active (lim_st s), queue := ys\<rparr>"
    by (auto simp: release_def wake_next_Some)
  from handed q have v: "v \<notin> holders s" by (auto simp: lim_inv_def)
  from handed have "card (holders s) \<ge> 1" by (auto simp: lim_inv_def Suc_le_eq card_gt_0_iff)
  with handed q l v show ?case by (auto simp: lim_inv_def)
qed

lemma lim_inv_reachable:
  "lim_reachable opt s \<Longrightarrow> 0 \<le> maxQueue opt \<Longrightarrow> 0 \<le> limit opt \<Longrightarrow> lim_inv opt s"
  by (induction rule: lim_reachable.induct) (auto intro: lim_inv_initial lim_inv_step)

section \<open>The fixed-window rate limiter\<close>

record window =
  windowStart :: int
  used :: int

record rate_options =
  rateLimit :: int
  windowMs :: int

record rate_decision =
  allowed :: bool
  remaining :: int
  retryAfterMs :: int

definition createFixedWindowRateLimiter :: "jnum \<Rightarrow> jnum \<Rightarrow> int \<Rightarrow> thrown + rate_options \<times> window" where
  "createFixedWindowRateLimiter l w now =
     (if \<not> safe_at_least 1 l \<or> \<not> safe_at_least 1 w then Inl (runtime_error Invalid_input)
      else Inr (\<lparr>rateLimit = to_int l, windowMs = to_int w\<rparr>, \<lparr>windowStart = now, used = 0\<rparr>))"

definition rate_check :: "rate_options \<Rightarrow> int \<Rightarrow> window \<Rightarrow> rate_decision \<times> window" where
  "rate_check opt current s0 =
     (let s = (if windowStart s0 + windowMs opt \<le> current
               then s0\<lparr>windowStart := current, used := 0\<rparr> else s0)
      in if rateLimit opt \<le> used s
         then (\<lparr>allowed = False, remaining = 0,
                retryAfterMs = max 0 (windowStart s + windowMs opt - current)\<rparr>, s)
         else (\<lparr>allowed = True, remaining = rateLimit opt - (used s + 1), retryAfterMs = 0\<rparr>,
               s\<lparr>used := used s + 1\<rparr>))"

text \<open>The checks allowed at times in \<open>[a, a + windowMs)\<close>, along a sequence of checks.\<close>

fun allowed_in :: "rate_options \<Rightarrow> int \<Rightarrow> int list \<Rightarrow> window \<Rightarrow> int" where
  "allowed_in opt a [] s = 0"
| "allowed_in opt a (t # ts) s = (case rate_check opt t s of (d, s') \<Rightarrow>
     (if allowed d \<and> a \<le> t \<and> t < a + windowMs opt then 1 else 0) + allowed_in opt a ts s')"

definition window_ok :: "rate_options \<Rightarrow> window \<Rightarrow> bool" where
  "window_ok opt s = (0 \<le> used s \<and> used s \<le> rateLimit opt)"

lemma window_ok_check:
  "1 \<le> rateLimit opt \<Longrightarrow> window_ok opt s \<Longrightarrow> window_ok opt (snd (rate_check opt t s))"
  by (auto simp: rate_check_def window_ok_def Let_def)

lemma windowStart_check: "windowStart s \<le> t \<Longrightarrow> windowStart (snd (rate_check opt t s)) \<le> t"
  by (auto simp: rate_check_def Let_def)

text \<open>From the first check at or after \<open>a\<close> on, by where the current window starts.\<close>

lemma allowed_in_after:
  assumes "1 \<le> rateLimit opt" "1 \<le> windowMs opt" "window_ok opt s" "sorted ts"
    "\<forall>t \<in> set ts. a \<le> t \<and> windowStart s \<le> t"
  shows "allowed_in opt a ts s \<le> (if a + windowMs opt \<le> windowStart s then 0
     else if a \<le> windowStart s then rateLimit opt - used s else 2 * rateLimit opt - used s)"
  using assms
proof (induction ts arbitrary: s)
  case Nil
  then show ?case by (auto simp: window_ok_def)
next
  case (Cons t ts)
  define s' where "s' = snd (rate_check opt t s)"
  have ws: "windowStart s' \<le> t" using windowStart_check [of s t opt] Cons.prems by (simp add: s'_def)
  have "allowed_in opt a ts s' \<le> (if a + windowMs opt \<le> windowStart s' then 0
     else if a \<le> windowStart s' then rateLimit opt - used s' else 2 * rateLimit opt - used s')"
    using Cons.prems ws window_ok_check [of opt s t] by (intro Cons.IH) (auto simp: s'_def)
  with Cons.prems show ?case
    by (auto simp: s'_def rate_check_def window_ok_def Let_def split: if_splits)
qed

lemma allowed_in_bound:
  assumes "1 \<le> rateLimit opt" "1 \<le> windowMs opt" "window_ok opt s" "sorted ts"
    "\<forall>t \<in> set ts. windowStart s \<le> t"
  shows "allowed_in opt a ts s \<le> 2 * rateLimit opt"
  using assms
proof (induction ts arbitrary: s)
  case Nil
  then show ?case by simp
next
  case (Cons t ts)
  show ?case
  proof (cases "a \<le> t")
    case True
    with Cons.prems have "\<forall>u \<in> set (t # ts). a \<le> u \<and> windowStart s \<le> u" by auto
    from allowed_in_after [OF Cons.prems(1-4) this] show ?thesis
      using Cons.prems(1,3) by (auto simp: window_ok_def split: if_splits)
  next
    case False
    define s' where "s' = snd (rate_check opt t s)"
    have "windowStart s' \<le> t" using windowStart_check [of s t opt] Cons.prems by (simp add: s'_def)
    then have "allowed_in opt a ts s' \<le> 2 * rateLimit opt"
      using Cons.prems window_ok_check [of opt s t] by (intro Cons.IH) (auto simp: s'_def)
    with False show ?thesis by (simp add: s'_def split_beta)
  qed
qed

lemma createFixedWindowRateLimiter_Inr:
  assumes "createFixedWindowRateLimiter l w t0 = Inr (opt, s)"
  shows "1 \<le> rateLimit opt" "1 \<le> windowMs opt" "window_ok opt s" "windowStart s = t0"
  using assms by (auto simp: createFixedWindowRateLimiter_def window_ok_def dest!: safe_at_leastD split: if_splits)

text \<open>A refusal says exactly when the next check can pass.\<close>

lemma rate_check_retry_after:
  assumes "1 \<le> rateLimit opt" "rate_check opt t s = (d, s')" "\<not> allowed d"
  shows "allowed (fst (rate_check opt t' s')) \<longleftrightarrow> t + retryAfterMs d \<le> t'"
  using assms by (auto simp: rate_check_def Let_def max_def split: if_splits)

section \<open>Properties\<close>

lemma createConcurrencyLimiter_Inr:
  assumes "createConcurrencyLimiter l q = Inr (opt, s)"
  shows "1 \<le> limit opt" "0 \<le> maxQueue opt" "s = lim_st lim_initial"
  using assms by (auto simp: createConcurrencyLimiter_def lim_initial_def dest!: safe_at_leastD split: if_splits)

text \<open>
  Property C13. Whatever the interleaving of calls, aborts and completions, the number of
  operations running is exactly \<open>active\<close> and never exceeds \<open>limit\<close>, the queue never exceeds
  \<open>maxQueue\<close>, and a call waits only while every slot is taken (no wake-up is lost).
\<close>

theorem limiter_bounds:
  assumes "createConcurrencyLimiter l q = Inr (opt, s0)" and "lim_reachable opt s"
  shows "int (card (holders s)) = active (lim_st s) \<and> int (card (holders s)) \<le> limit opt
    \<and> int (length (queue (lim_st s))) \<le> maxQueue opt
    \<and> (queue (lim_st s) = [] \<or> int (card (holders s)) = limit opt)
    \<and> set (queue (lim_st s)) \<inter> holders s = {}"
  using lim_inv_reachable [OF assms(2)] createConcurrencyLimiter_Inr [OF assms(1)]
  by (auto simp: lim_inv_def)

definition one_slot :: limiter_options where
  "one_slot = \<lparr>limit = 1, maxQueue = 1\<rparr>"

lemma one_slot_create: "createConcurrencyLimiter (Num 1) (Num 1) = Inr (one_slot, lim_st lim_initial)"
  by (simp add: createConcurrencyLimiter_def safe_at_least_def safe_int_def int_val_def max_safe_def
      to_int_def one_slot_def lim_initial_def)

definition one_waiting :: lim_sys where
  "one_waiting = \<lparr>lim_st = \<lparr>active = 1, queue = [2]\<rparr>, holders = {1}, aborted = {}, seen = {1, 2}\<rparr>"

lemma one_waiting_reachable: "lim_reachable one_slot one_waiting"
proof -
  have "lim_step one_slot lim_initial (lim_initial\<lparr>lim_st := \<lparr>active = 1, queue = []\<rparr>,
      holders := insert 1 (holders lim_initial), seen := insert 1 (seen lim_initial)\<rparr>)"
    by (rule lim_step.granted) (simp_all add: acquire_def lim_initial_def one_slot_def)
  from lim_reachable.step [OF lim_reachable.start this]
  have "lim_reachable one_slot (\<lparr>lim_st = \<lparr>active = 1, queue = []\<rparr>, holders = {1}, aborted = {}, seen = {1}\<rparr>)"
    by (simp add: lim_initial_def)
  then show ?thesis
  proof (rule lim_reachable.step)
    let ?s = "\<lparr>lim_st = \<lparr>active = 1, queue = []\<rparr>, holders = {1}, aborted = {}, seen = {1}\<rparr> :: lim_sys"
    have "lim_step one_slot ?s (?s\<lparr>lim_st := \<lparr>active = 1, queue = [2]\<rparr>, seen := insert 2 (seen ?s)\<rparr>)"
      by (rule lim_step.queued) (simp_all add: acquire_def one_slot_def)
    then show "lim_step one_slot ?s one_waiting" by (simp add: one_waiting_def insert_commute)
  qed
qed

theorem limiter_bounds_witness:
  "int (card (holders one_waiting)) \<le> 1 \<and> queue (lim_st one_waiting) = [2]
   \<and> int (card (holders one_waiting)) = limit one_slot"
  using limiter_bounds [OF one_slot_create one_waiting_reachable] by (simp add: one_waiting_def one_slot_def)

text \<open>
  A released slot goes to the longest waiting call whose signal is not aborted, and
  to none only if every waiting call was aborted; the waiters behind it keep their order.
\<close>

theorem release_hands_over_in_order:
  "(case release ab s of
      (Some w, s') \<Rightarrow> (\<exists>xs. queue s = xs @ w # queue s' \<and> set xs \<subseteq> ab \<and> w \<notin> ab) \<and> active s' = active s
    | (None, s') \<Rightarrow> set (queue s) \<subseteq> ab \<and> queue s' = [] \<and> active s' = active s - 1)"
proof -
  obtain r s' where r: "release ab s = (r, s')" by (cases "release ab s")
  show ?thesis
  proof (cases r)
    case None
    with r have "set (queue s) \<subseteq> ab" "s' = s\<lparr>active := active s - 1, queue := []\<rparr>"
      by (auto simp: release_def wake_next_None)
    with r None show ?thesis by simp
  next
    case (Some w)
    with r obtain xs ys where "queue s = xs @ w # ys" "set xs \<subseteq> ab" "w \<notin> ab" "s' = s\<lparr>queue := ys\<rparr>"
      by (auto simp: release_def wake_next_Some)
    with r Some show ?thesis by auto
  qed
qed

text \<open>
  Over a sequence of checks with a monotone clock, any interval of length
  \<open>windowMs\<close> (aligned with the windows or not) sees at most twice \<open>limit\<close> allowed checks.
\<close>

theorem rate_limit_any_interval:
  assumes "createFixedWindowRateLimiter l w t0 = Inr (opt, s)" and "sorted (t0 # ts)"
  shows "allowed_in opt a ts s \<le> 2 * rateLimit opt"
  using createFixedWindowRateLimiter_Inr [OF assms(1)] assms(2) by (intro allowed_in_bound) auto

lemma rate_witness_create:
  "createFixedWindowRateLimiter (Num 2) (Num 10) 0
     = Inr (\<lparr>rateLimit = 2, windowMs = 10\<rparr>, \<lparr>windowStart = 0, used = 0\<rparr>)"
  by (simp add: createFixedWindowRateLimiter_def safe_at_least_def safe_int_def int_val_def max_safe_def to_int_def)

theorem rate_limit_any_interval_witness:
  "allowed_in \<lparr>rateLimit = 2, windowMs = 10\<rparr> 5 [7, 8, 9, 10, 11, 12] \<lparr>windowStart = 0, used = 0\<rparr> \<le> 4
   \<and> allowed_in \<lparr>rateLimit = 2, windowMs = 10\<rparr> 5 [7, 8, 9, 10, 11, 12] \<lparr>windowStart = 0, used = 0\<rparr> = 4"
  using rate_limit_any_interval [OF rate_witness_create, of "[7, 8, 9, 10, 11, 12]" 5]
  by (simp add: rate_check_def Let_def)

text \<open>
  A refused check reports the exact waiting time: a following check passes if and
  only if it comes at least \<open>retryAfterMs\<close> later.
\<close>

theorem retry_after_is_exact:
  assumes "createFixedWindowRateLimiter l w t0 = Inr (opt, s0)"
    and "rate_check opt t s = (d, s')" and "\<not> allowed d"
  shows "allowed (fst (rate_check opt t' s')) \<longleftrightarrow> t + retryAfterMs d \<le> t'"
  using rate_check_retry_after [OF _ assms(2,3)] createFixedWindowRateLimiter_Inr [OF assms(1)] by simp

theorem retry_after_is_exact_witness:
  "allowed (fst (rate_check \<lparr>rateLimit = 2, windowMs = 10\<rparr> 10 \<lparr>windowStart = 0, used = 2\<rparr>))
   \<and> \<not> allowed (fst (rate_check \<lparr>rateLimit = 2, windowMs = 10\<rparr> 9 \<lparr>windowStart = 0, used = 2\<rparr>))"
proof -
  have r: "rate_check \<lparr>rateLimit = 2, windowMs = 10\<rparr> 7 \<lparr>windowStart = 0, used = 2\<rparr>
      = (\<lparr>allowed = False, remaining = 0, retryAfterMs = 3\<rparr>, \<lparr>windowStart = 0, used = 2\<rparr>)"
    by (simp add: rate_check_def Let_def)
  show ?thesis
    using retry_after_is_exact [OF rate_witness_create r, of 10]
      retry_after_is_exact [OF rate_witness_create r, of 9] by simp
qed

end
