(* ===== verification/Retry.thy ===== *)
theory Retry
  imports Integration_Errors
begin

text \<open>
  \<open>packages/platform-modules/integration-runtime/src/retry.ts\<close>: validation of a retry policy, the
  jittered backoff and the decision to retry. Numbers of the policy are \<^typ>\<open>jnum\<close> as the code
  receives them; the backoff is computed with binary64 rounding (\<^const>\<open>fl\<close>) at every operation.
\<close>

record retry_policy =
  backoffMs :: "jnum list"
  jitterRatio :: jnum
  maxAttempts :: jnum
  retryableCategories :: "category list"

definition max_delay :: int where
  "max_delay = 3600000"

definition validateRetryPolicy :: "retry_policy \<Rightarrow> thrown + unit" where
  "validateRetryPolicy p =
     (if \<not> (safe_at_least 1 (maxAttempts p) \<and> to_int (maxAttempts p) \<le> 10)
      then Inl (runtime_error Invalid_input)
      else if int (length (backoffMs p)) \<noteq> max 0 (to_int (maxAttempts p) - 1)
      then Inl (runtime_error Invalid_input)
      else if list_ex (\<lambda>v. \<not> (safe_at_least 0 v \<and> to_int v \<le> max_delay)) (backoffMs p)
      then Inl (runtime_error Invalid_input)
      else if \<not> (case jitterRatio p of Num j \<Rightarrow> 0 \<le> j \<and> j \<le> 1 | _ \<Rightarrow> False)
      then Inl (runtime_error Invalid_input)
      else if \<not> distinct (retryableCategories p)
        \<or> list_ex (\<lambda>c. c \<notin> {Connection, Rate_limited, Timeout, Upstream_unavailable}) (retryableCategories p)
      then Inl (runtime_error Invalid_input)
      else Inr ())"

definition jitter :: "retry_policy \<Rightarrow> rat" where
  "jitter p = (case jitterRatio p of Num j \<Rightarrow> j | _ \<Rightarrow> 0)"

text \<open>\<open>1 - j + (2 * j * boundedRandom)\<close>, each operation rounded.\<close>

definition jitter_factor :: "rat \<Rightarrow> rat \<Rightarrow> rat" where
  "jitter_factor j r = fl (fl (1 - j) + fl (fl (2 * j) * r))"

definition calculateBackoffMs :: "retry_policy \<Rightarrow> jnum \<Rightarrow> rat \<Rightarrow> thrown + int" where
  "calculateBackoffMs p attempt random = bindR (validateRetryPolicy p) (\<lambda>_.
     if \<not> (safe_at_least 1 attempt \<and> to_int attempt < to_int (maxAttempts p))
     then Inl (runtime_error Invalid_input)
     else let i = nat (to_int attempt - 1);
              base = (if i < length (backoffMs p) then to_int (backoffMs p ! i) else 0);
              boundedRandom = min 1 (max 0 random);
              factor = jitter_factor (jitter p) boundedRandom
          in Inr (min max_delay (math_round (fl (of_int base * factor)))))"

definition shouldRetry :: "retry_policy \<Rightarrow> int \<Rightarrow> thrown \<Rightarrow> thrown + bool" where
  "shouldRetry p attempt e = bindR (validateRetryPolicy p) (\<lambda>_.
     Inr (attempt < to_int (maxAttempts p) \<and> is_retryable e
          \<and> (case category_of e of None \<Rightarrow> False | Some c \<Rightarrow> c \<in> set (retryableCategories p))))"

section \<open>Facts\<close>

lemma validateRetryPolicy_Inr:
  assumes "validateRetryPolicy p = Inr u"
  shows "safe_at_least 1 (maxAttempts p)" "1 \<le> to_int (maxAttempts p)" "to_int (maxAttempts p) \<le> 10"
    and "int (length (backoffMs p)) = to_int (maxAttempts p) - 1"
    and "\<forall>v \<in> set (backoffMs p). 0 \<le> to_int v \<and> to_int v \<le> max_delay"
    and "0 \<le> jitter p" "jitter p \<le> 1"
    and "set (retryableCategories p) \<subseteq> {Connection, Rate_limited, Timeout, Upstream_unavailable}"
  using assms
  by (auto simp: validateRetryPolicy_def jitter_def list_ex_iff dest: safe_at_leastD
      split: if_splits jnum.splits)

lemma validateRetryPolicy_error: "validateRetryPolicy p = Inl e \<Longrightarrow> e = runtime_error Invalid_input"
  by (auto simp: validateRetryPolicy_def split: if_splits)

lemma jitter_factor_nonneg:
  assumes "0 \<le> j" "j \<le> 1" "0 \<le> r"
  shows "0 \<le> jitter_factor j r"
  using assms unfolding jitter_factor_def
  by (intro fl_nonneg add_nonneg_nonneg mult_nonneg_nonneg) auto

lemma jitter_factor_zero [simp]: "jitter_factor 0 r = 1"
  using fl_of_int [of 1] by (simp add: jitter_factor_def)

text \<open>
  For a valid policy and a retry index, the backoff is always computed and lies
  between 0 and one hour, whatever the random source returns; without jitter it is exactly the
  configured delay.
\<close>

theorem backoff_in_range:
  assumes "validateRetryPolicy p = Inr u" and "safe_at_least 1 attempt"
    and "to_int attempt < to_int (maxAttempts p)"
  shows "\<exists>ms. calculateBackoffMs p attempt random = Inr ms \<and> 0 \<le> ms \<and> ms \<le> max_delay
    \<and> (jitter p = 0 \<longrightarrow> ms = to_int (backoffMs p ! nat (to_int attempt - 1)))"
proof -
  note v = validateRetryPolicy_Inr [OF assms(1)]
  define i where "i = nat (to_int attempt - 1)"
  have i: "i < length (backoffMs p)"
    using safe_at_leastD [OF assms(2)] assms(3) v(4) by (simp add: i_def nat_less_iff)
  define base where "base = to_int (backoffMs p ! i)"
  have b: "0 \<le> base" "base \<le> max_delay" using v(5) i by (auto simp: base_def)
  define x where "x = fl (of_int base * jitter_factor (jitter p) (min 1 (max 0 random)))"
  have "0 \<le> x" unfolding x_def using b(1) v(6,7)
    by (intro fl_nonneg mult_nonneg_nonneg jitter_factor_nonneg) auto
  then have pos: "0 \<le> math_round x" by (rule math_round_nonneg)
  have "calculateBackoffMs p attempt random = Inr (min max_delay (math_round x))"
    using assms i by (simp add: calculateBackoffMs_def x_def base_def i_def Let_def)
  moreover have "math_round x = base" if "jitter p = 0"
    using that b fl_of_int [of base] by (simp add: x_def max_delay_def)
  ultimately show ?thesis
    using pos b by (auto simp: max_delay_def base_def i_def)
qed

definition witness_policy :: retry_policy where
  "witness_policy = \<lparr>backoffMs = [Num 100, Num 200], jitterRatio = Num (1/4), maxAttempts = Num 3,
     retryableCategories = [Timeout, Connection]\<rparr>"

lemma witness_policy_valid: "validateRetryPolicy witness_policy = Inr ()"
  by (simp add: validateRetryPolicy_def witness_policy_def safe_at_least_def safe_int_def int_val_def
      max_safe_def to_int_def max_delay_def)

theorem backoff_in_range_witness:
  "\<exists>ms. calculateBackoffMs witness_policy (Num 2) (1/2) = Inr ms \<and> 0 \<le> ms \<and> ms \<le> max_delay"
  using backoff_in_range [OF witness_policy_valid, of "Num 2" "1/2"]
  by (auto simp: witness_policy_def safe_at_least_def safe_int_def int_val_def max_safe_def to_int_def)

text \<open>
  A retry happens only before the last attempt, only for a retryable runtime error,
  and only in a configured category; the only categories a valid policy can configure are the
  four transient ones.
\<close>

theorem retry_only_transient:
  assumes "shouldRetry p attempt e = Inr True"
  shows "attempt < to_int (maxAttempts p) \<and> is_retryable e
    \<and> (\<exists>c. category_of e = Some c \<and> c \<in> set (retryableCategories p)
          \<and> c \<in> {Connection, Rate_limited, Timeout, Upstream_unavailable})"
  using assms validateRetryPolicy_Inr(8) [of p]
  by (auto simp: shouldRetry_def result_simps split: option.splits)

theorem retry_only_transient_witness:
  "shouldRetry witness_policy 1 (retryable_error Timeout) = Inr True \<and> is_retryable (retryable_error Timeout)"
proof -
  have r: "shouldRetry witness_policy 1 (retryable_error Timeout) = Inr True"
    using witness_policy_valid
    by (simp add: shouldRetry_def witness_policy_def to_int_def safe_int_def int_val_def max_safe_def)
  with retry_only_transient [OF r] show ?thesis by simp
qed

end
