(* ===== verification/Deadline.thy ===== *)
theory Deadline
  imports Integration_Errors
begin

text \<open>
  \<open>packages/platform-modules/integration-runtime/src/deadline.ts\<close>.

  \<open>runWithDeadline\<close> races the operation against a timer and the parent's abort signal. The event
  loop decides the order: a run is the event that settles the race, followed by the events that
  happen before the awaiting code resumes (\<open>late\<close>); the flags \<open>timeoutState.expired\<close> and
  \<open>parentSignal.aborted\<close> are read at that moment. \<open>createDeadlineBudget\<close> keeps the total
  deadline, its expiry flag and the limits of the phases.
\<close>

definition MAX_DEADLINE_MS :: int where
  "MAX_DEADLINE_MS = 3600000"

definition positiveInteger :: "jnum \<Rightarrow> thrown + unit" where
  "positiveInteger v =
     check (safe_at_least 1 v \<and> to_int v \<le> MAX_DEADLINE_MS) (runtime_error Invalid_input)"

section \<open>One bounded operation\<close>

datatype 'a race_event = Op_settles "thrown + 'a" | Timer_fires | Parent_aborts

fun expired_by :: "'a race_event list \<Rightarrow> bool" where
  "expired_by [] = False"
| "expired_by (Timer_fires # es) = True"
| "expired_by (e # es) = expired_by es"

fun aborted_by :: "'a race_event list \<Rightarrow> bool" where
  "aborted_by [] = False"
| "aborted_by (Parent_aborts # es) = True"
| "aborted_by (e # es) = aborted_by es"

text \<open>The value the race settles with.\<close>

fun race_value :: "'a race_event \<Rightarrow> thrown + 'a" where
  "race_value (Op_settles r) = r"
| "race_value Timer_fires = Inl (retryable_error Timeout)"
| "race_value Parent_aborts = Inl (runtime_error Cancelled)"

text \<open>After the \<open>await\<close>: the success path re-tests both flags, the \<open>catch\<close> block classifies.\<close>

definition classify :: "bool \<Rightarrow> bool \<Rightarrow> thrown \<Rightarrow> thrown" where
  "classify expired parent_aborted e =
     (if expired then retryable_error Timeout
      else if parent_aborted then runtime_error Cancelled else e)"

definition after_race :: "'a race_event \<Rightarrow> 'a race_event list \<Rightarrow> thrown + 'a" where
  "after_race e late = (let expired = expired_by (e # late); parent_aborted = aborted_by (e # late) in
     case race_value e of
       Inr v \<Rightarrow> if expired then Inl (classify expired parent_aborted (retryable_error Timeout))
                else if parent_aborted then Inl (classify expired parent_aborted (runtime_error Cancelled))
                else Inr v
     | Inl x \<Rightarrow> Inl (classify expired parent_aborted x))"

definition runWithDeadline ::
    "jnum \<Rightarrow> bool \<Rightarrow> 'a race_event \<Rightarrow> 'a race_event list \<Rightarrow> thrown + 'a" where
  "runWithDeadline timeoutMs parent_aborted_before e late =
     bindR (positiveInteger timeoutMs) (\<lambda>_.
       if parent_aborted_before then Inl (runtime_error Cancelled) else after_race e late)"

lemma expired_by_iff: "expired_by es \<longleftrightarrow> Timer_fires \<in> set es"
  by (induction es rule: expired_by.induct) auto

lemma aborted_by_iff: "aborted_by es \<longleftrightarrow> Parent_aborts \<in> set es"
  by (induction es rule: aborted_by.induct) auto

section \<open>The budget\<close>

record deadline_limits =
  connectMs :: jnum
  responseMs :: jnum
  totalMs :: jnum

datatype phase = Connect | Response

record budget =
  limits :: deadline_limits
  deadlineAt :: int

definition createDeadlineBudget :: "deadline_limits \<Rightarrow> int \<Rightarrow> thrown + budget" where
  "createDeadlineBudget l now =
     bindR (positiveInteger (connectMs l)) (\<lambda>_.
     bindR (positiveInteger (responseMs l)) (\<lambda>_.
     bindR (positiveInteger (totalMs l)) (\<lambda>_.
       Inr \<lparr>limits = l, deadlineAt = now + to_int (totalMs l)\<rparr>)))"

definition remainingMs :: "budget \<Rightarrow> int \<Rightarrow> int" where
  "remainingMs b now = max 0 (deadlineAt b - now)"

definition phase_limit :: "budget \<Rightarrow> phase \<Rightarrow> int" where
  "phase_limit b ph = to_int (case ph of Connect \<Rightarrow> connectMs (limits b) | Response \<Rightarrow> responseMs (limits b))"

text \<open>
  \<open>runPhase\<close> at time \<open>now\<close>: \<open>total_aborted\<close> is the state of the budget's signal at entry,
  \<open>caller_aborted\<close> that of the caller's signal at entry; the primed flags are the total
  expiry and the caller's signal when the phase ends. The parent of the phase is the budget's
  own signal.
\<close>

definition phase_timeout :: "budget \<Rightarrow> phase \<Rightarrow> int \<Rightarrow> int" where
  "phase_timeout b ph now = min (phase_limit b ph) (remainingMs b now)"

definition runPhase ::
    "budget \<Rightarrow> phase \<Rightarrow> int \<Rightarrow> bool \<Rightarrow> bool \<Rightarrow> 'a race_event \<Rightarrow> 'a race_event list \<Rightarrow> bool \<Rightarrow> bool
     \<Rightarrow> thrown + 'a" where
  "runPhase b ph now total_aborted caller_aborted e late total_expired' caller_aborted' =
     (if remainingMs b now = 0 \<or> total_aborted
      then Inl (if caller_aborted then runtime_error Cancelled else retryable_error Timeout)
      else case runWithDeadline (Num (of_int (phase_timeout b ph now))) total_aborted e late of
             Inr v \<Rightarrow> Inr v
           | Inl x \<Rightarrow> Inl (if total_expired' \<and> \<not> caller_aborted' then retryable_error Timeout else x))"

lemma positiveInteger_Inr: "positiveInteger v = Inr u \<longleftrightarrow> safe_at_least 1 v \<and> to_int v \<le> MAX_DEADLINE_MS"
  by (simp add: positiveInteger_def result_simps)

lemma createDeadlineBudget_Inr:
  assumes "createDeadlineBudget l now = Inr b"
  shows "limits b = l" "deadlineAt b = now + to_int (totalMs l)"
    "\<forall>ph. 1 \<le> phase_limit b ph \<and> phase_limit b ph \<le> MAX_DEADLINE_MS"
    "1 \<le> to_int (totalMs l)" "to_int (totalMs l) \<le> MAX_DEADLINE_MS"
  using assms
  by (auto simp: createDeadlineBudget_def result_simps positiveInteger_Inr phase_limit_def
      dest: safe_at_leastD split: phase.splits)

text \<open>
  A bounded operation returns a value only if it settled first and neither the
  timer nor the parent's abort fired before the caller resumed; once the timer has fired the
  outcome is always the retryable timeout, and an abort without expiry is always a
  (non-retryable) cancellation, whatever the operation did.
\<close>

theorem deadline_outcome:
  assumes "positiveInteger timeoutMs = Inr u"
  shows "(runWithDeadline timeoutMs False e late = Inr v \<longleftrightarrow>
      e = Op_settles (Inr v) \<and> Timer_fires \<notin> set late \<and> Parent_aborts \<notin> set late)
    \<and> (Timer_fires \<in> set (e # late) \<longrightarrow>
        runWithDeadline timeoutMs False e late = Inl (retryable_error Timeout))
    \<and> (Timer_fires \<notin> set (e # late) \<and> Parent_aborts \<in> set (e # late) \<longrightarrow>
        runWithDeadline timeoutMs False e late = Inl (runtime_error Cancelled))"
proof -
  have r: "runWithDeadline timeoutMs False e late = after_race e late"
    using assms by (simp add: runWithDeadline_def)
  show ?thesis unfolding r
    by (cases e; auto simp: after_race_def Let_def classify_def expired_by_iff aborted_by_iff split: sum.splits)
qed

theorem deadline_outcome_witness:
  "runWithDeadline (Num 5) False (Op_settles (Inr (7 :: int))) [] = Inr 7
   \<and> runWithDeadline (Num 5) False (Op_settles (Inr (7 :: int))) [Timer_fires] = Inl (retryable_error Timeout)"
proof -
  have p: "positiveInteger (Num 5) = Inr ()"
    by (simp add: positiveInteger_def safe_at_least_def safe_int_def int_val_def max_safe_def to_int_def MAX_DEADLINE_MS_def)
  show ?thesis
    using deadline_outcome [OF p, of "Op_settles (Inr (7 :: int))" "[]" 7]
      deadline_outcome [OF p, of "Op_settles (Inr (7 :: int))" "[Timer_fires]" 7] by simp
qed

text \<open>
  A phase of a deadline budget never gets more time than the total budget has left:
  started at \<open>now\<close> with budget left it is bounded by a timer between 1 ms and its own limit that
  ends by \<open>deadlineAt\<close>; started without budget left it fails without running.
\<close>

theorem phase_within_budget:
  assumes "createDeadlineBudget l t0 = Inr b" and "t0 \<le> now"
  shows "(now < deadlineAt b \<longrightarrow> 1 \<le> phase_timeout b ph now \<and> phase_timeout b ph now \<le> phase_limit b ph
        \<and> now + phase_timeout b ph now \<le> deadlineAt b
        \<and> positiveInteger (Num (of_int (phase_timeout b ph now))) = Inr ())
    \<and> (deadlineAt b \<le> now \<longrightarrow>
        runPhase b ph now ta False e late te ca = Inl (retryable_error Timeout))"
proof -
  note c = createDeadlineBudget_Inr [OF assms(1)]
  have "safe_at_least 1 (Num (of_int i)) \<and> to_int (Num (of_int i)) = i"
    if "1 \<le> i" "i \<le> MAX_DEADLINE_MS" for i
    using that by (simp add: safe_at_least_def to_int_def safe_int_def max_safe_def MAX_DEADLINE_MS_def)
  moreover have "phase_timeout b ph now \<le> phase_limit b ph"
    by (simp add: phase_timeout_def)
  moreover from this have "phase_timeout b ph now \<le> MAX_DEADLINE_MS"
    using c(3)[THEN spec, of ph] by linarith
  moreover have "1 \<le> phase_timeout b ph now" "now + phase_timeout b ph now \<le> deadlineAt b"
    if "now < deadlineAt b"
    using that c(3) by (auto simp: phase_timeout_def remainingMs_def)
  ultimately show ?thesis
    by (auto simp: positiveInteger_Inr runPhase_def remainingMs_def)
qed

definition witness_limits :: deadline_limits where
  "witness_limits = \<lparr>connectMs = Num 100, responseMs = Num 500, totalMs = Num 300\<rparr>"

lemma witness_budget:
  "createDeadlineBudget witness_limits 1000 = Inr \<lparr>limits = witness_limits, deadlineAt = 1300\<rparr>"
  by (simp add: createDeadlineBudget_def witness_limits_def positiveInteger_def safe_at_least_def
      safe_int_def int_val_def max_safe_def to_int_def MAX_DEADLINE_MS_def)

theorem phase_within_budget_witness:
  "phase_timeout \<lparr>limits = witness_limits, deadlineAt = 1300\<rparr> Response 1200 = 100
   \<and> 1200 + phase_timeout \<lparr>limits = witness_limits, deadlineAt = 1300\<rparr> Response 1200 \<le> 1300"
  using phase_within_budget [OF witness_budget, of 1200 Response]
  by (simp add: phase_timeout_def remainingMs_def phase_limit_def witness_limits_def to_int_def
      safe_int_def int_val_def max_safe_def)

end
