(* ===== verification/Js_Text.thy ===== *)
theory Js_Text
  imports Prelude
begin

text \<open>
  JavaScript strings and the regular expressions of the validators. A string is a list of code
  units (\<^typ>\<open>char\<close>: the validated grammars are ASCII); \<open><\<close> on strings is code-unit
  order, which is \<^const>\<open>less\<close> on \<^typ>\<open>string\<close> with HOL-Library.List_Lexorder.

  A validator's pattern \<open>/^...$/u\<close> is a value of \<open>rx\<close> and \<open>RegExp.prototype.test\<close> is
  \<open>rx_test\<close>, a matcher by derivatives. \<open>rx_lang\<close> is its meaning as a set of strings;
  \<open>rx_test_lang\<close> proves that the matcher decides it.
\<close>

section \<open>Anchored regular expressions\<close>

text \<open>
  \<open>Cls rs\<close> is a character class given by ranges, \<open>Rep n m r\<close> the bounded repetition
  \<open>r{n,m}\<close>, with \<open>m = None\<close> for \<open>r{n,}\<close> (so \<open>*\<close> is \<open>Rep 0 None\<close> and \<open>+\<close> is
  \<open>Rep 1 None\<close>).
\<close>

datatype rx =
    Nothing
  | Eps
  | Cls "(char \<times> char) list"
  | Seq rx rx
  | Alt rx rx
  | Rep nat "nat option" rx

definition in_cls :: "(char \<times> char) list \<Rightarrow> char \<Rightarrow> bool" where
  "in_cls rs c = list_ex (\<lambda>(lo, hi). of_char lo \<le> (of_char c :: nat) \<and> (of_char c :: nat) \<le> of_char hi) rs"

primrec nullable :: "rx \<Rightarrow> bool" where
  "nullable Nothing = False"
| "nullable Eps = True"
| "nullable (Cls rs) = False"
| "nullable (Seq r s) = (nullable r \<and> nullable s)"
| "nullable (Alt r s) = (nullable r \<or> nullable s)"
| "nullable (Rep n m r) = (opt_all (\<lambda>k. n \<le> k) m \<and> (n = 0 \<or> nullable r))"

text \<open>Smart constructors keep the derivatives of a fixed pattern small.\<close>

definition seq :: "rx \<Rightarrow> rx \<Rightarrow> rx" where
  "seq r s = (if r = Nothing \<or> s = Nothing then Nothing else if r = Eps then s else Seq r s)"

definition alt :: "rx \<Rightarrow> rx \<Rightarrow> rx" where
  "alt r s = (if r = Nothing then s else if s = Nothing then r else if r = s then r else Alt r s)"

primrec deriv :: "char \<Rightarrow> rx \<Rightarrow> rx" where
  "deriv c Nothing = Nothing"
| "deriv c Eps = Nothing"
| "deriv c (Cls rs) = (if in_cls rs c then Eps else Nothing)"
| "deriv c (Seq r s) =
     (if nullable r then alt (seq (deriv c r) s) (deriv c s) else seq (deriv c r) s)"
| "deriv c (Alt r s) = alt (deriv c r) (deriv c s)"
| "deriv c (Rep n m r) =
     (if m = Some 0 \<or> \<not> opt_all (\<lambda>k. n \<le> k) m then Nothing
      else seq (deriv c r)
             (Rep (if nullable r then 0 else n - 1) (map_option (\<lambda>k. k - 1) m) r))"

fun rx_test :: "rx \<Rightarrow> string \<Rightarrow> bool" where
  "rx_test r [] = nullable r"
| "rx_test r (c # cs) = rx_test (deriv c r) cs"

section \<open>The language of an expression\<close>

definition conc :: "string set \<Rightarrow> string set \<Rightarrow> string set" where
  "conc A B = {x @ y |x y. x \<in> A \<and> y \<in> B}"

fun pow :: "nat \<Rightarrow> string set \<Rightarrow> string set" where
  "pow 0 A = {[]}"
| "pow (Suc k) A = conc A (pow k A)"

primrec rx_lang :: "rx \<Rightarrow> string set" where
  "rx_lang Nothing = {}"
| "rx_lang Eps = {[]}"
| "rx_lang (Cls rs) = {[c] |c. in_cls rs c}"
| "rx_lang (Seq r s) = conc (rx_lang r) (rx_lang s)"
| "rx_lang (Alt r s) = rx_lang r \<union> rx_lang s"
| "rx_lang (Rep n m r) = (\<Union>k \<in> {k. n \<le> k \<and> opt_all (\<lambda>j. k \<le> j) m}. pow k (rx_lang r))"

lemma Nil_in_conc [simp]: "[] \<in> conc A B \<longleftrightarrow> [] \<in> A \<and> [] \<in> B"
  by (auto simp: conc_def)

lemma Nil_in_pow: "[] \<in> pow k A \<longleftrightarrow> k = 0 \<or> [] \<in> A"
  by (induction k) auto

lemma nullable_lang: "nullable r \<longleftrightarrow> [] \<in> rx_lang r"
proof (induction r)
  case (Rep n m r)
  then show ?case by (cases m) (auto simp: Nil_in_pow)
qed auto

lemma conc_empty [simp]: "conc {} A = {}" "conc A {} = {}"
  by (auto simp: conc_def)

lemma conc_Eps [simp]: "conc {[]} A = A" "conc A {[]} = A"
  by (auto simp: conc_def)

lemma seq_lang [simp]: "rx_lang (seq r s) = conc (rx_lang r) (rx_lang s)"
  by (simp add: seq_def)

lemma alt_lang [simp]: "rx_lang (alt r s) = rx_lang r \<union> rx_lang s"
  by (auto simp: alt_def)

definition lquot :: "char \<Rightarrow> string set \<Rightarrow> string set" where
  "lquot c A = {w. c # w \<in> A}"

lemma lquot_conc:
  "lquot c (conc A B) = conc (lquot c A) B \<union> (if [] \<in> A then lquot c B else {})"
  unfolding lquot_def conc_def by (auto simp: Cons_eq_append_conv)

lemma pow_mono_Nil: "[] \<in> A \<Longrightarrow> j \<le> k \<Longrightarrow> pow j A \<subseteq> pow k A"
proof (induction k arbitrary: j)
  case 0
  then show ?case by simp
next
  case (Suc k)
  show ?case
  proof (cases "j = Suc k")
    case False
    with Suc have "pow j A \<subseteq> pow k A" by simp
    moreover have "pow k A \<subseteq> conc A (pow k A)"
      using Suc.prems(1) unfolding conc_def by force
    ultimately show ?thesis by simp
  qed simp
qed

lemma lquot_pow_Nil:
  assumes "[] \<in> A"
  shows "lquot c (pow k A) = (if k = 0 then {} else conc (lquot c A) (pow (k - 1) A))"
proof (induction k)
  case 0
  show ?case by (simp add: lquot_def)
next
  case (Suc k)
  have "lquot c (pow k A) \<subseteq> conc (lquot c A) (pow k A)"
  proof (cases "k = 0")
    case False
    have "pow (k - 1) A \<subseteq> pow k A" by (rule pow_mono_Nil [OF assms]) simp
    then show ?thesis using Suc.IH False unfolding conc_def by fastforce
  qed (use Suc.IH in simp)
  then show ?case using assms by (auto simp: lquot_conc)
qed

lemma lquot_pow_no_Nil:
  assumes "[] \<notin> A"
  shows "lquot c (pow k A) = (if k = 0 then {} else conc (lquot c A) (pow (k - 1) A))"
  using assms by (cases k) (simp_all add: lquot_conc, simp add: lquot_def)

lemma lquot_pow:
  "lquot c (pow k A) = (if k = 0 then {} else conc (lquot c A) (pow (k - 1) A))"
  by (cases "[] \<in> A") (simp_all add: lquot_pow_Nil lquot_pow_no_Nil)

lemma conc_UN: "conc A (\<Union>k \<in> K. B k) = (\<Union>k \<in> K. conc A (B k))"
  by (auto simp: conc_def)

lemma conc_mono: "B \<subseteq> C \<Longrightarrow> conc A B \<subseteq> conc A C"
  by (auto simp: conc_def)

lemma lquot_UN: "lquot c (\<Union>k \<in> K. B k) = (\<Union>k \<in> K. lquot c (B k))"
  by (auto simp: lquot_def)

lemma lquot_Rep:
  assumes "m \<noteq> Some 0" "opt_all (\<lambda>k. n \<le> k) m"
  shows "lquot c (rx_lang (Rep n m r)) = conc (lquot c (rx_lang r))
    (rx_lang (Rep (if nullable r then 0 else n - 1) (map_option (\<lambda>k. k - 1) m) r))"
    (is "_ = conc ?D (rx_lang (Rep ?n' ?m' r))")
proof
  show "lquot c (rx_lang (Rep n m r)) \<subseteq> conc ?D (rx_lang (Rep ?n' ?m' r))"
  proof
    fix w assume "w \<in> lquot c (rx_lang (Rep n m r))"
    then obtain k where k: "n \<le> k" "opt_all (\<lambda>j. k \<le> j) m" "w \<in> lquot c (pow k (rx_lang r))"
      by (auto simp: lquot_UN)
    then have "k \<noteq> 0" "w \<in> conc ?D (pow (k - 1) (rx_lang r))"
      by (auto simp: lquot_pow split: if_splits)
    moreover have "?n' \<le> k - 1 \<and> opt_all (\<lambda>j. k - 1 \<le> j) ?m'"
      using k by (cases m) auto
    ultimately show "w \<in> conc ?D (rx_lang (Rep ?n' ?m' r))"
      by (auto simp: conc_UN)
  qed
next
  show "conc ?D (rx_lang (Rep ?n' ?m' r)) \<subseteq> lquot c (rx_lang (Rep n m r))"
  proof
    fix w assume "w \<in> conc ?D (rx_lang (Rep ?n' ?m' r))"
    then obtain j where j: "?n' \<le> j" "opt_all (\<lambda>i. j \<le> i) ?m'" "w \<in> conc ?D (pow j (rx_lang r))"
      by (auto simp: conc_UN)
    define k where "k = (if nullable r then max n (Suc j) else Suc j)"
    have mono: "pow j (rx_lang r) \<subseteq> pow (k - 1) (rx_lang r)"
      using pow_mono_Nil [of "rx_lang r" j "k - 1"] by (auto simp: k_def nullable_lang)
    have "w \<in> lquot c (pow k (rx_lang r))"
      using j(3) conc_mono [OF mono, of "lquot c (rx_lang r)"]
      by (auto simp: lquot_pow k_def)
    moreover have "n \<le> k" "opt_all (\<lambda>i. k \<le> i) m"
      using j assms by (cases m; auto simp: k_def)+
    ultimately show "w \<in> lquot c (rx_lang (Rep n m r))"
      by (auto simp: lquot_UN)
  qed
qed

lemma deriv_lang: "rx_lang (deriv c r) = lquot c (rx_lang r)"
proof (induction r)
  case (Seq r s)
  then show ?case by (simp add: lquot_conc nullable_lang)
next
  case (Rep n m r)
  show ?case
  proof (cases "m = Some 0 \<or> \<not> opt_all (\<lambda>k. n \<le> k) m")
    case True
    then have "rx_lang (Rep n m r) \<subseteq> {[]}"
      by (cases m) auto
    with True show ?thesis by (auto simp: lquot_def)
  next
    case False
    then show ?thesis using lquot_Rep [of m n c r] Rep by (simp del: rx_lang.simps(6))
  qed
qed (auto simp: lquot_def)

theorem rx_test_lang: "rx_test r w \<longleftrightarrow> w \<in> rx_lang r"
  by (induction w arbitrary: r) (simp_all add: nullable_lang deriv_lang lquot_def)

section \<open>Characters of the strings an expression matches\<close>

primrec rx_chars :: "rx \<Rightarrow> (char \<Rightarrow> bool)" where
  "rx_chars Nothing = (\<lambda>_. False)"
| "rx_chars Eps = (\<lambda>_. False)"
| "rx_chars (Cls rs) = in_cls rs"
| "rx_chars (Seq r s) = (\<lambda>c. rx_chars r c \<or> rx_chars s c)"
| "rx_chars (Alt r s) = (\<lambda>c. rx_chars r c \<or> rx_chars s c)"
| "rx_chars (Rep n m r) = rx_chars r"

lemma pow_chars: "\<forall>w \<in> A. \<forall>c \<in> set w. P c \<Longrightarrow> w \<in> pow k A \<Longrightarrow> c \<in> set w \<Longrightarrow> P c"
  by (induction k arbitrary: w) (auto simp: conc_def)

lemma rx_lang_chars: "w \<in> rx_lang r \<Longrightarrow> c \<in> set w \<Longrightarrow> rx_chars r c"
proof (induction r arbitrary: w c)
  case (Rep n m r)
  then have "\<forall>v \<in> rx_lang r. \<forall>d \<in> set v. rx_chars r d" by blast
  moreover obtain k where "w \<in> pow k (rx_lang r)" using Rep.prems(1) by auto
  ultimately show ?case using Rep.prems(2) by (auto intro: pow_chars)
qed (auto simp: conc_def)

lemma rx_test_chars: "rx_test r w \<Longrightarrow> c \<in> set w \<Longrightarrow> rx_chars r c"
  by (simp add: rx_test_lang rx_lang_chars)

text \<open>A repeated character class: bounds on the length, and every character in the class.\<close>

lemma rx_test_Nothing [simp]: "\<not> rx_test Nothing s"
  by (induction s) auto

lemma rx_test_Rep_Cls:
  "rx_test (Rep n m (Cls rs)) s \<longleftrightarrow> n \<le> length s \<and> opt_all (\<lambda>k. n \<le> k \<and> length s \<le> k) m \<and> list_all (in_cls rs) s"
proof (induction s arbitrary: n m)
  case Nil
  show ?case by (cases m) auto
next
  case (Cons c cs)
  show ?case
  proof (cases "in_cls rs c")
    case True
    then show ?thesis using Cons by (cases m; cases n) (auto simp: seq_def)
  next
    case False
    then show ?thesis by (simp add: seq_def)
  qed
qed

section \<open>Building blocks of the validators' patterns\<close>

definition cls_lower :: "(char \<times> char) list" where
  "cls_lower = [(CHR ''a'', CHR ''z'')]"

definition cls_digit :: "(char \<times> char) list" where
  "cls_digit = [(CHR ''0'', CHR ''9'')]"

definition cls_upper :: "(char \<times> char) list" where
  "cls_upper = [(CHR ''A'', CHR ''Z'')]"

definition cls_alnum :: "(char \<times> char) list" where
  "cls_alnum = cls_upper @ cls_lower @ cls_digit"

definition chars_of :: "string \<Rightarrow> (char \<times> char) list" where
  "chars_of cs = map (\<lambda>c. (c, c)) cs"

abbreviation rx_star :: "rx \<Rightarrow> rx" where
  "rx_star r \<equiv> Rep 0 None r"

abbreviation rx_plus :: "rx \<Rightarrow> rx" where
  "rx_plus r \<equiv> Rep 1 None r"

abbreviation rx_times :: "nat \<Rightarrow> rx \<Rightarrow> rx" where
  "rx_times n r \<equiv> Rep n (Some n) r"

abbreviation rx_upto :: "nat \<Rightarrow> nat \<Rightarrow> rx \<Rightarrow> rx" where
  "rx_upto n m r \<equiv> Rep n (Some m) r"

fun lit :: "string \<Rightarrow> rx" where
  "lit [] = Eps"
| "lit [c] = Cls [(c, c)]"
| "lit (c # cs) = Seq (Cls [(c, c)]) (lit cs)"

text \<open>
  \<open>/^[0-9a-f]{8}-[0-9a-f]{4}-[1-8][0-9a-f]{3}-[89ab][0-9a-f]{3}-[0-9a-f]{12}$/iu\<close>, the UUID
  pattern shared by the modules; with the \<open>i\<close> flag letters match in both cases.
\<close>

definition cls_hex :: "(char \<times> char) list" where
  "cls_hex = cls_digit @ [(CHR ''a'', CHR ''f'')]"

definition cls_hex_i :: "(char \<times> char) list" where
  "cls_hex_i = cls_hex @ [(CHR ''A'', CHR ''F'')]"

definition uuid_rx :: "(char \<times> char) list \<Rightarrow> rx" where
  "uuid_rx hex = Seq (rx_times 8 (Cls hex)) (Seq (lit ''-'') (Seq (rx_times 4 (Cls hex)) (Seq (lit ''-'')
     (Seq (Cls [(CHR ''1'', CHR ''8'')]) (Seq (rx_times 3 (Cls hex)) (Seq (lit ''-'')
     (Seq (Cls (filter (\<lambda>(c, _). in_cls hex c) (chars_of ''89abAB''))) (Seq (rx_times 3 (Cls hex))
     (Seq (lit ''-'') (rx_times 12 (Cls hex)))))))))))"

definition UUID_I :: rx where
  "UUID_I = uuid_rx cls_hex_i"

definition UUID :: rx where
  "UUID = uuid_rx cls_hex"

section \<open>Case folding\<close>

text \<open>\<open>String.prototype.toLowerCase\<close> on the ASCII strings the validators let through.\<close>

definition lower_char :: "char \<Rightarrow> char" where
  "lower_char c = (if in_cls cls_upper c then char_of (of_char c + 32 :: nat) else c)"

definition to_lower :: "string \<Rightarrow> string" where
  "to_lower s = map lower_char s"

lemma length_to_lower [simp]: "length (to_lower s) = length s"
  by (simp add: to_lower_def)

text \<open>Patterns whose language is closed under lower-casing.\<close>

primrec lower_closed :: "rx \<Rightarrow> bool" where
  "lower_closed Nothing = True"
| "lower_closed Eps = True"
| "lower_closed (Cls rs) = (\<forall>c. in_cls rs c \<longrightarrow> in_cls rs (lower_char c))"
| "lower_closed (Seq r s) = (lower_closed r \<and> lower_closed s)"
| "lower_closed (Alt r s) = (lower_closed r \<and> lower_closed s)"
| "lower_closed (Rep n m r) = lower_closed r"

lemma to_lower_append [simp]: "to_lower (x @ y) = to_lower x @ to_lower y"
  by (simp add: to_lower_def)

lemma pow_to_lower: "(\<And>w. w \<in> A \<Longrightarrow> to_lower w \<in> A) \<Longrightarrow> w \<in> pow k A \<Longrightarrow> to_lower w \<in> pow k A"
proof (induction k arbitrary: w)
  case (Suc k)
  then show ?case by (fastforce simp: conc_def)
qed (simp add: to_lower_def)

lemma rx_lang_to_lower: "lower_closed r \<Longrightarrow> w \<in> rx_lang r \<Longrightarrow> to_lower w \<in> rx_lang r"
proof (induction r arbitrary: w)
  case (Seq r s)
  then show ?case by (fastforce simp: conc_def)
next
  case (Rep n m r)
  then obtain k where "n \<le> k" "opt_all (\<lambda>j. k \<le> j) m" "w \<in> pow k (rx_lang r)" by auto
  with Rep pow_to_lower [of "rx_lang r" w k] show ?case by auto
qed (auto simp: to_lower_def)

lemma lower_char_idem [simp]: "lower_char (lower_char c) = lower_char c"
  by (simp add: lower_char_def in_cls_def cls_upper_def)

lemma to_lower_idem [simp]: "to_lower (to_lower s) = to_lower s"
  by (simp add: to_lower_def)

lemma UUID_I_lower_closed: "lower_closed UUID_I"
proof -
  have "in_cls cls_hex_i (lower_char c)" if "in_cls cls_hex_i c" for c
    using that by (auto simp: in_cls_def cls_hex_i_def cls_hex_def cls_digit_def lower_char_def cls_upper_def)
  moreover have "filter (\<lambda>(c, _). in_cls cls_hex_i c) (chars_of ''89abAB'') = chars_of ''89abAB''" by code_simp
  moreover have "in_cls (chars_of ''89abAB'') (lower_char c)" if "in_cls (chars_of ''89abAB'') c" for c
    using that by (auto simp: in_cls_def chars_of_def lower_char_def cls_upper_def)
  ultimately show ?thesis
    by (auto simp: UUID_I_def uuid_rx_def in_cls_def [of "[_]"] lower_char_def cls_upper_def)
qed

lemma UUID_I_to_lower: "rx_test UUID_I s \<Longrightarrow> rx_test UUID_I (to_lower s)"
  using rx_lang_to_lower [OF UUID_I_lower_closed] by (simp add: rx_test_lang)
section \<open>Trimming\<close>

text \<open>White space among the code units below 256.\<close>

definition is_space :: "char \<Rightarrow> bool" where
  "is_space c = (of_char c \<in> {9, 10, 11, 12, 13, 32, 160 :: nat})"

definition trim :: "string \<Rightarrow> string" where
  "trim s = rev (dropWhile is_space (rev (dropWhile is_space s)))"

lemma trim_Nil: "trim s = [] \<longleftrightarrow> (\<forall>c \<in> set s. is_space c)"
proof -
  have "trim s = [] \<longleftrightarrow> (\<forall>c \<in> set (dropWhile is_space s). is_space c)"
    by (simp add: trim_def dropWhile_eq_Nil_conv)
  also have "\<dots> \<longleftrightarrow> (\<forall>c \<in> set s. is_space c)"
    by (induction s) auto
  finally show ?thesis .
qed

end
