(* ===== verification/Executor.thy ===== *)
theory Executor
  imports Circuit_Breaker Integration_Limits Retry Deadline Js_Text
begin

text \<open>
  \<open>packages/platform-modules/integration-runtime/src/executor.ts\<close>: one guarded execution of an
  integration operation through the rate limiter, the concurrency limiter, the circuit breaker,
  the deadline budget and the retry loop.

  The limiters and the breaker are shared with other executions. At every \<open>await\<close> of the code the
  environment may change them: the \<open>others_\<dots>\<close> fields of \<open>attempt_env\<close>. The rest of an
  \<open>attempt_env\<close> holds what one attempt observes: the clock readings, the state of the abort signals at the
  moments the code reads them, how the race of \<open>runWithDeadline\<close> went, and the random source.
  The effects on the outside (calls of the operation, telemetry, sleeps) are the trace.
\<close>

section \<open>Data\<close>

record execution_policy =
  deadlines :: deadline_limits
  operationId :: string
  retry :: retry_policy
  safety :: string

text \<open>
  The budget's signal is aborted when the total timer fired (\<open>expired\<close>) or the caller's signal is
  aborted, which forwards to it.
\<close>

record moment =
  expired :: bool
  caller :: bool

definition budget_aborted :: "moment \<Rightarrow> bool" where
  "budget_aborted m = (expired m \<or> caller m)"

record shared =
  rate :: window
  lim :: limiter
  brk :: breaker

record guards =
  rate_opt :: rate_options
  lim_opt :: limiter_options
  brk_opt :: breaker_options

record 'a attempt_env =
  startedAt :: int
  at_top :: moment
  rate_now :: int
  call_id :: nat
  aborted_calls :: "nat set"
  woken :: bool
  others_wait :: "shared \<Rightarrow> shared"
  at_slot :: moment
  enter_now :: int
  remaining_now :: int
  race :: "'a race_event"
  race_late :: "'a race_event list"
  others_run :: "shared \<Rightarrow> shared"
  at_result :: moment
  leave_now :: int
  others_exit :: "shared \<Rightarrow> shared"
  release_aborted :: "nat set"
  at_catch :: moment
  endedAt :: int
  random_value :: rat
  sleep_outcome :: "thrown + unit"
  others_sleep :: "shared \<Rightarrow> shared"
  at_wake :: moment

datatype outcome = Failure | Limited | Success

datatype event_category = No_category | Category category | Unclassified

record exec_event =
  attempt :: int
  category :: event_category
  durationMs :: int
  event_operation :: string
  event_outcome :: outcome
  retrying :: bool

datatype effect = Invoked int | Recorded exec_event | Slept int

section \<open>Validation\<close>

definition operationId_rx :: rx where
  "operationId_rx = Seq (Cls cls_lower) (rx_upto 2 79 (Cls (cls_lower @ cls_digit @ chars_of ''_.-'')))"

definition validate_execution :: "execution_policy \<Rightarrow> thrown + unit" where
  "validate_execution p =
     (if \<not> rx_test operationId_rx (operationId p)
        \<or> safety p \<notin> {''idempotent_write'', ''non_idempotent_write'', ''read''}
      then Inl (runtime_error Invalid_input)
      else bindR (validateRetryPolicy (retry p)) (\<lambda>_.
        if list_ex (\<lambda>v. \<not> safe_at_least 1 v)
             [connectMs (deadlines p), responseMs (deadlines p), totalMs (deadlines p)]
        then Inl (runtime_error Invalid_input)
        else if safety p = ''non_idempotent_write'' \<and> maxAttempts (retry p) \<noteq> Num 1
        then Inl (runtime_error Invalid_input)
        else Inr ()))"

section \<open>One attempt\<close>

definition classifyBudgetExpiry :: "moment \<Rightarrow> thrown \<Rightarrow> thrown" where
  "classifyBudgetExpiry m e = (if budget_aborted m \<and> \<not> caller m then retryable_error Timeout else e)"

text \<open>The function handed to the circuit breaker: the budget check and the bounded operation.\<close>

definition bounded_call :: "budget \<Rightarrow> int \<Rightarrow> 'a attempt_env \<Rightarrow> (thrown + 'a) \<times> effect list" where
  "bounded_call b k env = (let remaining = remainingMs b (remaining_now env) in
     if remaining < 1 then (Inl (classifyBudgetExpiry (at_result env) (retryable_error Timeout)), [])
     else let timeoutMs = Num (of_int remaining);
              called = (if positiveInteger timeoutMs = Inr () then [Invoked k] else [])
          in case runWithDeadline timeoutMs False (race env) (race_late env) of
               Inl e \<Rightarrow> (Inl (classifyBudgetExpiry (at_result env) e), called)
             | Inr v \<Rightarrow> if budget_aborted (at_result env) \<and> \<not> caller (at_result env)
                        then (Inl (classifyBudgetExpiry (at_result env) (retryable_error Timeout)), called)
                        else (Inr v, called))"

definition through_breaker ::
    "guards \<Rightarrow> budget \<Rightarrow> int \<Rightarrow> 'a attempt_env \<Rightarrow> shared \<Rightarrow> (thrown + 'a) \<times> shared \<times> effect list" where
  "through_breaker g b k env st = (case enter (brk_opt g) (enter_now env) (brk st) of
     (Inl e, b') \<Rightarrow> (Inl e, st\<lparr>brk := b'\<rparr>, [])
   | (Inr probe, b') \<Rightarrow> (let st1 = others_run env (st\<lparr>brk := b'\<rparr>) in
       case bounded_call b k env of
         (Inr v, tr) \<Rightarrow> (Inr v, st1\<lparr>brk := leave_ok probe (brk st1)\<rparr>, tr)
       | (Inl e, tr) \<Rightarrow>
           (Inl e, st1\<lparr>brk := leave_err (brk_opt g) (leave_now env) probe e (brk st1)\<rparr>, tr)))"

text \<open>\<open>concurrencyLimiter.run\<close>: a slot, the test of the signal, the call, the release.\<close>

definition holding_slot ::
    "guards \<Rightarrow> budget \<Rightarrow> int \<Rightarrow> 'a attempt_env \<Rightarrow> shared \<Rightarrow> (thrown + 'a) \<times> shared \<times> effect list" where
  "holding_slot g b k env st =
     (case (if budget_aborted (at_slot env) then (Inl (runtime_error Cancelled), st, [])
            else through_breaker g b k env st) of
        (r, st1, tr) \<Rightarrow> (let st2 = others_exit env st1 in
          (r, st2\<lparr>lim := snd (release (release_aborted env) (lim st2))\<rparr>, tr)))"

definition through_limiter ::
    "guards \<Rightarrow> budget \<Rightarrow> int \<Rightarrow> 'a attempt_env \<Rightarrow> shared \<Rightarrow> (thrown + 'a) \<times> shared \<times> effect list" where
  "through_limiter g b k env st =
     (case acquire (lim_opt g) (aborted_calls env) (call_id env) (lim st) of
        (Refused e, l) \<Rightarrow> (Inl e, st\<lparr>lim := l\<rparr>, [])
      | (Granted, l) \<Rightarrow> holding_slot g b k env (others_wait env (st\<lparr>lim := l\<rparr>))
      | (Queued, l) \<Rightarrow> (let st1 = others_wait env (st\<lparr>lim := l\<rparr>) in
          if woken env then holding_slot g b k env st1
          else (Inl (runtime_error Cancelled), st1, [])))"

datatype 'a attempt_result = Finished "thrown + 'a" | Again

definition event :: "execution_policy \<Rightarrow> 'a attempt_env \<Rightarrow> int \<Rightarrow> event_category \<Rightarrow> outcome \<Rightarrow> bool \<Rightarrow> exec_event" where
  "event p env k c out r = \<lparr>attempt = k, category = c, durationMs = max 0 (endedAt env - startedAt env),
     event_operation = operationId p, event_outcome = out, retrying = r\<rparr>"

definition event_category_of :: "thrown \<Rightarrow> event_category" where
  "event_category_of e = (case category_of e of Some c \<Rightarrow> Category c | None \<Rightarrow> Unclassified)"

definition after_failure ::
    "execution_policy \<Rightarrow> int \<Rightarrow> 'a attempt_env \<Rightarrow> thrown \<Rightarrow> shared
     \<Rightarrow> 'a attempt_result \<times> shared \<times> effect list" where
  "after_failure p k env caught st =
     (let e = classifyBudgetExpiry (at_catch env) caught in
      case shouldRetry (retry p) k e of
        Inl x \<Rightarrow> (Finished (Inl x), st, [])
      | Inr should \<Rightarrow>
          (let again = (should \<and> \<not> budget_aborted (at_catch env));
               note = Recorded (event p env k (event_category_of e) Failure again)
           in if \<not> again then (Finished (Inl e), st, [note])
              else case calculateBackoffMs (retry p) (Num (of_int k)) (random_value env) of
                     Inl x \<Rightarrow> (Finished (Inl (classifyBudgetExpiry (at_wake env) x)), st, [note])
                   | Inr ms \<Rightarrow> (case sleep_outcome env of
                       Inl x \<Rightarrow> (Finished (Inl (classifyBudgetExpiry (at_wake env) x)),
                                 others_sleep env st, [note, Slept ms])
                     | Inr _ \<Rightarrow> (Again, others_sleep env st, [note, Slept ms]))))"

definition run_attempt ::
    "execution_policy \<Rightarrow> guards \<Rightarrow> budget \<Rightarrow> int \<Rightarrow> 'a attempt_env \<Rightarrow> shared
     \<Rightarrow> 'a attempt_result \<times> shared \<times> effect list" where
  "run_attempt p g b k env st =
     (if budget_aborted (at_top env)
      then (Finished (Inl (classifyBudgetExpiry (at_top env) (runtime_error Cancelled))), st, [])
      else case rate_check (rate_opt g) (rate_now env) (rate st) of (d, w) \<Rightarrow>
        if \<not> allowed d
        then (Finished (Inl (retryable_error Rate_limited)), st\<lparr>rate := w\<rparr>,
              [Recorded (event p env k (Category Rate_limited) Limited False)])
        else case through_limiter g b k env (st\<lparr>rate := w\<rparr>) of
            (Inr v, st1, tr) \<Rightarrow>
              (Finished (Inr v), st1, tr @ [Recorded (event p env k No_category Success False)])
          | (Inl caught, st1, tr) \<Rightarrow>
              (case after_failure p k env caught st1 of (r, st2, tr2) \<Rightarrow> (r, st2, tr @ tr2)))"

section \<open>The loop\<close>

text \<open>
  \<open>run_attempts p g b n k envs st\<close> is the loop with \<open>attempt = k\<close> and \<open>n\<close> iterations left before
  \<open>attempt\<close> exceeds \<open>maxAttempts\<close>.
\<close>

fun run_attempts ::
    "execution_policy \<Rightarrow> guards \<Rightarrow> budget \<Rightarrow> nat \<Rightarrow> int \<Rightarrow> (int \<Rightarrow> 'a attempt_env) \<Rightarrow> shared
     \<Rightarrow> (thrown + 'a) \<times> shared \<times> effect list" where
  "run_attempts p g b 0 k envs st = (Inl (runtime_error Internal), st, [])"
| "run_attempts p g b (Suc n) k envs st = (case run_attempt p g b k (envs k) st of
     (Finished r, st1, tr) \<Rightarrow> (r, st1, tr)
   | (Again, st1, tr) \<Rightarrow> (case run_attempts p g b n (k + 1) envs st1 of
        (r, st2, tr2) \<Rightarrow> (r, st2, tr @ tr2)))"

definition execute ::
    "execution_policy \<Rightarrow> guards \<Rightarrow> int \<Rightarrow> (int \<Rightarrow> 'a attempt_env) \<Rightarrow> shared
     \<Rightarrow> (thrown + 'a) \<times> shared \<times> effect list" where
  "execute p g now envs st = (case validate_execution p of
     Inl e \<Rightarrow> (Inl e, st, [])
   | Inr _ \<Rightarrow> (case createDeadlineBudget (deadlines p) now of
       Inl e \<Rightarrow> (Inl e, st, [])
     | Inr b \<Rightarrow> run_attempts p g b (nat (to_int (maxAttempts (retry p)))) 1 envs st))"

section \<open>Facts about one attempt\<close>

fun invocations :: "effect list \<Rightarrow> int list" where
  "invocations [] = []"
| "invocations (Invoked k # tr) = k # invocations tr"
| "invocations (e # tr) = invocations tr"

fun sleeps :: "effect list \<Rightarrow> int list" where
  "sleeps [] = []"
| "sleeps (Slept ms # tr) = ms # sleeps tr"
| "sleeps (e # tr) = sleeps tr"

lemma invocations_append [simp]: "invocations (a @ b) = invocations a @ invocations b"
  by (induction a rule: invocations.induct) auto

lemma sleeps_append [simp]: "sleeps (a @ b) = sleeps a @ sleeps b"
  by (induction a rule: sleeps.induct) auto

lemma in_invocations: "k \<in> set (invocations tr) \<longleftrightarrow> Invoked k \<in> set tr"
  by (induction tr rule: invocations.induct) auto

text \<open>What a run of the guards may answer for attempt \<open>k\<close> in environment \<open>env\<close>.\<close>

definition answered :: "int \<Rightarrow> 'a attempt_env \<Rightarrow> thrown + 'a \<Rightarrow> effect list \<Rightarrow> bool" where
  "answered k env r tr = ((tr = [] \<or> tr = [Invoked k])
     \<and> (\<forall>v. r = Inr v \<longrightarrow> tr = [Invoked k] \<and> race env = Op_settles (Inr v)
          \<and> Timer_fires \<notin> set (race_late env) \<and> Parent_aborts \<notin> set (race_late env))
     \<and> (r = Inl (runtime_error Internal) \<longrightarrow>
          tr = [Invoked k] \<and> race env = Op_settles (Inl (runtime_error Internal))))"

lemma distinct_errors [simp]:
  "(retryable_error c = runtime_error d) = False" "(runtime_error d = retryable_error c) = False"
  "(runtime_error c = runtime_error d) = (c = d)" "(retryable_error c = retryable_error d) = (c = d)"
  by (simp_all add: retryable_error_def runtime_error_def)

lemma positiveInteger_cases: "positiveInteger v = Inr () \<or> positiveInteger v = Inl (runtime_error Invalid_input)"
  by (auto simp: positiveInteger_def check_def)

lemma runWithDeadline_cases:
  assumes "runWithDeadline t False e late = r"
  shows "(\<forall>v. r = Inr v \<longrightarrow> positiveInteger t = Inr () \<and> e = Op_settles (Inr v)
          \<and> Timer_fires \<notin> set late \<and> Parent_aborts \<notin> set late)
    \<and> (r = Inl (runtime_error Internal) \<longrightarrow>
          positiveInteger t = Inr () \<and> e = Op_settles (Inl (runtime_error Internal)))"
  using assms positiveInteger_cases [of t]
  by (cases e)
    (auto simp: runWithDeadline_def after_race_def classify_def Let_def expired_by_iff aborted_by_iff
      split: sum.splits if_splits)

lemma bounded_call_answered:
  assumes "bounded_call b k env = (r, tr)"
  shows "answered k env r tr"
proof (cases "remainingMs b (remaining_now env) < 1")
  case True
  with assms show ?thesis
    by (auto simp: bounded_call_def answered_def classifyBudgetExpiry_def)
next
  case False
  define t where "t = Num (of_int (remainingMs b (remaining_now env)))"
  from runWithDeadline_cases [OF refl, of t "race env" "race_late env"] assms False
  show ?thesis
    by (auto simp: bounded_call_def answered_def classifyBudgetExpiry_def t_def [symmetric] Let_def
        split: sum.splits if_splits)
qed

lemma enter_error: "enter opt now b = (Inl e, b') \<Longrightarrow> e = retryable_error Circuit_open"
  by (auto simp: enter_def Let_def split: if_splits)

lemma acquire_error:
  "acquire opt ab w s = (Refused e, s') \<Longrightarrow> e = runtime_error Cancelled \<or> e = retryable_error Concurrency_limited"
  by (auto simp: acquire_def split: if_splits)

lemma through_breaker_answered:
  assumes "through_breaker g b k env st = (r, st', tr)"
  shows "answered k env r tr"
proof (cases "enter (brk_opt g) (enter_now env) (brk st)")
  case (Pair a b')
  show ?thesis
  proof (cases a)
    case (Inl e)
    with Pair assms enter_error [of "brk_opt g" "enter_now env" "brk st" e b'] show ?thesis
      by (auto simp: through_breaker_def answered_def)
  next
    case (Inr probe)
    obtain r' tr' where c: "bounded_call b k env = (r', tr')" by fastforce
    from bounded_call_answered [OF c] c Pair Inr assms show ?thesis
      by (auto simp: through_breaker_def Let_def split: sum.splits)
  qed
qed

lemma holding_slot_answered:
  assumes "holding_slot g b k env st = (r, st', tr)"
  shows "answered k env r tr"
proof (cases "budget_aborted (at_slot env)")
  case True
  with assms show ?thesis by (auto simp: holding_slot_def answered_def Let_def)
next
  case False
  obtain r1 st1 tr1 where c: "through_breaker g b k env st = (r1, st1, tr1)"
    using prod_cases3 by blast
  from through_breaker_answered [OF c] c False assms show ?thesis
    by (auto simp: holding_slot_def Let_def)
qed

lemma through_limiter_answered:
  assumes "through_limiter g b k env st = (r, st', tr)"
  shows "answered k env r tr"
proof (cases "acquire (lim_opt g) (aborted_calls env) (call_id env) (lim st)")
  case (Pair a l)
  show ?thesis
  proof (cases a)
    case Granted
    with Pair assms show ?thesis by (auto simp: through_limiter_def intro: holding_slot_answered)
  next
    case Queued
    with Pair assms show ?thesis
      by (auto simp: through_limiter_def Let_def answered_def [of _ _ "Inl (runtime_error Cancelled)"]
          intro: holding_slot_answered split: if_splits)
  next
    case (Refused e)
    with Pair assms acquire_error [of _ _ _ _ e] show ?thesis
      by (fastforce simp: through_limiter_def answered_def)
  qed
qed

text \<open>The error an attempt ends with behind the limiters, if it gets there and fails.\<close>

definition attempt_error :: "guards \<Rightarrow> budget \<Rightarrow> int \<Rightarrow> 'a attempt_env \<Rightarrow> shared \<Rightarrow> thrown option" where
  "attempt_error g b k env st = (case rate_check (rate_opt g) (rate_now env) (rate st) of (d, w) \<Rightarrow>
     (case through_limiter g b k env (st\<lparr>rate := w\<rparr>) of
        (Inl caught, st1, tr) \<Rightarrow> Some (classifyBudgetExpiry (at_catch env) caught)
      | (Inr v, st1, tr) \<Rightarrow> None))"

text \<open>
  A failed attempt that is tried again ended with a retryable error of a configured category, left a
  note and a sleep, and was not the last one.
\<close>

definition retried :: "execution_policy \<Rightarrow> int \<Rightarrow> thrown \<Rightarrow> effect list \<Rightarrow> bool" where
  "retried p k e tr = (\<exists>ev ms c. tr = [Recorded ev, Slept ms] \<and> attempt ev = k \<and> event_outcome ev = Failure
     \<and> retrying ev \<and> category ev = Category c \<and> c \<in> set (retryableCategories (retry p))
     \<and> is_retryable e \<and> category_of e = Some c \<and> 0 \<le> ms \<and> ms \<le> max_delay)"

definition given_up :: "'a attempt_env \<Rightarrow> thrown \<Rightarrow> thrown + 'a \<Rightarrow> effect list \<Rightarrow> bool" where
  "given_up env caught r tr = (\<exists>e. r = Inl e \<and> invocations tr = []
     \<and> (\<forall>ms \<in> set (sleeps tr). 0 \<le> ms \<and> ms \<le> max_delay)
     \<and> (e = runtime_error Internal \<longrightarrow>
          caught = runtime_error Internal \<or> sleep_outcome env = Inl (runtime_error Internal)))"

lemma small_attempt:
  assumes "1 \<le> k" "k \<le> 10"
  shows "safe_at_least 1 (Num (of_int k))" "to_int (Num (of_int k)) = k"
  using assms by (auto simp: safe_at_least_def to_int_def safe_int_def max_safe_def)

lemma after_failure_cases:
  assumes v: "validateRetryPolicy (retry p) = Inr ()" and k: "1 \<le> k"
    and a: "after_failure p k env caught st = (r, st', tr)"
  shows "(r = Again \<longrightarrow> k < to_int (maxAttempts (retry p))
          \<and> retried p k (classifyBudgetExpiry (at_catch env) caught) tr)
    \<and> (\<forall>x. r = Finished x \<longrightarrow> given_up env caught x tr
          \<and> (sleeps tr \<noteq> [] \<longrightarrow> k < to_int (maxAttempts (retry p))) \<and> length (sleeps tr) \<le> 1)"
proof -
  define e where "e = classifyBudgetExpiry (at_catch env) caught"
  define m where "m = to_int (maxAttempts (retry p))"
  have m: "m \<le> 10" using validateRetryPolicy_Inr(3) [OF v] by (simp add: m_def)
  obtain s where s: "shouldRetry (retry p) k e = Inr s"
    using v by (simp add: shouldRetry_def)
  have ok: "k < m \<and> is_retryable e \<and> (\<exists>c. category_of e = Some c \<and> c \<in> set (retryableCategories (retry p)))" if s
    using s that v by (auto simp: shouldRetry_def m_def split: option.splits)
  have e: "e = runtime_error Internal \<Longrightarrow> caught = runtime_error Internal"
    by (auto simp: e_def classifyBudgetExpiry_def split: if_splits)
  show ?thesis
  proof (cases "s \<and> \<not> budget_aborted (at_catch env)")
    case False
    with a s e show ?thesis
      by (auto simp: after_failure_def e_def [symmetric] given_up_def Let_def)
  next
    case True
    with ok have km: "k < m" by simp
    with m k have "k \<le> 10" by simp
    note sm = small_attempt [OF k this]
    obtain ms where ms: "calculateBackoffMs (retry p) (Num (of_int k)) (random_value env) = Inr ms"
      "0 \<le> ms" "ms \<le> max_delay"
      using backoff_in_range [OF v sm(1)] km sm(2) unfolding m_def by metis
    from True ok obtain c where c: "category_of e = Some c" "c \<in> set (retryableCategories (retry p))"
      "is_retryable e" by auto
    from True a s ms(1) show ?thesis
      using ms(2,3) c km
      by (cases "sleep_outcome env")
        (auto simp: after_failure_def e_def [symmetric] Let_def m_def [symmetric] given_up_def retried_def
          event_def event_category_of_def classifyBudgetExpiry_def [of "at_wake env"])
  qed
qed

definition succeeded :: "execution_policy \<Rightarrow> int \<Rightarrow> 'a attempt_env \<Rightarrow> 'a \<Rightarrow> effect list \<Rightarrow> bool" where
  "succeeded p k env v tr = (race env = Op_settles (Inr v)
     \<and> Timer_fires \<notin> set (race_late env) \<and> Parent_aborts \<notin> set (race_late env)
     \<and> tr = [Invoked k, Recorded (event p env k No_category Success False)])"

lemma run_attempt_cases:
  assumes v: "validateRetryPolicy (retry p) = Inr ()" and k: "1 \<le> k"
    and a: "run_attempt p g b k env st = (r, st', tr)"
  shows "(r = Again \<longrightarrow> k < to_int (maxAttempts (retry p))
          \<and> (\<exists>tr0 tr1 e. tr = tr0 @ tr1 \<and> (tr0 = [] \<or> tr0 = [Invoked k])
               \<and> attempt_error g b k env st = Some e \<and> retried p k e tr1))
    \<and> (\<forall>x. r = Finished (Inr x) \<longrightarrow> succeeded p k env x tr)
    \<and> (\<forall>e. r = Finished (Inl e) \<longrightarrow> (invocations tr = [] \<or> invocations tr = [k])
          \<and> (\<forall>ms \<in> set (sleeps tr). 0 \<le> ms \<and> ms \<le> max_delay)
          \<and> (sleeps tr \<noteq> [] \<longrightarrow> k < to_int (maxAttempts (retry p))) \<and> length (sleeps tr) \<le> 1
          \<and> (e = runtime_error Internal \<longrightarrow> race env = Op_settles (Inl (runtime_error Internal))
               \<or> sleep_outcome env = Inl (runtime_error Internal)))"
proof -
  obtain d w where d: "rate_check (rate_opt g) (rate_now env) (rate st) = (d, w)" by fastforce
  obtain r1 st1 tr1 where l: "through_limiter g b k env (st\<lparr>rate := w\<rparr>) = (r1, st1, tr1)"
    using prod_cases3 by blast
  note ans = through_limiter_answered [OF l]
  show ?thesis
  proof (cases "budget_aborted (at_top env) \<or> \<not> allowed d")
    case True
    with a d show ?thesis
      by (cases "budget_aborted (at_top env)") (auto simp: run_attempt_def classifyBudgetExpiry_def split: if_splits)
  next
    case go: False
    show ?thesis
    proof (cases r1)
      case (Inr x)
      with go a d l ans show ?thesis
        by (auto simp: run_attempt_def answered_def succeeded_def)
    next
      case (Inl caught)
      obtain r2 st2 tr2 where f: "after_failure p k env caught st1 = (r2, st2, tr2)"
        using prod_cases3 by blast
      from go a d l Inl f have eq: "r = r2" "tr = tr1 @ tr2"
        by (simp_all add: run_attempt_def)
      from ans have tr1: "tr1 = [] \<or> tr1 = [Invoked k]" by (simp add: answered_def)
      have int: "caught = runtime_error Internal \<Longrightarrow> race env = Op_settles (Inl (runtime_error Internal))"
        using ans Inl by (simp add: answered_def)
      have err: "attempt_error g b k env st = Some (classifyBudgetExpiry (at_catch env) caught)"
        using d l Inl by (simp add: attempt_error_def)
      from after_failure_cases [OF v k f] tr1 int err show ?thesis
        unfolding eq by (auto simp: given_up_def)
    qed
  qed
qed

definition loop_ok ::
    "execution_policy \<Rightarrow> int \<Rightarrow> nat \<Rightarrow> (int \<Rightarrow> 'a attempt_env) \<Rightarrow> thrown + 'a \<Rightarrow> effect list \<Rightarrow> bool" where
  "loop_ok p k n envs r tr =
     (sorted_wrt (<) (invocations tr) \<and> set (invocations tr) \<subseteq> {k ..< k + int n}
    \<and> length (sleeps tr) < n \<and> (\<forall>ms \<in> set (sleeps tr). 0 \<le> ms \<and> ms \<le> max_delay)
    \<and> (\<forall>v. r = Inr v \<longrightarrow> (\<exists>j tr0 tr1. k \<le> j \<and> j < k + int n \<and> tr = tr0 @ tr1 \<and> succeeded p j (envs j) v tr1))
    \<and> (r = Inl (runtime_error Internal) \<longrightarrow> (\<exists>j. k \<le> j \<and> j < k + int n
         \<and> (race (envs j) = Op_settles (Inl (runtime_error Internal))
            \<or> sleep_outcome (envs j) = Inl (runtime_error Internal)))))"

lemma loop_ok_Again:
  assumes IH: "loop_ok p (k + 1) n envs r tr2" and r: "retried p k e tr1" and t: "tr0 = [] \<or> tr0 = [Invoked k]"
  shows "loop_ok p k (Suc n) envs r ((tr0 @ tr1) @ tr2)"
proof -
  from r obtain ev ms c where tr1: "tr1 = [Recorded ev, Slept ms]" "attempt ev = k" "event_outcome ev = Failure"
    "retrying ev" "category ev = Category c" "c \<in> set (retryableCategories (retry p))" "0 \<le> ms" "ms \<le> max_delay"
    by (auto simp: retried_def)
  have inv: "invocations ((tr0 @ tr1) @ tr2) = invocations tr0 @ invocations tr2"
    and i0: "set (invocations tr0) \<subseteq> {k}" "sorted_wrt (<) (invocations tr0)"
    and s0: "sleeps ((tr0 @ tr1) @ tr2) = ms # sleeps tr2"
    using t by (auto simp: tr1)
  have i2: "set (invocations tr2) \<subseteq> {k + 1 ..< k + 1 + int n}" "sorted_wrt (<) (invocations tr2)"
    using IH by (auto simp: loop_ok_def)
  have "\<exists>j tra trb. k \<le> j \<and> j < k + int (Suc n) \<and> (tr0 @ tr1) @ tr2 = tra @ trb
      \<and> succeeded p j (envs j) v trb" if "r = Inr v" for v
  proof -
    from IH that obtain j tra trb where "k + 1 \<le> j" "j < k + 1 + int n" "tr2 = tra @ trb"
      "succeeded p j (envs j) v trb"
      unfolding loop_ok_def by blast
    then show ?thesis by (intro exI [of _ j] exI [of _ "(tr0 @ tr1) @ tra"] exI [of _ trb]) auto
  qed
  moreover have "\<exists>j. k \<le> j \<and> j < k + int (Suc n)
         \<and> (race (envs j) = Op_settles (Inl (runtime_error Internal))
            \<or> sleep_outcome (envs j) = Inl (runtime_error Internal))" if "r = Inl (runtime_error Internal)"
  proof -
    from IH that obtain j where "k + 1 \<le> j" "j < k + 1 + int n"
      "race (envs j) = Op_settles (Inl (runtime_error Internal))
            \<or> sleep_outcome (envs j) = Inl (runtime_error Internal)"
      unfolding loop_ok_def by blast
    then show ?thesis by (intro exI [of _ j]) auto
  qed
  moreover have "length (sleeps tr2) < n" "\<forall>ms \<in> set (sleeps tr2). 0 \<le> ms \<and> ms \<le> max_delay"
    using IH by (auto simp: loop_ok_def)
  moreover have "sorted_wrt (<) (invocations ((tr0 @ tr1) @ tr2))"
    using i0 i2 unfolding inv sorted_wrt_append by fastforce
  moreover have "set (invocations ((tr0 @ tr1) @ tr2)) \<subseteq> {k ..< k + int (Suc n)}"
    using i0 i2 unfolding inv by (auto simp: subset_iff)
  ultimately show ?thesis
    unfolding loop_ok_def s0 using tr1(7,8) by (intro conjI allI impI) auto
qed

lemma loop_ok_Finished:
  assumes "\<And>v. r = Inr v \<Longrightarrow> succeeded p k (envs k) v tr"
  assumes "\<And>e. r = Inl e \<Longrightarrow> (invocations tr = [] \<or> invocations tr = [k])
          \<and> (\<forall>ms \<in> set (sleeps tr). 0 \<le> ms \<and> ms \<le> max_delay)
          \<and> length (sleeps tr) < Suc n
          \<and> (e = runtime_error Internal \<longrightarrow> race (envs k) = Op_settles (Inl (runtime_error Internal))
               \<or> sleep_outcome (envs k) = Inl (runtime_error Internal))"
  shows "loop_ok p k (Suc n) envs r tr"
proof (cases r)
  case (Inl e)
  from assms(2) [OF Inl] have "Invoked j \<in> set tr \<Longrightarrow> j = k" for j
    by (metis empty_iff in_invocations list.set(1) set_ConsD)
  with assms(2) [OF Inl] Inl show ?thesis
    unfolding loop_ok_def by (fastforce intro: exI [of _ k])
next
  case (Inr v)
  from assms(1) [OF Inr] show ?thesis
    unfolding loop_ok_def Inr by (auto simp: succeeded_def intro!: exI [of _ k] exI [of _ "[]"])
qed

lemma run_attempts_ok:
  assumes v: "validateRetryPolicy (retry p) = Inr ()"
  shows "1 \<le> k \<Longrightarrow> k + int n = to_int (maxAttempts (retry p)) + 1 \<Longrightarrow> 0 < n
    \<Longrightarrow> run_attempts p g b n k envs st = (r, st', tr) \<Longrightarrow> loop_ok p k n envs r tr"
proof (induction n arbitrary: k st r st' tr)
  case 0
  then show ?case by simp
next
  case (Suc n)
  obtain a st1 tr1 where a: "run_attempt p g b k (envs k) st = (a, st1, tr1)"
    using prod_cases3 by blast
  note c = run_attempt_cases [OF v Suc.prems(1) a]
  show ?case
  proof (cases a)
    case (Finished x)
    with a Suc.prems(4) have r: "r = x" "tr = tr1" by simp_all
    have "length (sleeps tr1) < Suc n" if "x = Inl e" for e
      using c Finished that Suc.prems(2) by (cases "sleeps tr1") fastforce+
    with c Finished show ?thesis unfolding r by (intro loop_ok_Finished) auto
  next
    case Again
    obtain r2 st2 tr2 where l: "run_attempts p g b n (k + 1) envs st1 = (r2, st2, tr2)"
      using prod_cases3 by blast
    from c Again obtain tra trb e where t: "tr1 = tra @ trb" "tra = [] \<or> tra = [Invoked k]"
      "retried p k e trb" "k < to_int (maxAttempts (retry p))" by blast
    have "loop_ok p (k + 1) n envs r2 tr2"
      using Suc.IH [OF _ _ _ l] Suc.prems(1,2) t(4) by simp
    from loop_ok_Again [OF this t(3,2)] show ?thesis
      using Suc.prems(4) a Again l t(1) by simp
  qed
qed

text \<open>The shared state after \<open>j\<close> attempts from attempt \<open>k\<close> on.\<close>

fun after_attempts ::
    "execution_policy \<Rightarrow> guards \<Rightarrow> budget \<Rightarrow> int \<Rightarrow> (int \<Rightarrow> 'a attempt_env) \<Rightarrow> shared \<Rightarrow> nat \<Rightarrow> shared" where
  "after_attempts p g b k envs st 0 = st"
| "after_attempts p g b k envs st (Suc j) =
     after_attempts p g b (k + 1) envs (fst (snd (run_attempt p g b k (envs k) st))) j"

text \<open>What precedes call \<open>j\<close> in the trace: the recorded failure of attempt \<open>j - 1\<close> with the error \<open>e\<close>.\<close>

definition justified :: "execution_policy \<Rightarrow> effect list \<Rightarrow> int \<Rightarrow> thrown \<Rightarrow> bool" where
  "justified p tr j e = (\<exists>tr0 ev ms tr1 c. tr = tr0 @ [Recorded ev, Slept ms] @ tr1
     \<and> Invoked j \<notin> set tr0 \<and> Invoked j \<in> set tr1 \<and> attempt ev = j - 1 \<and> event_outcome ev = Failure
     \<and> retrying ev \<and> category ev = Category c \<and> c \<in> set (retryableCategories (retry p))
     \<and> is_retryable e \<and> category_of e = Some c)"

lemma justified_append: "justified p tr j e \<Longrightarrow> Invoked j \<notin> set pre \<Longrightarrow> justified p (pre @ tr) j e"
  unfolding justified_def by (elim exE conjE) (rule exI [of _ "pre @ _"], fastforce)

lemma repeated_calls:
  assumes v: "validateRetryPolicy (retry p) = Inr ()"
  shows "1 \<le> k \<Longrightarrow> run_attempts p g b n k envs st = (r, st', tr) \<Longrightarrow> Invoked j \<in> set tr \<Longrightarrow> k < j
    \<Longrightarrow> \<exists>e. attempt_error g b (j - 1) (envs (j - 1)) (after_attempts p g b k envs st (nat (j - 1 - k))) = Some e
          \<and> justified p tr j e"
proof (induction n arbitrary: k st r st' tr)
  case 0
  then show ?case by simp
next
  case (Suc n)
  obtain a st1 tr1 where a: "run_attempt p g b k (envs k) st = (a, st1, tr1)"
    using prod_cases3 by blast
  note c = run_attempt_cases [OF v Suc.prems(1) a]
  show ?case
  proof (cases a)
    case (Finished x)
    with a Suc.prems(2) have eq: "tr = tr1" by simp
    have "Invoked j \<in> set tr1 \<Longrightarrow> j = k"
      using c Finished by (cases x) (auto simp: succeeded_def in_invocations [symmetric])
    with Suc.prems(3,4) show ?thesis by (simp add: eq)
  next
    case Again
    obtain r2 st2 tr2 where l: "run_attempts p g b n (k + 1) envs st1 = (r2, st2, tr2)"
      using prod_cases3 by blast
    from c Again obtain tra trb e where t: "tr1 = tra @ trb" "tra = [] \<or> tra = [Invoked k]"
      "attempt_error g b k (envs k) st = Some e" "retried p k e trb" by blast
    have tr: "tr = tr1 @ tr2" using Suc.prems(2) a Again l by simp
    from t(4) obtain ev ms c where trb: "trb = [Recorded ev, Slept ms]" "attempt ev = k" "event_outcome ev = Failure"
      "retrying ev" "category ev = Category c" "c \<in> set (retryableCategories (retry p))"
      "is_retryable e" "category_of e = Some c" by (auto simp: retried_def)
    have notin: "Invoked j \<notin> set tr1" using t(1,2) trb(1) Suc.prems(4) by auto
    with Suc.prems(3) tr have j: "Invoked j \<in> set tr2" by simp
    show ?thesis
    proof (cases "j = k + 1")
      case True
      have "tr = tra @ [Recorded ev, Slept ms] @ tr2" by (simp add: tr t(1) trb(1))
      then have "justified p tr j e"
        unfolding justified_def using notin t(1) j trb True by (metis Un_iff add_diff_cancel_right' set_append)
      with t(3) True show ?thesis by simp
    next
      case False
      with Suc.prems(4) have kj: "k + 1 < j" by simp
      from Suc.IH [OF _ l j kj] Suc.prems(1) obtain e' where e':
        "attempt_error g b (j - 1) (envs (j - 1)) (after_attempts p g b (k + 1) envs st1 (nat (j - 1 - (k + 1)))) = Some e'"
        "justified p tr2 j e'" by auto
      have "nat (j - 1 - k) = Suc (nat (j - 1 - (k + 1)))" using kj by simp
      then have "after_attempts p g b k envs st (nat (j - 1 - k))
          = after_attempts p g b (k + 1) envs st1 (nat (j - 1 - (k + 1)))" by (simp add: a)
      with e' justified_append [OF e'(2) notin] show ?thesis by (simp add: tr)
    qed
  qed
qed

lemma validate_execution_Inr:
  assumes "validate_execution p = Inr u"
  shows "validateRetryPolicy (retry p) = Inr ()"
    and "safety p = ''non_idempotent_write'' \<Longrightarrow> to_int (maxAttempts (retry p)) = 1"
  using assms small_attempt(2) [of 1]
  by (auto simp: validate_execution_def result_simps split: if_splits)

lemma execute_cases:
  assumes "execute p g now envs st = (r, st', tr)"
  obtains (refused) e where "r = Inl e" "e = runtime_error Invalid_input" "tr = []" "st' = st"
  | (ran) b where "validate_execution p = Inr ()" "createDeadlineBudget (deadlines p) now = Inr b"
      "run_attempts p g b (nat (to_int (maxAttempts (retry p)))) 1 envs st = (r, st', tr)"
      "loop_ok p 1 (nat (to_int (maxAttempts (retry p)))) envs r tr"
proof (cases "validate_execution p")
  case (Inl e)
  then have "e = runtime_error Invalid_input"
    using validateRetryPolicy_error by (auto simp: validate_execution_def result_simps split: if_splits)
  with Inl assms show thesis by (intro refused) (auto simp: execute_def)
next
  case (Inr u)
  show thesis
  proof (cases "createDeadlineBudget (deadlines p) now")
    case (Inl e)
    then have "e = runtime_error Invalid_input"
      by (auto simp: createDeadlineBudget_def positiveInteger_def result_simps)
    with Inl Inr assms show thesis by (intro refused) (auto simp: execute_def)
  next
    case b: (Inr b)
    with Inr assms have l: "run_attempts p g b (nat (to_int (maxAttempts (retry p)))) 1 envs st = (r, st', tr)"
      by (simp add: execute_def)
    note v = validate_execution_Inr(1) [OF Inr]
    from run_attempts_ok [OF v _ _ _ l] validateRetryPolicy_Inr(2) [OF v]
    have "loop_ok p 1 (nat (to_int (maxAttempts (retry p)))) envs r tr" by simp
    with Inr b l show thesis by (intro ran) auto
  qed
qed

text \<open>An execution undisturbed by others.\<close>

definition undisturbed :: "'a attempt_env \<Rightarrow> bool" where
  "undisturbed env = (others_wait env = id \<and> others_run env = id \<and> others_exit env = id \<and> others_sleep env = id)"

lemma through_breaker_lim:
  "through_breaker g b k env st = (r, st', tr) \<Longrightarrow> undisturbed env \<Longrightarrow> lim st' = lim st"
  by (auto simp: through_breaker_def undisturbed_def Let_def split: prod.splits sum.splits)

lemma holding_slot_lim:
  assumes "holding_slot g b k env st = (r, st', tr)" and "undisturbed env" and "queue (lim st) = []"
  shows "lim st' = (lim st)\<lparr>active := active (lim st) - 1\<rparr>"
proof -
  have "snd (release ab l) = l\<lparr>active := active l - 1\<rparr>" if "queue l = []" for ab l
    using that by (cases l) (simp add: release_def)
  moreover obtain r1 st1 tr1 where t: "through_breaker g b k env st = (r1, st1, tr1)"
    using prod_cases3 by blast
  moreover have "lim st1 = lim st" using through_breaker_lim [OF t assms(2)] .
  ultimately show ?thesis
    using assms by (auto simp: holding_slot_def undisturbed_def Let_def split: if_splits)
qed

lemma through_limiter_lim:
  assumes "through_limiter g b k env st = (r, st', tr)" and "undisturbed env"
    and "queue (lim st) = []" and "active (lim st) < limit (lim_opt g)"
  shows "lim st' = lim st"
proof (cases "call_id env \<in> aborted_calls env")
  case True
  with assms show ?thesis by (auto simp: through_limiter_def acquire_def)
next
  case False
  with assms have h: "holding_slot g b k env (st\<lparr>lim := (lim st)\<lparr>active := active (lim st) + 1\<rparr>\<rparr>) = (r, st', tr)"
    by (simp add: through_limiter_def acquire_def undisturbed_def)
  show ?thesis using holding_slot_lim [OF h assms(2)] assms(3) by simp
qed

lemma run_attempt_lim:
  assumes "run_attempt p g b k env st = (r, st', tr)" and "undisturbed env"
    and "queue (lim st) = []" and "active (lim st) < limit (lim_opt g)"
  shows "lim st' = lim st"
proof -
  obtain d w where d: "rate_check (rate_opt g) (rate_now env) (rate st) = (d, w)" by fastforce
  obtain r1 st1 tr1 where l: "through_limiter g b k env (st\<lparr>rate := w\<rparr>) = (r1, st1, tr1)"
    using prod_cases3 by blast
  have "lim st1 = lim st" using through_limiter_lim [OF l assms(2)] assms(3,4) by simp
  moreover have "lim st2 = lim st1" if "after_failure p k env x st1 = (r2, st2, tr2)" for x r2 st2 tr2
    using that assms(2)
    by (auto simp: after_failure_def undisturbed_def Let_def split: sum.splits if_splits)
  ultimately show ?thesis
    using assms(1) d l by (auto simp: run_attempt_def split: sum.splits prod.splits if_splits)
qed

lemma run_attempts_lim:
  "run_attempts p g b n k envs st = (r, st', tr) \<Longrightarrow> \<forall>j. undisturbed (envs j)
    \<Longrightarrow> queue (lim st) = [] \<Longrightarrow> active (lim st) < limit (lim_opt g) \<Longrightarrow> lim st' = lim st"
proof (induction n arbitrary: k st r st' tr)
  case 0
  then show ?case by simp
next
  case (Suc n)
  obtain a st1 tr1 where a: "run_attempt p g b k (envs k) st = (a, st1, tr1)"
    using prod_cases3 by blast
  have same: "lim st1 = lim st" using run_attempt_lim [OF a] Suc.prems by simp
  show ?case
  proof (cases a)
    case (Finished x)
    with a same Suc.prems(1) show ?thesis by simp
  next
    case Again
    obtain r2 st2 tr2 where l: "run_attempts p g b n (k + 1) envs st1 = (r2, st2, tr2)"
      using prod_cases3 by blast
    show ?thesis using Suc.IH [OF l] Suc.prems a Again l same by simp
  qed
qed

text \<open>A concrete execution: the first attempt times out, the second succeeds.\<close>

definition witness_env :: "int \<Rightarrow> int attempt_env" where
  "witness_env k = \<lparr>startedAt = 10, at_top = \<lparr>expired = False, caller = False\<rparr>, rate_now = 10, call_id = 0,
     aborted_calls = {}, woken = False, others_wait = id, at_slot = \<lparr>expired = False, caller = False\<rparr>,
     enter_now = 10, remaining_now = 10, race = (if k = 1 then Timer_fires else Op_settles (Inr 7)),
     race_late = [], others_run = id, at_result = \<lparr>expired = False, caller = False\<rparr>,
     leave_now = 20, others_exit = id, release_aborted = {},
     at_catch = \<lparr>expired = False, caller = False\<rparr>, endedAt = 20, random_value = 0,
     sleep_outcome = Inr (), others_sleep = id, at_wake = \<lparr>expired = False, caller = False\<rparr>\<rparr>"

definition witness_execution :: execution_policy where
  "witness_execution = \<lparr>deadlines = witness_limits, operationId = ''get.x'', retry = witness_policy, safety = ''read''\<rparr>"

definition witness_guards :: guards where
  "witness_guards = \<lparr>rate_opt = \<lparr>rateLimit = 5, windowMs = 1000\<rparr>, lim_opt = \<lparr>limit = 1, maxQueue = 0\<rparr>,
     brk_opt = \<lparr>failureThreshold = 3, halfOpenMaxCalls = 1, openMs = 100, countsAsFailure = defaultFailureClassifier\<rparr>\<rparr>"

definition witness_shared :: shared where
  "witness_shared = \<lparr>rate = \<lparr>windowStart = 0, used = 0\<rparr>, lim = \<lparr>active = 0, queue = []\<rparr>,
     brk = \<lparr>cb_state = Closed, failures = 0, openedAt = None, halfOpenActive = 0\<rparr>\<rparr>"

definition witness_trace :: "effect list" where
  "witness_trace = [Invoked 1,
     Recorded \<lparr>attempt = 1, category = Category Timeout, durationMs = 10, event_operation = ''get.x'',
       event_outcome = Failure, retrying = True\<rparr>,
     Slept 75, Invoked 2,
     Recorded \<lparr>attempt = 2, category = No_category, durationMs = 10, event_operation = ''get.x'',
       event_outcome = Success, retrying = False\<rparr>]"

lemma witness_execution_run:
  "execute witness_execution witness_guards 0 witness_env witness_shared
   = (Inr 7, witness_shared\<lparr>rate := \<lparr>windowStart = 0, used = 2\<rparr>\<rparr>, witness_trace)"
  by code_simp

section \<open>Properties\<close>

text \<open>
  Property C8. Whatever the environment does, one execution calls the operation at most
  \<open>maxAttempts\<close> (at most ten) times, each attempt number once and in increasing order, a
  non-idempotent write at most once, and sleeps fewer than \<open>maxAttempts\<close> times for at most an hour
  each.
\<close>

theorem execution_bounds:
  assumes "execute p g now envs st = (r, st', tr)"
  shows "int (length (invocations tr)) \<le> 10 \<and> sorted_wrt (<) (invocations tr)
    \<and> (\<forall>k \<in> set (invocations tr). 1 \<le> k \<and> k \<le> to_int (maxAttempts (retry p)))
    \<and> (safety p = ''non_idempotent_write'' \<longrightarrow> length (invocations tr) \<le> 1 \<and> sleeps tr = [])
    \<and> length (sleeps tr) \<le> 9 \<and> (\<forall>ms \<in> set (sleeps tr). 0 \<le> ms \<and> ms \<le> max_delay)"
  using assms
proof (cases rule: execute_cases)
  case (refused e)
  then show ?thesis by simp
next
  case (ran b)
  define m where "m = to_int (maxAttempts (retry p))"
  note v = validate_execution_Inr [OF ran(1)]
  note p = validateRetryPolicy_Inr(2,3) [OF v(1), folded m_def]
  note l = ran(4) [unfolded loop_ok_def, folded m_def]
  from l have inv: "sorted_wrt (<) (invocations tr)" "set (invocations tr) \<subseteq> {1 .. m}"
    using p by auto
  have "length (invocations tr) = card (set (invocations tr))"
    using inv(1) by (simp add: distinct_card strict_sorted_iff)
  also have "\<dots> \<le> card {1 .. m}" using inv(2) by (intro card_mono) auto
  finally have len: "length (invocations tr) \<le> nat m" by simp
  have "m = 1" if "safety p = ''non_idempotent_write''"
    using v(2) [OF that] by (simp add: m_def)
  with l p inv len show ?thesis by (auto simp: m_def [symmetric])
qed

theorem execution_bounds_witness:
  "sorted_wrt (<) (invocations witness_trace) \<and> invocations witness_trace = [1, 2]"
  using execution_bounds [OF witness_execution_run] by (simp add: witness_trace_def)

text \<open>
  Property C9. An execution that returns a value returns the value with which the operation of
  some attempt settled before any timeout or cancellation of that attempt, having recorded
  exactly that attempt as the success; the internal error after the retry loop is never reached
  (it is only seen when the operation or the sleep itself throws it).
\<close>

theorem execution_result:
  assumes "execute p g now envs st = (r, st', tr)"
  shows "(\<forall>v. r = Inr v \<longrightarrow> (\<exists>k tr0. 1 \<le> k \<and> k \<le> to_int (maxAttempts (retry p))
        \<and> race (envs k) = Op_settles (Inr v)
        \<and> Timer_fires \<notin> set (race_late (envs k)) \<and> Parent_aborts \<notin> set (race_late (envs k))
        \<and> tr = tr0 @ [Invoked k, Recorded (event p (envs k) k No_category Success False)]))
    \<and> (r = Inl (runtime_error Internal) \<longrightarrow>
        (\<exists>k. race (envs k) = Op_settles (Inl (runtime_error Internal))
           \<or> sleep_outcome (envs k) = Inl (runtime_error Internal)))"
  using assms
proof (cases rule: execute_cases)
  case (refused e)
  then show ?thesis by simp
next
  case (ran b)
  have m: "1 \<le> to_int (maxAttempts (retry p))"
    using validateRetryPolicy_Inr(2) [OF validate_execution_Inr(1) [OF ran(1)]] .
  show ?thesis
  proof (intro conjI allI impI)
    fix v assume "r = Inr v"
    with ran(4) m show "\<exists>k tr0. 1 \<le> k \<and> k \<le> to_int (maxAttempts (retry p))
        \<and> race (envs k) = Op_settles (Inr v)
        \<and> Timer_fires \<notin> set (race_late (envs k)) \<and> Parent_aborts \<notin> set (race_late (envs k))
        \<and> tr = tr0 @ [Invoked k, Recorded (event p (envs k) k No_category Success False)]"
      by (fastforce simp: loop_ok_def succeeded_def)
  next
    assume "r = Inl (runtime_error Internal)"
    with ran(4) show "\<exists>k. race (envs k) = Op_settles (Inl (runtime_error Internal))
           \<or> sleep_outcome (envs k) = Inl (runtime_error Internal)"
      unfolding loop_ok_def by blast
  qed
qed

theorem execution_result_witness:
  "\<exists>k. 1 \<le> k \<and> k \<le> to_int (maxAttempts witness_policy) \<and> race (witness_env k) = Op_settles (Inr 7)"
  using execution_result [OF witness_execution_run] by (auto simp: witness_execution_def)

text \<open>
  Property C10. Before a second or later call of the operation stands, in the trace, the record of the
  failure of the attempt before it, marked for retry. The error that attempt ended with is marked as
  retryable, and its category is the recorded one, allowed by the policy and transient.
\<close>

theorem repeated_call_is_justified:
  assumes "execute p g now envs st = (r, st', tr)" and "Invoked k \<in> set tr" and "1 < k"
  shows "\<exists>b e. createDeadlineBudget (deadlines p) now = Inr b
    \<and> attempt_error g b (k - 1) (envs (k - 1)) (after_attempts p g b 1 envs st (nat (k - 2))) = Some e
    \<and> is_retryable e \<and> (\<exists>tr0 ev ms tr1 c. tr = tr0 @ [Recorded ev, Slept ms] @ tr1
         \<and> Invoked k \<notin> set tr0 \<and> Invoked k \<in> set tr1 \<and> attempt ev = k - 1 \<and> event_outcome ev = Failure
         \<and> retrying ev \<and> category ev = Category c \<and> category_of e = Some c
         \<and> c \<in> set (retryableCategories (retry p))
         \<and> c \<in> {Connection, Rate_limited, Timeout, Upstream_unavailable})"
  using assms(1)
proof (cases rule: execute_cases)
  case (refused e)
  with assms(2) show ?thesis by simp
next
  case (ran b)
  note v = validate_execution_Inr(1) [OF ran(1)]
  from repeated_calls [OF v _ ran(3) assms(2,3)] obtain e where
    "attempt_error g b (k - 1) (envs (k - 1)) (after_attempts p g b 1 envs st (nat (k - 2))) = Some e"
    "justified p tr k e" by auto
  with ran(2) validateRetryPolicy_Inr(8) [OF v] show ?thesis
    unfolding justified_def by blast
qed

theorem repeated_call_is_justified_witness:
  "\<exists>tr0 ev ms tr1. witness_trace = tr0 @ [Recorded ev, Slept ms] @ tr1 \<and> Invoked 2 \<in> set tr1
     \<and> attempt ev = 1 \<and> retrying ev"
  using repeated_call_is_justified [OF witness_execution_run, of 2]
  by (simp add: witness_trace_def) blast

text \<open>
  An execution that is not disturbed and finds a free slot gives it back on every
  path: the concurrency limiter ends in the state it started in, whatever the operation, the
  breaker and the timers did.
\<close>

theorem execution_returns_its_slot:
  assumes "execute p g now envs st = (r, st', tr)" and "\<forall>k. undisturbed (envs k)"
    and "queue (lim st) = []" and "active (lim st) < limit (lim_opt g)"
  shows "lim st' = lim st"
  using assms(1)
proof (cases rule: execute_cases)
  case (refused e)
  then show ?thesis by simp
next
  case (ran b)
  from run_attempts_lim [OF ran(3) assms(2,3,4)] show ?thesis .
qed

theorem execution_returns_its_slot_witness:
  "lim (witness_shared\<lparr>rate := \<lparr>windowStart = 0, used = 2\<rparr>\<rparr>) = lim witness_shared
   \<and> undisturbed (witness_env 1)"
  using execution_returns_its_slot [OF witness_execution_run]
  by (simp add: witness_shared_def witness_guards_def witness_env_def undisturbed_def)

end
