(* ===== verification/Js_Time.thy ===== *)
theory Js_Time
  imports Prelude
begin

text \<open>
  The fragment of the ECMAScript \<open>Date\<close> object the program uses. A time value is an \<^typ>\<open>int\<close>:
  milliseconds since 1970-01-01T00:00:00.000Z. \<open>to_iso\<close> is \<open>Date.prototype.toISOString\<close> and
  \<open>date_parse\<close> is \<open>Date.parse\<close> on full date-time strings in UTC (the 24-character form and
  the expanded-year 27-character form); any other string yields \<open>None\<close> (\<open>NaN\<close>). Engines accept
  further spellings, but the validators of the program compare \<open>toISOString()\<close> of the parsed
  value with the input, and only the canonical spelling passes that test, whatever else
  \<open>Date.parse\<close> accepts. \<open>iso_instant\<close> is that combined test. The main fact is the round trip
  \<open>date_parse_to_iso\<close>, from which \<open>iso_instant_Some\<close> characterises the accepted strings.
\<close>

section \<open>The calendar\<close>

definition day_from_year :: "int \<Rightarrow> int" where
  "day_from_year y = 365 * (y - 1970) + (y - 1969) div 4 - (y - 1901) div 100 + (y - 1601) div 400"

definition is_leap :: "int \<Rightarrow> bool" where
  "is_leap y = (y mod 4 = 0 \<and> (y mod 100 \<noteq> 0 \<or> y mod 400 = 0))"

definition year_from_day :: "int \<Rightarrow> int" where
  "year_from_day d = (let y = 1970 + (400 * d) div 146097
     in if day_from_year (y + 1) \<le> d then y + 1 else if d < day_from_year y then y - 1 else y)"

definition days_before_month :: "bool \<Rightarrow> int \<Rightarrow> int" where
  "days_before_month leap m = (let l = (if leap then 1 else 0) in
     if m \<le> 1 then 0 else if m = 2 then 31 else if m = 3 then 59 + l else if m = 4 then 90 + l
     else if m = 5 then 120 + l else if m = 6 then 151 + l else if m = 7 then 181 + l
     else if m = 8 then 212 + l else if m = 9 then 243 + l else if m = 10 then 273 + l
     else if m = 11 then 304 + l else 334 + l)"

definition month_of :: "bool \<Rightarrow> int \<Rightarrow> int" where
  "month_of leap n = (let l = (if leap then 1 else 0) in
     if n < 31 then 1 else if n < 59 + l then 2 else if n < 90 + l then 3 else if n < 120 + l then 4
     else if n < 151 + l then 5 else if n < 181 + l then 6 else if n < 212 + l then 7
     else if n < 243 + l then 8 else if n < 273 + l then 9 else if n < 304 + l then 10
     else if n < 334 + l then 11 else 12)"

definition make_day :: "int \<Rightarrow> int \<Rightarrow> int \<Rightarrow> int" where
  "make_day y m d = day_from_year y + days_before_month (is_leap y) m + (d - 1)"

definition civil :: "int \<Rightarrow> int \<times> int \<times> int" where
  "civil n = (let y = year_from_day n; k = n - day_from_year y; m = month_of (is_leap y) k
     in (y, m, k - days_before_month (is_leap y) m + 1))"

lemma div_step: "0 < m \<Longrightarrow> (z + 1) div m - z div m = (if (z + 1) mod m = 0 then 1 else (0 :: int))"
proof -
  assume m: "0 < m"
  define q r where "q = z div m" and "r = z mod m"
  have z: "z = m * q + r" and r: "0 \<le> r" "r < m" using m by (simp_all add: q_def r_def)
  show ?thesis
  proof (cases "r = m - 1")
    case True
    then have "z + 1 = m * (q + 1)" using z by (simp add: algebra_simps)
    then have "(z + 1) div m = q + 1" "(z + 1) mod m = 0" using m by simp_all
    then show ?thesis by (simp add: q_def)
  next
    case False
    then have "(z + 1) div m = q" "(z + 1) mod m = r + 1"
      using z r by (auto intro!: int_div_pos_eq int_mod_pos_eq)
    then show ?thesis using r by (simp add: q_def)
  qed
qed

lemma dvd_shift: "m dvd (y + k * m) \<longleftrightarrow> m dvd (y :: int)"
  by (simp add: dvd_add_left_iff)

lemma day_from_year_step: "day_from_year (y + 1) - day_from_year y = (if is_leap y then 366 else 365)"
proof -
  have d4: "(y + 1 - 1969) div 4 - (y - 1969) div 4 = (if 4 dvd y then 1 else 0)"
    using div_step [of 4 "y - 1969"] dvd_shift [of 4 y "- 492"] by (simp add: mod_eq_0_iff_dvd)
  have d100: "(y + 1 - 1901) div 100 - (y - 1901) div 100 = (if 100 dvd y then 1 else 0)"
    using div_step [of 100 "y - 1901"] dvd_shift [of 100 y "- 19"] by (simp add: mod_eq_0_iff_dvd)
  have d400: "(y + 1 - 1601) div 400 - (y - 1601) div 400 = (if 400 dvd y then 1 else 0)"
    using div_step [of 400 "y - 1601"] dvd_shift [of 400 y "- 4"] by (simp add: mod_eq_0_iff_dvd)
  have gen: "365 * (y + 1 - 1970) + a' - b' + c' - (365 * (y - 1970) + a - b + c) = 365 + i - j + k"
    if "a' - a = i" "b' - b = j" "c' - c = k" for a a' b b' c c' i j k :: int
    using that by (simp add: right_diff_distrib)
  have D: "day_from_year (y + 1) - day_from_year y = 365 + (if 4 dvd y then 1 else 0)
      - (if 100 dvd y then 1 else 0) + (if 400 dvd y then 1 else 0)"
    using gen [OF d4 d100 d400] by (simp only: day_from_year_def)
  have i: "400 dvd y \<Longrightarrow> 100 dvd y" "100 dvd y \<Longrightarrow> 4 dvd y"
    by (rule dvd_trans [of 100 400], simp, assumption, rule dvd_trans [of 4 100], simp, assumption)
  have cases: "d = (if P \<and> (\<not> Q \<or> R) then 366 else 365)"
    if "d = 365 + (if P then 1 else 0) - (if Q then 1 else 0) + (if R then 1 else 0)"
      "R \<Longrightarrow> Q" "Q \<Longrightarrow> P" for d :: int and P Q R
    using that by (cases P; cases Q; cases R; simp)
  show ?thesis
    unfolding is_leap_def mod_eq_0_iff_dvd by (rule cases [OF D i])
qed

lemma div_bounds:
  fixes z :: int
  assumes "0 < m"
  shows "m * (z div m) \<le> z" and "z < m * (z div m) + m"
  using mult_div_mod_eq [of m z] pos_mod_sign [OF assms, of z] pos_mod_bound [OF assms, of z] by linarith+

lemma day_from_year_bounds:
  shows "146097 * (y - 1970) - 700 \<le> 400 * day_from_year y"
    and "400 * day_from_year y \<le> 146097 * (y - 1970) + 700"
proof -
  define a b c where "a = (y - 1969) div 4" and "b = (y - 1901) div 100" and "c = (y - 1601) div 400"
  have f: "4 * a \<le> y - 1969" "y - 1969 < 4 * a + 4" "100 * b \<le> y - 1901" "y - 1901 < 100 * b + 100"
    "400 * c \<le> y - 1601" "y - 1601 < 400 * c + 400"
    unfolding a_def b_def c_def by (simp_all add: div_bounds del: mult_le_cancel_left1)
  have d: "day_from_year y = 365 * (y - 1970) + a - b + c"
    by (simp add: day_from_year_def a_def b_def c_def)
  show "146097 * (y - 1970) - 700 \<le> 400 * day_from_year y" using f d by (simp add: algebra_simps)
  show "400 * day_from_year y \<le> 146097 * (y - 1970) + 700" using f d by (simp add: algebra_simps)
qed

lemma year_from_day_correct:
  shows "day_from_year (year_from_day n) \<le> n" and "n < day_from_year (year_from_day n + 1)"
proof -
  define y where "y = 1970 + (400 * n) div 146097"
  have e: "146097 * (y - 1970) \<le> 400 * n" "400 * n < 146097 * (y - 1970) + 146097"
    using div_bounds [of 146097 "400 * n"] by (simp_all add: y_def)
  have lo: "day_from_year (y - 1) \<le> n"
    using day_from_year_bounds [of "y - 1"] e by (simp add: algebra_simps)
  have hi: "n < day_from_year (y + 2)"
    using day_from_year_bounds [of "y + 2"] e by (simp add: algebra_simps)
  have hi': "n < day_from_year (y + 1 + 1)" using hi by (simp add: add.assoc)
  have "y - 1 + 1 = y" by simp
  then show "day_from_year (year_from_day n) \<le> n" "n < day_from_year (year_from_day n + 1)"
    using lo hi' unfolding year_from_day_def y_def [symmetric] Let_def
    by (auto simp del: add.assoc)
qed

text \<open>The last day number of each month, as in the ECMAScript month table.\<close>

lemma month_of_bounds:
  assumes "0 \<le> k" "k < (if leap then 366 else 365)"
  shows "1 \<le> month_of leap k \<and> month_of leap k \<le> 12
    \<and> days_before_month leap (month_of leap k) \<le> k
    \<and> k - days_before_month leap (month_of leap k) < 31"
  using assms unfolding month_of_def days_before_month_def Let_def
  by (cases leap) simp_all

lemma civil_make_day:
  assumes "civil n = (y, m, d)"
  shows "make_day y m d = n" "1 \<le> m" "m \<le> 12" "1 \<le> d" "d \<le> 31" "y = year_from_day n"
proof -
  let ?y = "year_from_day n"
  let ?k = "n - day_from_year ?y"
  have "0 \<le> ?k" "?k < (if is_leap ?y then 366 else 365)"
    using year_from_day_correct [of n] day_from_year_step [of ?y] by auto
  from month_of_bounds [OF this] assms
  show "make_day y m d = n" "1 \<le> m" "m \<le> 12" "1 \<le> d" "d \<le> 31" "y = ?y"
    by (auto simp: civil_def Let_def make_day_def)
qed

section \<open>Decimal fields\<close>

definition digit :: "int \<Rightarrow> char" where
  "digit k = char_of (48 + nat k)"

definition digit_val :: "char \<Rightarrow> int option" where
  "digit_val c = (let v = int (of_char c :: nat) - 48 in if 0 \<le> v \<and> v \<le> 9 then Some v else None)"

fun pad :: "nat \<Rightarrow> int \<Rightarrow> string" where
  "pad 0 v = []"
| "pad (Suc w) v = pad w (v div 10) @ [digit (v mod 10)]"

fun digits_val :: "int \<Rightarrow> string \<Rightarrow> int option" where
  "digits_val acc [] = Some acc"
| "digits_val acc (c # cs) =
     (case digit_val c of None \<Rightarrow> None | Some v \<Rightarrow> digits_val (10 * acc + v) cs)"

lemma digit_val_digit: "0 \<le> k \<Longrightarrow> k \<le> 9 \<Longrightarrow> digit_val (digit k) = Some k"
proof -
  assume k: "0 \<le> k" "k \<le> 9"
  then have "48 + nat k < 256" by simp
  then have "(of_char (char_of (48 + nat k)) :: nat) = 48 + nat k" by (simp add: of_char_of)
  with k show ?thesis by (simp add: digit_val_def digit_def Let_def)
qed

lemma length_pad [simp]: "length (pad w v) = w"
  by (induction w arbitrary: v) auto

lemma digits_val_append:
  "digits_val acc (xs @ ys) = (case digits_val acc xs of None \<Rightarrow> None | Some a \<Rightarrow> digits_val a ys)"
  by (induction xs arbitrary: acc) (auto split: option.splits)

lemma digits_val_pad: "0 \<le> v \<Longrightarrow> v < 10 ^ w \<Longrightarrow> digits_val acc (pad w v) = Some (acc * 10 ^ w + v)"
proof (induction w arbitrary: v)
  case 0
  then show ?case by simp
next
  case (Suc w)
  then have "digits_val acc (pad w (v div 10)) = Some (acc * 10 ^ w + v div 10)"
    by (intro Suc.IH) auto
  moreover have "digit_val (digit (v mod 10)) = Some (v mod 10)"
    by (rule digit_val_digit) (simp_all add: Suc.prems)
  ultimately show ?case by (simp add: digits_val_append algebra_simps)
qed

section \<open>toISOString and Date.parse\<close>

definition max_time :: int where
  "max_time = 8640000000000000"

definition year_string :: "int \<Rightarrow> string" where
  "year_string y = (if 0 \<le> y \<and> y \<le> 9999 then pad 4 y
     else (if y < 0 then CHR ''-'' else CHR ''+'') # pad 6 \<bar>y\<bar>)"

definition rest_string :: "int \<Rightarrow> int \<Rightarrow> int \<Rightarrow> int \<Rightarrow> int \<Rightarrow> int \<Rightarrow> string" where
  "rest_string mo d h mi s ms =
     ''-'' @ pad 2 mo @ ''-'' @ pad 2 d @ ''T'' @ pad 2 h @ '':'' @ pad 2 mi @ '':'' @ pad 2 s
     @ ''.'' @ pad 3 ms @ ''Z''"

definition to_iso :: "int \<Rightarrow> string" where
  "to_iso t = (let n = t div 86400000; r = t mod 86400000 in
     case civil n of (y, mo, d) \<Rightarrow>
       year_string y @ rest_string mo d (r div 3600000) (r div 60000 mod 60) (r div 1000 mod 60) (r mod 1000))"

definition parse_rest :: "int \<Rightarrow> string \<Rightarrow> int option" where
  "parse_rest y s =
     (if length s = 20 \<and> s ! 0 = CHR ''-'' \<and> s ! 3 = CHR ''-'' \<and> s ! 6 = CHR ''T'' \<and> s ! 9 = CHR '':''
         \<and> s ! 12 = CHR '':'' \<and> s ! 15 = CHR ''.'' \<and> s ! 19 = CHR ''Z''
      then (case (digits_val 0 (take 2 (drop 1 s)), digits_val 0 (take 2 (drop 4 s)),
                  digits_val 0 (take 2 (drop 7 s)), digits_val 0 (take 2 (drop 10 s)),
                  digits_val 0 (take 2 (drop 13 s)), digits_val 0 (take 3 (drop 16 s))) of
              (Some mo, Some d, Some h, Some mi, Some sec, Some ms) \<Rightarrow>
                if 1 \<le> mo \<and> mo \<le> 12 \<and> 1 \<le> d \<and> d \<le> 31 \<and> mi \<le> 59 \<and> sec \<le> 59
                   \<and> (h \<le> 23 \<or> h = 24 \<and> mi = 0 \<and> sec = 0 \<and> ms = 0)
                then let t = make_day y mo d * 86400000 + h * 3600000 + mi * 60000 + sec * 1000 + ms
                     in if \<bar>t\<bar> \<le> max_time then Some t else None
                else None
            | _ \<Rightarrow> None)
      else None)"

definition date_parse :: "string \<Rightarrow> int option" where
  "date_parse s =
     (if length s = 24 then
        (case digits_val 0 (take 4 s) of None \<Rightarrow> None | Some y \<Rightarrow> parse_rest y (drop 4 s))
      else if length s = 27 \<and> (s ! 0 = CHR ''+'' \<or> s ! 0 = CHR ''-'') then
        (case digits_val 0 (take 6 (drop 1 s)) of
           None \<Rightarrow> None
         | Some y \<Rightarrow> if s ! 0 = CHR ''-'' \<and> y = 0 then None
                    else parse_rest (if s ! 0 = CHR ''-'' then - y else y) (drop 7 s))
      else None)"

lemma length_rest_string [simp]: "length (rest_string mo d h mi s ms) = 20"
  by (simp add: rest_string_def)

lemma pad2: "pad 2 v = [digit (v div 10 mod 10), digit (v mod 10)]"
  by (simp add: numeral_2_eq_2)

lemma pad3: "pad 3 v = [digit (v div 10 div 10 mod 10), digit (v div 10 mod 10), digit (v mod 10)]"
  by (simp add: numeral_3_eq_3)

lemma digits_val_pad0: "0 \<le> v \<Longrightarrow> v < 10 ^ w \<Longrightarrow> digits_val 0 (pad w v) = Some v"
  by (simp add: digits_val_pad)

lemma parse_rest_string:
  assumes f: "1 \<le> mo" "mo \<le> 12" "1 \<le> d" "d \<le> 31" "0 \<le> h" "h \<le> 23" "0 \<le> mi" "mi \<le> 59"
      "0 \<le> s" "s \<le> 59" "0 \<le> ms" "ms \<le> 999"
    and t: "t = make_day y mo d * 86400000 + h * 3600000 + mi * 60000 + s * 1000 + ms" "\<bar>t\<bar> \<le> max_time"
  shows "parse_rest y (rest_string mo d h mi s ms) = Some t"
proof -
  let ?w = "rest_string mo d h mi s ms"
  have "take 2 (drop 1 ?w) = pad 2 mo" "take 2 (drop 4 ?w) = pad 2 d" "take 2 (drop 7 ?w) = pad 2 h"
    "take 2 (drop 10 ?w) = pad 2 mi" "take 2 (drop 13 ?w) = pad 2 s" "take 3 (drop 16 ?w) = pad 3 ms"
    by (simp_all add: rest_string_def pad2 pad3)
  moreover have "digits_val 0 (pad 2 mo) = Some mo" "digits_val 0 (pad 2 d) = Some d"
    "digits_val 0 (pad 2 h) = Some h" "digits_val 0 (pad 2 mi) = Some mi"
    "digits_val 0 (pad 2 s) = Some s" "digits_val 0 (pad 3 ms) = Some ms"
    using f by (auto intro!: digits_val_pad0)
  moreover have "?w ! 0 = CHR ''-''" "?w ! 3 = CHR ''-''" "?w ! 6 = CHR ''T''" "?w ! 9 = CHR '':''"
    "?w ! 12 = CHR '':''" "?w ! 15 = CHR ''.''" "?w ! 19 = CHR ''Z''"
    by (simp_all add: rest_string_def pad2 pad3)
  ultimately show ?thesis using f t by (simp add: parse_rest_def Let_def)
qed

lemma year_range:
  assumes "\<bar>t\<bar> \<le> max_time"
  shows "\<bar>year_from_day (t div 86400000)\<bar> \<le> 300000"
proof -
  define n where "n = t div 86400000"
  have n: "- 100000000 \<le> n" "n \<le> 100000000" using assms by (auto simp: max_time_def n_def)
  define y where "y = year_from_day n"
  have "400 * day_from_year y \<le> 400 * n" "400 * n < 400 * day_from_year (y + 1)"
    using year_from_day_correct [of n] by (auto simp: y_def)
  with day_from_year_bounds [of y] day_from_year_bounds [of "y + 1"] n
  have f: "146097 * (y - 1970) - 700 \<le> 400 * n" "400 * n < 146097 * (y - 1969) + 700"
    by simp_all
  have "- 300000 \<le> y" using f n by (simp add: algebra_simps)
  moreover have "y \<le> 300000" using f n by (simp add: algebra_simps)
  ultimately show ?thesis by (simp add: y_def n_def)
qed

text \<open>A time of day splits into hours, minutes, seconds and milliseconds.\<close>

lemma time_of_day:
  fixes r :: int
  assumes "0 \<le> r" "r < 86400000"
  shows "r = r div 3600000 * 3600000 + r div 60000 mod 60 * 60000 + r div 1000 mod 60 * 1000 + r mod 1000"
    and "r div 3600000 \<le> 23"
proof -
  have "r div 60000 = r div 1000 div 60" "r div 3600000 = r div 60000 div 60"
    by (simp_all add: zdiv_zmult2_eq [symmetric])
  then show "r = r div 3600000 * 3600000 + r div 60000 mod 60 * 60000 + r div 1000 mod 60 * 1000 + r mod 1000"
    using div_mult_mod_eq [of r 1000] div_mult_mod_eq [of "r div 1000" 60] div_mult_mod_eq [of "r div 60000" 60]
    by linarith
  show "r div 3600000 \<le> 23" using zdiv_mono1 [of r 86399999 3600000] assms by simp
qed

lemma date_parse_year:
  assumes "\<bar>y\<bar> \<le> 300000" "length w = 20"
  shows "date_parse (year_string y @ w) = parse_rest y w"
proof (cases "0 \<le> y \<and> y \<le> 9999")
  case True
  then have "digits_val 0 (pad 4 y) = Some y" by (intro digits_val_pad0) auto
  with True assms(2) show ?thesis by (simp add: date_parse_def year_string_def)
next
  case False
  have "digits_val 0 (pad 6 \<bar>y\<bar>) = Some \<bar>y\<bar>" using assms(1) by (intro digits_val_pad0) auto
  with False assms(2) show ?thesis by (auto simp: date_parse_def year_string_def)
qed

theorem date_parse_to_iso:
  assumes t: "\<bar>t\<bar> \<le> max_time"
  shows "date_parse (to_iso t) = Some t"
proof -
  let ?r = "t mod 86400000"
  obtain y mo d where c: "civil (t div 86400000) = (y, mo, d)" by (cases "civil (t div 86400000)")
  note cv = civil_make_day [OF c]
  let ?rest = "rest_string mo d (?r div 3600000) (?r div 60000 mod 60) (?r div 1000 mod 60) (?r mod 1000)"
  have r: "0 \<le> ?r" "?r < 86400000" by simp_all
  note tod = time_of_day [OF r]
  have nn: "0 \<le> ?r div 3600000" using r by (simp add: pos_imp_zdiv_nonneg_iff)
  have sum: "x = m + a + b + c + e" if "x = m + z" "z = a + b + c + e" for x m z a b c e :: int
    using that by simp
  have t_eq: "t = make_day y mo d * 86400000 + ?r div 3600000 * 3600000 + ?r div 60000 mod 60 * 60000
      + ?r div 1000 mod 60 * 1000 + ?r mod 1000"
    unfolding cv(1) by (rule sum [OF _ tod(1)]) simp
  have b: "0 \<le> ?r div 60000 mod 60" "?r div 60000 mod 60 \<le> 59" "0 \<le> ?r div 1000 mod 60"
    "?r div 1000 mod 60 \<le> 59" "0 \<le> ?r mod 1000" "?r mod 1000 \<le> 999"
    using pos_mod_bound [of 60 "?r div 60000"] pos_mod_bound [of 60 "?r div 1000"]
      pos_mod_bound [of 1000 ?r] by simp_all
  have rest: "parse_rest y ?rest = Some t"
    by (rule parse_rest_string [OF cv(2,3,4,5) nn tod(2) b t_eq t])
  have iso: "to_iso t = year_string y @ ?rest" by (simp add: to_iso_def c Let_def)
  have "\<bar>y\<bar> \<le> 300000" using year_range [OF t] cv(6) by simp
  then show ?thesis using rest by (simp add: iso date_parse_year)
qed

definition iso_instant :: "string \<Rightarrow> int option" where
  "iso_instant s = (case date_parse s of None \<Rightarrow> None | Some t \<Rightarrow> if to_iso t = s then Some t else None)"

lemma parse_rest_range: "parse_rest y s = Some t \<Longrightarrow> \<bar>t\<bar> \<le> max_time"
  by (auto simp: parse_rest_def Let_def split: if_splits option.splits)

lemma date_parse_range: "date_parse s = Some t \<Longrightarrow> \<bar>t\<bar> \<le> max_time"
  by (auto simp: date_parse_def parse_rest_range split: if_splits option.splits)

theorem iso_instant_Some: "iso_instant s = Some t \<longleftrightarrow> \<bar>t\<bar> \<le> max_time \<and> s = to_iso t"
  by (auto simp: iso_instant_def date_parse_to_iso split: option.splits if_splits dest: date_parse_range)

lemma iso_instant_to_iso [simp]: "\<bar>t\<bar> \<le> max_time \<Longrightarrow> iso_instant (to_iso t) = Some t"
  by (simp add: iso_instant_Some)

lemma iso_instant_date_parse: "iso_instant s = Some t \<Longrightarrow> date_parse s = Some t"
  by (auto simp: iso_instant_Some date_parse_to_iso)

lemma iso_instant_inj: "iso_instant s = Some t \<Longrightarrow> iso_instant s' = Some t \<Longrightarrow> s = s'"
  by (simp add: iso_instant_Some)

end
