(* ===== verification/Js_Value.thy ===== *)
theory Js_Value
  imports Prelude Js_Number Js_Time
begin

text \<open>
  Values of type \<open>unknown\<close>: what a parser, a store or another module may hand to a validator.
  \<open>JObj\<close> is a plain object with its own enumerable properties in order; functions, class
  instances and symbols are not represented. \<open>get\<close> reads a property of any value, \<open>undefined\<close>
  when it is missing.
\<close>

datatype jval =
    JUndef
  | JNull
  | JBool bool
  | JNum jnum
  | JStr string
  | JArr "jval list"
  | JObj "(string \<times> jval) list"

text \<open>\<open>typeof v === "object" && v !== null && !Array.isArray(v)\<close>\<close>

fun is_record :: "jval \<Rightarrow> bool" where
  "is_record (JObj ps) = True"
| "is_record _ = False"

fun keys :: "jval \<Rightarrow> string list" where
  "keys (JObj ps) = map fst ps"
| "keys _ = []"

fun get :: "jval \<Rightarrow> string \<Rightarrow> jval" where
  "get (JObj ps) k = (case map_of ps k of Some v \<Rightarrow> v | None \<Rightarrow> JUndef)"
| "get _ k = JUndef"

fun str_of :: "jval \<Rightarrow> string option" where
  "str_of (JStr s) = Some s"
| "str_of _ = None"

fun bool_of :: "jval \<Rightarrow> bool option" where
  "bool_of (JBool b) = Some b"
| "bool_of _ = None"

fun arr_of :: "jval \<Rightarrow> jval list option" where
  "arr_of (JArr xs) = Some xs"
| "arr_of _ = None"

fun num_of :: "jval \<Rightarrow> jnum option" where
  "num_of (JNum n) = Some n"
| "num_of _ = None"

lemma str_of_Some: "str_of v = Some s \<longleftrightarrow> v = JStr s"
  by (cases v) auto

lemma bool_of_Some: "bool_of v = Some b \<longleftrightarrow> v = JBool b"
  by (cases v) auto

lemma arr_of_Some: "arr_of v = Some xs \<longleftrightarrow> v = JArr xs"
  by (cases v) auto

lemma num_of_Some: "num_of v = Some n \<longleftrightarrow> v = JNum n"
  by (cases v) auto

text \<open>\<open>String(n)\<close> of a natural number.\<close>

function decimal :: "nat \<Rightarrow> string" where
  "decimal n = (if n < 10 then [digit (int n)] else decimal (n div 10) @ [digit (int (n mod 10))])"
  by pat_completeness auto
termination
  by (relation "measure id") auto

declare decimal.simps [simp del]

end
