(* ===== verification/Webhook.thy ===== *)
theory Webhook
  imports Integration_Errors Js_Text Js_Time Js_Value
begin

text \<open>
  \<open>packages/platform-modules/integration-runtime/src/webhook.ts\<close> and the in-memory replay store of
  \<open>testing.ts\<close>.

  Outside the code: the signature verifier (\<open>verify\<close>, an argument; it may throw, and the buffer
  it is handed may come back changed), SHA-256 (\<open>sha\<close>, on byte strings), the clock (\<open>now\<close>, \<open>None\<close>
  for an invalid date), \<open>new Date(s)\<close> for strings the language leaves to the implementation
  (\<open>date\<close>), and the replay store (\<open>reserve\<close>, which passes its state). Bytes and code units are \<^typ>\<open>char\<close>.
  The locale \<open>replay_store\<close> is the contract the code relies on.
\<close>

section \<open>Data\<close>

datatype raw_body = Bytes string | Not_bytes

record envelope =
  eventId :: string
  nonce :: string
  rawBody :: raw_body
  receivedAt :: string
  signature :: string
  timestamp :: string
  version :: string

record verify_input =
  v_eventId :: string
  v_nonce :: string
  v_rawBody :: string
  v_signature :: string
  v_timestamp :: string
  v_version :: string

record reservation_input =
  expiresAt :: string
  fingerprints :: "string list"

record reservation =
  accepted :: bool
  reservationId :: "string option"

record accepted_webhook =
  bodyDigest :: string
  a_eventId :: string
  protocolVersion :: string
  a_receivedAt :: string
  a_reservationId :: string

record acceptance_options =
  allowedClockSkewMs :: jnum
  maxBodyBytes :: jnum
  replayRetentionMs :: jnum

section \<open>Operations\<close>

definition stable_rx :: rx where
  "stable_rx = Seq (Cls cls_alnum) (rx_upto 0 127 (Cls (cls_alnum @ chars_of ''._:-'')))"

definition stableIdentifier :: "string \<Rightarrow> bool" where
  "stableIdentifier s = rx_test stable_rx s"

definition version_rx :: rx where
  "version_rx = Seq (Seq (Cls (chars_of ''v'')) (Cls [(CHR ''1'', CHR ''9'')])) (rx_star (Cls cls_digit))"

definition valid_request :: "acceptance_options \<Rightarrow> envelope \<Rightarrow> bool" where
  "valid_request opt env =
     (safe_at_least 0 (allowedClockSkewMs opt) \<and> safe_at_least 1 (replayRetentionMs opt)
    \<and> to_int (allowedClockSkewMs opt) * 2 \<le> to_int (replayRetentionMs opt)
    \<and> safe_at_least 1 (maxBodyBytes opt)
    \<and> (case rawBody env of Not_bytes \<Rightarrow> False | Bytes b \<Rightarrow> int (length b) \<le> to_int (maxBodyBytes opt))
    \<and> 1 \<le> length (signature env) \<and> length (signature env) \<le> 8192
    \<and> length (timestamp env) \<le> 64 \<and> length (receivedAt env) \<le> 64
    \<and> stableIdentifier (eventId env) \<and> stableIdentifier (nonce env) \<and> rx_test version_rx (version env))"

definition body :: "envelope \<Rightarrow> string" where
  "body env = (case rawBody env of Bytes b \<Rightarrow> b | Not_bytes \<Rightarrow> [])"

definition fingerprint :: "(string \<Rightarrow> string) \<Rightarrow> string \<Rightarrow> string \<Rightarrow> string \<Rightarrow> string" where
  "fingerprint sha kind ver value = sha (kind @ [CHR 0x00] @ ver @ [CHR 0x00] @ value)"

definition request_fingerprints :: "(string \<Rightarrow> string) \<Rightarrow> envelope \<Rightarrow> string list" where
  "request_fingerprints sha env =
     [fingerprint sha ''event'' (version env) (eventId env), fingerprint sha ''nonce'' (version env) (nonce env)]"

text \<open>The checks on the value the replay store answers with; \<open>None\<close> is any of the thrown errors.\<close>

definition read_reservation :: "jval \<Rightarrow> reservation option" where
  "read_reservation c =
     (if \<not> is_record c then None
      else if ''accepted'' \<notin> set (keys c) \<or> list_ex (\<lambda>k. k \<noteq> ''accepted'' \<and> k \<noteq> ''reservationId'') (keys c)
      then None
      else case bool_of (get c ''accepted'') of
        None \<Rightarrow> None
      | Some acc \<Rightarrow> (let rid = get c ''reservationId'' in
          if rid \<noteq> JUndef \<and> (case str_of rid of None \<Rightarrow> True | Some s \<Rightarrow> \<not> stableIdentifier s) then None
          else if acc \<and> rid = JUndef then None
          else if \<not> acc \<and> rid \<noteq> JUndef then None
          else Some \<lparr>accepted = acc, reservationId = str_of rid\<rparr>))"

text \<open>The part before the verifier: the validated clock readings, or the error.\<close>

definition check_times ::
    "(string \<Rightarrow> int option) \<Rightarrow> int option \<Rightarrow> acceptance_options \<Rightarrow> envelope \<Rightarrow> thrown + int \<times> int" where
  "check_times date now opt env = (case (now, date (timestamp env), date (receivedAt env)) of
     (Some n, Some signed, Some received) \<Rightarrow>
       (let expires = n + to_int (replayRetentionMs opt) in
        if \<bar>expires\<bar> > max_safe \<or> expires > max_time \<or> \<bar>n - signed\<bar> > to_int (allowedClockSkewMs opt)
        then Inl (runtime_error Signature_invalid)
        else Inr (expires, received))
   | _ \<Rightarrow> Inl (runtime_error Signature_invalid))"

definition verify_request ::
    "(string \<Rightarrow> string) \<Rightarrow> (verify_input \<Rightarrow> (string + bool) \<times> string) \<Rightarrow> envelope \<Rightarrow> bool" where
  "verify_request sha verify env =
     (case verify \<lparr>v_eventId = eventId env, v_nonce = nonce env, v_rawBody = body env,
                   v_signature = signature env, v_timestamp = timestamp env, v_version = version env\<rparr> of
        (Inl e, b) \<Rightarrow> False
      | (Inr verified, b) \<Rightarrow> verified \<and> sha b = sha (body env))"

definition acceptVerifiedWebhook ::
    "(string \<Rightarrow> string) \<Rightarrow> (verify_input \<Rightarrow> (string + bool) \<times> string)
     \<Rightarrow> ('s \<Rightarrow> reservation_input \<Rightarrow> (string + jval) \<times> 's) \<Rightarrow> (string \<Rightarrow> int option)
     \<Rightarrow> int option \<Rightarrow> acceptance_options \<Rightarrow> envelope \<Rightarrow> 's \<Rightarrow> (thrown + accepted_webhook) \<times> 's" where
  "acceptVerifiedWebhook sha verify reserve date now opt env s =
     (if \<not> valid_request opt env then (Inl (runtime_error Invalid_input), s)
      else case check_times date now opt env of
        Inl e \<Rightarrow> (Inl e, s)
      | Inr (expires, received) \<Rightarrow>
         if \<not> verify_request sha verify env then (Inl (runtime_error Signature_invalid), s)
         else (case reserve s \<lparr>expiresAt = to_iso expires, fingerprints = request_fingerprints sha env\<rparr> of
             (Inl e, s') \<Rightarrow> (Inl (retryable_error Upstream_unavailable), s')
           | (Inr candidate, s') \<Rightarrow> (case read_reservation candidate of
               None \<Rightarrow> (Inl (retryable_error Upstream_unavailable), s')
             | Some r \<Rightarrow>
                 if \<not> accepted r then (Inl (runtime_error Replay_detected), s')
                 else (Inr \<lparr>bodyDigest = sha (body env), a_eventId = eventId env,
                            protocolVersion = version env, a_receivedAt = to_iso received,
                            a_reservationId = the (reservationId r)\<rparr>, s'))))"

section \<open>The in-memory replay store\<close>

record memory_replay =
  held :: "string list"
  sequence :: nat

definition memory_reserve :: "memory_replay \<Rightarrow> reservation_input \<Rightarrow> (string + jval) \<times> memory_replay" where
  "memory_reserve s i =
     (if list_ex (\<lambda>f. f \<in> set (held s)) (fingerprints i) then (Inr (JObj [(''accepted'', JBool False)]), s)
      else let n = sequence s + 1 in
        (Inr (JObj [(''accepted'', JBool True), (''reservationId'', JStr (''fixture-'' @ decimal n))]),
         s\<lparr>held := foldl (\<lambda>h f. List.insert f h) (held s) (fingerprints i), sequence := n\<rparr>))"

definition empty_replay :: memory_replay where
  "empty_replay = \<lparr>held = [], sequence = 0\<rparr>"

text \<open>A service handling requests one after the other, each with its clock reading and verifier.\<close>

fun accept_all ::
    "(string \<Rightarrow> string) \<Rightarrow> ('s \<Rightarrow> reservation_input \<Rightarrow> (string + jval) \<times> 's) \<Rightarrow> (string \<Rightarrow> int option)
     \<Rightarrow> acceptance_options \<Rightarrow> (int option \<times> (verify_input \<Rightarrow> (string + bool) \<times> string) \<times> envelope) list
     \<Rightarrow> 's \<Rightarrow> (thrown + accepted_webhook) list \<times> 's" where
  "accept_all sha reserve date opt [] s = ([], s)"
| "accept_all sha reserve date opt ((now, verify, env) # rs) s =
     (case acceptVerifiedWebhook sha verify reserve date now opt env s of
        (r, s1) \<Rightarrow> (case accept_all sha reserve date opt rs s1 of (out, s2) \<Rightarrow> (r # out, s2)))"

section \<open>The contract of a replay store\<close>

definition grants :: "string + jval \<Rightarrow> bool" where
  "grants a = (case a of Inl e \<Rightarrow> False
     | Inr c \<Rightarrow> (case read_reservation c of None \<Rightarrow> False | Some r \<Rightarrow> accepted r))"

locale replay_store =
  fixes reserve :: "'s \<Rightarrow> reservation_input \<Rightarrow> (string + jval) \<times> 's"
    and reserved :: "'s \<Rightarrow> string set"
  assumes granted_were_free: "reserve s i = (a, s') \<Longrightarrow> grants a \<Longrightarrow> reserved s \<inter> set (fingerprints i) = {}"
    and granted_are_held: "reserve s i = (a, s') \<Longrightarrow> grants a \<Longrightarrow> set (fingerprints i) \<subseteq> reserved s'"
    and reservations_stay: "reserve s i = (a, s') \<Longrightarrow> reserved s \<subseteq> reserved s'"
begin

lemma accepted_reserves:
  assumes "acceptVerifiedWebhook sha verify reserve date now opt env s = (Inr a, s')"
  shows "reserved s \<inter> set (request_fingerprints sha env) = {}"
    and "set (request_fingerprints sha env) \<subseteq> reserved s'"
  using assms granted_were_free granted_are_held
  by (auto simp: acceptVerifiedWebhook_def grants_def split: if_splits sum.splits prod.splits option.splits)
    fastforce+

lemma accept_keeps:
  "acceptVerifiedWebhook sha verify reserve date now opt env s = (r, s') \<Longrightarrow> reserved s \<subseteq> reserved s'"
  using reservations_stay
  by (auto simp: acceptVerifiedWebhook_def split: if_splits sum.splits prod.splits option.splits)

text \<open>A request whose fingerprint is held is never accepted later.\<close>

lemma held_never_accepted:
  "accept_all sha reserve date opt rs s = (out, s') \<Longrightarrow> f \<in> reserved s \<Longrightarrow> j < length rs
   \<Longrightarrow> f \<in> set (request_fingerprints sha (snd (snd (rs ! j)))) \<Longrightarrow> \<exists>e. out ! j = Inl e"
proof (induction rs arbitrary: s out s' j)
  case Nil
  then show ?case by simp
next
  case (Cons q rs)
  obtain now verify env where q: "q = (now, verify, env)" using prod_cases3 by blast
  obtain r s1 where a: "acceptVerifiedWebhook sha verify reserve date now opt env s = (r, s1)" by fastforce
  obtain out2 s2 where b: "accept_all sha reserve date opt rs s1 = (out2, s2)" by fastforce
  have out: "out = r # out2" using Cons.prems(1) q a b by simp
  show ?case
  proof (cases j)
    case 0
    with Cons.prems(2,4) accepted_reserves(1) [of sha verify date now opt env s] a q out
    show ?thesis by (cases r) auto
  next
    case (Suc i)
    with Cons.prems(3,4) Cons.IH [OF b] accept_keeps [OF a] Cons.prems(2) q out show ?thesis by auto
  qed
qed

lemma no_replay:
  "accept_all sha reserve date opt rs s = (out, s') \<Longrightarrow> i < j \<Longrightarrow> j < length rs \<Longrightarrow> out ! i = Inr a
   \<Longrightarrow> f \<in> set (request_fingerprints sha (snd (snd (rs ! i))))
   \<Longrightarrow> f \<in> set (request_fingerprints sha (snd (snd (rs ! j)))) \<Longrightarrow> \<exists>e. out ! j = Inl e"
proof (induction rs arbitrary: s out s' i j)
  case Nil
  then show ?case by simp
next
  case (Cons q rs)
  obtain now verify env where q: "q = (now, verify, env)" using prod_cases3 by blast
  obtain r s1 where r: "acceptVerifiedWebhook sha verify reserve date now opt env s = (r, s1)" by fastforce
  obtain out2 s2 where b: "accept_all sha reserve date opt rs s1 = (out2, s2)" by fastforce
  have out: "out = r # out2" using Cons.prems(1) q r b by simp
  from Cons.prems(2) obtain j' where j: "j = Suc j'" by (cases j) auto
  show ?case
  proof (cases i)
    case 0
    with Cons.prems(4) out r have "acceptVerifiedWebhook sha verify reserve date now opt env s = (Inr a, s1)"
      by simp
    from accepted_reserves(2) [OF this] have "f \<in> reserved s1" using Cons.prems(5) 0 q by auto
    from held_never_accepted [OF b this] Cons.prems(3,6) j out show ?thesis by simp
  next
    case (Suc i')
    with Cons.IH [OF b, of i' j'] Cons.prems j out show ?thesis by simp
  qed
qed

end

lemma set_held: "set (foldl (\<lambda>h f. List.insert f h) h fs) = set h \<union> set fs"
  by (induction fs arbitrary: h) auto

interpretation memory: replay_store memory_reserve "\<lambda>s. set (held s)"
proof unfold_locales
  fix s i a s'
  assume r: "memory_reserve s i = (a, s')"
  show "set (held s) \<subseteq> set (held s')"
    using r by (auto simp: memory_reserve_def Let_def set_held split: if_splits)
  assume g: "grants a"
  have "\<not> grants (Inr (JObj [(''accepted'', JBool False)]))"
    by (simp add: grants_def read_reservation_def)
  with r g show "set (held s) \<inter> set (fingerprints i) = {}" "set (fingerprints i) \<subseteq> set (held s')"
    by (auto simp: memory_reserve_def Let_def set_held list_ex_iff split: if_splits)
qed

section \<open>Properties\<close>

text \<open>
  A webhook is accepted only after every guard: the request is well formed and fits
  the body limit, it was signed within the allowed clock skew, the verifier accepted exactly the
  received fields and bytes, and the replay store granted a reservation for the fingerprints of
  this event and this nonce, with an identifier; in every other case but a failed or refused
  reservation the replay store was not touched.
\<close>

theorem webhook_acceptance:
  assumes "acceptVerifiedWebhook sha verify reserve date now opt env s = (r, s')"
  shows "(\<forall>a. r = Inr a \<longrightarrow> valid_request opt env \<and> verify_request sha verify env
      \<and> (\<exists>n signed received c. now = Some n \<and> date (timestamp env) = Some signed
           \<and> date (receivedAt env) = Some received \<and> \<bar>n - signed\<bar> \<le> to_int (allowedClockSkewMs opt)
           \<and> reserve s \<lparr>expiresAt = to_iso (n + to_int (replayRetentionMs opt)),
                        fingerprints = request_fingerprints sha env\<rparr> = (Inr c, s')
           \<and> read_reservation c = Some \<lparr>accepted = True, reservationId = Some (a_reservationId a)\<rparr>
           \<and> a_receivedAt a = to_iso received)
      \<and> bodyDigest a = sha (body env) \<and> a_eventId a = eventId env \<and> protocolVersion a = version env
      \<and> stableIdentifier (a_reservationId a))
    \<and> (\<forall>e. r = Inl e \<and> e \<notin> {retryable_error Upstream_unavailable, runtime_error Replay_detected} \<longrightarrow> s' = s)"
proof (intro conjI allI impI)
  have rid: "reservationId x = Some (the (reservationId x)) \<and> stableIdentifier (the (reservationId x))"
    if "read_reservation c = Some x" "accepted x" for c x
    using that
    by (cases "get c ''reservationId''")
      (auto simp: read_reservation_def Let_def split: if_splits option.splits)
  {
    fix a assume a: "r = Inr a"
    from assms a obtain expires received c x where
      ok: "valid_request opt env" "check_times date now opt env = Inr (expires, received)"
        "verify_request sha verify env"
        "reserve s \<lparr>expiresAt = to_iso expires, fingerprints = request_fingerprints sha env\<rparr> = (Inr c, s')"
        "read_reservation c = Some x" "accepted x"
        "a = \<lparr>bodyDigest = sha (body env), a_eventId = eventId env, protocolVersion = version env,
              a_receivedAt = to_iso received, a_reservationId = the (reservationId x)\<rparr>"
      by (auto simp: acceptVerifiedWebhook_def split: if_splits sum.splits prod.splits option.splits)
    from rid [OF ok(5,6)] ok(6) have x: "x = \<lparr>accepted = True, reservationId = Some (the (reservationId x))\<rparr>"
      by (cases x) simp
    from ok(2) obtain n signed where t: "now = Some n" "date (timestamp env) = Some signed"
      "date (receivedAt env) = Some received" "expires = n + to_int (replayRetentionMs opt)"
      "\<bar>n - signed\<bar> \<le> to_int (allowedClockSkewMs opt)"
      by (auto simp: check_times_def Let_def split: option.splits if_splits)
    show "valid_request opt env" "verify_request sha verify env" "bodyDigest a = sha (body env)"
      "a_eventId a = eventId env" "protocolVersion a = version env"
      using ok by simp_all
    show "stableIdentifier (a_reservationId a)" using rid [OF ok(5,6)] ok(7) by simp
    show "\<exists>n signed received c. now = Some n \<and> date (timestamp env) = Some signed
           \<and> date (receivedAt env) = Some received \<and> \<bar>n - signed\<bar> \<le> to_int (allowedClockSkewMs opt)
           \<and> reserve s \<lparr>expiresAt = to_iso (n + to_int (replayRetentionMs opt)),
                        fingerprints = request_fingerprints sha env\<rparr> = (Inr c, s')
           \<and> read_reservation c = Some \<lparr>accepted = True, reservationId = Some (a_reservationId a)\<rparr>
           \<and> a_receivedAt a = to_iso received"
      using ok t x by auto
  }
  fix e assume "r = Inl e \<and> e \<notin> {retryable_error Upstream_unavailable, runtime_error Replay_detected}"
  with assms show "s' = s"
    by (auto simp: acceptVerifiedWebhook_def split: if_splits sum.splits prod.splits option.splits)
qed


text \<open>A concrete service: an identity "digest", a verifier that accepts, two copies of one event.\<close>

definition witness_envelope :: envelope where
  "witness_envelope = \<lparr>eventId = ''evt-1'', nonce = ''n-1'', rawBody = Bytes ''{}'', receivedAt = ''b'',
     signature = ''s'', timestamp = ''a'', version = ''v1''\<rparr>"

definition witness_acceptance :: acceptance_options where
  "witness_acceptance = \<lparr>allowedClockSkewMs = Num 100, maxBodyBytes = Num 10, replayRetentionMs = Num 1000\<rparr>"

definition witness_date :: "string \<Rightarrow> int option" where
  "witness_date s = (if s = ''a'' then Some 50 else if s = ''b'' then Some 60 else None)"

definition witness_request :: "int option \<times> (verify_input \<Rightarrow> (string + bool) \<times> string) \<times> envelope" where
  "witness_request = (Some 60, \<lambda>v. (Inr True, v_rawBody v), witness_envelope)"

definition witness_accepted :: accepted_webhook where
  "witness_accepted = \<lparr>bodyDigest = ''{}'', a_eventId = ''evt-1'', protocolVersion = ''v1'',
     a_receivedAt = ''1970-01-01T00:00:00.060Z'', a_reservationId = ''fixture-1''\<rparr>"

definition witness_held :: memory_replay where
  "witness_held = \<lparr>held = rev (request_fingerprints id witness_envelope), sequence = 1\<rparr>"

definition witness_answer :: jval where
  "witness_answer = JObj [(''accepted'', JBool True), (''reservationId'', JStr ''fixture-1'')]"

lemma witness_steps:
  "valid_request witness_acceptance witness_envelope"
  "check_times witness_date (Some 60) witness_acceptance witness_envelope = Inr (1060, 60)"
  "verify_request id (\<lambda>v. (Inr True, v_rawBody v)) witness_envelope"
  "memory_reserve empty_replay \<lparr>expiresAt = to_iso 1060, fingerprints = request_fingerprints id witness_envelope\<rparr>
     = (Inr witness_answer, witness_held)"
  "memory_reserve witness_held \<lparr>expiresAt = to_iso 1060, fingerprints = request_fingerprints id witness_envelope\<rparr>
     = (Inr (JObj [(''accepted'', JBool False)]), witness_held)"
  "read_reservation witness_answer = Some \<lparr>accepted = True, reservationId = Some ''fixture-1''\<rparr>"
  "read_reservation (JObj [(''accepted'', JBool False)]) = Some \<lparr>accepted = False, reservationId = None\<rparr>"
  "to_iso 60 = ''1970-01-01T00:00:00.060Z''"
  by code_simp+

lemma witness_fields:
  "body witness_envelope = ''{}''" "eventId witness_envelope = ''evt-1''" "version witness_envelope = ''v1''"
  by (simp_all add: witness_envelope_def body_def)

lemma witness_acceptance_run:
  "acceptVerifiedWebhook id (\<lambda>v. (Inr True, v_rawBody v)) memory_reserve witness_date (Some 60)
     witness_acceptance witness_envelope empty_replay = (Inr witness_accepted, witness_held)"
  by (simp add: acceptVerifiedWebhook_def witness_steps witness_fields witness_accepted_def)

lemma witness_service_run:
  "accept_all id memory_reserve witness_date witness_acceptance [witness_request, witness_request] empty_replay
   = ([Inr witness_accepted, Inl (runtime_error Replay_detected)], witness_held)"
  using witness_acceptance_run
  by (simp add: witness_request_def)
    (simp add: acceptVerifiedWebhook_def witness_steps)

theorem webhook_acceptance_witness:
  "stableIdentifier (a_reservationId witness_accepted) \<and> valid_request witness_acceptance witness_envelope"
  using webhook_acceptance [OF witness_acceptance_run] by blast


end
