(* ===== verification/Org_Types.thy ===== *)
theory Org_Types
  imports Prelude Js_Text Js_Time Js_Number
begin

text \<open>
  \<open>packages/platform-modules/organization/src/\<close>: \<open>types.ts\<close>, \<open>errors.ts\<close> and \<open>validation.ts\<close>.

  The interfaces extending \<open>EffectiveInterval\<close> are records extending \<open>interval\<close>. A create command
  is its \<open>CommandMetadata\<close> together with the entity it carries (the code splits it the same way,
  in \<open>#withoutMetadata\<close>).
\<close>

section \<open>Data\<close>

datatype org_error_code =
    Assignment_not_active
  | Conflicting_subject_association
  | Effective_interval_invalid
  | Employment_not_active
  | Entity_conflict
  | Entity_not_found
  | Idempotency_conflict
  | Organization_hierarchy_cycle
  | Organization_path_invalid
  | Subject_not_associated

text \<open>\<open>External\<close> is an error of another module: the authorizer's refusal.\<close>

datatype org_error = OrganizationError org_error_code | External string

record interval =
  effectiveFrom :: string
  effectiveTo :: "string option"

record authentication_subject =
  issuer :: string
  subject :: string

datatype actor_type = Authenticated_subject | System

record actor_reference =
  actorId :: string
  actorType :: actor_type

record command_metadata =
  actor :: actor_reference
  operationId :: string
  reason :: string
  traceId :: string

record authorization_request =
  ar_action :: string
  ar_actor :: actor_reference
  ar_entityId :: string
  ar_entityType :: string
  ar_operationId :: string

record workforce_person =
  wp_id :: string
  recordedAt :: string

record employment = interval +
  em_id :: string
  em_person :: string

record organization_unit = interval +
  ou_id :: string

record placement = interval +
  pl_unit :: string
  pl_parent :: "string option"
  pl_id :: string

record position = interval +
  po_unit :: string
  po_id :: string

record assignment = interval +
  as_id :: string
  as_employment :: string
  as_unit :: string
  as_position :: string
  as_person :: string

record association = interval +
  sa_issuer :: string
  sa_subject :: string
  sa_id :: string
  sa_person :: string

record assignment_reference =
  ref_assignment :: string
  ref_employment :: string
  ref_unit :: string
  ref_position :: string

record workforce_context =
  ctx_assignments :: "assignment_reference list"
  ctx_employmentIds :: "string list"
  ctx_resolvedAt :: string
  ctx_subject :: authentication_subject
  ctx_person :: string

record close_command =
  cl_effectiveTo :: string
  cl_factId :: string

section \<open>Validation\<close>

definition requireId :: "string \<Rightarrow> org_error + unit" where
  "requireId v = check (rx_test UUID_I v) (OrganizationError Entity_conflict)"

definition requireText :: "string \<Rightarrow> nat \<Rightarrow> org_error + unit" where
  "requireText v maximum =
     (if length (trim v) = 0 \<or> maximum < length v then Inl (OrganizationError Entity_conflict) else Inr ())"

text \<open>
  \<open>Date.parse\<close>. Outside the ISO format its result is left to the implementation; the validators
  accept canonical instants only, where it is \<^const>\<open>date_parse\<close>.
\<close>

definition parse :: "string \<Rightarrow> jnum" where
  "parse s = (case date_parse s of Some t \<Rightarrow> Num (of_int t) | None \<Rightarrow> NaN)"

definition requireTimestamp :: "string \<Rightarrow> org_error + int" where
  "requireTimestamp v = (case date_parse v of
     None \<Rightarrow> Inl (OrganizationError Effective_interval_invalid)
   | Some t \<Rightarrow> if to_iso t \<noteq> v then Inl (OrganizationError Effective_interval_invalid) else Inr t)"

definition requireInterval :: "'a interval_scheme \<Rightarrow> org_error + unit" where
  "requireInterval i = bindR (requireTimestamp (effectiveFrom i)) (\<lambda>from.
     case effectiveTo i of
       None \<Rightarrow> Inr ()
     | Some e \<Rightarrow> bindR (requireTimestamp e) (\<lambda>to.
         if to \<le> from then Inl (OrganizationError Effective_interval_invalid) else Inr ()))"

definition isActive :: "'a interval_scheme \<Rightarrow> string \<Rightarrow> bool" where
  "isActive i at' = (let instant = parse at' in
     js_leq (parse (effectiveFrom i)) instant
     \<and> (case effectiveTo i of None \<Rightarrow> True | Some e \<Rightarrow> js_less instant (parse e)))"

definition end_of :: "'a interval_scheme \<Rightarrow> jnum" where
  "end_of i = (case effectiveTo i of None \<Rightarrow> PosInf | Some e \<Rightarrow> if e = [] then PosInf else parse e)"

definition intervalsOverlap :: "'a interval_scheme \<Rightarrow> 'b interval_scheme \<Rightarrow> bool" where
  "intervalsOverlap l r =
     (js_less (parse (effectiveFrom l)) (end_of r) \<and> js_less (parse (effectiveFrom r)) (end_of l))"

definition intervalContains :: "'a interval_scheme \<Rightarrow> 'b interval_scheme \<Rightarrow> bool" where
  "intervalContains container inner =
     (if js_less (parse (effectiveFrom inner)) (parse (effectiveFrom container)) then False
      else case effectiveTo container of
        None \<Rightarrow> True
      | Some e \<Rightarrow> (case effectiveTo inner of
          None \<Rightarrow> False
        | Some e' \<Rightarrow> js_leq (parse e') (parse e)))"

section \<open>What the intervals mean\<close>

text \<open>
  A valid interval is a non-empty half-open set of instants. The three predicates of the code
  decide membership, intersection and inclusion of these sets.
\<close>

definition ival :: "'a interval_scheme \<Rightarrow> bool" where
  "ival i = (requireInterval i = Inr ())"

definition instants :: "'a interval_scheme \<Rightarrow> int set" where
  "instants i = {t. (\<exists>f. iso_instant (effectiveFrom i) = Some f \<and> f \<le> t)
     \<and> opt_all (\<lambda>e. \<exists>u. iso_instant e = Some u \<and> t < u) (effectiveTo i)}"

lemma requireTimestamp_Inr: "requireTimestamp v = Inr t \<longleftrightarrow> iso_instant v = Some t"
  by (auto simp: requireTimestamp_def iso_instant_def split: option.splits if_splits)

lemma requireTimestamp_Inl:
  "requireTimestamp v = Inl e \<longleftrightarrow> iso_instant v = None \<and> e = OrganizationError Effective_interval_invalid"
  by (auto simp: requireTimestamp_def iso_instant_def split: option.splits if_splits)

lemma parse_iso: "iso_instant s = Some t \<Longrightarrow> parse s = Num (of_int t)"
  by (auto simp: iso_instant_def parse_def split: option.splits if_splits)

lemma ival_from: "ival i \<Longrightarrow> \<exists>f. iso_instant (effectiveFrom i) = Some f"
  by (auto simp: ival_def requireInterval_def result_simps requireTimestamp_Inr)

lemma ival_cases:
  assumes "ival i"
  obtains (forever) f where "iso_instant (effectiveFrom i) = Some f" "effectiveTo i = None"
      "instants i = {f ..}"
  | (until) f e u where "iso_instant (effectiveFrom i) = Some f" "effectiveTo i = Some e"
      "iso_instant e = Some u" "f < u" "e \<noteq> []" "instants i = {f ..< u}"
proof -
  have "iso_instant [] = None" by (simp add: iso_instant_def date_parse_def)
  then have ne: "iso_instant e = Some u \<Longrightarrow> e \<noteq> []" for e u by auto
  show thesis
  proof (cases "effectiveTo i")
    case None
    with assms show thesis
      by (auto simp: ival_def requireInterval_def result_simps requireTimestamp_Inr instants_def intro!: forever)
  next
    case (Some e)
    with assms ne show thesis
      by (auto simp: ival_def requireInterval_def result_simps requireTimestamp_Inr instants_def
          intro!: until split: if_splits)
  qed
qed

lemma instants_nonempty: "ival i \<Longrightarrow> instants i \<noteq> {}"
  by (erule ival_cases) auto

lemma isActive_iff:
  "ival i \<Longrightarrow> iso_instant a = Some t \<Longrightarrow> isActive i a \<longleftrightarrow> t \<in> instants i"
  by (erule ival_cases) (auto simp: isActive_def parse_iso Let_def)

lemma intervalsOverlap_iff:
  assumes "ival i" "ival j"
  shows "intervalsOverlap i j \<longleftrightarrow> instants i \<inter> instants j \<noteq> {}"
proof -
  have e: "{a ..< b} \<inter> {c ..< d} \<noteq> {} \<longleftrightarrow> a < d \<and> c < b" if "a < b" "c < d" for a b c d :: int
    using that by (auto simp: disjoint_iff intro: exI [of _ "max a c"])
  have e1: "{a ..< b} \<inter> {c ..} \<noteq> {} \<longleftrightarrow> c < b" if "a < b" for a b c :: int
    using that by (auto simp: disjoint_iff intro: exI [of _ "max a c"])
  have e2: "{a ..} \<inter> {c ..} \<noteq> {}" for a c :: int
    by (auto simp: disjoint_iff intro: exI [of _ "max a c"])
  from assms(1) show ?thesis
  proof (cases rule: ival_cases)
    case (forever f)
    note a = this
    from assms(2) show ?thesis
    proof (cases rule: ival_cases)
      case (forever g)
      with a e2 [of f g] show ?thesis by (simp add: intervalsOverlap_def end_of_def parse_iso)
    next
      case (until g e v)
      with a e1 [of g v f] show ?thesis
        by (simp add: intervalsOverlap_def end_of_def parse_iso Int_commute)
    qed
  next
    case (until f e u)
    note a = this
    from assms(2) show ?thesis
    proof (cases rule: ival_cases)
      case (forever g)
      with a e1 [of f u g] show ?thesis by (simp add: intervalsOverlap_def end_of_def parse_iso)
    next
      case (until g e' v)
      with a e [of f u g v] show ?thesis by (simp add: intervalsOverlap_def end_of_def parse_iso)
    qed
  qed
qed

lemma intervalContains_iff:
  assumes "ival i" "ival j"
  shows "intervalContains i j \<longleftrightarrow> instants j \<subseteq> instants i"
proof -
  from assms(1) show ?thesis
  proof (cases rule: ival_cases)
    case (forever f)
    note a = this
    from assms(2) show ?thesis
      by (cases rule: ival_cases) (use a in \<open>auto simp: intervalContains_def parse_iso\<close>)
  next
    case (until f e u)
    note a = this
    from assms(2) show ?thesis
    proof (cases rule: ival_cases)
      case (forever g)
      have "\<not> {g ..} \<subseteq> {f ..< u}"
      proof
        assume "{g ..} \<subseteq> {f ..< u}"
        then have "max g u \<in> {f ..< u}" by (rule subsetD) simp
        then show False by simp
      qed
      with a forever show ?thesis by (auto simp: intervalContains_def parse_iso)
    next
      case (until g e' v)
      with a show ?thesis by (auto simp: intervalContains_def parse_iso)
    qed
  qed
qed

text \<open>
  On intervals the validator accepts, the three predicates the whole module decides
  time with are exactly membership, intersection and inclusion of the half-open sets of instants
  the intervals stand for.
\<close>

theorem interval_predicates:
  assumes "ival i" and "ival j" and "iso_instant a = Some t"
  shows "(isActive i a \<longleftrightarrow> t \<in> instants i)
    \<and> (intervalsOverlap i j \<longleftrightarrow> instants i \<inter> instants j \<noteq> {})
    \<and> (intervalContains i j \<longleftrightarrow> instants j \<subseteq> instants i) \<and> instants i \<noteq> {}"
  using assms by (simp add: isActive_iff intervalsOverlap_iff intervalContains_iff instants_nonempty)

definition witness_interval :: interval where
  "witness_interval = \<lparr>effectiveFrom = ''2026-01-01T00:00:00.000Z'',
     effectiveTo = Some ''2027-01-01T00:00:00.000Z''\<rparr>"

lemma witness_interval_facts:
  "ival witness_interval" "iso_instant ''2026-06-01T00:00:00.000Z'' = Some 1780272000000"
  unfolding ival_def by code_simp+

theorem interval_predicates_witness:
  "isActive witness_interval ''2026-06-01T00:00:00.000Z'' \<longleftrightarrow> 1780272000000 \<in> instants witness_interval"
  using interval_predicates [OF witness_interval_facts(1,1,2)] by blast

end
