(* ===== verification/Org_Store.thy ===== *)
theory Org_Store
  imports Org_Types
begin

text \<open>
  \<open>packages/platform-modules/organization/src/\<close>: \<open>store.ts\<close> and \<open>memory-store.ts\<close>.

  \<open>organization_store\<close> is the TypeScript interface, a record of the operations over a store state
  \<open>'s\<close>. The locale \<open>org_store\<close> is its contract: the abstract facts of a state are eight finite
  maps, \<open>find\<dots>\<close> and \<open>list\<dots>\<close> read them, and \<open>commit\<close> behaves as \<open>spec_commit\<close>. The in-memory
  store is interpreted as an instance.
\<close>

section \<open>Writes\<close>

datatype close_kind =
    Close_assignment
  | Close_employment
  | Close_organization_unit_placement
  | Close_subject_association

datatype organization_write =
    Create_person workforce_person
  | Create_employment employment
  | Create_organization_unit organization_unit placement
  | Create_organization_unit_placement placement
  | Create_position position
  | Create_assignment assignment
  | Create_subject_association association
  | Close close_kind string string "string option"

record organization_commit =
  oc_actor :: actor_reference
  auditAction :: string
  eventType :: string
  fingerprint :: string
  oc_operationId :: string
  oc_reason :: string
  oc_traceId :: string
  oc_write :: organization_write

record 's organization_store =
  commit :: "organization_commit \<Rightarrow> 's \<Rightarrow> (org_error + bool) \<times> 's"
  findAssignment :: "string \<Rightarrow> 's \<Rightarrow> assignment option"
  findEmployment :: "string \<Rightarrow> 's \<Rightarrow> employment option"
  findOrganizationUnit :: "string \<Rightarrow> 's \<Rightarrow> organization_unit option"
  findOrganizationUnitPlacement :: "string \<Rightarrow> 's \<Rightarrow> placement option"
  findPosition :: "string \<Rightarrow> 's \<Rightarrow> position option"
  findSubjectAssociation :: "string \<Rightarrow> 's \<Rightarrow> association option"
  findWorkforcePerson :: "string \<Rightarrow> 's \<Rightarrow> workforce_person option"
  listActiveAssignments :: "string \<Rightarrow> string \<Rightarrow> 's \<Rightarrow> assignment list"
  listActiveEmployments :: "string \<Rightarrow> string \<Rightarrow> 's \<Rightarrow> employment list"
  listActivePlacements :: "string \<Rightarrow> string \<Rightarrow> 's \<Rightarrow> placement list"
  listPlacementChangeTimes :: "string \<Rightarrow> string option \<Rightarrow> 's \<Rightarrow> string list"
  listActiveSubjectAssociations :: "authentication_subject \<Rightarrow> string \<Rightarrow> 's \<Rightarrow> association list"

record write_target =
  effectiveAt :: string
  entityId :: string
  entityType :: string
  target_person :: "string option"

fun close_entity_type :: "close_kind \<Rightarrow> string" where
  "close_entity_type Close_employment = ''employment''"
| "close_entity_type Close_assignment = ''assignment''"
| "close_entity_type Close_organization_unit_placement = ''organization_unit_placement''"
| "close_entity_type Close_subject_association = ''subject_association''"

fun describeOrganizationWrite :: "organization_write \<Rightarrow> write_target" where
  "describeOrganizationWrite (Create_person p) =
     \<lparr>effectiveAt = recordedAt p, entityId = wp_id p, entityType = ''workforce_person'', target_person = Some (wp_id p)\<rparr>"
| "describeOrganizationWrite (Create_employment e) =
     \<lparr>effectiveAt = effectiveFrom e, entityId = em_id e, entityType = ''employment'', target_person = Some (em_person e)\<rparr>"
| "describeOrganizationWrite (Create_organization_unit u p) =
     \<lparr>effectiveAt = effectiveFrom u, entityId = ou_id u, entityType = ''organization_unit'', target_person = None\<rparr>"
| "describeOrganizationWrite (Create_organization_unit_placement p) =
     \<lparr>effectiveAt = effectiveFrom p, entityId = pl_id p, entityType = ''organization_unit_placement'', target_person = None\<rparr>"
| "describeOrganizationWrite (Create_position p) =
     \<lparr>effectiveAt = effectiveFrom p, entityId = po_id p, entityType = ''position'', target_person = None\<rparr>"
| "describeOrganizationWrite (Create_assignment a) =
     \<lparr>effectiveAt = effectiveFrom a, entityId = as_id a, entityType = ''assignment'', target_person = Some (as_person a)\<rparr>"
| "describeOrganizationWrite (Create_subject_association a) =
     \<lparr>effectiveAt = effectiveFrom a, entityId = sa_id a, entityType = ''subject_association'', target_person = Some (sa_person a)\<rparr>"
| "describeOrganizationWrite (Close k to f p) =
     \<lparr>effectiveAt = to, entityId = f, entityType = close_entity_type k,
      target_person = (case p of None \<Rightarrow> None | Some x \<Rightarrow> if x = [] then None else Some x)\<rparr>"

section \<open>The in-memory store\<close>

record memory_store =
  assignments :: "(string \<times> assignment) list"
  associations :: "(string \<times> association) list"
  employments :: "(string \<times> employment) list"
  operations :: "(string \<times> string) list"
  placements :: "(string \<times> placement) list"
  positions :: "(string \<times> position) list"
  units :: "(string \<times> organization_unit) list"
  people :: "(string \<times> workforce_person) list"

definition assertAbsent :: "(string \<times> 'a) list \<Rightarrow> string \<Rightarrow> org_error + unit" where
  "assertAbsent m i = (if map_of m i \<noteq> None then Inl (OrganizationError Entity_conflict) else Inr ())"

definition insert_record :: "(string \<times> 'a) list \<Rightarrow> string \<Rightarrow> 'a \<Rightarrow> org_error + (string \<times> 'a) list" where
  "insert_record m i v = bindR (assertAbsent m i) (\<lambda>_. Inr (AList.update i v m))"

definition close_record ::
    "(string \<times> 'a interval_scheme) list \<Rightarrow> string \<Rightarrow> string \<Rightarrow> org_error + (string \<times> 'a interval_scheme) list" where
  "close_record m i to = (case map_of m i of
     None \<Rightarrow> Inl (OrganizationError Entity_not_found)
   | Some current \<Rightarrow>
       if js_leq (parse to) (parse (effectiveFrom current))
          \<or> (case effectiveTo current of None \<Rightarrow> False | Some e \<Rightarrow> e \<noteq> [] \<and> e \<noteq> to)
       then Inl (OrganizationError Effective_interval_invalid)
       else Inr (AList.update i (current\<lparr>effectiveTo := Some to\<rparr>) m))"

definition same_subject_or_person :: "association \<Rightarrow> association \<Rightarrow> bool" where
  "same_subject_or_person a b =
     (sa_issuer a = sa_issuer b \<and> sa_subject a = sa_subject b \<or> sa_person a = sa_person b)"

fun apply_write :: "organization_write \<Rightarrow> memory_store \<Rightarrow> org_error + memory_store" where
  "apply_write (Create_person p) s =
     bindR (insert_record (people s) (wp_id p) p) (\<lambda>m. Inr (s\<lparr>people := m\<rparr>))"
| "apply_write (Create_employment e) s =
     bindR (insert_record (employments s) (em_id e) e) (\<lambda>m. Inr (s\<lparr>employments := m\<rparr>))"
| "apply_write (Create_organization_unit u p) s =
     bindR (assertAbsent (units s) (ou_id u)) (\<lambda>_.
     bindR (assertAbsent (placements s) (pl_id p)) (\<lambda>_.
     bindR (insert_record (units s) (ou_id u) u) (\<lambda>us.
     bindR (insert_record (placements s) (pl_id p) p) (\<lambda>ps.
       Inr (s\<lparr>units := us, placements := ps\<rparr>)))))"
| "apply_write (Create_organization_unit_placement p) s =
     bindR (insert_record (placements s) (pl_id p) p) (\<lambda>m. Inr (s\<lparr>placements := m\<rparr>))"
| "apply_write (Create_position p) s =
     bindR (insert_record (positions s) (po_id p) p) (\<lambda>m. Inr (s\<lparr>positions := m\<rparr>))"
| "apply_write (Create_assignment a) s =
     bindR (insert_record (assignments s) (as_id a) a) (\<lambda>m. Inr (s\<lparr>assignments := m\<rparr>))"
| "apply_write (Create_subject_association a) s =
     bindR (forR (\<lambda>b. if same_subject_or_person b a \<and> intervalsOverlap b a
                       then Inl (OrganizationError Conflicting_subject_association) else Inr ())
              (map snd (associations s))) (\<lambda>_.
     bindR (insert_record (associations s) (sa_id a) a) (\<lambda>m. Inr (s\<lparr>associations := m\<rparr>)))"
| "apply_write (Close Close_assignment to f p) s =
     bindR (close_record (assignments s) f to) (\<lambda>m. Inr (s\<lparr>assignments := m\<rparr>))"
| "apply_write (Close Close_employment to f p) s =
     bindR (close_record (employments s) f to) (\<lambda>m. Inr (s\<lparr>employments := m\<rparr>))"
| "apply_write (Close Close_organization_unit_placement to f p) s =
     bindR (close_record (placements s) f to) (\<lambda>m. Inr (s\<lparr>placements := m\<rparr>))"
| "apply_write (Close Close_subject_association to f p) s =
     bindR (close_record (associations s) f to) (\<lambda>m. Inr (s\<lparr>associations := m\<rparr>))"

definition memory_commit :: "organization_commit \<Rightarrow> memory_store \<Rightarrow> (org_error + bool) \<times> memory_store" where
  "memory_commit c s = (case map_of (operations s) (oc_operationId c) of
     Some prior \<Rightarrow> (if prior \<noteq> fingerprint c then Inl (OrganizationError Idempotency_conflict) else Inr True, s)
   | None \<Rightarrow> (case apply_write (oc_write c) s of
       Inl e \<Rightarrow> (Inl e, s)
     | Inr s' \<Rightarrow> (Inr False, s'\<lparr>operations := AList.update (oc_operationId c) (fingerprint c) (operations s')\<rparr>)))"

definition active_of :: "('a interval_scheme \<Rightarrow> bool) \<Rightarrow> string \<Rightarrow> (string \<times> 'a interval_scheme) list \<Rightarrow> 'a interval_scheme list" where
  "active_of P a m = filter (\<lambda>x. P x \<and> isActive x a) (map snd m)"

definition change_times :: "string \<Rightarrow> string option \<Rightarrow> memory_store \<Rightarrow> string list" where
  "change_times from to s =
     (let fromTime = parse from;
          toTime = (case to of None \<Rightarrow> PosInf | Some e \<Rightarrow> if e = [] then PosInf else parse e)
      in sort (rev (remdups (rev (filter (\<lambda>v. js_less fromTime (parse v) \<and> js_less (parse v) toTime)
               (map (\<lambda>p. effectiveFrom p) (map snd (placements s))))))))"

definition memory_organization_store :: "memory_store organization_store" where
  "memory_organization_store = \<lparr>
     commit = memory_commit,
     findAssignment = (\<lambda>i s. map_of (assignments s) i),
     findEmployment = (\<lambda>i s. map_of (employments s) i),
     findOrganizationUnit = (\<lambda>i s. map_of (units s) i),
     findOrganizationUnitPlacement = (\<lambda>i s. map_of (placements s) i),
     findPosition = (\<lambda>i s. map_of (positions s) i),
     findSubjectAssociation = (\<lambda>i s. map_of (associations s) i),
     findWorkforcePerson = (\<lambda>i s. map_of (people s) i),
     listActiveAssignments = (\<lambda>i a s. active_of (\<lambda>x. as_person x = i) a (assignments s)),
     listActiveEmployments = (\<lambda>i a s. active_of (\<lambda>x. em_person x = i) a (employments s)),
     listActivePlacements = (\<lambda>i a s. active_of (\<lambda>x. pl_unit x = i) a (placements s)),
     listPlacementChangeTimes = change_times,
     listActiveSubjectAssociations = (\<lambda>sub a s.
       active_of (\<lambda>x. sa_issuer x = issuer sub \<and> sa_subject x = subject sub) a (associations s))\<rparr>"

definition empty_store :: memory_store where
  "empty_store = \<lparr>assignments = [], associations = [], employments = [], operations = [],
     placements = [], positions = [], units = [], people = []\<rparr>"

section \<open>The contract\<close>

record facts =
  f_assignments :: "string \<rightharpoonup> assignment"
  f_associations :: "string \<rightharpoonup> association"
  f_employments :: "string \<rightharpoonup> employment"
  f_operations :: "string \<rightharpoonup> string"
  f_placements :: "string \<rightharpoonup> placement"
  f_positions :: "string \<rightharpoonup> position"
  f_units :: "string \<rightharpoonup> organization_unit"
  f_people :: "string \<rightharpoonup> workforce_person"

definition spec_insert :: "(string \<rightharpoonup> 'a) \<Rightarrow> string \<Rightarrow> 'a \<Rightarrow> org_error + (string \<rightharpoonup> 'a)" where
  "spec_insert m i v = (if m i = None then Inr (m(i \<mapsto> v)) else Inl (OrganizationError Entity_conflict))"

definition spec_close :: "(string \<rightharpoonup> 'a interval_scheme) \<Rightarrow> string \<Rightarrow> string \<Rightarrow> org_error + (string \<rightharpoonup> 'a interval_scheme)" where
  "spec_close m i to = (case m i of
     None \<Rightarrow> Inl (OrganizationError Entity_not_found)
   | Some current \<Rightarrow>
       if js_leq (parse to) (parse (effectiveFrom current))
          \<or> (case effectiveTo current of None \<Rightarrow> False | Some e \<Rightarrow> e \<noteq> [] \<and> e \<noteq> to)
       then Inl (OrganizationError Effective_interval_invalid)
       else Inr (m(i \<mapsto> current\<lparr>effectiveTo := Some to\<rparr>)))"

fun spec_apply :: "organization_write \<Rightarrow> facts \<Rightarrow> org_error + facts" where
  "spec_apply (Create_person p) f = bindR (spec_insert (f_people f) (wp_id p) p) (\<lambda>m. Inr (f\<lparr>f_people := m\<rparr>))"
| "spec_apply (Create_employment e) f =
     bindR (spec_insert (f_employments f) (em_id e) e) (\<lambda>m. Inr (f\<lparr>f_employments := m\<rparr>))"
| "spec_apply (Create_organization_unit u p) f =
     bindR (spec_insert (f_units f) (ou_id u) u) (\<lambda>us.
     bindR (spec_insert (f_placements f) (pl_id p) p) (\<lambda>ps. Inr (f\<lparr>f_units := us, f_placements := ps\<rparr>)))"
| "spec_apply (Create_organization_unit_placement p) f =
     bindR (spec_insert (f_placements f) (pl_id p) p) (\<lambda>m. Inr (f\<lparr>f_placements := m\<rparr>))"
| "spec_apply (Create_position p) f =
     bindR (spec_insert (f_positions f) (po_id p) p) (\<lambda>m. Inr (f\<lparr>f_positions := m\<rparr>))"
| "spec_apply (Create_assignment a) f =
     bindR (spec_insert (f_assignments f) (as_id a) a) (\<lambda>m. Inr (f\<lparr>f_assignments := m\<rparr>))"
| "spec_apply (Create_subject_association a) f =
     (if \<exists>b \<in> ran (f_associations f). same_subject_or_person b a \<and> intervalsOverlap b a
      then Inl (OrganizationError Conflicting_subject_association)
      else bindR (spec_insert (f_associations f) (sa_id a) a) (\<lambda>m. Inr (f\<lparr>f_associations := m\<rparr>)))"
| "spec_apply (Close k to i p) f = (case k of
     Close_assignment \<Rightarrow> bindR (spec_close (f_assignments f) i to) (\<lambda>m. Inr (f\<lparr>f_assignments := m\<rparr>))
   | Close_employment \<Rightarrow> bindR (spec_close (f_employments f) i to) (\<lambda>m. Inr (f\<lparr>f_employments := m\<rparr>))
   | Close_organization_unit_placement \<Rightarrow>
       bindR (spec_close (f_placements f) i to) (\<lambda>m. Inr (f\<lparr>f_placements := m\<rparr>))
   | Close_subject_association \<Rightarrow>
       bindR (spec_close (f_associations f) i to) (\<lambda>m. Inr (f\<lparr>f_associations := m\<rparr>)))"

text \<open>A commit is at most once per operation id, and atomic: a failed one changes nothing.\<close>

definition spec_commit :: "organization_commit \<Rightarrow> facts \<Rightarrow> (org_error + bool) \<times> facts" where
  "spec_commit c f = (case f_operations f (oc_operationId c) of
     Some prior \<Rightarrow> (if prior \<noteq> fingerprint c then Inl (OrganizationError Idempotency_conflict) else Inr True, f)
   | None \<Rightarrow> (case spec_apply (oc_write c) f of
       Inl e \<Rightarrow> (Inl e, f)
     | Inr f' \<Rightarrow> (Inr False, f'\<lparr>f_operations := (f_operations f)(oc_operationId c \<mapsto> fingerprint c)\<rparr>)))"

locale org_store =
  fixes st :: "'s organization_store" and abs :: "'s \<Rightarrow> facts" and inv :: "'s \<Rightarrow> bool"
  assumes commit_spec: "inv s \<Longrightarrow> commit st c s = (r, s') \<Longrightarrow> inv s' \<and> spec_commit c (abs s) = (r, abs s')"
    and find: "inv s \<Longrightarrow> findAssignment st i s = f_assignments (abs s) i"
      "inv s \<Longrightarrow> findEmployment st i s = f_employments (abs s) i"
      "inv s \<Longrightarrow> findOrganizationUnit st i s = f_units (abs s) i"
      "inv s \<Longrightarrow> findOrganizationUnitPlacement st i s = f_placements (abs s) i"
      "inv s \<Longrightarrow> findPosition st i s = f_positions (abs s) i"
      "inv s \<Longrightarrow> findSubjectAssociation st i s = f_associations (abs s) i"
      "inv s \<Longrightarrow> findWorkforcePerson st i s = f_people (abs s) i"
    and list_set:
      "inv s \<Longrightarrow> set (listActiveAssignments st i a s)
         = {x \<in> ran (f_assignments (abs s)). as_person x = i \<and> isActive x a}"
      "inv s \<Longrightarrow> set (listActiveEmployments st i a s)
         = {x \<in> ran (f_employments (abs s)). em_person x = i \<and> isActive x a}"
      "inv s \<Longrightarrow> set (listActivePlacements st i a s)
         = {x \<in> ran (f_placements (abs s)). pl_unit x = i \<and> isActive x a}"
      "inv s \<Longrightarrow> set (listActiveSubjectAssociations st sub a s)
         = {x \<in> ran (f_associations (abs s)). sa_issuer x = issuer sub \<and> sa_subject x = subject sub \<and> isActive x a}"
    and list_distinct: "inv s \<Longrightarrow> distinct (listActiveAssignments st i a s)"
      "inv s \<Longrightarrow> distinct (listActiveEmployments st i a s)"
      "inv s \<Longrightarrow> distinct (listActivePlacements st i a s)"
      "inv s \<Longrightarrow> distinct (listActiveSubjectAssociations st sub a s)"
    and finite_units: "inv s \<Longrightarrow> finite (dom (f_units (abs s)))"
    and change_times: "inv s \<Longrightarrow> set (listPlacementChangeTimes st from to s)
         = {v \<in> effectiveFrom ` ran (f_placements (abs s)). js_less (parse from) (parse v)
              \<and> js_less (parse v) (case to of None \<Rightarrow> PosInf | Some e \<Rightarrow> if e = [] then PosInf else parse e)}"

section \<open>The in-memory store keeps the contract\<close>

text \<open>Every map is keyed by the identifier of its values.\<close>

definition keyed :: "('a \<Rightarrow> string) \<Rightarrow> (string \<times> 'a) list \<Rightarrow> bool" where
  "keyed f m = (distinct (map fst m) \<and> (\<forall>(k, v) \<in> set m. f v = k))"

definition memory_inv :: "memory_store \<Rightarrow> bool" where
  "memory_inv s = (keyed as_id (assignments s) \<and> keyed sa_id (associations s) \<and> keyed em_id (employments s)
     \<and> keyed pl_id (placements s) \<and> keyed po_id (positions s) \<and> keyed ou_id (units s) \<and> keyed wp_id (people s))"

definition memory_abs :: "memory_store \<Rightarrow> facts" where
  "memory_abs s = \<lparr>f_assignments = map_of (assignments s), f_associations = map_of (associations s),
     f_employments = map_of (employments s), f_operations = map_of (operations s),
     f_placements = map_of (placements s), f_positions = map_of (positions s), f_units = map_of (units s),
     f_people = map_of (people s)\<rparr>"

lemma set_update: "set (AList.update k v m) \<subseteq> insert (k, v) (set m)"
  by (induction m) auto

lemma keyed_update: "keyed f m \<Longrightarrow> f v = k \<Longrightarrow> keyed f (AList.update k v m)"
  using set_update [of k v m] by (auto simp: keyed_def distinct_update)

lemma keyed_ran: "keyed f m \<Longrightarrow> set (map snd m) = ran (map_of m)"
  by (simp add: keyed_def ran_distinct)

lemma keyed_distinct: "keyed f m \<Longrightarrow> distinct (map snd m)"
proof -
  assume k: "keyed f m"
  then have "map f (map snd m) = map fst m" by (auto simp: keyed_def)
  with k have "distinct (map f (map snd m))" unfolding keyed_def by metis
  then show ?thesis unfolding distinct_map [of f] by blast
qed

lemma insert_record_spec: "map_sum id map_of (insert_record m i v) = spec_insert (map_of m) i v"
  by (simp add: insert_record_def assertAbsent_def spec_insert_def update_conv')

lemma close_record_spec: "map_sum id map_of (close_record m i to) = spec_close (map_of m) i to"
  by (simp add: close_record_def spec_close_def update_conv' split: option.splits)

text \<open>Keys stay right: an inserted or closed record keeps its identifier.\<close>

lemma insert_record_keyed: "insert_record m (f v) v = Inr m' \<Longrightarrow> keyed f m \<Longrightarrow> keyed f m'"
  by (auto simp: insert_record_def result_simps keyed_update)

lemma close_record_keyed:
  assumes "close_record m i to = Inr m'" and k: "keyed f m" and "\<And>x e. f (x\<lparr>effectiveTo := e\<rparr>) = f x"
  shows "keyed f m'"
proof -
  from assms(1) obtain c where c: "map_of m i = Some c" "m' = AList.update i (c\<lparr>effectiveTo := Some to\<rparr>) m"
    by (auto simp: close_record_def split: option.splits if_splits)
  from k map_of_SomeD [OF c(1)] have "f c = i" by (auto simp: keyed_def)
  with k assms(3) show ?thesis unfolding c(2) by (intro keyed_update) simp_all
qed

lemma apply_write_inv: "apply_write w s = Inr s' \<Longrightarrow> memory_inv s \<Longrightarrow> memory_inv s'"
proof (induction w s rule: apply_write.induct)
  case (3 u p s)
  then show ?case
    by (auto simp: memory_inv_def result_simps intro: insert_record_keyed)
qed (auto simp: memory_inv_def result_simps intro: insert_record_keyed close_record_keyed)

lemma sum_spec_Inr: "map_sum id map_of r = r' \<Longrightarrow> r = Inr m \<Longrightarrow> r' = Inr (map_of m)"
  by auto

lemma insert_record_cases:
  "(\<exists>e. insert_record m i v = Inl e \<and> spec_insert (map_of m) i v = Inl e)
   \<or> (\<exists>m'. insert_record m i v = Inr m' \<and> spec_insert (map_of m) i v = Inr (map_of m'))"
  using insert_record_spec [of m i v] by (cases "insert_record m i v") (auto dest: sym)

lemma close_record_cases:
  "(\<exists>e. close_record m i to = Inl e \<and> spec_close (map_of m) i to = Inl e)
   \<or> (\<exists>m'. close_record m i to = Inr m' \<and> spec_close (map_of m) i to = Inr (map_of m'))"
  using close_record_spec [of m i to] by (cases "close_record m i to") (auto dest: sym)

lemma absent_cases:
  "assertAbsent m i = (if map_of m i = None then Inr () else Inl (OrganizationError Entity_conflict))"
  by (simp add: assertAbsent_def)

lemma forR_conflict:
  "forR (\<lambda>b. if P b then Inl e else Inr ()) xs = (if \<exists>b \<in> set xs. P b then Inl e else Inr ())"
  by (induction xs) auto

lemma apply_write_spec:
  "memory_inv s \<Longrightarrow> map_sum id memory_abs (apply_write w s) = spec_apply w (memory_abs s)"
proof (induction w s rule: apply_write.induct)
  case (1 p s)
  then show ?case using insert_record_cases [of "people s" "wp_id p" p] by (auto simp: memory_abs_def)
next
  case (2 e s)
  then show ?case using insert_record_cases [of "employments s" "em_id e" e] by (auto simp: memory_abs_def)
next
  case (3 u p s)
  then show ?case
    using insert_record_cases [of "units s" "ou_id u" u] insert_record_cases [of "placements s" "pl_id p" p]
    by (auto simp: memory_abs_def absent_cases spec_insert_def split: if_splits)
next
  case (4 p s)
  then show ?case using insert_record_cases [of "placements s" "pl_id p" p] by (auto simp: memory_abs_def)
next
  case (5 p s)
  then show ?case using insert_record_cases [of "positions s" "po_id p" p] by (auto simp: memory_abs_def)
next
  case (6 a s)
  then show ?case using insert_record_cases [of "assignments s" "as_id a" a] by (auto simp: memory_abs_def)
next
  case (7 a s)
  then have "set (map snd (associations s)) = ran (map_of (associations s))"
    by (intro keyed_ran [of sa_id]) (simp add: memory_inv_def)
  then show ?case using insert_record_cases [of "associations s" "sa_id a" a]
    by (auto simp: memory_abs_def forR_conflict simp del: set_map)
next
  case (8 to f p s)
  then show ?case using close_record_cases [of "assignments s" f to] by (auto simp: memory_abs_def)
next
  case (9 to f p s)
  then show ?case using close_record_cases [of "employments s" f to] by (auto simp: memory_abs_def)
next
  case (10 to f p s)
  then show ?case using close_record_cases [of "placements s" f to] by (auto simp: memory_abs_def)
next
  case (11 to f p s)
  then show ?case using close_record_cases [of "associations s" f to] by (auto simp: memory_abs_def)
qed

lemma apply_write_operations: "apply_write w s = Inr s' \<Longrightarrow> operations s' = operations s"
  by (induction w s rule: apply_write.induct) (auto simp: result_simps)

lemma f_operations_abs [simp]: "f_operations (memory_abs s) = map_of (operations s)"
  by (simp add: memory_abs_def)

lemma memory_abs_operations:
  "memory_abs (s\<lparr>operations := m\<rparr>) = (memory_abs s)\<lparr>f_operations := map_of m\<rparr>"
  by (simp add: memory_abs_def)

lemma memory_commit_spec:
  assumes i: "memory_inv s" and c: "memory_commit c s = (r, s')"
  shows "memory_inv s' \<and> spec_commit c (memory_abs s) = (r, memory_abs s')"
proof (cases "map_of (operations s) (oc_operationId c)")
  case (Some prior)
  with c i show ?thesis by (auto simp: memory_commit_def spec_commit_def)
next
  case None
  note a = apply_write_spec [OF i, of "oc_write c", symmetric]
  show ?thesis
  proof (cases "apply_write (oc_write c) s")
    case (Inl e)
    with None i a c show ?thesis by (simp add: memory_commit_def spec_commit_def)
  next
    case (Inr s1)
    from c None Inr have r: "r = Inr False"
      "s' = s1\<lparr>operations := AList.update (oc_operationId c) (fingerprint c) (operations s)\<rparr>"
      by (simp_all add: memory_commit_def apply_write_operations)
    have "memory_inv s'" using apply_write_inv [OF Inr i] by (simp add: r memory_inv_def)
    moreover have "spec_commit c (memory_abs s) = (r, memory_abs s')"
      using None Inr a by (simp add: spec_commit_def r memory_abs_operations update_conv')
    ultimately show ?thesis by simp
  qed
qed

lemma active_of_set:
  "keyed f m \<Longrightarrow> set (active_of P a m) = {x \<in> ran (map_of m). P x \<and> isActive x a}"
  by (auto simp: active_of_def keyed_ran [symmetric])

lemma active_of_distinct: "keyed f m \<Longrightarrow> distinct (active_of P a m)"
  using keyed_distinct [of f m] by (simp add: active_of_def)

interpretation memory: org_store memory_organization_store memory_abs memory_inv
proof unfold_locales
  fix s c r s'
  assume "memory_inv s" "commit memory_organization_store c s = (r, s')"
  then show "memory_inv s' \<and> spec_commit c (memory_abs s) = (r, memory_abs s')"
    by (intro memory_commit_spec) (simp_all add: memory_organization_store_def)
next
  fix s i a sub t0 t1
  assume inv: "memory_inv s"
  then have k: "keyed as_id (assignments s)" "keyed sa_id (associations s)" "keyed em_id (employments s)"
    "keyed pl_id (placements s)"
    by (simp_all add: memory_inv_def)
  show "findAssignment memory_organization_store i s = f_assignments (memory_abs s) i"
    "findEmployment memory_organization_store i s = f_employments (memory_abs s) i"
    "findOrganizationUnit memory_organization_store i s = f_units (memory_abs s) i"
    "findOrganizationUnitPlacement memory_organization_store i s = f_placements (memory_abs s) i"
    "findPosition memory_organization_store i s = f_positions (memory_abs s) i"
    "findSubjectAssociation memory_organization_store i s = f_associations (memory_abs s) i"
    "findWorkforcePerson memory_organization_store i s = f_people (memory_abs s) i"
    by (simp_all add: memory_organization_store_def memory_abs_def)
  show "set (listActiveAssignments memory_organization_store i a s)
      = {x \<in> ran (f_assignments (memory_abs s)). as_person x = i \<and> isActive x a}"
    "set (listActiveEmployments memory_organization_store i a s)
      = {x \<in> ran (f_employments (memory_abs s)). em_person x = i \<and> isActive x a}"
    "set (listActivePlacements memory_organization_store i a s)
      = {x \<in> ran (f_placements (memory_abs s)). pl_unit x = i \<and> isActive x a}"
    "set (listActiveSubjectAssociations memory_organization_store sub a s)
      = {x \<in> ran (f_associations (memory_abs s)). sa_issuer x = issuer sub \<and> sa_subject x = subject sub \<and> isActive x a}"
    using k by (simp_all add: memory_organization_store_def memory_abs_def active_of_set)
  show "distinct (listActiveAssignments memory_organization_store i a s)"
    "distinct (listActiveEmployments memory_organization_store i a s)"
    "distinct (listActivePlacements memory_organization_store i a s)"
    "distinct (listActiveSubjectAssociations memory_organization_store sub a s)"
    using k by (simp_all add: memory_organization_store_def active_of_distinct)
  show "finite (dom (f_units (memory_abs s)))"
    by (simp add: memory_abs_def finite_dom_map_of)
  show "set (listPlacementChangeTimes memory_organization_store t0 t1 s)
      = {v \<in> effectiveFrom ` ran (f_placements (memory_abs s)). js_less (parse t0) (parse v)
           \<and> js_less (parse v) (case t1 of None \<Rightarrow> PosInf | Some e \<Rightarrow> if e = [] then PosInf else parse e)}"
    using keyed_ran [OF k(4), symmetric]
    by (auto simp: memory_organization_store_def memory_abs_def change_times_def Let_def)
qed

lemma memory_inv_empty [simp]: "memory_inv empty_store"
  by (simp add: memory_inv_def empty_store_def keyed_def)

end
