(* ===== verification/Org_Service.thy ===== *)
theory Org_Service
  imports Org_Store
begin

text \<open>
  \<open>packages/platform-modules/organization/src/service.ts\<close>: the command handlers and the workforce
  resolution, over any store \<open>st\<close>.

  Arguments that stand for code outside this module: \<open>authorize\<close> (\<open>None\<close> when the promise resolves,
  the error otherwise), \<open>url\<close> (the protocol and host name \<open>new URL\<close> finds, \<open>None\<close> when it throws)
  and \<open>digest\<close> (SHA-256 of the JSON text of actor, action, reason and write). The walk up the
  hierarchy is a loop whose end depends on the store: it is a \<open>partial_function\<close> and its value is
  \<open>None\<close> when it does not return; \<open>Some\<close> results are proved for stores with finitely many units.
  Between the checks of a handler and its commit other handlers may run: a handler takes the store
  \<open>r\<close> that its awaited reads see and the store \<open>s\<close> that its commit meets. \<open>run_command\<close> is the handler
  that nothing overlaps (\<open>r\<close> is \<open>s\<close>), \<open>overlapped_command\<close> the general one.
\<close>

section \<open>Outcomes\<close>

definition bindO :: "('e + 'a) option \<Rightarrow> ('a \<Rightarrow> ('e + 'b) option) \<Rightarrow> ('e + 'b) option" where
  "bindO m f = (case m of None \<Rightarrow> None | Some (Inl e) \<Rightarrow> Some (Inl e) | Some (Inr x) \<Rightarrow> f x)"

lemma bindO_Inr [result_simps]: "bindO m f = Some (Inr y) \<longleftrightarrow> (\<exists>x. m = Some (Inr x) \<and> f x = Some (Inr y))"
  by (auto simp: bindO_def split: option.splits sum.splits)

lemma bindO_Inl [result_simps]:
  "bindO m f = Some (Inl e) \<longleftrightarrow> m = Some (Inl e) \<or> (\<exists>x. m = Some (Inr x) \<and> f x = Some (Inl e))"
  by (auto simp: bindO_def split: option.splits sum.splits)

lemma bindO_None: "bindO m f = None \<longleftrightarrow> m = None \<or> (\<exists>x. m = Some (Inr x) \<and> f x = None)"
  by (auto simp: bindO_def split: option.splits sum.splits)

lemma bindO_total: "m \<noteq> None \<Longrightarrow> (\<And>x. f x \<noteq> None) \<Longrightarrow> bindO m f \<noteq> None"
  by (auto simp: bindO_def split: option.splits sum.splits)

lemma bindO_Some [simp]: "bindO (Some (Inr x)) f = f x" "bindO (Some (Inl e)) f = Some (Inl e)"
  by (simp_all add: bindO_def)

fun forO :: "('a \<Rightarrow> ('e + unit) option) \<Rightarrow> 'a list \<Rightarrow> ('e + unit) option" where
  "forO f [] = Some (Inr ())"
| "forO f (x # xs) = bindO (f x) (\<lambda>_. forO f xs)"

lemma forO_Inr: "forO f xs = Some (Inr u) \<longleftrightarrow> (\<forall>x \<in> set xs. f x = Some (Inr ()))"
  by (induction xs) (auto simp: result_simps)

lemma forO_total: "\<forall>x \<in> set xs. f x \<noteq> None \<Longrightarrow> forO f xs \<noteq> None"
  by (induction xs) (auto simp: bindO_None)

abbreviation org_throw :: "org_error_code \<Rightarrow> org_error + 'a" where
  "org_throw c \<equiv> Inl (OrganizationError c)"

section \<open>Shared checks\<close>

definition metadata :: "command_metadata \<Rightarrow> org_error + unit" where
  "metadata m =
     bindR (requireId (operationId m)) (\<lambda>_.
     bindR (requireText (actorId (actor m)) 255) (\<lambda>_.
     bindR (requireText (reason m) 500) (\<lambda>_.
            requireText (traceId m) 128)))"

definition intervalEntity :: "string \<Rightarrow> 'a interval_scheme \<Rightarrow> org_error + unit" where
  "intervalEntity i iv = bindR (requireId i) (\<lambda>_. requireInterval iv)"

definition valid_subject :: "(string \<Rightarrow> (string \<times> string) option) \<Rightarrow> string \<Rightarrow> string \<Rightarrow> org_error + unit" where
  "valid_subject url iss sub =
     bindR (requireText iss 2048) (\<lambda>_.
     bindR (requireText sub 255) (\<lambda>_.
       case url iss of
         None \<Rightarrow> org_throw Entity_conflict
       | Some (protocol, hostname) \<Rightarrow>
           (let loopbackHttp = (protocol = ''http:'' \<and> (hostname = ''localhost'' \<or> hostname = ''127.0.0.1''))
            in if protocol \<noteq> ''https:'' \<and> \<not> loopbackHttp then org_throw Entity_conflict else Inr ())))"

record org_env =
  authorizer :: "authorization_request \<Rightarrow> string option"
  url :: "string \<Rightarrow> (string \<times> string) option"
  digest :: "actor_reference \<Rightarrow> string \<Rightarrow> string \<Rightarrow> organization_write \<Rightarrow> string"

definition authorize :: "org_env \<Rightarrow> command_metadata \<Rightarrow> string \<Rightarrow> string \<Rightarrow> string \<Rightarrow> org_error + unit" where
  "authorize env m action etype eid =
     (case authorizer env \<lparr>ar_action = action, ar_actor = actor m, ar_entityId = eid,
                          ar_entityType = etype, ar_operationId = operationId m\<rparr> of
        None \<Rightarrow> Inr () | Some e \<Rightarrow> Inl (External e))"

definition commit_write ::
    "'s organization_store \<Rightarrow> org_env \<Rightarrow> command_metadata \<Rightarrow> string \<Rightarrow> string \<Rightarrow> organization_write
     \<Rightarrow> 's \<Rightarrow> (org_error + unit) \<times> 's" where
  "commit_write st env m action event w s =
     (case commit st \<lparr>oc_actor = actor m, auditAction = action, eventType = event,
            fingerprint = digest env (actor m) action (reason m) w, oc_operationId = operationId m,
            oc_reason = reason m, oc_traceId = traceId m, oc_write = w\<rparr> s of
        (Inl e, s') \<Rightarrow> (Inl e, s') | (Inr replayed, s') \<Rightarrow> (Inr (), s'))"

text \<open>The checks of a handler, then its commit.\<close>

definition guarded ::
    "(org_error + unit) option \<Rightarrow> ('s \<Rightarrow> (org_error + unit) \<times> 's) \<Rightarrow> 's \<Rightarrow> ((org_error + unit) \<times> 's) option" where
  "guarded g act s = (case g of
     None \<Rightarrow> None | Some (Inl e) \<Rightarrow> Some (Inl e, s) | Some (Inr _) \<Rightarrow> Some (act s))"

definition present :: "'a option \<Rightarrow> org_error + 'a" where
  "present x = (case x of None \<Rightarrow> org_throw Entity_not_found | Some v \<Rightarrow> Inr v)"

definition contained_in :: "'a interval_scheme \<Rightarrow> 'b interval_scheme \<Rightarrow> org_error + unit" where
  "contained_in i j = (if \<not> intervalContains i j then org_throw Effective_interval_invalid else Inr ())"

section \<open>The hierarchy\<close>

text \<open>The loop of \<open>#assertNoHierarchyCycleAt\<close> and of \<open>#assertValidOrganizationPath\<close>.\<close>

partial_function (option) walk ::
    "'s organization_store \<Rightarrow> string \<Rightarrow> 's \<Rightarrow> string list \<Rightarrow> string option \<Rightarrow> (org_error + unit) option" where
  "walk st a s visited current = (case current of
     None \<Rightarrow> Some (Inr ())
   | Some c \<Rightarrow>
       if c = [] then Some (Inr ())
       else if c \<in> set visited then Some (org_throw Organization_hierarchy_cycle)
       else (case findOrganizationUnit st c s of
           None \<Rightarrow> Some (org_throw Organization_path_invalid)
         | Some u \<Rightarrow>
             if \<not> isActive u a then Some (org_throw Organization_path_invalid)
             else (case listActivePlacements st c a s of
                 [p] \<Rightarrow> walk st a s (c # visited) (pl_parent p)
               | _ \<Rightarrow> Some (org_throw Organization_path_invalid))))"

declare walk.simps [code]

definition assertNoHierarchyCycle ::
    "'s organization_store \<Rightarrow> 's \<Rightarrow> string \<Rightarrow> string \<Rightarrow> 'a interval_scheme \<Rightarrow> (org_error + unit) option" where
  "assertNoHierarchyCycle st s unit parent iv =
     forO (\<lambda>a. walk st a s [unit] (Some parent))
       (effectiveFrom iv # listPlacementChangeTimes st (effectiveFrom iv) (effectiveTo iv) s)"

definition assertValidOrganizationPath ::
    "'s organization_store \<Rightarrow> 's \<Rightarrow> string \<Rightarrow> string \<Rightarrow> (org_error + unit) option" where
  "assertValidOrganizationPath st s unit a = walk st a s [] (Some unit)"

text \<open>The checks on the parent, when the command names one.\<close>

definition check_parent :: "'s organization_store \<Rightarrow> 's \<Rightarrow> placement \<Rightarrow> (org_error + unit) option" where
  "check_parent st s p = (case pl_parent p of
     None \<Rightarrow> Some (Inr ())
   | Some q \<Rightarrow> if q = [] then Some (Inr ()) else
       bindO (Some (requireId q)) (\<lambda>_.
       bindO (Some (present (findOrganizationUnit st q s))) (\<lambda>parent.
       bindO (Some (contained_in parent p)) (\<lambda>_.
         assertNoHierarchyCycle st s (pl_unit p) q p))))"

section \<open>Create handlers\<close>

definition createWorkforcePerson where
  "createWorkforcePerson st env m p r s = guarded
     (Some (bindR (metadata m) (\<lambda>_.
            bindR (requireId (wp_id p)) (\<lambda>_.
            bindR (requireTimestamp (recordedAt p)) (\<lambda>_.
              authorize env m ''workforce_person_created'' ''workforce_person'' (wp_id p))))))
     (commit_write st env m ''workforce_person_created'' ''organization.workforce_person.created.v1''
        (Create_person p)) s"

definition createEmployment where
  "createEmployment st env m e r s = guarded
     (Some (bindR (metadata m) (\<lambda>_.
            bindR (intervalEntity (em_id e) e) (\<lambda>_.
            bindR (requireId (em_person e)) (\<lambda>_.
            bindR (authorize env m ''employment_created'' ''employment'' (em_id e)) (\<lambda>_.
            bindR (present (findWorkforcePerson st (em_person e) r)) (\<lambda>_. Inr ())))))))
     (commit_write st env m ''employment_created'' ''organization.employment.created.v1'' (Create_employment e)) s"

definition unit_of :: "placement \<Rightarrow> organization_unit" where
  "unit_of p = \<lparr>effectiveFrom = effectiveFrom p,
     effectiveTo = (case effectiveTo p of None \<Rightarrow> None | Some e \<Rightarrow> if e = [] then None else Some e),
     ou_id = pl_unit p\<rparr>"

definition createOrganizationUnit where
  "createOrganizationUnit st env m p r s = guarded
     (bindO (Some (bindR (metadata m) (\<lambda>_.
                   bindR (intervalEntity (pl_unit p) p) (\<lambda>_.
                   bindR (requireId (pl_id p)) (\<lambda>_.
                     authorize env m ''organization_unit_created'' ''organization_unit'' (pl_unit p))))))
        (\<lambda>_. check_parent st r p))
     (commit_write st env m ''organization_unit_created'' ''organization.unit.created.v1''
        (Create_organization_unit (unit_of p) p)) s"

definition createPosition where
  "createPosition st env m p r s = guarded
     (Some (bindR (metadata m) (\<lambda>_.
            bindR (intervalEntity (po_id p) p) (\<lambda>_.
            bindR (requireId (po_unit p)) (\<lambda>_.
            bindR (authorize env m ''position_created'' ''position'' (po_id p)) (\<lambda>_.
            bindR (present (findOrganizationUnit st (po_unit p) r)) (\<lambda>u. contained_in u p)))))))
     (commit_write st env m ''position_created'' ''organization.position.created.v1'' (Create_position p)) s"

definition createOrganizationUnitPlacement where
  "createOrganizationUnitPlacement st env m p r s = guarded
     (bindO (Some (bindR (metadata m) (\<lambda>_.
                   bindR (intervalEntity (pl_id p) p) (\<lambda>_.
                   bindR (requireId (pl_unit p)) (\<lambda>_.
                   bindR (authorize env m ''organization_unit_placement_created''
                            ''organization_unit_placement'' (pl_id p)) (\<lambda>_.
                   bindR (present (findOrganizationUnit st (pl_unit p) r)) (\<lambda>u. contained_in u p)))))))
        (\<lambda>_. check_parent st r p))
     (commit_write st env m ''organization_unit_placement_created''
        ''organization.unit_placement.created.v1'' (Create_organization_unit_placement p)) s"

definition check_assignment ::
    "assignment \<Rightarrow> employment option \<Rightarrow> organization_unit option \<Rightarrow> position option \<Rightarrow> org_error + unit" where
  "check_assignment a employment unit position = (case (employment, unit, position) of
     (Some e, Some u, Some p) \<Rightarrow>
       if em_person e \<noteq> as_person a \<or> po_unit p \<noteq> as_unit a then org_throw Entity_not_found
       else if \<not> intervalContains e a \<or> \<not> intervalContains u a \<or> \<not> intervalContains p a
       then org_throw Effective_interval_invalid
       else Inr ()
   | _ \<Rightarrow> org_throw Entity_not_found)"

definition createAssignment where
  "createAssignment st env m a r s = guarded
     (Some (bindR (metadata m) (\<lambda>_.
            bindR (intervalEntity (as_id a) a) (\<lambda>_.
            bindR (forR requireId [as_person a, as_employment a, as_unit a, as_position a]) (\<lambda>_.
            bindR (authorize env m ''assignment_created'' ''assignment'' (as_id a)) (\<lambda>_.
              check_assignment a (findEmployment st (as_employment a) r)
                (findOrganizationUnit st (as_unit a) r) (findPosition st (as_position a) r)))))))
     (commit_write st env m ''assignment_created'' ''organization.assignment.created.v1''
        (Create_assignment a)) s"

definition createSubjectAssociation where
  "createSubjectAssociation st env m a r s = guarded
     (Some (bindR (metadata m) (\<lambda>_.
            bindR (intervalEntity (sa_id a) a) (\<lambda>_.
            bindR (requireId (sa_person a)) (\<lambda>_.
            bindR (valid_subject (url env) (sa_issuer a) (sa_subject a)) (\<lambda>_.
            bindR (authorize env m ''subject_association_created'' ''subject_association'' (sa_id a)) (\<lambda>_.
            bindR (present (findWorkforcePerson st (sa_person a) r)) (\<lambda>_. Inr ()))))))))
     (commit_write st env m ''subject_association_created'' ''organization.subject_association.created.v1''
        (Create_subject_association a)) s"

section \<open>Close handlers\<close>

text \<open>What \<open>#close\<close> reads of the fact: its interval and, when it has one, its person.\<close>

fun find_fact ::
    "'s organization_store \<Rightarrow> close_kind \<Rightarrow> string \<Rightarrow> 's \<Rightarrow> (string \<times> string option \<times> string option) option" where
  "find_fact st Close_assignment i s =
     map_option (\<lambda>x. (effectiveFrom x, effectiveTo x, Some (as_person x))) (findAssignment st i s)"
| "find_fact st Close_employment i s =
     map_option (\<lambda>x. (effectiveFrom x, effectiveTo x, Some (em_person x))) (findEmployment st i s)"
| "find_fact st Close_organization_unit_placement i s =
     map_option (\<lambda>x. (effectiveFrom x, effectiveTo x, None)) (findOrganizationUnitPlacement st i s)"
| "find_fact st Close_subject_association i s =
     map_option (\<lambda>x. (effectiveFrom x, effectiveTo x, Some (sa_person x))) (findSubjectAssociation st i s)"

fun audit_action :: "close_kind \<Rightarrow> string" where
  "audit_action Close_assignment = ''assignment_closed''"
| "audit_action Close_employment = ''employment_closed''"
| "audit_action Close_organization_unit_placement = ''organization_unit_placement_closed''"
| "audit_action Close_subject_association = ''subject_association_closed''"

fun event_type :: "close_kind \<Rightarrow> string" where
  "event_type Close_assignment = ''organization.assignment.closed.v1''"
| "event_type Close_employment = ''organization.employment.closed.v1''"
| "event_type Close_organization_unit_placement = ''organization.unit_placement.closed.v1''"
| "event_type Close_subject_association = ''organization.subject_association.closed.v1''"

definition check_close :: "close_command \<Rightarrow> (string \<times> string option \<times> string option) option \<Rightarrow> org_error + string option" where
  "check_close c found = (case found of
     None \<Rightarrow> org_throw Entity_not_found
   | Some (from, to, person) \<Rightarrow>
       if js_leq (parse (cl_effectiveTo c)) (parse from)
          \<or> (case to of None \<Rightarrow> False | Some e \<Rightarrow> e \<noteq> cl_effectiveTo c)
       then org_throw Effective_interval_invalid
       else Inr (case person of None \<Rightarrow> None | Some x \<Rightarrow> if x = [] then None else Some x))"

definition close_fact where
  "close_fact st env k m c r s =
     (case bindR (metadata m) (\<lambda>_.
           bindR (requireId (cl_factId c)) (\<lambda>_.
           bindR (requireTimestamp (cl_effectiveTo c)) (\<lambda>_.
           bindR (authorize env m (audit_action k) (close_entity_type k) (cl_factId c)) (\<lambda>_.
             check_close c (find_fact st k (cl_factId c) r))))) of
        Inl e \<Rightarrow> Some (Inl e, s)
      | Inr person \<Rightarrow> Some (commit_write st env m (audit_action k) (event_type k)
                            (Close k (cl_effectiveTo c) (cl_factId c) person) s))"

section \<open>Commands\<close>

datatype org_command =
    Cmd_person workforce_person
  | Cmd_employment employment
  | Cmd_unit placement
  | Cmd_placement placement
  | Cmd_position position
  | Cmd_assignment assignment
  | Cmd_association association
  | Cmd_close close_kind close_command

fun overlapped_command ::
    "'s organization_store \<Rightarrow> org_env \<Rightarrow> command_metadata \<Rightarrow> org_command \<Rightarrow> 's \<Rightarrow> 's
     \<Rightarrow> ((org_error + unit) \<times> 's) option" where
  "overlapped_command st env m (Cmd_person p) r s = createWorkforcePerson st env m p r s"
| "overlapped_command st env m (Cmd_employment e) r s = createEmployment st env m e r s"
| "overlapped_command st env m (Cmd_unit p) r s = createOrganizationUnit st env m p r s"
| "overlapped_command st env m (Cmd_placement p) r s = createOrganizationUnitPlacement st env m p r s"
| "overlapped_command st env m (Cmd_position p) r s = createPosition st env m p r s"
| "overlapped_command st env m (Cmd_assignment a) r s = createAssignment st env m a r s"
| "overlapped_command st env m (Cmd_association a) r s = createSubjectAssociation st env m a r s"
| "overlapped_command st env m (Cmd_close k c) r s = close_fact st env k m c r s"

definition run_command ::
    "'s organization_store \<Rightarrow> org_env \<Rightarrow> command_metadata \<Rightarrow> org_command \<Rightarrow> 's
     \<Rightarrow> ((org_error + unit) \<times> 's) option" where
  "run_command st env m cmd s = overlapped_command st env m cmd s s"

lemma run_command_simps [simp]:
  "run_command st env m (Cmd_person p) s = createWorkforcePerson st env m p s s"
  "run_command st env m (Cmd_employment e) s = createEmployment st env m e s s"
  "run_command st env m (Cmd_unit u) s = createOrganizationUnit st env m u s s"
  "run_command st env m (Cmd_placement u) s = createOrganizationUnitPlacement st env m u s s"
  "run_command st env m (Cmd_position q) s = createPosition st env m q s s"
  "run_command st env m (Cmd_assignment a) s = createAssignment st env m a s s"
  "run_command st env m (Cmd_association b) s = createSubjectAssociation st env m b s s"
  "run_command st env m (Cmd_close k c) s = close_fact st env k m c s s"
  by (simp_all add: run_command_def)

section \<open>Resolution\<close>

definition assignmentReference :: "assignment \<Rightarrow> assignment_reference" where
  "assignmentReference a = \<lparr>ref_assignment = as_id a, ref_employment = as_employment a,
     ref_unit = as_unit a, ref_position = as_position a\<rparr>"

definition check_assignment_path ::
    "'s organization_store \<Rightarrow> string \<Rightarrow> 's \<Rightarrow> assignment \<Rightarrow> (org_error + unit) option" where
  "check_assignment_path st a s x =
     (case (findOrganizationUnit st (as_unit x) s, findPosition st (as_position x) s) of
        (Some u, Some p) \<Rightarrow>
          if po_unit p \<noteq> as_unit x \<or> \<not> isActive u a \<or> \<not> isActive p a
          then Some (org_throw Organization_path_invalid)
          else assertValidOrganizationPath st s (as_unit x) a
      | _ \<Rightarrow> Some (org_throw Organization_path_invalid))"

definition select_assignments ::
    "string option \<Rightarrow> assignment list \<Rightarrow> org_error + assignment list" where
  "select_assignments assignmentId xs = (case assignmentId of
     None \<Rightarrow> Inr xs
   | Some i \<Rightarrow> if i = [] then Inr xs else
       bindR (requireId i) (\<lambda>_. let ys = filter (\<lambda>x. as_id x = i) xs in
         if length ys \<noteq> 1 then org_throw Assignment_not_active else Inr ys))"

definition resolveWorkforceContext ::
    "'s organization_store \<Rightarrow> (string \<Rightarrow> (string \<times> string) option) \<Rightarrow> authentication_subject \<Rightarrow> string
     \<Rightarrow> string option \<Rightarrow> 's \<Rightarrow> (org_error + workforce_context) option" where
  "resolveWorkforceContext st parse_url sub a assignmentId s =
     bindO (Some (valid_subject parse_url (issuer sub) (subject sub))) (\<lambda>_.
     bindO (Some (requireTimestamp a)) (\<lambda>_.
     (case listActiveSubjectAssociations st sub a s of
        [] \<Rightarrow> Some (org_throw Subject_not_associated)
      | [x] \<Rightarrow>
         (let person = sa_person x; employments = listActiveEmployments st person a s in
          if employments = [] then Some (org_throw Employment_not_active)
          else let ids = remdups (map em_id employments) in
            bindO (Some (select_assignments assignmentId
                     (filter (\<lambda>y. as_employment y \<in> set ids) (listActiveAssignments st person a s)))) (\<lambda>xs.
            bindO (forO (check_assignment_path st a s) xs) (\<lambda>_.
              Some (Inr \<lparr>ctx_assignments = map assignmentReference xs, ctx_employmentIds = sort ids,
                         ctx_resolvedAt = a, ctx_subject = sub, ctx_person = person\<rparr>))))
      | _ \<Rightarrow> Some (org_throw Conflicting_subject_association))))"

end
