(* ===== verification/Org_Invariants.thy ===== *)
theory Org_Invariants
  imports Org_Service
begin

text \<open>
  What the organization service keeps true, proved from the contract of its store in the locale
  \<open>org_store\<close> and read off for the in-memory store at the end.

  \<open>up f t\<close> is the parent relation of the hierarchy at instant \<open>t\<close>. \<open>org_inv\<close> collects the
  invariant of the facts: valid intervals, references that exist and start in time, subject
  associations that never overlap, and a hierarchy that is acyclic at every instant.
  \<open>admissible f w\<close> is what the checks of a handler establish about the write it commits.
\<close>

section \<open>Walking up the hierarchy\<close>

definition up :: "facts \<Rightarrow> int \<Rightarrow> (string \<times> string) set" where
  "up f t = {(u, q). \<exists>p \<in> ran (f_placements f). pl_unit p = u \<and> pl_parent p = Some q \<and> q \<noteq> [] \<and> t \<in> instants p}"

definition wf_placements :: "facts \<Rightarrow> bool" where
  "wf_placements f = (\<forall>p \<in> ran (f_placements f). ival p)"

context org_store
begin

lemma walk_total:
  assumes "inv s"
  shows "walk st a s visited current \<noteq> None"
proof (induction "card (dom (f_units (abs s)) - set visited)" arbitrary: visited current rule: less_induct)
  case less
  show ?case
  proof (cases "\<exists>c u p. current = Some c \<and> c \<noteq> [] \<and> c \<notin> set visited \<and> findOrganizationUnit st c s = Some u
      \<and> isActive u a \<and> listActivePlacements st c a s = [p]")
    case False
    then show ?thesis
      by (subst walk.simps) (auto split: option.splits list.splits)
  next
    case True
    then obtain c u p where c: "current = Some c" "c \<noteq> []" "c \<notin> set visited"
      "findOrganizationUnit st c s = Some u" "isActive u a" "listActivePlacements st c a s = [p]" by blast
    have "c \<in> dom (f_units (abs s)) - set visited" using c(3,4) find(3) [OF assms, of c] by auto
    then have "card (dom (f_units (abs s)) - set (c # visited)) < card (dom (f_units (abs s)) - set visited)"
      using finite_units [OF assms] by (intro psubset_card_mono) auto
    from less(1) [OF this, of "pl_parent p"] c show ?thesis by (subst walk.simps) simp
  qed
qed

text \<open>A walk that succeeds visits the whole ancestry and never meets a unit it started with.\<close>

lemma walk_step:
  assumes "walk st a s visited (Some c) = Some (Inr ())" "c \<noteq> []"
  obtains u p where "c \<notin> set visited" "findOrganizationUnit st c s = Some u" "isActive u a"
    "listActivePlacements st c a s = [p]" "walk st a s (c # visited) (pl_parent p) = Some (Inr ())"
  using assms by (subst (asm) (1) walk.simps) (auto split: if_splits option.splits list.splits)

lemma walk_avoids:
  assumes i: "inv s" and wf: "wf_placements (abs s)" and t: "iso_instant a = Some t"
  shows "walk st a s visited (Some c) = Some (Inr ()) \<Longrightarrow> c \<noteq> [] \<Longrightarrow> (c, z) \<in> (up (abs s) t)\<^sup>* \<Longrightarrow> z \<notin> set visited"
proof (induction "card (dom (f_units (abs s)) - set visited)" arbitrary: visited c rule: less_induct)
  case less
  from walk_step [OF less.prems(1,2)] obtain u p where w: "c \<notin> set visited"
    "findOrganizationUnit st c s = Some u" "isActive u a" "listActivePlacements st c a s = [p]"
    "walk st a s (c # visited) (pl_parent p) = Some (Inr ())" by blast
  from less.prems(3) show ?case
  proof (cases rule: converse_rtranclE)
    case base
    with w(1) show ?thesis by simp
  next
    case (step d)
    then obtain p' where p': "p' \<in> ran (f_placements (abs s))" "pl_unit p' = c" "pl_parent p' = Some d"
      "d \<noteq> []" "t \<in> instants p'" by (auto simp: up_def)
    with wf have "isActive p' a" by (auto simp: wf_placements_def isActive_iff [OF _ t])
    with p' list_set(3) [OF i, of c a] w(4) have "p' = p" by auto
    with p'(3) w(5) have w': "walk st a s (c # visited) (Some d) = Some (Inr ())" by simp
    have "c \<in> dom (f_units (abs s)) - set visited" using w(1,2) find(3) [OF i, of c] by auto
    then have "card (dom (f_units (abs s)) - set (c # visited)) < card (dom (f_units (abs s)) - set visited)"
      using finite_units [OF i] by (intro psubset_card_mono) auto
    from less.hyps [OF this w' p'(4) step(2)] show ?thesis by simp
  qed
qed

text \<open>The checks at the start and at every later placement start cover every instant between.\<close>

lemma no_cycle_between:
  assumes i: "inv s" and wf: "wf_placements (abs s)" and iv: "ival iv" and t: "t \<in> instants iv"
    and q: "q \<noteq> []" and ok: "assertNoHierarchyCycle st s u q iv = Some (Inr ())"
  shows "(q, u) \<notin> (up (abs s) t)\<^sup>*"
proof -
  obtain f0 where f0: "iso_instant (effectiveFrom iv) = Some f0" "f0 \<le> t"
    using iv t by (cases rule: ival_cases) auto
  let ?cs = "effectiveFrom iv # listPlacementChangeTimes st (effectiveFrom iv) (effectiveTo iv) s"
  have chk: "walk st a s [u] (Some q) = Some (Inr ())" if "a \<in> set ?cs" for a
    using ok that by (auto simp: assertNoHierarchyCycle_def forO_Inr result_simps)
  define C where "C = {c. (\<exists>a \<in> set ?cs. iso_instant a = Some c) \<and> c \<le> t}"
  have "C \<subseteq> the ` iso_instant ` set ?cs" unfolding C_def by force
  then have fin: "finite C" by (rule finite_subset) simp
  have ne: "f0 \<in> C" using f0 by (auto simp: C_def)
  define c where "c = Max C"
  have cC: "c \<in> C" unfolding c_def using fin ne by (intro Max_in) auto
  have c: "d \<le> c" if "d \<in> C" for d unfolding c_def using fin that by (rule Max_ge)
  from cC obtain a where a: "a \<in> set ?cs" "iso_instant a = Some c" "c \<le> t" by (auto simp: C_def)
  have "up (abs s) t \<subseteq> up (abs s) c"
  proof
    fix e assume "e \<in> up (abs s) t"
    then obtain p where p: "p \<in> ran (f_placements (abs s))" "pl_unit p = fst e" "pl_parent p = Some (snd e)"
      "snd e \<noteq> []" "t \<in> instants p" by (auto simp: up_def)
    with wf have ivp: "ival p" by (simp add: wf_placements_def)
    then obtain fp where fp: "iso_instant (effectiveFrom p) = Some fp" using ival_from by blast
    have fpt: "fp \<le> t" using p(5) fp by (auto simp: instants_def)
    have "fp \<le> c"
    proof (rule ccontr)
      assume "\<not> fp \<le> c"
      with c [OF ne] have gt: "f0 < fp" by simp
      have "effectiveFrom p \<in> set (listPlacementChangeTimes st (effectiveFrom iv) (effectiveTo iv) s)"
        using iv
      proof (cases rule: ival_cases)
        case (forever g)
        then show ?thesis
          using p(1) gt f0(1) parse_iso [OF fp] parse_iso [OF f0(1)]
          by (auto simp: change_times [OF i])
      next
        case (until g e u)
        with t have "t < u" by simp
        with until show ?thesis
          using p(1) gt fpt f0(1) parse_iso [OF fp] parse_iso [OF f0(1)] parse_iso [OF until(3)]
          by (auto simp: change_times [OF i])
      qed
      with fp fpt have "fp \<in> C" by (auto simp: C_def)
      with c \<open>\<not> fp \<le> c\<close> show False by blast
    qed
    with ivp p(5) fp a(3) have "c \<in> instants p" by (cases rule: ival_cases) auto
    with p show "e \<in> up (abs s) c" by (auto simp: up_def)
  qed
  moreover have "(q, u) \<notin> (up (abs s) c)\<^sup>*"
    using walk_avoids [OF i wf a(2) chk [OF a(1)] q] by auto
  ultimately show ?thesis using rtrancl_mono by blast
qed

end

section \<open>The invariant of the facts\<close>

definition wf_intervals :: "facts \<Rightarrow> bool" where
  "wf_intervals f = (wf_placements f \<and> (\<forall>x \<in> ran (f_assignments f). ival x)
     \<and> (\<forall>x \<in> ran (f_associations f). ival x) \<and> (\<forall>x \<in> ran (f_employments f). ival x)
     \<and> (\<forall>x \<in> ran (f_positions f). ival x) \<and> (\<forall>x \<in> ran (f_units f). ival x))"

definition non_overlapping :: "facts \<Rightarrow> bool" where
  "non_overlapping f = (\<forall>i j a b. f_associations f i = Some a \<and> f_associations f j = Some b \<and> i \<noteq> j
     \<and> same_subject_or_person a b \<longrightarrow> instants a \<inter> instants b = {})"

definition starts_within :: "'a interval_scheme \<Rightarrow> 'b interval_scheme \<Rightarrow> bool" where
  "starts_within i j = (\<exists>c d. iso_instant (effectiveFrom i) = Some c \<and> iso_instant (effectiveFrom j) = Some d \<and> d \<le> c)"

definition placement_refs :: "facts \<Rightarrow> placement \<Rightarrow> bool" where
  "placement_refs f p = ((\<exists>u. f_units f (pl_unit p) = Some u \<and> instants p \<subseteq> instants u)
     \<and> (\<forall>q. pl_parent p = Some q \<and> q \<noteq> [] \<longrightarrow> (\<exists>v. f_units f q = Some v \<and> instants p \<subseteq> instants v)))"

definition assignment_refs :: "facts \<Rightarrow> assignment \<Rightarrow> bool" where
  "assignment_refs f a = (as_unit a \<noteq> [] \<and> (\<exists>e u p. f_employments f (as_employment a) = Some e \<and> em_person e = as_person a
     \<and> starts_within a e \<and> f_units f (as_unit a) = Some u \<and> instants a \<subseteq> instants u
     \<and> f_positions f (as_position a) = Some p \<and> po_unit p = as_unit a \<and> instants a \<subseteq> instants p))"

definition position_refs :: "facts \<Rightarrow> position \<Rightarrow> bool" where
  "position_refs f p = (\<exists>u. f_units f (po_unit p) = Some u \<and> instants p \<subseteq> instants u)"

definition references :: "facts \<Rightarrow> bool" where
  "references f = ((\<forall>e \<in> ran (f_employments f). em_person e \<in> dom (f_people f))
     \<and> (\<forall>x \<in> ran (f_associations f). sa_person x \<in> dom (f_people f))
     \<and> (\<forall>p \<in> ran (f_positions f). position_refs f p)
     \<and> (\<forall>p \<in> ran (f_placements f). placement_refs f p)
     \<and> (\<forall>a \<in> ran (f_assignments f). assignment_refs f a))"

definition org_inv :: "facts \<Rightarrow> bool" where
  "org_inv f = (wf_intervals f \<and> non_overlapping f \<and> references f \<and> (\<forall>t. acyclic (up f t)))"

definition parent_ok :: "facts \<Rightarrow> placement \<Rightarrow> bool" where
  "parent_ok f p = (\<forall>q. pl_parent p = Some q \<and> q \<noteq> [] \<longrightarrow> (\<exists>v. f_units f q = Some v \<and> instants p \<subseteq> instants v)
     \<and> (\<forall>t \<in> instants p. (q, pl_unit p) \<notin> (up f t)\<^sup>*))"

fun admissible :: "facts \<Rightarrow> organization_write \<Rightarrow> bool" where
  "admissible f (Create_person p) = True"
| "admissible f (Create_employment e) = (ival e \<and> em_person e \<in> dom (f_people f))"
| "admissible f (Create_organization_unit u p) = (ival p \<and> u = unit_of p \<and> parent_ok f p)"
| "admissible f (Create_organization_unit_placement p) = (ival p \<and> placement_refs f p \<and> parent_ok f p)"
| "admissible f (Create_position p) = (ival p \<and> position_refs f p)"
| "admissible f (Create_assignment a) = (ival a \<and> assignment_refs f a)"
| "admissible f (Create_subject_association a) = (ival a \<and> sa_person a \<in> dom (f_people f))"
| "admissible f (Close k to i p) = (iso_instant to \<noteq> None)"

lemma spec_insert_Inr: "spec_insert m i v = Inr m' \<longleftrightarrow> m i = None \<and> m' = m(i \<mapsto> v)"
  by (auto simp: spec_insert_def)

lemma spec_insert_ran: "spec_insert m i v = Inr m' \<Longrightarrow> ran m' = insert v (ran m)"
  by (auto simp: spec_insert_Inr)

lemma spec_insert_mono: "spec_insert m i v = Inr m' \<Longrightarrow> m k = Some x \<Longrightarrow> m' k = Some x"
  by (auto simp: spec_insert_Inr)

text \<open>Closing a fact shrinks its interval and keeps everything else.\<close>

lemma spec_close_Inr:
  assumes "spec_close m i to = Inr m'" and "iso_instant to \<noteq> None" and "\<forall>x \<in> ran m. ival x"
  obtains c where "m i = Some c" "m' = m(i \<mapsto> c\<lparr>effectiveTo := Some to\<rparr>)" "ival c"
    "ival (c\<lparr>effectiveTo := Some to\<rparr>)" "instants (c\<lparr>effectiveTo := Some to\<rparr>) \<subseteq> instants c"
proof -
  from assms(1) obtain c where c: "m i = Some c" "m' = m(i \<mapsto> c\<lparr>effectiveTo := Some to\<rparr>)"
    and n: "\<not> js_leq (parse to) (parse (effectiveFrom c))"
    and e: "\<And>e. effectiveTo c = Some e \<Longrightarrow> e = [] \<or> e = to"
    by (auto simp: spec_close_def split: option.splits if_splits)
  from assms(3) c(1) have iv: "ival c" by (auto simp: ran_def)
  from assms(2) obtain u where u: "iso_instant to = Some u" by auto
  from iv obtain f where f: "iso_instant (effectiveFrom c) = Some f" using ival_from by blast
  have fu: "f < u" using n by (simp add: parse_iso [OF u] parse_iso [OF f])
  have "ival (c\<lparr>effectiveTo := Some to\<rparr>)"
    using f u fu
    by (auto simp: ival_def requireInterval_def result_simps requireTimestamp_Inr)
  moreover have "instants (c\<lparr>effectiveTo := Some to\<rparr>) \<subseteq> instants c"
    using iv by (cases rule: ival_cases) (use e in \<open>auto simp: instants_def\<close>)
  ultimately show thesis using that c iv by blast
qed

lemma unit_of_interval:
  assumes "ival p"
  shows "ival (unit_of p)" "instants (unit_of p) = instants p" "ou_id (unit_of p) = pl_unit p"
proof -
  have "effectiveTo (unit_of p) = effectiveTo p"
    using assms by (cases rule: ival_cases) (auto simp: unit_of_def)
  then show "ival (unit_of p)" "instants (unit_of p) = instants p"
    using assms by (auto simp: ival_def requireInterval_def instants_def unit_of_def)
qed (simp add: unit_of_def)

lemma ran_upd_subset: "x \<in> ran (m(i \<mapsto> v)) \<Longrightarrow> x = v \<or> x \<in> ran m"
  by (auto simp: ran_def split: if_splits)

section \<open>Every write keeps it\<close>

lemma spec_apply_Close:
  assumes "spec_apply (Close k to i p) f = Inr f'" and to: "iso_instant to \<noteq> None" and wf: "wf_intervals f"
  obtains (assignment) c where "f_assignments f i = Some c"
      "f' = f\<lparr>f_assignments := (f_assignments f)(i \<mapsto> c\<lparr>effectiveTo := Some to\<rparr>)\<rparr>"
      "ival c" "ival (c\<lparr>effectiveTo := Some to\<rparr>)" "instants (c\<lparr>effectiveTo := Some to\<rparr>) \<subseteq> instants c"
  | (employment) c where "f_employments f i = Some c"
      "f' = f\<lparr>f_employments := (f_employments f)(i \<mapsto> c\<lparr>effectiveTo := Some to\<rparr>)\<rparr>"
      "ival c" "ival (c\<lparr>effectiveTo := Some to\<rparr>)" "instants (c\<lparr>effectiveTo := Some to\<rparr>) \<subseteq> instants c"
  | (placement) c where "f_placements f i = Some c"
      "f' = f\<lparr>f_placements := (f_placements f)(i \<mapsto> c\<lparr>effectiveTo := Some to\<rparr>)\<rparr>"
      "ival c" "ival (c\<lparr>effectiveTo := Some to\<rparr>)" "instants (c\<lparr>effectiveTo := Some to\<rparr>) \<subseteq> instants c"
  | (association) c where "f_associations f i = Some c"
      "f' = f\<lparr>f_associations := (f_associations f)(i \<mapsto> c\<lparr>effectiveTo := Some to\<rparr>)\<rparr>"
      "ival c" "ival (c\<lparr>effectiveTo := Some to\<rparr>)" "instants (c\<lparr>effectiveTo := Some to\<rparr>) \<subseteq> instants c"
proof (cases k)
  note r = wf [unfolded wf_intervals_def wf_placements_def]
  {
    case Close_assignment
    with assms(1) obtain m where m: "spec_close (f_assignments f) i to = Inr m" "f' = f\<lparr>f_assignments := m\<rparr>"
      by (auto simp: result_simps)
    with spec_close_Inr [OF m(1) to] r assignment show thesis by metis
  next
    case Close_employment
    with assms(1) obtain m where m: "spec_close (f_employments f) i to = Inr m" "f' = f\<lparr>f_employments := m\<rparr>"
      by (auto simp: result_simps)
    with spec_close_Inr [OF m(1) to] r employment show thesis by metis
  next
    case Close_organization_unit_placement
    with assms(1) obtain m where m: "spec_close (f_placements f) i to = Inr m" "f' = f\<lparr>f_placements := m\<rparr>"
      by (auto simp: result_simps)
    with spec_close_Inr [OF m(1) to] r placement show thesis by metis
  next
    case Close_subject_association
    with assms(1) obtain m where m: "spec_close (f_associations f) i to = Inr m" "f' = f\<lparr>f_associations := m\<rparr>"
      by (auto simp: result_simps)
    with spec_close_Inr [OF m(1) to] r association show thesis by metis
  }
qed

lemma spec_apply_intervals:
  assumes "spec_apply w f = Inr f'" "admissible f w" "wf_intervals f"
  shows "wf_intervals f'"
proof (cases w)
  case (Close k to i p)
  from assms(2) Close have to: "iso_instant to \<noteq> None" by simp
  from assms(1) [unfolded Close] to assms(3) show ?thesis
    by (cases rule: spec_apply_Close) (use assms(3) in \<open>auto simp: wf_intervals_def wf_placements_def dest!: ran_upd_subset\<close>)
qed (use assms in \<open>auto simp: result_simps wf_intervals_def wf_placements_def spec_insert_ran unit_of_interval
      split: if_splits\<close>)

lemma same_subject_or_person_sym: "same_subject_or_person a b = same_subject_or_person b a"
  by (auto simp: same_subject_or_person_def)

lemma non_overlapping_same: "f_associations f' = f_associations f \<Longrightarrow> non_overlapping f \<Longrightarrow> non_overlapping f'"
  by (simp add: non_overlapping_def)

lemma spec_apply_non_overlapping:
  assumes "spec_apply w f = Inr f'" "admissible f w" "wf_intervals f" "non_overlapping f"
  shows "non_overlapping f'"
proof (cases w)
  case (Close k to i p)
  from assms(2) Close have to: "iso_instant to \<noteq> None" by simp
  from assms(1) [unfolded Close] to assms(3) show ?thesis
  proof (cases rule: spec_apply_Close)
    case (association c)
    have same: "same_subject_or_person (c\<lparr>effectiveTo := Some to\<rparr>) b = same_subject_or_person c b"
      "same_subject_or_person b (c\<lparr>effectiveTo := Some to\<rparr>) = same_subject_or_person b c" for b
      by (simp_all add: same_subject_or_person_def)
    note n = assms(4) [unfolded non_overlapping_def, rule_format]
    show ?thesis
      unfolding non_overlapping_def association(2)
    proof (intro allI impI, elim conjE)
      fix j l a b
      assume h: "f_associations (f\<lparr>f_associations := (f_associations f)(i \<mapsto> c\<lparr>effectiveTo := Some to\<rparr>)\<rparr>) j = Some a"
        "f_associations (f\<lparr>f_associations := (f_associations f)(i \<mapsto> c\<lparr>effectiveTo := Some to\<rparr>)\<rparr>) l = Some b"
        "j \<noteq> l" "same_subject_or_person a b"
      consider "j = i" "l \<noteq> i" | "j \<noteq> i" "l = i" | "j \<noteq> i" "l \<noteq> i" using h(3) by blast
      then show "instants a \<inter> instants b = {}"
      proof cases
        case 1
        with h association(1,5) same n [of i c l b] show ?thesis by auto
      next
        case 2
        with h association(1,5) same n [of j a i c] show ?thesis by auto
      next
        case 3
        with h n [of j a l b] show ?thesis by simp
      qed
    qed
  qed (simp_all add: non_overlapping_same [OF _ assms(4)])
next
  case (Create_subject_association x)
  with assms(1,2) have new: "f_associations f (sa_id x) = None" "ival x"
    "f' = f\<lparr>f_associations := (f_associations f)(sa_id x \<mapsto> x)\<rparr>"
    and no: "\<And>b. b \<in> ran (f_associations f) \<Longrightarrow> same_subject_or_person b x \<Longrightarrow> \<not> intervalsOverlap b x"
    by (auto simp: result_simps spec_insert_Inr split: if_splits)
  have d: "instants b \<inter> instants x = {}" if "f_associations f j = Some b" "same_subject_or_person b x" for j b
    using no [of b] that assms(3) new(2) intervalsOverlap_iff [of b x]
    by (auto simp: wf_intervals_def ran_def)
  note n = assms(4) [unfolded non_overlapping_def, rule_format]
  show ?thesis
    unfolding non_overlapping_def new(3)
    using d n same_subject_or_person_sym by (fastforce split: if_splits)
qed (use assms(1) in \<open>auto simp: result_simps intro!: non_overlapping_same [OF _ assms(4)]\<close>)

lemma up_mono_placements:
  "ran (f_placements f') \<subseteq> ran (f_placements f) \<Longrightarrow> up f' t \<subseteq> up f t"
  by (auto simp: up_def)

lemma up_cong: "f_placements f' = f_placements f \<Longrightarrow> up f' t = up f t"
  by (simp add: up_def)

lemma acyclic_new_placement:
  assumes "\<forall>t. acyclic (up f t)" and "parent_ok f p" and r: "ran (f_placements f') = insert p (ran (f_placements f))"
  shows "acyclic (up f' t)"
proof (cases "\<exists>q. pl_parent p = Some q \<and> q \<noteq> [] \<and> t \<in> instants p")
  case True
  then obtain q where q: "pl_parent p = Some q" "q \<noteq> []" "t \<in> instants p" by blast
  have "up f' t = insert (pl_unit p, q) (up f t)"
    using q unfolding up_def r by auto
  with assms(1,2) q show ?thesis by (simp add: acyclic_insert parent_ok_def)
next
  case False
  then have "up f' t = up f t" unfolding up_def r by auto
  with assms(1) show ?thesis by simp
qed

lemma spec_apply_hierarchy:
  assumes "spec_apply w f = Inr f'" "admissible f w" "wf_intervals f" and h: "\<forall>t. acyclic (up f t)"
  shows "\<forall>t. acyclic (up f' t)"
proof (cases w)
  case (Close k to i p)
  from assms(2) Close have to: "iso_instant to \<noteq> None" by simp
  from assms(1) [unfolded Close] to assms(3) show ?thesis
  proof (cases rule: spec_apply_Close)
    case (placement c)
    have "up f' t \<subseteq> up f t" for t
    proof
      fix e assume "e \<in> up f' t"
      then obtain p where p: "p \<in> ran (f_placements f')" "pl_unit p = fst e" "pl_parent p = Some (snd e)"
        "snd e \<noteq> []" "t \<in> instants p" by (auto simp: up_def)
      from p(1) have "p = c\<lparr>effectiveTo := Some to\<rparr> \<or> p \<in> ran (f_placements f)"
        unfolding placement(2) by (auto dest!: ran_upd_subset)
      then show "e \<in> up f t"
      proof
        assume "p = c\<lparr>effectiveTo := Some to\<rparr>"
        with p placement(5) have "pl_unit c = fst e" "pl_parent c = Some (snd e)" "t \<in> instants c" by auto
        with p(4) placement(1) show ?thesis by (auto simp: up_def ran_def)
      next
        assume "p \<in> ran (f_placements f)"
        with p show ?thesis by (auto simp: up_def)
      qed
    qed
    with h show ?thesis by (blast intro: acyclic_subset)
  qed (use h in \<open>simp_all add: up_def\<close>)
next
  case (Create_organization_unit u p)
  with assms(1,2) have "parent_ok f p" "ran (f_placements f') = insert p (ran (f_placements f))"
    by (auto simp: result_simps spec_insert_ran)
  with h show ?thesis by (blast intro: acyclic_new_placement)
next
  case (Create_organization_unit_placement p)
  with assms(1,2) have "parent_ok f p" "ran (f_placements f') = insert p (ran (f_placements f))"
    by (auto simp: result_simps spec_insert_ran)
  with h show ?thesis by (blast intro: acyclic_new_placement)
qed (use assms(1) h in \<open>auto simp: result_simps up_def split: if_splits\<close>)

text \<open>References survive growing maps and shrinking intervals.\<close>

definition grows :: "facts \<Rightarrow> facts \<Rightarrow> bool" where
  "grows f f' = (f_people f \<subseteq>\<^sub>m f_people f' \<and> f_units f \<subseteq>\<^sub>m f_units f' \<and> f_positions f \<subseteq>\<^sub>m f_positions f'
     \<and> (\<forall>i e. f_employments f i = Some e \<longrightarrow> (\<exists>e'. f_employments f' i = Some e' \<and> em_person e' = em_person e
          \<and> effectiveFrom e' = effectiveFrom e)))"

lemma map_leD: "m \<subseteq>\<^sub>m m' \<Longrightarrow> m k = Some x \<Longrightarrow> m' k = Some x"
  by (metis domI map_le_def)

lemma references_grow:
  assumes g: "grows f f'"
  shows "placement_refs f p \<Longrightarrow> placement_refs f' p"
    and "position_refs f x \<Longrightarrow> position_refs f' x"
    and "assignment_refs f a \<Longrightarrow> assignment_refs f' a"
    and "i \<in> dom (f_people f) \<Longrightarrow> i \<in> dom (f_people f')"
proof -
  note m = map_leD [of "f_units f" "f_units f'"] map_leD [of "f_positions f" "f_positions f'"]
    map_leD [of "f_people f" "f_people f'"]
  from g have le: "f_units f \<subseteq>\<^sub>m f_units f'" "f_positions f \<subseteq>\<^sub>m f_positions f'" "f_people f \<subseteq>\<^sub>m f_people f'"
    by (simp_all add: grows_def)
  show "placement_refs f p \<Longrightarrow> placement_refs f' p"
    unfolding placement_refs_def using m(1) [OF le(1)] by metis
  show "position_refs f x \<Longrightarrow> position_refs f' x"
    unfolding position_refs_def using m(1) [OF le(1)] by metis
  show "i \<in> dom (f_people f) \<Longrightarrow> i \<in> dom (f_people f')"
    using m(3) [OF le(3)] by blast
  assume a: "assignment_refs f a"
  then obtain e u p where h: "f_employments f (as_employment a) = Some e" "em_person e = as_person a"
     "starts_within a e" "f_units f (as_unit a) = Some u" "instants a \<subseteq> instants u"
     "f_positions f (as_position a) = Some p" "po_unit p = as_unit a" "instants a \<subseteq> instants p"
     "as_unit a \<noteq> []"
    by (auto simp: assignment_refs_def)
  from g h(1) obtain e' where "f_employments f' (as_employment a) = Some e'" "em_person e' = em_person e"
    "effectiveFrom e' = effectiveFrom e" by (auto simp: grows_def)
  with h m(1) [OF le(1) h(4)] m(2) [OF le(2) h(6)] show "assignment_refs f' a"
    unfolding assignment_refs_def starts_within_def by metis
qed

lemma grows_refl: "f_people f' = f_people f \<Longrightarrow> f_units f' = f_units f \<Longrightarrow> f_positions f' = f_positions f
  \<Longrightarrow> f_employments f' = f_employments f \<Longrightarrow> grows f f'"
  by (simp add: grows_def)

lemma references_step:
  assumes r: "references f" and g: "grows f f'"
    and "\<And>e. e \<in> ran (f_employments f') \<Longrightarrow> e \<in> ran (f_employments f) \<or> em_person e \<in> dom (f_people f')"
    and "\<And>x. x \<in> ran (f_associations f') \<Longrightarrow> x \<in> ran (f_associations f) \<or> sa_person x \<in> dom (f_people f')"
    and "\<And>x. x \<in> ran (f_positions f') \<Longrightarrow> x \<in> ran (f_positions f) \<or> position_refs f' x"
    and "\<And>x. x \<in> ran (f_placements f') \<Longrightarrow> x \<in> ran (f_placements f) \<or> placement_refs f' x"
    and "\<And>x. x \<in> ran (f_assignments f') \<Longrightarrow> x \<in> ran (f_assignments f) \<or> assignment_refs f' x"
  shows "references f'"
  using assms(3-7) r references_grow [OF g] unfolding references_def by meson

lemma spec_insert_le: "spec_insert m i v = Inr m' \<Longrightarrow> m \<subseteq>\<^sub>m m'"
  by (auto simp: spec_insert_Inr map_le_def)

lemma spec_apply_references:
  assumes a: "spec_apply w f = Inr f'" and adm: "admissible f w" and wf: "wf_intervals f" and r: "references f"
  shows "references f'"
proof (cases w)
  case (Close k to i p)
  from adm Close have to: "iso_instant to \<noteq> None" by simp
  from a [unfolded Close] to wf show ?thesis
  proof (cases rule: spec_apply_Close)
    case (assignment c)
    from r assignment(1) have "assignment_refs f c" by (auto simp: references_def ran_def)
    with assignment(5) have "assignment_refs f' (c\<lparr>effectiveTo := Some to\<rparr>)"
      by (simp add: assignment_refs_def starts_within_def assignment(2)) blast
    then show ?thesis using r
      by (intro references_step [OF r]) (auto simp: assignment(2) grows_def dest!: ran_upd_subset)
  next
    case (employment c)
    from r employment(1) have "em_person c \<in> dom (f_people f)" by (auto simp: references_def ran_def)
    then show ?thesis using employment(1)
      by (intro references_step [OF r]) (auto simp: employment(2) grows_def dest!: ran_upd_subset)
  next
    case (placement c)
    from r placement(1) have "placement_refs f c" by (auto simp: references_def ran_def)
    with placement(5) have "placement_refs f' (c\<lparr>effectiveTo := Some to\<rparr>)"
      by (auto simp: placement_refs_def placement(2))
    then show ?thesis
      by (intro references_step [OF r]) (auto simp: placement(2) grows_def dest!: ran_upd_subset)
  next
    case (association c)
    from r association(1) have "sa_person c \<in> dom (f_people f)" by (auto simp: references_def ran_def)
    then show ?thesis
      by (intro references_step [OF r]) (auto simp: association(2) grows_def dest!: ran_upd_subset)
  qed
next
  case (Create_organization_unit u p)
  with a obtain us ps where s: "spec_insert (f_units f) (ou_id u) u = Inr us"
    "spec_insert (f_placements f) (pl_id p) p = Inr ps" "f' = f\<lparr>f_units := us, f_placements := ps\<rparr>"
    by (auto simp: result_simps)
  have g: "grows f f'" using spec_insert_le [OF s(1)] by (simp add: grows_def s(3))
  from Create_organization_unit adm have u: "u = unit_of p" "ival p" "parent_ok f p" by auto
  have "us (pl_unit p) = Some u" using s(1) u(1) by (auto simp: spec_insert_Inr unit_of_def)
  then have "placement_refs f' p"
    using u unit_of_interval(2) [OF u(2)] spec_insert_mono [OF s(1)]
    by (simp add: placement_refs_def parent_ok_def s(3)) blast
  then show ?thesis
    by (intro references_step [OF r g]) (auto simp: s(3) spec_insert_ran [OF s(2)])
next
  case (Create_person p)
  with a obtain m where s: "spec_insert (f_people f) (wp_id p) p = Inr m" "f' = f\<lparr>f_people := m\<rparr>"
    by (auto simp: result_simps)
  show ?thesis using spec_insert_le [OF s(1)] by (intro references_step [OF r]) (auto simp: s(2) grows_def)
next
  case (Create_employment e)
  with a obtain m where s: "spec_insert (f_employments f) (em_id e) e = Inr m" "f' = f\<lparr>f_employments := m\<rparr>"
    by (auto simp: result_simps)
  with Create_employment adm spec_insert_mono [OF s(1)] show ?thesis
    by (intro references_step [OF r]) (auto simp: grows_def spec_insert_ran [OF s(1)])
next
  case (Create_organization_unit_placement p)
  with a obtain m where s: "spec_insert (f_placements f) (pl_id p) p = Inr m" "f' = f\<lparr>f_placements := m\<rparr>"
    by (auto simp: result_simps)
  have g: "grows f f'" by (simp add: s(2) grows_def)
  from Create_organization_unit_placement adm references_grow(1) [OF g] have "placement_refs f' p" by simp
  then show ?thesis by (intro references_step [OF r g]) (auto simp: s(2) spec_insert_ran [OF s(1)])
next
  case (Create_position p)
  with a obtain m where s: "spec_insert (f_positions f) (po_id p) p = Inr m" "f' = f\<lparr>f_positions := m\<rparr>"
    by (auto simp: result_simps)
  have g: "grows f f'" using spec_insert_le [OF s(1)] by (simp add: s(2) grows_def)
  from Create_position adm references_grow(2) [OF g] have "position_refs f' p" by simp
  then show ?thesis by (intro references_step [OF r g]) (auto simp: s(2) spec_insert_ran [OF s(1)])
next
  case (Create_assignment x)
  with a obtain m where s: "spec_insert (f_assignments f) (as_id x) x = Inr m" "f' = f\<lparr>f_assignments := m\<rparr>"
    by (auto simp: result_simps)
  have g: "grows f f'" by (simp add: s(2) grows_def)
  from Create_assignment adm references_grow(3) [OF g] have "assignment_refs f' x" by simp
  then show ?thesis by (intro references_step [OF r g]) (auto simp: s(2) spec_insert_ran [OF s(1)])
next
  case (Create_subject_association x)
  with a obtain m where s: "spec_insert (f_associations f) (sa_id x) x = Inr m" "f' = f\<lparr>f_associations := m\<rparr>"
    by (auto simp: result_simps split: if_splits)
  with Create_subject_association adm show ?thesis
    by (intro references_step [OF r]) (auto simp: grows_def spec_insert_ran [OF s(1)])
qed

lemma spec_apply_inv:
  "spec_apply w f = Inr f' \<Longrightarrow> admissible f w \<Longrightarrow> org_inv f \<Longrightarrow> org_inv f'"
  using spec_apply_intervals spec_apply_non_overlapping spec_apply_references spec_apply_hierarchy
  unfolding org_inv_def by meson

section \<open>Every command commits an admissible write\<close>

text \<open>The permission a command asks for.\<close>

fun command_request :: "command_metadata \<Rightarrow> org_command \<Rightarrow> authorization_request" where
  "command_request m (Cmd_person p) = \<lparr>ar_action = ''workforce_person_created'', ar_actor = actor m,
     ar_entityId = wp_id p, ar_entityType = ''workforce_person'', ar_operationId = operationId m\<rparr>"
| "command_request m (Cmd_employment e) = \<lparr>ar_action = ''employment_created'', ar_actor = actor m,
     ar_entityId = em_id e, ar_entityType = ''employment'', ar_operationId = operationId m\<rparr>"
| "command_request m (Cmd_unit p) = \<lparr>ar_action = ''organization_unit_created'', ar_actor = actor m,
     ar_entityId = pl_unit p, ar_entityType = ''organization_unit'', ar_operationId = operationId m\<rparr>"
| "command_request m (Cmd_placement p) = \<lparr>ar_action = ''organization_unit_placement_created'', ar_actor = actor m,
     ar_entityId = pl_id p, ar_entityType = ''organization_unit_placement'', ar_operationId = operationId m\<rparr>"
| "command_request m (Cmd_position p) = \<lparr>ar_action = ''position_created'', ar_actor = actor m,
     ar_entityId = po_id p, ar_entityType = ''position'', ar_operationId = operationId m\<rparr>"
| "command_request m (Cmd_assignment a) = \<lparr>ar_action = ''assignment_created'', ar_actor = actor m,
     ar_entityId = as_id a, ar_entityType = ''assignment'', ar_operationId = operationId m\<rparr>"
| "command_request m (Cmd_association a) = \<lparr>ar_action = ''subject_association_created'', ar_actor = actor m,
     ar_entityId = sa_id a, ar_entityType = ''subject_association'', ar_operationId = operationId m\<rparr>"
| "command_request m (Cmd_close k c) = \<lparr>ar_action = audit_action k, ar_actor = actor m,
     ar_entityId = cl_factId c, ar_entityType = close_entity_type k, ar_operationId = operationId m\<rparr>"

text \<open>
  The write of a command (a close also names the person of the fact it closes) and the digest of the
  request: actor, action, reason and write.
\<close>

fun command_write :: "org_command \<Rightarrow> string option \<Rightarrow> organization_write" where
  "command_write (Cmd_person p) person = Create_person p"
| "command_write (Cmd_employment e) person = Create_employment e"
| "command_write (Cmd_unit p) person = Create_organization_unit (unit_of p) p"
| "command_write (Cmd_placement p) person = Create_organization_unit_placement p"
| "command_write (Cmd_position p) person = Create_position p"
| "command_write (Cmd_assignment a) person = Create_assignment a"
| "command_write (Cmd_association a) person = Create_subject_association a"
| "command_write (Cmd_close k c) person = Close k (cl_effectiveTo c) (cl_factId c) person"

lemma command_write_inject: "command_write cmd x = command_write cmd' y \<Longrightarrow> cmd = cmd'"
  by (cases cmd; cases cmd') auto

definition command_digest :: "org_env \<Rightarrow> command_metadata \<Rightarrow> org_command \<Rightarrow> string option \<Rightarrow> string" where
  "command_digest env m cmd person =
     digest env (actor m) (ar_action (command_request m cmd)) (reason m) (command_write cmd person)"

lemma authorize_Inr: "authorize env m action etype eid = Inr u \<longleftrightarrow>
  authorizer env \<lparr>ar_action = action, ar_actor = actor m, ar_entityId = eid, ar_entityType = etype,
     ar_operationId = operationId m\<rparr> = None"
  by (auto simp: authorize_def split: option.splits)

lemma present_Inr: "present x = Inr v \<longleftrightarrow> x = Some v"
  by (auto simp: present_def split: option.splits)

lemma contained_in_Inr: "contained_in i j = Inr u \<longleftrightarrow> intervalContains i j"
  by (auto simp: contained_in_def)

lemma intervalEntity_Inr: "intervalEntity i iv = Inr u \<longleftrightarrow> requireId i = Inr () \<and> ival iv"
  by (auto simp: intervalEntity_def ival_def result_simps)

lemmas guard_simps = result_simps authorize_Inr present_Inr contained_in_Inr intervalEntity_Inr

lemma requireId_ne: "requireId i = Inr u \<Longrightarrow> i \<noteq> []"
proof
  have "\<not> rx_test UUID_I []" by code_simp
  moreover assume "requireId i = Inr u" "i = []"
  ultimately show False by (simp add: requireId_def)
qed

lemma guarded_Some:
  "guarded g act s = Some (r, s') \<longleftrightarrow>
   (\<exists>e. g = Some (Inl e) \<and> r = Inl e \<and> s' = s) \<or> g = Some (Inr ()) \<and> act s = (r, s')"
  by (auto simp: guarded_def split: option.splits sum.splits)

context org_store
begin

lemma check_parent_Inr:
  assumes i: "inv s" and wf: "wf_intervals (abs s)" and p: "ival p"
    and ok: "check_parent st s p = Some (Inr ())"
  shows "parent_ok (abs s) p"
  unfolding parent_ok_def
proof (intro allI impI, elim conjE)
  fix q assume q: "pl_parent p = Some q" "q \<noteq> []"
  from ok q obtain v where v: "f_units (abs s) q = Some v" "intervalContains v p"
    and c: "assertNoHierarchyCycle st s (pl_unit p) q p = Some (Inr ())"
    by (auto simp: check_parent_def guard_simps find [OF i])
  from wf v(1) have "ival v" by (auto simp: wf_intervals_def ran_def)
  with v p have "instants p \<subseteq> instants v" by (simp add: intervalContains_iff)
  moreover have "\<forall>t \<in> instants p. (q, pl_unit p) \<notin> (up (abs s) t)\<^sup>*"
    using no_cycle_between [OF i _ p _ q(2) c] wf by (simp add: wf_intervals_def)
  ultimately show "(\<exists>v. f_units (abs s) q = Some v \<and> instants p \<subseteq> instants v)
      \<and> (\<forall>t \<in> instants p. (q, pl_unit p) \<notin> (up (abs s) t)\<^sup>*)"
    using v(1) by blast
qed

lemma unit_contains:
  assumes i: "inv s" and wf: "wf_intervals (abs s)" and f: "findOrganizationUnit st i s = Some u"
    and c: "intervalContains u x" and x: "ival x"
  shows "f_units (abs s) i = Some u \<and> instants x \<subseteq> instants u"
proof -
  have u: "f_units (abs s) i = Some u" using f by (simp add: find [OF i])
  with wf have "ival u" by (auto simp: wf_intervals_def ran_def)
  with c x u show ?thesis by (simp add: intervalContains_iff)
qed

lemma check_assignment_Inr:
  assumes i: "inv s" and wf: "wf_intervals (abs s)" and a: "ival a" and ne: "as_unit a \<noteq> []"
    and ok: "check_assignment a (findEmployment st (as_employment a) s)
                (findOrganizationUnit st (as_unit a) s) (findPosition st (as_position a) s) = Inr ()"
  shows "assignment_refs (abs s) a"
proof -
  from ok obtain e u p where h: "findEmployment st (as_employment a) s = Some e"
    "findOrganizationUnit st (as_unit a) s = Some u" "findPosition st (as_position a) s = Some p"
    "em_person e = as_person a" "po_unit p = as_unit a"
    "intervalContains e a" "intervalContains u a" "intervalContains p a"
    by (auto simp: check_assignment_def split: option.splits if_splits)
  from h(1,3) have f: "f_employments (abs s) (as_employment a) = Some e" "f_positions (abs s) (as_position a) = Some p"
    by (simp_all add: find [OF i])
  with wf have iv: "ival e" "ival p" by (auto simp: wf_intervals_def ran_def)
  obtain c d where cd: "iso_instant (effectiveFrom a) = Some c" "iso_instant (effectiveFrom e) = Some d"
    using ival_from [OF a] ival_from [OF iv(1)] by blast
  have "starts_within a e"
    using h(6) cd by (auto simp: starts_within_def intervalContains_def parse_iso split: if_splits)
  moreover have "instants a \<subseteq> instants p" using h(8) iv a by (simp add: intervalContains_iff)
  ultimately show ?thesis
    using h f ne unit_contains [OF i wf h(2,7) a] unfolding assignment_refs_def by blast
qed

lemma run_command_cases:
  assumes i: "inv s" and wf: "wf_intervals (abs s)" and r: "run_command st env m cmd s = Some (r, s')"
  shows "(\<exists>e. r = Inl e \<and> s' = s)
    \<or> (\<exists>person ev. admissible (abs s) (command_write cmd person)
         \<and> commit_write st env m (ar_action (command_request m cmd)) ev (command_write cmd person) s = (r, s')
         \<and> authorizer env (command_request m cmd) = None)"
proof (cases cmd)
  case (Cmd_person p)
  with r show ?thesis
    by (auto simp: createWorkforcePerson_def guarded_Some guard_simps intro: admissible.simps(1) [THEN iffD2])
next
  case (Cmd_employment e)
  have "admissible (abs s) (Create_employment e)" if "ival e" "findWorkforcePerson st (em_person e) s = Some x" for x
    using that by (auto simp: find [OF i])
  with Cmd_employment r show ?thesis
    by (auto simp: createEmployment_def guarded_Some guard_simps)
next
  case (Cmd_unit p)
  have "admissible (abs s) (Create_organization_unit (unit_of p) p)" if "ival p" "check_parent st s p = Some (Inr ())"
    using that check_parent_Inr [OF i wf] by simp
  with Cmd_unit r show ?thesis
    by (auto simp: createOrganizationUnit_def guarded_Some guard_simps)
next
  case (Cmd_placement p)
  have "admissible (abs s) (Create_organization_unit_placement p)" if "ival p"
    "check_parent st s p = Some (Inr ())" "findOrganizationUnit st (pl_unit p) s = Some u" "intervalContains u p" for u
    using that check_parent_Inr [OF i wf that(1,2)] unit_contains [OF i wf that(3,4,1)]
    by (auto simp: placement_refs_def parent_ok_def)
  with Cmd_placement r show ?thesis
    by (auto simp: createOrganizationUnitPlacement_def guarded_Some guard_simps)
next
  case (Cmd_position p)
  have "admissible (abs s) (Create_position p)" if "ival p"
    "findOrganizationUnit st (po_unit p) s = Some u" "intervalContains u p" for u
    using that unit_contains [OF i wf that(2,3,1)] by (auto simp: position_refs_def)
  with Cmd_position r show ?thesis
    by (auto simp: createPosition_def guarded_Some guard_simps)
next
  case (Cmd_assignment a)
  have "admissible (abs s) (Create_assignment a)" if "ival a" "requireId (as_unit a) = Inr ()" "check_assignment a (findEmployment st (as_employment a) s)
      (findOrganizationUnit st (as_unit a) s) (findPosition st (as_position a) s) = Inr ()"
    using that check_assignment_Inr [OF i wf] requireId_ne by auto
  with Cmd_assignment r show ?thesis
    by (auto simp: createAssignment_def guarded_Some guard_simps)
next
  case (Cmd_association a)
  have "admissible (abs s) (Create_subject_association a)" if "ival a" "findWorkforcePerson st (sa_person a) s = Some x" for x
    using that by (auto simp: find [OF i])
  with Cmd_association r show ?thesis
    by (auto simp: createSubjectAssociation_def guarded_Some guard_simps)
next
  case (Cmd_close k c)
  with r show ?thesis
    by (auto simp: close_fact_def guard_simps requireTimestamp_Inr split: sum.splits)
qed

end

section \<open>One command\<close>

lemma org_inv_operations [simp]: "org_inv (f\<lparr>f_operations := m\<rparr>) = org_inv f"
  by (simp add: org_inv_def wf_intervals_def wf_placements_def non_overlapping_def references_def
      placement_refs_def position_refs_def assignment_refs_def up_def)

lemma spec_apply_operations: "spec_apply w f = Inr f' \<Longrightarrow> f_operations f' = f_operations f"
  by (cases w) (auto simp: result_simps split: if_splits close_kind.splits)

context org_store
begin

lemma commit_write_cases:
  assumes i: "inv s" and c: "commit_write st env m action ev w s = (r, s')"
  shows "inv s'" and
    "(\<exists>e. r = Inl e) \<and> abs s' = abs s
    \<or> r = Inr () \<and> abs s' = abs s \<and> f_operations (abs s) (operationId m) = Some (digest env (actor m) action (reason m) w)
    \<or> r = Inr () \<and> f_operations (abs s) (operationId m) = None \<and> (\<exists>f'. spec_apply w (abs s) = Inr f'
         \<and> abs s' = f'\<lparr>f_operations := (f_operations (abs s))(operationId m \<mapsto> digest env (actor m) action (reason m) w)\<rparr>)"
proof -
  define k where "k = \<lparr>oc_actor = actor m, auditAction = action, eventType = ev,
            fingerprint = digest env (actor m) action (reason m) w, oc_operationId = operationId m,
            oc_reason = reason m, oc_traceId = traceId m, oc_write = w\<rparr>"
  obtain r' s1 where k: "commit st k s = (r', s1)" by fastforce
  with c have eq: "s' = s1" "r = (case r' of Inl e \<Rightarrow> Inl e | Inr b \<Rightarrow> Inr ())"
    by (auto simp: commit_write_def k_def [symmetric] split: sum.splits)
  note sp = commit_spec [OF i k]
  then show "inv s'" by (simp add: eq)
  from sp show "(\<exists>e. r = Inl e) \<and> abs s' = abs s
    \<or> r = Inr () \<and> abs s' = abs s \<and> f_operations (abs s) (operationId m) = Some (digest env (actor m) action (reason m) w)
    \<or> r = Inr () \<and> f_operations (abs s) (operationId m) = None \<and> (\<exists>f'. spec_apply w (abs s) = Inr f'
         \<and> abs s' = f'\<lparr>f_operations := (f_operations (abs s))(operationId m \<mapsto> digest env (actor m) action (reason m) w)\<rparr>)"
    unfolding eq by (auto simp: spec_commit_def k_def split: option.splits sum.splits if_splits)
qed

lemma check_parent_total:
  assumes "inv s"
  shows "check_parent st s p \<noteq> None"
proof -
  have "assertNoHierarchyCycle st s u q p \<noteq> None" for u q
    unfolding assertNoHierarchyCycle_def by (rule forO_total) (simp add: walk_total [OF assms])
  then show ?thesis
    by (cases "pl_parent p") (auto simp: check_parent_def bindO_def split: option.splits sum.splits)
qed

lemma guarded_total: "g \<noteq> None \<Longrightarrow> guarded g act s \<noteq> None"
  by (auto simp: guarded_def split: sum.splits)

lemma run_command_total:
  assumes "inv s"
  shows "run_command st env m cmd s \<noteq> None"
proof (cases cmd)
  case (Cmd_unit q)
  with check_parent_total [OF assms, of q] show ?thesis
    by (simp add: createOrganizationUnit_def guarded_total bindO_None)
next
  case (Cmd_placement q)
  with check_parent_total [OF assms, of q] show ?thesis
    by (simp add: createOrganizationUnitPlacement_def guarded_total bindO_None)
next
  case (Cmd_close k c)
  then show ?thesis by (simp add: close_fact_def split: sum.splits)
qed (simp_all add: createWorkforcePerson_def createEmployment_def createPosition_def createAssignment_def
    createSubjectAssociation_def guarded_total)

text \<open>The contract of a command: invariants kept, errors change nothing, effects are authorised.\<close>

lemma run_command_step:
  assumes i: "inv s" and o: "org_inv (abs s)" and r: "run_command st env m cmd s = Some (r, s')"
  shows "inv s'" "org_inv (abs s')" "r = Inl e \<Longrightarrow> abs s' = abs s"
    "abs s' \<noteq> abs s \<or> r = Inr () \<Longrightarrow> authorizer env (command_request m cmd) = None"
    "f_operations (abs s) \<subseteq>\<^sub>m f_operations (abs s')"
    "f_operations (abs s) (operationId m) = Some fp \<Longrightarrow> abs s' = abs s"
    "r = Inr () \<Longrightarrow> \<exists>person. f_operations (abs s') (operationId m) = Some (command_digest env m cmd person)"
proof -
  have wf: "wf_intervals (abs s)" using o by (simp add: org_inv_def)
  from run_command_cases [OF i wf r]
  have "inv s' \<and> org_inv (abs s') \<and> (r = Inl e \<longrightarrow> abs s' = abs s)
    \<and> (abs s' \<noteq> abs s \<or> r = Inr () \<longrightarrow> authorizer env (command_request m cmd) = None)
    \<and> f_operations (abs s) \<subseteq>\<^sub>m f_operations (abs s')
    \<and> (f_operations (abs s) (operationId m) = Some fp \<longrightarrow> abs s' = abs s)
    \<and> (r = Inr () \<longrightarrow> (\<exists>person. f_operations (abs s') (operationId m) = Some (command_digest env m cmd person)))"
  proof (elim disjE exE conjE)
    fix e' assume "r = Inl e'" "s' = s"
    with i o show ?thesis by simp
  next
    fix person ev
    let ?w = "command_write cmd person" and ?d = "command_digest env m cmd person"
    assume adm: "admissible (abs s) ?w"
      and c: "commit_write st env m (ar_action (command_request m cmd)) ev ?w s = (r, s')"
      and a: "authorizer env (command_request m cmd) = None"
    note cc = commit_write_cases [OF i c, folded command_digest_def]
    from cc(2) show ?thesis
    proof (elim disjE)
      assume "(\<exists>e. r = Inl e) \<and> abs s' = abs s"
      with cc(1) a o show ?thesis by auto
    next
      assume "r = Inr () \<and> abs s' = abs s \<and> f_operations (abs s) (operationId m) = Some ?d"
      with cc(1) a o show ?thesis by auto
    next
      assume n: "r = Inr () \<and> f_operations (abs s) (operationId m) = None \<and> (\<exists>f'. spec_apply ?w (abs s) = Inr f'
         \<and> abs s' = f'\<lparr>f_operations := (f_operations (abs s))(operationId m \<mapsto> ?d)\<rparr>)"
      then obtain f' where f': "spec_apply ?w (abs s) = Inr f'"
        "abs s' = f'\<lparr>f_operations := (f_operations (abs s))(operationId m \<mapsto> ?d)\<rparr>"
        by blast
      from spec_apply_inv [OF f'(1) adm o] have "org_inv (abs s')" by (simp add: f'(2))
      moreover have "f_operations (abs s) \<subseteq>\<^sub>m f_operations (abs s')"
        using n by (auto simp: f'(2) map_le_def)
      ultimately show ?thesis using cc(1) a n by auto
    qed
  qed
  then show "inv s'" "org_inv (abs s')" "r = Inl e \<Longrightarrow> abs s' = abs s"
    "abs s' \<noteq> abs s \<or> r = Inr () \<Longrightarrow> authorizer env (command_request m cmd) = None"
    "f_operations (abs s) \<subseteq>\<^sub>m f_operations (abs s')"
    "f_operations (abs s) (operationId m) = Some fp \<Longrightarrow> abs s' = abs s"
    "r = Inr () \<Longrightarrow> \<exists>person. f_operations (abs s') (operationId m) = Some (command_digest env m cmd person)"
    by blast+
qed

end

section \<open>Resolution\<close>

text \<open>An active path of units up to a root, one placement at each unit.\<close>

inductive rooted :: "facts \<Rightarrow> int \<Rightarrow> string \<Rightarrow> bool" for f t where
  root: "f_units f c = Some u \<Longrightarrow> t \<in> instants u \<Longrightarrow>
     {p \<in> ran (f_placements f). pl_unit p = c \<and> t \<in> instants p} = {p} \<Longrightarrow>
     pl_parent p = None \<or> pl_parent p = Some [] \<Longrightarrow> rooted f t c"
| child: "f_units f c = Some u \<Longrightarrow> t \<in> instants u \<Longrightarrow>
     {p \<in> ran (f_placements f). pl_unit p = c \<and> t \<in> instants p} = {p} \<Longrightarrow>
     pl_parent p = Some q \<Longrightarrow> q \<noteq> [] \<Longrightarrow> rooted f t q \<Longrightarrow> rooted f t c"

inductive_cases rootedE: "rooted f t c"

text \<open>What a resolved context says about the facts.\<close>

definition context_ok ::
    "facts \<Rightarrow> int \<Rightarrow> authentication_subject \<Rightarrow> string option \<Rightarrow> workforce_context \<Rightarrow> bool" where
  "context_ok f t sub aid ctx =
     (let person = ctx_person ctx; ids = set (ctx_employmentIds ctx);
          mine = {y \<in> ran (f_assignments f). as_person y = person \<and> t \<in> instants y \<and> as_employment y \<in> ids} in
      (\<exists>x. {x \<in> ran (f_associations f). sa_issuer x = issuer sub \<and> sa_subject x = subject sub \<and> t \<in> instants x} = {x}
         \<and> sa_person x = person)
      \<and> ids = em_id ` {e \<in> ran (f_employments f). em_person e = person \<and> t \<in> instants e} \<and> ids \<noteq> {}
      \<and> sorted (ctx_employmentIds ctx) \<and> distinct (ctx_employmentIds ctx)
      \<and> set (ctx_assignments ctx) = assignmentReference `
           {y \<in> mine. \<forall>i. aid = Some i \<and> i \<noteq> [] \<longrightarrow> as_id y = i}
      \<and> (\<forall>i. aid = Some i \<and> i \<noteq> [] \<longrightarrow> length (ctx_assignments ctx) = 1)
      \<and> (\<forall>r \<in> set (ctx_assignments ctx). rooted f t (ref_unit r)
           \<and> (\<exists>p. f_positions f (ref_position r) = Some p \<and> po_unit p = ref_unit r \<and> t \<in> instants p)))"

lemma walk_errors:
  assumes "walk st a s visited current = Some y"
  shows "y \<in> {Inr (), org_throw Organization_hierarchy_cycle, org_throw Organization_path_invalid}"
  using assms
proof (rule walk.raw_induct [rotated], goal_cases)
  case (1 rec st a s visited current y)
  from 1(2) show ?case
    by (auto split: option.splits if_splits list.splits dest!: 1(1))
qed

context org_store
begin

lemma active_placements_eq:
  assumes i: "inv s" and wf: "wf_placements (abs s)" and t: "iso_instant a = Some t"
  shows "set (listActivePlacements st c a s) = {p \<in> ran (f_placements (abs s)). pl_unit p = c \<and> t \<in> instants p}"
  using wf isActive_iff [OF _ t] by (auto simp: list_set [OF i] wf_placements_def)

lemma walk_rooted:
  assumes i: "inv s" and wf: "wf_intervals (abs s)" and t: "iso_instant a = Some t"
  shows "walk st a s visited (Some c) = Some (Inr ()) \<Longrightarrow> c \<noteq> [] \<Longrightarrow> rooted (abs s) t c"
proof (induction "card (dom (f_units (abs s)) - set visited)" arbitrary: visited c rule: less_induct)
  case less
  have wfp: "wf_placements (abs s)" using wf by (simp add: wf_intervals_def)
  from walk_step [OF less.prems] obtain u p where w: "c \<notin> set visited"
    "findOrganizationUnit st c s = Some u" "isActive u a" "listActivePlacements st c a s = [p]"
    "walk st a s (c # visited) (pl_parent p) = Some (Inr ())" by blast
  from w(2) have u: "f_units (abs s) c = Some u" by (simp add: find [OF i])
  with wf have "ival u" by (auto simp: wf_intervals_def ran_def)
  with w(3) t have tu: "t \<in> instants u" by (simp add: isActive_iff)
  from active_placements_eq [OF i wfp t, of c] w(4)
  have p: "{p \<in> ran (f_placements (abs s)). pl_unit p = c \<and> t \<in> instants p} = {p}" by simp
  have "card (dom (f_units (abs s)) - set (c # visited)) < card (dom (f_units (abs s)) - set visited)"
    using finite_units [OF i] u w(1) by (intro psubset_card_mono) auto
  note IH = less.hyps [OF this]
  show ?case
  proof (cases "pl_parent p = None \<or> pl_parent p = Some []")
    case True
    with u tu p show ?thesis by (rule root)
  next
    case False
    then obtain q where q: "pl_parent p = Some q" "q \<noteq> []" by (cases "pl_parent p") auto
    with u tu p IH [of q] w(5) show ?thesis by (auto intro: child)
  qed
qed

lemma resolve_cases:
  assumes i: "inv s" and wf: "wf_intervals (abs s)"
    and r: "resolveWorkforceContext st purl sub a aid s = Some (Inr ctx)"
  obtains x t xs where "iso_instant a = Some t" "listActiveSubjectAssociations st sub a s = [x]"
    "ctx_person ctx = sa_person x" "listActiveEmployments st (sa_person x) a s \<noteq> []"
    "ctx_employmentIds ctx = sort (remdups (map em_id (listActiveEmployments st (sa_person x) a s)))"
    "select_assignments aid (filter (\<lambda>y. as_employment y \<in> set (ctx_employmentIds ctx))
        (listActiveAssignments st (sa_person x) a s)) = Inr xs"
    "\<forall>y \<in> set xs. check_assignment_path st a s y = Some (Inr ())"
    "ctx_assignments ctx = map assignmentReference xs"
  using r
  by (auto simp: resolveWorkforceContext_def guard_simps requireTimestamp_Inr forO_Inr Let_def
      split: list.splits if_splits)

lemma active_eq:
  assumes i: "inv s" and wf: "wf_intervals (abs s)" and t: "iso_instant a = Some t"
  shows "set (listActiveAssignments st p a s) = {x \<in> ran (f_assignments (abs s)). as_person x = p \<and> t \<in> instants x}"
    "set (listActiveEmployments st p a s) = {x \<in> ran (f_employments (abs s)). em_person x = p \<and> t \<in> instants x}"
    "set (listActiveSubjectAssociations st sub a s)
       = {x \<in> ran (f_associations (abs s)). sa_issuer x = issuer sub \<and> sa_subject x = subject sub \<and> t \<in> instants x}"
  using wf isActive_iff [OF _ t] by (auto simp: list_set [OF i] wf_intervals_def)

lemma select_assignments_Inr:
  assumes "select_assignments aid xs = Inr ys"
  shows "set ys = {y \<in> set xs. \<forall>i. aid = Some i \<and> i \<noteq> [] \<longrightarrow> as_id y = i}"
    "aid = Some i \<Longrightarrow> i \<noteq> [] \<Longrightarrow> length ys = 1"
  using assms by (auto simp: select_assignments_def guard_simps Let_def split: option.splits if_splits)

lemma check_assignment_path_Inr:
  assumes i: "inv s" and wf: "wf_intervals (abs s)" and t: "iso_instant a = Some t"
    and c: "check_assignment_path st a s x = Some (Inr ())" and ne: "as_unit x \<noteq> []"
  shows "rooted (abs s) t (as_unit x)
    \<and> (\<exists>p. f_positions (abs s) (as_position x) = Some p \<and> po_unit p = as_unit x \<and> t \<in> instants p)"
proof -
  from c obtain u p where h: "findPosition st (as_position x) s = Some p" "po_unit p = as_unit x" "isActive p a"
    "walk st a s [] (Some (as_unit x)) = Some (Inr ())"
    by (auto simp: check_assignment_path_def assertValidOrganizationPath_def split: option.splits if_splits)
  from h(1) have "f_positions (abs s) (as_position x) = Some p" by (simp add: find [OF i])
  moreover from this wf have "ival p" by (auto simp: wf_intervals_def ran_def)
  ultimately show ?thesis
    using h walk_rooted [OF i wf t h(4) ne] isActive_iff [OF _ t] by blast
qed

lemma resolve_sound:
  assumes i: "inv s" and o: "org_inv (abs s)"
    and r: "resolveWorkforceContext st purl sub a aid s = Some (Inr ctx)"
  shows "\<exists>t. iso_instant a = Some t \<and> context_ok (abs s) t sub aid ctx"
proof -
  from o have wf: "wf_intervals (abs s)" and ids: "\<forall>y \<in> ran (f_assignments (abs s)). as_unit y \<noteq> []"
    by (auto simp: org_inv_def references_def assignment_refs_def)
  from i wf r show ?thesis
  proof (cases rule: resolve_cases)
  case (1 x t xs)
  note act = active_eq [OF i wf 1(1)]
  have one: "{x \<in> ran (f_associations (abs s)). sa_issuer x = issuer sub \<and> sa_subject x = subject sub \<and> t \<in> instants x} = {x}"
    using act(3) [of sub] 1(2) by simp
  have es: "set (ctx_employmentIds ctx)
      = em_id ` {e \<in> ran (f_employments (abs s)). em_person e = sa_person x \<and> t \<in> instants e}"
    using act(2) [of "sa_person x"] by (simp add: 1(5))
  have ne: "set (ctx_employmentIds ctx) \<noteq> {}" using 1(4) by (simp add: 1(5))
  have xs: "set xs = {y \<in> {y \<in> ran (f_assignments (abs s)). as_person y = sa_person x \<and> t \<in> instants y
        \<and> as_employment y \<in> set (ctx_employmentIds ctx)}. \<forall>i. aid = Some i \<and> i \<noteq> [] \<longrightarrow> as_id y = i}"
    using select_assignments_Inr(1) [OF 1(6)] act(1) [of "sa_person x"] by auto
  have path: "rooted (abs s) t (as_unit y)
      \<and> (\<exists>p. f_positions (abs s) (as_position y) = Some p \<and> po_unit p = as_unit y \<and> t \<in> instants p)" if "y \<in> set xs" for y
    using check_assignment_path_Inr [OF i wf 1(1)] 1(7) that ids xs by auto
  have "context_ok (abs s) t sub aid ctx"
    unfolding context_ok_def Let_def
  proof (intro conjI)
    show "\<exists>x. {x \<in> ran (f_associations (abs s)). sa_issuer x = issuer sub \<and> sa_subject x = subject sub \<and> t \<in> instants x} = {x}
         \<and> sa_person x = ctx_person ctx" by (intro exI conjI, rule one) (simp add: 1(3))
    show "set (ctx_employmentIds ctx) = em_id ` {e \<in> ran (f_employments (abs s)). em_person e = ctx_person ctx \<and> t \<in> instants e}"
      using es 1(3) by simp
    show "set (ctx_employmentIds ctx) \<noteq> {}" by (rule ne)
    show "sorted (ctx_employmentIds ctx)" "distinct (ctx_employmentIds ctx)" by (simp_all add: 1(5))
    show "set (ctx_assignments ctx) = assignmentReference `
        {y \<in> {y \<in> ran (f_assignments (abs s)). as_person y = ctx_person ctx \<and> t \<in> instants y
           \<and> as_employment y \<in> set (ctx_employmentIds ctx)}. \<forall>i. aid = Some i \<and> i \<noteq> [] \<longrightarrow> as_id y = i}"
      using xs by (simp add: 1(3,8))
    show "\<forall>i. aid = Some i \<and> i \<noteq> [] \<longrightarrow> length (ctx_assignments ctx) = 1"
      using select_assignments_Inr(2) [OF 1(6)] by (simp add: 1(8))
    show "\<forall>r \<in> set (ctx_assignments ctx). rooted (abs s) t (ref_unit r)
       \<and> (\<exists>p. f_positions (abs s) (ref_position r) = Some p \<and> po_unit p = ref_unit r \<and> t \<in> instants p)"
      using path by (auto simp: 1(8) assignmentReference_def)
  qed
  with 1(1) show ?thesis by blast
  qed
qed

lemma check_assignment_path_total: "inv s \<Longrightarrow> check_assignment_path st a s x \<noteq> None"
  using walk_total by (auto simp: check_assignment_path_def assertValidOrganizationPath_def split: option.splits)

lemma resolve_total:
  assumes "inv s"
  shows "resolveWorkforceContext st purl sub a aid s \<noteq> None"
proof -
  have f: "(forO (check_assignment_path st a s) xs = None) = False" for xs
    using forO_total [of xs "check_assignment_path st a s"] check_assignment_path_total [OF assms] by blast
  show ?thesis
    by (auto simp: f resolveWorkforceContext_def bindO_None Let_def split: list.splits if_splits)
qed

lemma resolve_no_conflict:
  assumes i: "inv s" and o: "org_inv (abs s)"
  shows "resolveWorkforceContext st purl sub a aid s \<noteq> Some (org_throw Conflicting_subject_association)"
proof
  assume r: "resolveWorkforceContext st purl sub a aid s = Some (org_throw Conflicting_subject_association)"
  have wf: "wf_intervals (abs s)" using o by (simp add: org_inv_def)
  have w: "check_assignment_path st b s' y \<noteq> Some (org_throw Conflicting_subject_association)" for b s' y
    using walk_errors by (fastforce simp: check_assignment_path_def assertValidOrganizationPath_def
        split: option.splits if_splits)
  have f: "forO (check_assignment_path st b s') ys \<noteq> Some (org_throw Conflicting_subject_association)" for b s' ys
    using w by (induction ys) (auto simp: result_simps)
  have g: "valid_subject purl iss sb \<noteq> org_throw Conflicting_subject_association"
    "select_assignments aid ys \<noteq> org_throw Conflicting_subject_association" for iss sb ys
    by (auto simp: valid_subject_def select_assignments_def requireText_def requireId_def result_simps Let_def
        split: option.splits if_splits)
  from r obtain t x y zs where t: "iso_instant a = Some t"
    and l: "listActiveSubjectAssociations st sub a s = x # y # zs"
    by (auto simp: resolveWorkforceContext_def result_simps f g requireTimestamp_Inr requireTimestamp_Inl Let_def
        split: list.splits if_splits)
  from list_distinct(4) [OF i, of sub a] l have "x \<noteq> y" by simp
  have "x \<in> set (listActiveSubjectAssociations st sub a s)" "y \<in> set (listActiveSubjectAssociations st sub a s)"
    by (simp_all add: l)
  then have xy: "x \<in> ran (f_associations (abs s))" "y \<in> ran (f_associations (abs s))" "same_subject_or_person x y"
    "t \<in> instants x \<inter> instants y"
    unfolding active_eq(3) [OF i wf t, of sub] by (auto simp: same_subject_or_person_def)
  then obtain j k where "f_associations (abs s) j = Some x" "f_associations (abs s) k = Some y"
    by (auto simp: ran_def)
  with o xy(3,4) \<open>x \<noteq> y\<close> show False
    unfolding org_inv_def non_overlapping_def by (metis empty_iff option.inject)
qed

end

end
