(* ===== verification/Organization.thy ===== *)
theory Organization
  imports Org_Invariants
begin

text \<open>
  The organization service on the in-memory store: the states its commands can reach, and its
  properties. They are read off the lemmas of the locale \<open>org_store\<close>, interpreted as \<open>memory\<close>.
\<close>

section \<open>Reachable stores\<close>

text \<open>Any commands, by any actors, under any authorizer, one after the other.\<close>

inductive org_reachable :: "memory_store \<Rightarrow> bool" where
  start: "org_reachable empty_store"
| step: "org_reachable s \<Longrightarrow> run_command memory_organization_store env m cmd s = Some (r, s') \<Longrightarrow> org_reachable s'"

inductive_cases org_reachable_stepE: "org_reachable s"

lemma org_inv_empty: "org_inv (memory_abs empty_store)"
  by (simp add: org_inv_def memory_abs_def empty_store_def wf_intervals_def wf_placements_def
      non_overlapping_def references_def up_def acyclic_def)

lemma org_reachable_inv: "org_reachable s \<Longrightarrow> memory_inv s \<and> org_inv (memory_abs s)"
proof (induction rule: org_reachable.induct)
  case start
  show ?case using org_inv_empty by simp
next
  case (step s env m cmd r s')
  then show ?case using memory.run_command_step(1,2) [of s] by blast
qed

text \<open>
  Handlers that overlap: \<open>h\<close> lists the earlier stores, and the checks of a handler may have read any of
  them before its commit meets the store \<open>s\<close>.
\<close>

inductive org_overlapping :: "memory_store list \<Rightarrow> memory_store \<Rightarrow> bool" where
  overlapping_start: "org_overlapping [] empty_store"
| overlapping_step: "org_overlapping h s \<Longrightarrow> r \<in> set (s # h)
    \<Longrightarrow> overlapped_command memory_organization_store env m cmd r s = Some (res, s')
    \<Longrightarrow> org_overlapping (s # h) s'"

lemma org_reachable_overlapping: "org_reachable s \<Longrightarrow> \<exists>h. org_overlapping h s"
proof (induction rule: org_reachable.induct)
  case (step s env m cmd r s')
  then obtain h where "org_overlapping h s" by blast
  from overlapping_step [OF this, of s env m cmd r s'] step(2) show ?case
    by (auto simp: run_command_def)
qed (blast intro: overlapping_start)

lemmas reachable_invs = org_reachable_inv [THEN conjunct1] org_reachable_inv [THEN conjunct2]

text \<open>The stores that later commands can reach.\<close>

inductive org_later :: "memory_store \<Rightarrow> memory_store \<Rightarrow> bool" where
  here: "org_later s s"
| later: "org_later s t \<Longrightarrow> run_command memory_organization_store env m cmd t = Some (r, t') \<Longrightarrow> org_later s t'"

lemma org_later_reachable: "org_later s t \<Longrightarrow> org_reachable s \<Longrightarrow> org_reachable t"
  by (induction rule: org_later.induct) (auto intro: org_reachable.step)

lemma org_later_operations:
  "org_later s t \<Longrightarrow> org_reachable s \<Longrightarrow> map_of (operations s) k = Some fp \<Longrightarrow> map_of (operations t) k = Some fp"
proof (induction rule: org_later.induct)
  case (later s t env m cmd r t')
  note inv = reachable_invs [OF org_later_reachable [OF later.hyps(1) later.prems(1)]]
  from memory.run_command_step(5) [OF inv later.hyps(2)] later.IH [OF later.prems] show ?case
    by (auto dest: map_leD)
qed

text \<open>The requests of two commands are different, but have one digest.\<close>

definition colliding :: "org_env \<Rightarrow> command_metadata \<Rightarrow> org_command \<Rightarrow> command_metadata \<Rightarrow> org_command \<Rightarrow> bool" where
  "colliding env m cmd m' cmd' = (\<exists>p p'.
     (actor m, ar_action (command_request m cmd), reason m, command_write cmd p)
       \<noteq> (actor m', ar_action (command_request m' cmd'), reason m', command_write cmd' p')
     \<and> command_digest env m cmd p = command_digest env m' cmd' p')"

lemma equal_command_digests:
  assumes "command_digest env m' cmd' q = command_digest env m cmd p"
  shows "actor m' = actor m \<and> reason m' = reason m \<and> cmd' = cmd \<or> colliding env m cmd m' cmd'"
proof (cases "colliding env m cmd m' cmd'")
  case False
  with assms have "actor m' = actor m \<and> reason m' = reason m \<and> command_write cmd' q = command_write cmd p"
    unfolding colliding_def by (metis prod.inject)
  with command_write_inject [of cmd' q cmd p] show ?thesis by blast
qed simp

section \<open>A concrete run\<close>

definition id_of :: "char \<Rightarrow> string" where
  "id_of c = ''0000000'' @ [c] @ ''-0000-4000-8000-000000000000''"

definition witness_org_env :: org_env where
  "witness_org_env = \<lparr>authorizer = (\<lambda>r. None), url = (\<lambda>u. Some (''https:'', ''idp'')),
     digest = (\<lambda>a b c w. effectiveAt (describeOrganizationWrite w) @ entityId (describeOrganizationWrite w))\<rparr>"

definition witness_metadata :: "char \<Rightarrow> command_metadata" where
  "witness_metadata c = \<lparr>actor = \<lparr>actorId = ''a'', actorType = System\<rparr>, operationId = id_of c, reason = ''r'', traceId = ''t''\<rparr>"

definition always :: "string" where
  "always = ''2026-01-01T00:00:00.000Z''"

definition witness_unit :: "char \<Rightarrow> string option \<Rightarrow> placement" where
  "witness_unit c q = \<lparr>effectiveFrom = always, effectiveTo = None, pl_unit = id_of c,
     pl_parent = q, pl_id = id_of c\<rparr>"

definition witness_commands :: "(char \<times> org_command) list" where
  "witness_commands =
    [(CHR ''1'', Cmd_unit (witness_unit CHR ''1'' None)),
     (CHR ''2'', Cmd_unit (witness_unit CHR ''2'' (Some (id_of CHR ''1'')))),
     (CHR ''3'', Cmd_position \<lparr>effectiveFrom = always, effectiveTo = None, po_unit = id_of CHR ''2'', po_id = id_of CHR ''3''\<rparr>),
     (CHR ''4'', Cmd_person \<lparr>wp_id = id_of CHR ''4'', recordedAt = always\<rparr>),
     (CHR ''5'', Cmd_employment \<lparr>effectiveFrom = always, effectiveTo = None, em_id = id_of CHR ''5'', em_person = id_of CHR ''4''\<rparr>),
     (CHR ''6'', Cmd_assignment \<lparr>effectiveFrom = always, effectiveTo = None, as_id = id_of CHR ''6'',
        as_employment = id_of CHR ''5'', as_unit = id_of CHR ''2'', as_position = id_of CHR ''3'', as_person = id_of CHR ''4''\<rparr>),
     (CHR ''7'', Cmd_association \<lparr>effectiveFrom = always, effectiveTo = None, sa_issuer = ''https://idp'',
        sa_subject = ''u'', sa_id = id_of CHR ''7'', sa_person = id_of CHR ''4''\<rparr>)]"

fun run_all :: "(char \<times> org_command) list \<Rightarrow> memory_store \<Rightarrow> memory_store option" where
  "run_all [] s = Some s"
| "run_all ((c, cmd) # cs) s =
     (case run_command memory_organization_store witness_org_env (witness_metadata c) cmd s of
        Some (Inr _, s') \<Rightarrow> run_all cs s' | _ \<Rightarrow> None)"

definition witness_store :: "memory_store" where
  "witness_store = \<lparr>
     assignments = [(id_of CHR ''6'', \<lparr>effectiveFrom = always, effectiveTo = None, as_id = id_of CHR ''6'',
        as_employment = id_of CHR ''5'', as_unit = id_of CHR ''2'', as_position = id_of CHR ''3'', as_person = id_of CHR ''4''\<rparr>)],
     associations = [(id_of CHR ''7'', \<lparr>effectiveFrom = always, effectiveTo = None, sa_issuer = ''https://idp'',
        sa_subject = ''u'', sa_id = id_of CHR ''7'', sa_person = id_of CHR ''4''\<rparr>)],
     employments = [(id_of CHR ''5'', \<lparr>effectiveFrom = always, effectiveTo = None, em_id = id_of CHR ''5'', em_person = id_of CHR ''4''\<rparr>)],
     operations = map (\<lambda>c. (id_of c, always @ id_of c)) ''1234567'',
     placements = [(id_of CHR ''1'', witness_unit CHR ''1'' None), (id_of CHR ''2'', witness_unit CHR ''2'' (Some (id_of CHR ''1'')))],
     positions = [(id_of CHR ''3'', \<lparr>effectiveFrom = always, effectiveTo = None, po_unit = id_of CHR ''2'', po_id = id_of CHR ''3''\<rparr>)],
     units = [(id_of CHR ''1'', \<lparr>effectiveFrom = always, effectiveTo = None, ou_id = id_of CHR ''1''\<rparr>),
              (id_of CHR ''2'', \<lparr>effectiveFrom = always, effectiveTo = None, ou_id = id_of CHR ''2''\<rparr>)],
     people = [(id_of CHR ''4'', \<lparr>wp_id = id_of CHR ''4'', recordedAt = always\<rparr>)]\<rparr>"

named_theorems run_simps "symbolic evaluation of the concrete run"

lemma id_of_inject [run_simps]: "id_of c = id_of d \<longleftrightarrow> c = d" "id_of c \<noteq> []" "[] \<noteq> id_of c"
  by (simp_all add: id_of_def)

lemma witness_ids [run_simps]:
  "requireId (id_of CHR ''1'') = Inr ()" "requireId (id_of CHR ''2'') = Inr ()" "requireId (id_of CHR ''3'') = Inr ()"
  "requireId (id_of CHR ''4'') = Inr ()" "requireId (id_of CHR ''5'') = Inr ()" "requireId (id_of CHR ''6'') = Inr ()"
  "requireId (id_of CHR ''7'') = Inr ()"
  by code_simp+

lemma witness_time [run_simps]:
  "requireTimestamp always = Inr 1767225600000" "parse always = Num 1767225600000"
  by code_simp+

lemma witness_text [run_simps]: "requireText ''a'' n = check (1 \<le> n) (OrganizationError Entity_conflict)"
  "requireText ''r'' n = check (1 \<le> n) (OrganizationError Entity_conflict)"
  "requireText ''t'' n = check (1 \<le> n) (OrganizationError Entity_conflict)"
  "requireText ''u'' n = check (1 \<le> n) (OrganizationError Entity_conflict)"
  "requireText ''https://idp'' n = check (11 \<le> n) (OrganizationError Entity_conflict)"
  by (auto simp: requireText_def trim_Nil is_space_def check_def)

lemma witness_metadata_ok [run_simps]: "metadata (witness_metadata c) = requireId (id_of c)"
  by (cases "requireId (id_of c)") (auto simp: metadata_def witness_metadata_def run_simps)

lemmas run_defs = createWorkforcePerson_def createEmployment_def createPosition_def createAssignment_def
  createSubjectAssociation_def createOrganizationUnit_def guarded_def check_parent_def intervalEntity_def
  requireInterval_def authorize_def present_def contained_in_def intervalContains_def check_assignment_def
  valid_subject_def commit_write_def memory_commit_def memory_organization_store_def insert_record_def
  assertAbsent_def assertNoHierarchyCycle_def change_times_def walk.simps isActive_def js_leq_def active_of_def
  unit_of_def

lemma witness_org_env_simps [run_simps]:
  "authorizer witness_org_env r = None" "url witness_org_env u = Some (''https:'', ''idp'')"
  "digest witness_org_env x y z w = effectiveAt (describeOrganizationWrite w) @ entityId (describeOrganizationWrite w)"
  "operationId (witness_metadata c) = id_of c"
  by (simp_all add: witness_org_env_def witness_metadata_def)

lemma witness_org_run: "run_all witness_commands empty_store = Some witness_store"
  by (simp add: witness_commands_def witness_store_def empty_store_def witness_unit_def run_defs run_simps)

lemma run_all_reachable: "run_all cs s = Some s' \<Longrightarrow> org_reachable s \<Longrightarrow> org_reachable s'"
proof (induction cs s rule: run_all.induct)
  case (2 c cmd cs s)
  from 2(2) obtain s1 where r: "run_command memory_organization_store witness_org_env (witness_metadata c) cmd s = Some (Inr (), s1)"
    and a: "run_all cs s1 = Some s'"
    by (auto split: option.splits sum.splits)
  from 2(1) [OF r refl refl a org_reachable.step [OF 2(3) r]] show ?case .
qed simp

lemma run_all_later: "run_all cs s = Some s' \<Longrightarrow> org_later s s'"
proof -
  have "run_all cs t = Some s' \<Longrightarrow> org_later s t \<Longrightarrow> org_later s s'" for t
    by (induction cs t rule: run_all.induct) (auto split: option.splits sum.splits dest: org_later.later)
  then show "run_all cs s = Some s' \<Longrightarrow> org_later s s'" using org_later.here by blast
qed

lemma witness_reachable: "org_reachable witness_store"
  using run_all_reachable [OF witness_org_run org_reachable.start] .

definition witness_subject :: authentication_subject where
  "witness_subject = \<lparr>issuer = ''https://idp'', subject = ''u''\<rparr>"

definition witness_context :: workforce_context where
  "witness_context = \<lparr>ctx_assignments = [\<lparr>ref_assignment = id_of CHR ''6'', ref_employment = id_of CHR ''5'',
     ref_unit = id_of CHR ''2'', ref_position = id_of CHR ''3''\<rparr>],
     ctx_employmentIds = [id_of CHR ''5''], ctx_resolvedAt = always, ctx_subject = witness_subject,
     ctx_person = id_of CHR ''4''\<rparr>"

lemma witness_values:
  "length (placements witness_store) = 2" "length (associations witness_store) = 1"
  "map_of (operations witness_store) (id_of CHR ''1'') = Some (always @ id_of CHR ''1'')"
  by (simp_all add: witness_store_def run_simps)

lemma witness_resolved:
  "resolveWorkforceContext memory_organization_store (url witness_org_env) witness_subject always None witness_store
   = Some (Inr witness_context)"
  by (simp add: resolveWorkforceContext_def witness_store_def witness_unit_def witness_subject_def
      witness_context_def select_assignments_def check_assignment_path_def assertValidOrganizationPath_def
      assignmentReference_def run_defs run_simps)

text \<open>The first command sent again, with the same operation id.\<close>

lemma witness_replay:
  "run_command memory_organization_store witness_org_env (witness_metadata CHR ''1'')
     (Cmd_unit (witness_unit CHR ''1'' None)) witness_store = Some (Inr (), witness_store)"
  by (simp add: witness_store_def witness_unit_def run_defs run_simps)

text \<open>Two units without parents, and the commands that place each of them under the other.\<close>

definition two_roots :: "(char \<times> org_command) list" where
  "two_roots = [(CHR ''1'', Cmd_unit (witness_unit CHR ''1'' None)), (CHR ''2'', Cmd_unit (witness_unit CHR ''2'' None))]"

definition place_under :: "char \<Rightarrow> char \<Rightarrow> char \<Rightarrow> org_command" where
  "place_under p u q = Cmd_placement \<lparr>effectiveFrom = always, effectiveTo = None, pl_unit = id_of u,
     pl_parent = Some (id_of q), pl_id = id_of p\<rparr>"

definition roots_store :: memory_store where
  "roots_store = empty_store\<lparr>operations := map (\<lambda>c. (id_of c, always @ id_of c)) ''12'',
     placements := [(id_of CHR ''1'', witness_unit CHR ''1'' None), (id_of CHR ''2'', witness_unit CHR ''2'' None)],
     units := [(id_of CHR ''1'', \<lparr>effectiveFrom = always, effectiveTo = None, ou_id = id_of CHR ''1''\<rparr>),
               (id_of CHR ''2'', \<lparr>effectiveFrom = always, effectiveTo = None, ou_id = id_of CHR ''2''\<rparr>)]\<rparr>"

definition placed_store :: memory_store where
  "placed_store = roots_store\<lparr>operations := operations roots_store @ [(id_of CHR ''3'', always @ id_of CHR ''3'')],
     placements := placements roots_store @ [(id_of CHR ''3'', \<lparr>effectiveFrom = always, effectiveTo = None,
       pl_unit = id_of CHR ''1'', pl_parent = Some (id_of CHR ''2''), pl_id = id_of CHR ''3''\<rparr>)]\<rparr>"

definition cyclic_store :: memory_store where
  "cyclic_store = placed_store\<lparr>operations := operations placed_store @ [(id_of CHR ''4'', always @ id_of CHR ''4'')],
     placements := placements placed_store @ [(id_of CHR ''4'', \<lparr>effectiveFrom = always, effectiveTo = None,
       pl_unit = id_of CHR ''2'', pl_parent = Some (id_of CHR ''1''), pl_id = id_of CHR ''4''\<rparr>)]\<rparr>"

lemmas cycle_defs = place_under_def roots_store_def placed_store_def cyclic_store_def empty_store_def
  witness_unit_def createOrganizationUnitPlacement_def

lemma roots_run: "run_all two_roots empty_store = Some roots_store"
  by (simp add: two_roots_def cycle_defs run_defs run_simps)

lemma first_placement:
  "overlapped_command memory_organization_store witness_org_env (witness_metadata CHR ''3'')
     (place_under CHR ''3'' CHR ''1'' CHR ''2'') roots_store roots_store = Some (Inr (), placed_store)"
  by (simp add: cycle_defs run_defs run_simps)

lemma second_placement:
  "overlapped_command memory_organization_store witness_org_env (witness_metadata CHR ''4'')
     (place_under CHR ''4'' CHR ''2'' CHR ''1'') roots_store placed_store = Some (Inr (), cyclic_store)"
  by (simp add: cycle_defs run_defs run_simps)

text \<open>Another command under the operation id of the first.\<close>

lemma witness_reuse:
  "run_command memory_organization_store witness_org_env (witness_metadata CHR ''1'')
     (Cmd_unit (witness_unit CHR ''2'' (Some (id_of CHR ''1'')))) witness_store
   = Some (Inl (OrganizationError Idempotency_conflict), witness_store)"
  by (simp add: witness_store_def witness_unit_def run_defs run_simps)

lemma iso_always: "iso_instant always = Some 1767225600000"
  by code_simp

lemma ran_map_of_insert: "map_of xs i = Some x \<Longrightarrow> x \<in> ran (map_of xs)"
  by (auto simp: ran_def)

lemma cyclic_placements:
  "\<exists>p \<in> ran (f_placements (memory_abs cyclic_store)). pl_unit p = id_of CHR ''1'' \<and> pl_parent p = Some (id_of CHR ''2'')
     \<and> id_of CHR ''2'' \<noteq> [] \<and> 1767225600000 \<in> instants p"
  "\<exists>p \<in> ran (f_placements (memory_abs cyclic_store)). pl_unit p = id_of CHR ''2'' \<and> pl_parent p = Some (id_of CHR ''1'')
     \<and> id_of CHR ''1'' \<noteq> [] \<and> 1767225600000 \<in> instants p"
  by (auto simp: memory_abs_def cycle_defs run_simps instants_def iso_always ran_map_of_insert)

lemma third_placement:
  "run_command memory_organization_store witness_org_env (witness_metadata CHR ''5'')
     (place_under CHR ''5'' CHR ''2'' CHR ''1'') cyclic_store
   = Some (Inl (OrganizationError Organization_path_invalid), cyclic_store)"
  by (simp add: cycle_defs run_defs run_simps)

section \<open>Properties\<close>



text \<open>
  Property C0. The checks of a placement are not repeated when the in-memory store commits it: two
  placements that overlap, each unit under the other, both pass and leave a cycle, although every
  command that starts after them and places the unit again is refused.
\<close>

theorem overlapping_placements_form_a_cycle:
  "\<exists>h s t e. org_overlapping h s \<and> \<not> acyclic (up (memory_abs s) t)
    \<and> run_command memory_organization_store witness_org_env (witness_metadata CHR ''5'')
         (place_under CHR ''5'' CHR ''2'' CHR ''1'') s = Some (Inl e, s)"
proof -
  obtain h where "org_overlapping h roots_store"
    using org_reachable_overlapping run_all_reachable [OF roots_run org_reachable.start] by blast
  from overlapping_step [OF overlapping_step [OF this _ first_placement] _ second_placement]
  have "org_overlapping (placed_store # roots_store # h) cyclic_store" by simp
  moreover have "(id_of CHR ''1'', id_of CHR ''2'') \<in> up (memory_abs cyclic_store) 1767225600000"
    "(id_of CHR ''2'', id_of CHR ''1'') \<in> up (memory_abs cyclic_store) 1767225600000"
    using cyclic_placements by (auto simp: up_def)
  then have "\<not> acyclic (up (memory_abs cyclic_store) 1767225600000)"
    unfolding acyclic_def by (meson trancl.intros)
  ultimately show ?thesis using third_placement by blast
qed

text \<open>
  Property C3. In a reachable store two associations of the same subject, or of the same person,
  never hold at a common instant; so resolving a subject never ends in the ambiguity error.
\<close>

theorem associations_never_overlap:
  assumes "org_reachable s"
  shows "(\<forall>i j a b. map_of (associations s) i = Some a \<and> map_of (associations s) j = Some b \<and> i \<noteq> j
      \<and> (sa_issuer a = sa_issuer b \<and> sa_subject a = sa_subject b \<or> sa_person a = sa_person b)
      \<longrightarrow> instants a \<inter> instants b = {})
    \<and> resolveWorkforceContext memory_organization_store purl sub t aid s
      \<noteq> Some (Inl (OrganizationError Conflicting_subject_association))"
proof -
  note inv = reachable_invs [OF assms]
  have f: "f_associations (memory_abs s) = map_of (associations s)" by (simp add: memory_abs_def)
  from inv(2) have "non_overlapping (memory_abs s)" by (simp add: org_inv_def)
  then show ?thesis
    using memory.resolve_no_conflict [OF inv]
    unfolding non_overlapping_def f same_subject_or_person_def by blast
qed

theorem associations_never_overlap_witness:
  "resolveWorkforceContext memory_organization_store (url witness_org_env) witness_subject always None witness_store
     \<noteq> Some (Inl (OrganizationError Conflicting_subject_association)) \<and> length (associations witness_store) = 1"
  using associations_never_overlap [OF witness_reachable] witness_values(2) by blast



text \<open>
  Property C5. A command on a reachable store always returns; if it throws it has changed nothing;
  and it neither succeeds nor changes anything unless the authorizer allowed exactly its action on
  its entity for its actor and operation.
\<close>

theorem commands_are_total_atomic_authorised:
  assumes "org_reachable s"
  shows "\<exists>r s'. run_command memory_organization_store env m cmd s = Some (r, s')
    \<and> (\<forall>e. r = Inl e \<longrightarrow> memory_abs s' = memory_abs s)
    \<and> (r = Inr () \<or> memory_abs s' \<noteq> memory_abs s \<longrightarrow> authorizer env (command_request m cmd) = None)"
proof -
  note inv = reachable_invs [OF assms]
  from memory.run_command_total [OF inv(1)] obtain r s'
    where r: "run_command memory_organization_store env m cmd s = Some (r, s')" by fastforce
  show ?thesis
    using r memory.run_command_step(3,4) [OF inv r] by blast
qed

theorem commands_are_total_atomic_authorised_witness:
  "authorizer witness_org_env (command_request (witness_metadata CHR ''1'') (Cmd_unit (witness_unit CHR ''1'' None))) = None"
  using commands_are_total_atomic_authorised [OF witness_reachable, of witness_org_env "witness_metadata CHR ''1''"
      "Cmd_unit (witness_unit CHR ''1'' None)"] witness_replay by auto

text \<open>
  Property C6. An operation id takes effect at most once. After a command has succeeded, and whatever
  other commands ran since, a command that carries its operation id leaves every fact and every
  recorded operation as they are; and if it succeeds then it is the same command, of the same actor
  and for the same reason, unless the two requests differ and have one digest.
\<close>

theorem operation_takes_effect_once:
  assumes "org_reachable s" and "run_command memory_organization_store env m cmd s = Some (Inr (), s1)"
    and "org_later s1 s2" and "run_command memory_organization_store env' m' cmd' s2 = Some (r, s3)"
    and "operationId m' = operationId m" and "digest env' = digest env"
  shows "memory_abs s3 = memory_abs s2
    \<and> (r = Inr () \<longrightarrow> actor m' = actor m \<and> reason m' = reason m \<and> cmd' = cmd \<or> colliding env m cmd m' cmd')"
proof -
  note inv = reachable_invs [OF assms(1)]
  from memory.run_command_step(7) [OF inv assms(2)] obtain p where
    p: "map_of (operations s1) (operationId m) = Some (command_digest env m cmd p)" by auto
  have r1: "org_reachable s1" by (rule org_reachable.step [OF assms(1,2)])
  have o: "map_of (operations s2) (operationId m') = Some (command_digest env m cmd p)"
    using org_later_operations [OF assms(3) r1 p] assms(5) by simp
  note inv2 = reachable_invs [OF org_later_reachable [OF assms(3) r1]]
  note step = memory.run_command_step(6,7) [OF inv2 assms(4)]
  from step(1) o have same: "memory_abs s3 = memory_abs s2" by simp
  then have o3: "map_of (operations s3) = map_of (operations s2)" by (metis f_operations_abs)
  have "actor m' = actor m \<and> reason m' = reason m \<and> cmd' = cmd \<or> colliding env m cmd m' cmd'" if "r = Inr ()"
  proof -
    from step(2) [OF that] obtain q where "command_digest env m' cmd' q = command_digest env m cmd p"
      using o o3 assms(6) by (auto simp: command_digest_def)
    from equal_command_digests [OF this] show ?thesis by blast
  qed
  with same show ?thesis by blast
qed

theorem operation_takes_effect_once_witness:
  "\<exists>e s3. run_command memory_organization_store witness_org_env (witness_metadata CHR ''1'')
     (Cmd_unit (witness_unit CHR ''2'' (Some (id_of CHR ''1'')))) witness_store = Some (Inl e, s3)
     \<and> memory_abs s3 = memory_abs witness_store"
proof -
  obtain s1 where s1: "run_command memory_organization_store witness_org_env (witness_metadata CHR ''1'')
      (Cmd_unit (witness_unit CHR ''1'' None)) empty_store = Some (Inr (), s1)" "run_all (tl witness_commands) s1 = Some witness_store"
    using witness_org_run by (auto simp: witness_commands_def split: option.splits sum.splits)
  show ?thesis
    using operation_takes_effect_once [OF org_reachable.start s1(1) run_all_later [OF s1(2)] witness_reuse] witness_reuse
    by simp
qed

text \<open>
  Property C2. Resolving a workforce context always returns. A resolved context names the person of
  the one association of the subject at that instant, exactly the active employments of that person
  (at least one, sorted, without repetition), and exactly the active assignments under those
  employments (or the one asked for), each in an active position of a unit from which active units
  and unique placements lead up to a root.
\<close>

theorem resolved_context_is_exact:
  assumes "org_reachable s"
  shows "resolveWorkforceContext memory_organization_store purl sub a aid s \<noteq> None
    \<and> (\<forall>ctx. resolveWorkforceContext memory_organization_store purl sub a aid s = Some (Inr ctx) \<longrightarrow>
        (\<exists>t. iso_instant a = Some t \<and> context_ok (memory_abs s) t sub aid ctx))"
proof -
  note inv = reachable_invs [OF assms]
  show ?thesis using memory.resolve_total [OF inv(1)] memory.resolve_sound [OF inv] by blast
qed

theorem resolved_context_is_exact_witness:
  "\<exists>t. iso_instant always = Some t \<and> context_ok (memory_abs witness_store) t witness_subject None witness_context"
  using resolved_context_is_exact [OF witness_reachable] witness_resolved by blast

end
