(* ===== verification/Js_Json.thy ===== *)
theory Js_Json
  imports Js_Value
begin

text \<open>
  JSON texts: \<open>JSON.stringify\<close> without indentation. The modules use the text of a value as a key
  (de-duplication, cache keys, digests), so what matters is that different values have
  different texts: \<open>decodable f\<close> says that a text written by \<open>f\<close> can be read off the front of
  any input, which is injectivity in every context.

  \<open>Number.prototype.toString\<close> of a number that is not an integer below \<open>10 ^ 21\<close> is the argument
  \<open>nt\<close>.
\<close>

fun join :: "string \<Rightarrow> string list \<Rightarrow> string" where
  "join sep [] = []"
| "join sep [x] = x"
| "join sep (x # y # ys) = x @ sep @ join sep (y # ys)"

definition hex_digit :: "nat \<Rightarrow> char" where
  "hex_digit n = char_of (if n < 10 then n + 48 else n + 87)"

definition json_char :: "char \<Rightarrow> string" where
  "json_char c =
     (if c = CHR 0x22 \<or> c = CHR 0x5C then [CHR 0x5C, c]
      else if c = CHR 0x08 then [CHR 0x5C, CHR ''b'']
      else if c = CHR 0x09 then [CHR 0x5C, CHR ''t'']
      else if c = CHR 0x0A then [CHR 0x5C, CHR ''n'']
      else if c = CHR 0x0C then [CHR 0x5C, CHR ''f'']
      else if c = CHR 0x0D then [CHR 0x5C, CHR ''r'']
      else if (of_char c :: nat) < 32 then
        [CHR 0x5C, CHR ''u'', CHR ''0'', CHR ''0'', hex_digit (of_char c div 16), hex_digit (of_char c mod 16)]
      else [c])"

definition quote :: char where
  "quote = CHR 0x22"

definition json_string :: "string \<Rightarrow> string" where
  "json_string s = quote # concat (map json_char s) @ [quote]"

definition json_array :: "string list \<Rightarrow> string" where
  "json_array xs = ''['' @ join '','' xs @ '']''"

definition json_member :: "string \<times> string \<Rightarrow> string" where
  "json_member m = json_string (fst m) @ '':'' @ snd m"

definition json_object :: "(string \<times> string) list \<Rightarrow> string" where
  "json_object ms = CHR 0x7B # join '','' (map json_member ms) @ [CHR 0x7D]"

definition json_bool :: "bool \<Rightarrow> string" where
  "json_bool b = (if b then ''true'' else ''false'')"

definition json_int :: "int \<Rightarrow> string" where
  "json_int i = (if i < 0 then CHR 0x2D # decimal (nat (- i)) else decimal (nat i))"

definition json_number :: "(jnum \<Rightarrow> string) \<Rightarrow> jnum \<Rightarrow> string" where
  "json_number nt n = (if \<not> is_finite n then ''null''
     else case int_val n of
       Some i \<Rightarrow> (if \<bar>i\<bar> < 10 ^ 21 then json_int i else nt n)
     | None \<Rightarrow> nt n)"

text \<open>\<open>undefined\<close> members are left out; \<open>undefined\<close> elements of an array are written \<open>null\<close>.\<close>

fun json_value :: "(jnum \<Rightarrow> string) \<Rightarrow> jval \<Rightarrow> string" where
  "json_value nt JUndef = ''null''"
| "json_value nt JNull = ''null''"
| "json_value nt (JBool b) = json_bool b"
| "json_value nt (JNum n) = json_number nt n"
| "json_value nt (JStr s) = json_string s"
| "json_value nt (JArr xs) = json_array (map (json_value nt) xs)"
| "json_value nt (JObj ps) = json_object (map (\<lambda>(k, v). (k, json_value nt v))
     (filter (\<lambda>(k, v). v \<noteq> JUndef) ps))"

section \<open>Texts that can be decoded\<close>

definition decodable :: "('a \<Rightarrow> string) \<Rightarrow> bool" where
  "decodable f \<longleftrightarrow> (\<forall>x y r r'. f x @ r = f y @ r' \<longrightarrow> x = y \<and> r = r')"

lemma decodableI [intro]: "(\<And>x y r r'. f x @ r = f y @ r' \<Longrightarrow> x = y \<and> r = r') \<Longrightarrow> decodable f"
  unfolding decodable_def by blast

lemma decodableD: "decodable f \<Longrightarrow> f x @ r = f y @ r' \<longleftrightarrow> x = y \<and> r = r'"
  unfolding decodable_def by blast

lemma decodable_inj: "decodable f \<Longrightarrow> f x = f y \<longleftrightarrow> x = y"
  using decodableD [of f x "[]" y "[]"] by simp

text \<open>A decoder of one escaped character.\<close>

definition hex_val :: "char \<Rightarrow> nat" where
  "hex_val c = (if (of_char c :: nat) < 58 then of_char c - 48 else of_char c - 87)"

definition unescape :: "char \<Rightarrow> char" where
  "unescape c = (if c = CHR ''b'' then CHR 0x08 else if c = CHR ''t'' then CHR 0x09
     else if c = CHR ''n'' then CHR 0x0A else if c = CHR ''f'' then CHR 0x0C
     else if c = CHR ''r'' then CHR 0x0D else c)"

fun read_char :: "string \<Rightarrow> (char \<times> string) option" where
  "read_char [] = None"
| "read_char (c # cs) = (if c \<noteq> CHR 0x5C then Some (c, cs) else case cs of
     [] \<Rightarrow> None
   | d # ds \<Rightarrow> if d \<noteq> CHR ''u'' then Some (unescape d, ds) else
       (case ds of _ # _ # h # l # rs \<Rightarrow> Some (char_of (16 * hex_val h + hex_val l), rs) | _ \<Rightarrow> None))"

lemma hex_val_digit: "n < 16 \<Longrightarrow> hex_val (hex_digit n) = n"
  by (auto simp: hex_val_def hex_digit_def)

lemma read_char_json: "read_char (json_char c @ r) = Some (c, r)"
proof -
  have "char_of (16 * (of_char c div 16) + of_char c mod 16 :: nat) = c" by simp
  moreover have "(of_char c :: nat) < 32 \<Longrightarrow> of_char c div 16 < (16 :: nat)" by simp
  ultimately show ?thesis
    by (simp add: json_char_def unescape_def hex_val_digit del: mult_div_mod_eq)
qed

lemma json_char_decodable: "decodable json_char"
proof
  fix x y r r' assume "json_char x @ r = json_char y @ r'"
  then have "read_char (json_char x @ r) = read_char (json_char y @ r')" by simp
  then show "x = y \<and> r = r'" by (simp add: read_char_json)
qed

lemma json_char_Cons: "\<exists>d ds. json_char c = d # ds \<and> d \<noteq> quote"
  by (simp add: json_char_def quote_def)

lemma json_string_decodable: "decodable json_string"
proof
  fix x y r r' assume "json_string x @ r = json_string y @ r'"
  then have "concat (map json_char x) @ quote # r = concat (map json_char y) @ quote # r'"
    by (simp add: json_string_def)
  then show "x = y \<and> r = r'"
  proof (induction x arbitrary: y)
    case Nil
    then show ?case using json_char_Cons by (cases y) (auto, metis append_Cons list.inject)
  next
    case (Cons a x)
    show ?case
    proof (cases y)
      case Nil
      with Cons.prems json_char_Cons [of a] show ?thesis by auto
    next
      case (Cons b y')
      with Cons.prems Cons.IH [of y'] decodableD [OF json_char_decodable] show ?thesis by simp
    qed
  qed
qed

text \<open>Lists: an element is followed by a comma or by the closing bracket.\<close>

fun tail_items :: "string list \<Rightarrow> string" where
  "tail_items [] = []"
| "tail_items (x # xs) = CHR '','' # x @ tail_items xs"

lemma join_tail: "join '','' (x # xs) = x @ tail_items xs"
  by (induction xs arbitrary: x) auto

lemma tail_items_decodable:
  assumes "decodable f" "c \<noteq> CHR '',''"
  shows "tail_items (map f xs) @ c # r = tail_items (map f ys) @ c # r' \<Longrightarrow> xs = ys \<and> r = r'"
proof (induction xs arbitrary: ys)
  case Nil
  with assms(2) show ?case by (cases ys) auto
next
  case (Cons x xs)
  show ?case
  proof (cases ys)
    case Nil
    with Cons.prems assms(2) show ?thesis by simp
  next
    case (Cons y ys')
    with Cons.prems Cons.IH [of ys'] decodableD [OF assms(1)] show ?thesis by simp
  qed
qed

lemma items_decodable:
  assumes f: "decodable f" and c: "c \<noteq> CHR '',''" and start: "\<And>x. \<exists>d ds. f x = d # ds \<and> d \<noteq> c"
    and eq: "join '','' (map f xs) @ c # r = join '','' (map f ys) @ c # r'"
  shows "xs = ys \<and> r = r'"
proof (cases xs)
  case Nil
  show ?thesis
  proof (cases ys)
    case (Cons y ys')
    with Nil eq start [of y] show ?thesis by (auto simp: join_tail)
  qed (use Nil eq in simp)
next
  case (Cons x xs')
  note x = Cons
  show ?thesis
  proof (cases ys)
    case Nil
    with x eq start [of x] show ?thesis by (auto simp: join_tail)
  next
    case (Cons y ys')
    with x eq have "x = y" "tail_items (map f xs') @ c # r = tail_items (map f ys') @ c # r'"
      using decodableD [OF f] by (simp_all add: join_tail)
    with tail_items_decodable [OF f c] x Cons show ?thesis by auto
  qed
qed

lemma json_array_decodable:
  assumes "decodable f" "\<And>x. \<exists>d ds. f x = d # ds \<and> d \<noteq> CHR '']''"
  shows "decodable (\<lambda>xs. json_array (map f xs))"
proof
  fix xs ys r r' assume "json_array (map f xs) @ r = json_array (map f ys) @ r'"
  then have "join '','' (map f xs) @ CHR '']'' # r = join '','' (map f ys) @ CHR '']'' # r'"
    by (simp add: json_array_def)
  then show "xs = ys \<and> r = r'"
    by (rule items_decodable [OF assms(1) _ assms(2), rotated]) simp
qed

lemma json_string_start: "\<exists>ds. json_string s = quote # ds"
  by (simp add: json_string_def)

lemma json_strings_decodable: "decodable (\<lambda>xs. json_array (map json_string xs))"
proof (rule json_array_decodable [OF json_string_decodable])
  show "\<exists>d ds. json_string x = d # ds \<and> d \<noteq> CHR '']''" for x
    using json_string_start [of x] by (auto simp: quote_def)
qed

text \<open>Objects with fixed keys: the texts of the members are read one after the other.\<close>

lemma json_object_two:
  "json_object [(k, v), (k', v')] @ r = CHR 0x7B # json_string k @ '':'' @ v @ '','' @ json_string k' @ '':'' @ v' @ CHR 0x7D # r"
  by (simp add: json_object_def json_member_def)

lemma json_object_Cons:
  "json_object (m # ms) = CHR 0x7B # json_member m @ tail_items (map json_member ms) @ [CHR 0x7D]"
  using join_tail [of "json_member m" "map json_member ms"] by (simp add: json_object_def)

lemma json_member_append: "json_member (k, v) @ r = json_string k @ '':'' @ v @ r"
  by (simp add: json_member_def)

text \<open>Objects with arbitrary keys and string values.\<close>

lemma json_pairs_decodable: "decodable (\<lambda>ps. json_object (map (\<lambda>(k, v). (k, json_string v)) ps))"
proof
  let ?f = "\<lambda>p. json_member (fst p, json_string (snd p))"
  have f: "decodable ?f"
    using decodableD [OF json_string_decodable] by (intro decodableI) (auto simp: json_member_append prod_eq_iff)
  have start: "\<exists>d ds. ?f p = d # ds \<and> d \<noteq> CHR 0x7D" for p
    using json_string_start [of "fst p"] by (auto simp: json_member_def quote_def)
  fix x y r r'
  assume "json_object (map (\<lambda>(k, v). (k, json_string v)) x) @ r = json_object (map (\<lambda>(k, v). (k, json_string v)) y) @ r'"
  then have "join '','' (map ?f x) @ CHR 0x7D # r = join '','' (map ?f y) @ CHR 0x7D # r'"
    by (simp add: json_object_def comp_def case_prod_beta)
  then show "x = y \<and> r = r'" by (rule items_decodable [OF f _ start, rotated]) simp
qed

end
