(* ===== verification/Authz_Policy.thy ===== *)
theory Authz_Policy
  imports Js_Text Js_Json
begin

text \<open>
  \<open>packages/platform-modules/authorization/src/types.ts\<close>, \<open>errors.ts\<close> and \<open>policy.ts\<close>: the
  authorization policy and the validation of everything that enters the module. A policy
  snapshot, a subject and a request are of type \<open>unknown\<close> (\<^typ>\<open>jval\<close>) until they have been
  validated; a \<open>Date\<close> is its number of milliseconds, an \<^typ>\<open>int\<close>. \<open>Object.freeze\<close> has no
  counterpart (values of HOL do not change).
\<close>

section \<open>Types\<close>

record scope_constraint =
  dimension :: string
  scope_values :: "string list"

datatype scope_term = All_records | Match_constraints "scope_constraint list"

text \<open>\<open>DataScope\<close>: the member \<open>version\<close> has the literal type \<open>1\<close>.\<close>

type_synonym data_scope = "scope_term list"

record permission_declaration =
  perm_action :: string
  perm_code :: string
  perm_resource :: string
  scopeDimensions :: "string list"

record role_binding =
  permissionCode :: string
  binding_scope :: data_scope

record role_definition =
  role_permissions :: "role_binding list"
  role_roleId :: string

datatype grant_subject = Assignment_subject string | Workforce_person_subject string

record validated_grant =
  grantId :: string
  grant_roleId :: string
  grant_subject :: grant_subject
  validFrom :: int
  validTo :: "int option"

record validated_policy =
  policy_grants :: "validated_grant list"
  policy_permissions :: "(string \<times> permission_declaration) list"
  policy_roles :: "(string \<times> role_definition) list"
  policy_version :: string

record subject_context =
  activeAssignmentIds :: "string list"
  selectedAssignmentId :: "string option"
  workforcePersonId :: string

record permission_request =
  req_action :: string
  req_resource :: string
  resourceContext :: "(string \<times> string) list option"

datatype decision_reason =
    Allowed
  | Unknown_permission
  | No_applicable_grant
  | Invalid_context
  | Resource_context_required
  | Scope_mismatch
  | Policy_unavailable
  | Policy_invalid

datatype policy_error = PolicyValidationError

abbreviation invalid_policy :: "policy_error + 'a" where
  "invalid_policy \<equiv> Inl PolicyValidationError"

abbreviation require :: "bool \<Rightarrow> policy_error + unit" where
  "require b \<equiv> check b PolicyValidationError"

section \<open>Patterns\<close>

definition ident_part :: rx where
  "ident_part = Seq (Cls cls_lower) (rx_star (Cls (cls_lower @ cls_digit @ chars_of ''-'')))"

definition IDENTIFIER :: rx where
  "IDENTIFIER = Seq ident_part (rx_plus (Seq (lit ''.'') ident_part))"

definition ACTION :: rx where
  "ACTION = ident_part"

definition POLICY_VERSION :: rx where
  "POLICY_VERSION = Seq (Cls cls_alnum) (rx_upto 0 127 (Cls (cls_alnum @ chars_of ''._:-'')))"

definition VALUE :: rx where
  "VALUE = Seq (Cls cls_alnum) (rx_upto 0 254 (Cls (cls_alnum @ chars_of ''._:@/-'')))"

definition TIMESTAMP :: rx where
  "TIMESTAMP = (let d = (\<lambda>n. rx_times n (Cls cls_digit)) in
     Seq (d 4) (Seq (lit ''-'') (Seq (d 2) (Seq (lit ''-'') (Seq (d 2) (Seq (lit ''T'') (Seq (d 2)
     (Seq (lit '':'') (Seq (d 2) (Seq (lit '':'') (Seq (d 2) (Seq (lit ''.'') (Seq (d 3) (lit ''Z''))))))))))))))"

definition PERMISSION_CODE :: rx where
  "PERMISSION_CODE = Seq IDENTIFIER (Seq (lit '':'') ident_part)"

text \<open>\<open>.\<close> matches every character but a line terminator.\<close>

definition BINDING_CODE :: rx where
  "BINDING_CODE = Seq (Cls cls_lower) (Seq (rx_plus (Cls [(CHR 0x00, CHR 0x09), (CHR 0x0B, CHR 0x0C), (CHR 0x0E, CHR 0xFF)]))
     (Seq (lit '':'') ident_part))"

section \<open>Readers\<close>

definition exactKeys :: "jval \<Rightarrow> string list \<Rightarrow> bool" where
  "exactKeys v ks \<longleftrightarrow> join [CHR 0x00] (sort (keys v)) = join [CHR 0x00] (sort ks)"

definition string_of :: "jval \<Rightarrow> rx \<Rightarrow> nat \<Rightarrow> policy_error + string" where
  "string_of v pattern maximum = (case v of
     JStr s \<Rightarrow> if length s \<le> maximum \<and> rx_test pattern s then Inr s else invalid_policy
   | _ \<Rightarrow> invalid_policy)"

definition uuid :: "jval \<Rightarrow> policy_error + string" where
  "uuid v = bindR (string_of v UUID_I 36) (\<lambda>s. Inr (to_lower s))"

definition timestamp :: "jval \<Rightarrow> policy_error + int" where
  "timestamp v = bindR (string_of v TIMESTAMP 24) (\<lambda>raw.
     case iso_instant raw of None \<Rightarrow> invalid_policy | Some t \<Rightarrow> Inr t)"

definition uniqueStrings :: "jval \<Rightarrow> rx \<Rightarrow> nat \<Rightarrow> nat \<Rightarrow> policy_error + string list" where
  "uniqueStrings v pattern maximumItems maximumLength = (case v of
     JArr entries \<Rightarrow>
       bindR (require (length entries \<le> maximumItems)) (\<lambda>_.
       bindR (mapR (\<lambda>e. string_of e pattern maximumLength) entries) (\<lambda>result.
       bindR (require (distinct result)) (\<lambda>_. Inr (sort result))))
   | _ \<Rightarrow> invalid_policy)"

section \<open>Scopes\<close>

text \<open>\<open>JSON.stringify\<close> of a term, whose members are in the order \<open>constraints\<close>, \<open>kind\<close>.\<close>

definition json_constraint :: "scope_constraint \<Rightarrow> string" where
  "json_constraint c = json_object
     [(''dimension'', json_string (dimension c)), (''values'', json_array (map json_string (scope_values c)))]"

fun json_term :: "scope_term \<Rightarrow> string" where
  "json_term All_records = json_object [(''kind'', json_string ''all'')]"
| "json_term (Match_constraints cs) = json_object
     [(''constraints'', json_array (map json_constraint cs)), (''kind'', json_string ''match'')]"

definition normalize_constraint :: "string list \<Rightarrow> jval \<Rightarrow> policy_error + scope_constraint" where
  "normalize_constraint dims c =
     bindR (require (is_record c \<and> exactKeys c [''dimension'', ''values''])) (\<lambda>_.
     bindR (string_of (get c ''dimension'') IDENTIFIER 128) (\<lambda>d.
     bindR (require (d \<in> set dims)) (\<lambda>_.
     bindR (uniqueStrings (get c ''values'') VALUE 256 255) (\<lambda>vs.
     bindR (require (vs \<noteq> [])) (\<lambda>_.
       Inr \<lparr>dimension = d, scope_values = vs\<rparr>)))))"

definition by_dimension :: "scope_constraint \<Rightarrow> scope_constraint \<Rightarrow> bool" where
  "by_dimension l r \<longleftrightarrow> dimension l \<le> dimension r"

definition normalize_term :: "string list \<Rightarrow> jval \<Rightarrow> policy_error + scope_term" where
  "normalize_term dims t =
     bindR (require (is_record t \<and> str_of (get t ''kind'') \<noteq> None)) (\<lambda>_.
     if get t ''kind'' = JStr ''all'' then
       bindR (require (exactKeys t [''kind''])) (\<lambda>_. Inr All_records)
     else
       bindR (require (get t ''kind'' = JStr ''match'' \<and> exactKeys t [''constraints'', ''kind''])) (\<lambda>_.
       case get t ''constraints'' of
         JArr entries \<Rightarrow>
           bindR (require (entries \<noteq> [] \<and> length entries \<le> 32)) (\<lambda>_.
           bindR (mapR (normalize_constraint dims) entries) (\<lambda>unsorted.
             (let constraints = sort_le by_dimension unsorted
              in bindR (require (distinct (map dimension constraints) \<and> length constraints = length dims)) (\<lambda>_.
                   Inr (Match_constraints constraints)))))
       | _ \<Rightarrow> invalid_policy))"

text \<open>\<open>[...new Map(terms.map((term) => [JSON.stringify(term), term])).values()]\<close>\<close>

definition unique_terms :: "scope_term list \<Rightarrow> scope_term list" where
  "unique_terms ts = map snd (fold (\<lambda>t m. AList.update (json_term t) t m) ts [])"

definition normalizeScope :: "jval \<Rightarrow> string list \<Rightarrow> policy_error + data_scope" where
  "normalizeScope v dims =
     bindR (require (is_record v \<and> exactKeys v [''terms'', ''version''] \<and> get v ''version'' = JNum (Num 1))) (\<lambda>_.
     case get v ''terms'' of
       JArr entries \<Rightarrow>
         bindR (require (entries \<noteq> [] \<and> length entries \<le> 128)) (\<lambda>_.
         bindR (mapR (normalize_term dims) entries) (\<lambda>ts.
           if All_records \<in> set ts then Inr [All_records]
           else Inr (sort_le (\<lambda>l r. json_term l \<le> json_term r) (unique_terms ts))))
     | _ \<Rightarrow> invalid_policy)"

section \<open>Snapshots\<close>

definition permission_entry ::
    "jval \<Rightarrow> (string \<times> permission_declaration) list \<times> string set
     \<Rightarrow> policy_error + (string \<times> permission_declaration) list \<times> string set" where
  "permission_entry e acc =
     bindR (require (is_record e \<and> exactKeys e [''action'', ''code'', ''resource'', ''scopeDimensions''])) (\<lambda>_.
     bindR (string_of (get e ''resource'') IDENTIFIER 128) (\<lambda>resource.
     bindR (string_of (get e ''action'') ACTION 64) (\<lambda>action.
     bindR (string_of (get e ''code'') PERMISSION_CODE 193) (\<lambda>code.
     bindR (require (code = resource @ '':'' @ action \<and> map_of (fst acc) code = None \<and>
                     resource @ [CHR 0x00] @ action \<notin> snd acc)) (\<lambda>_.
     bindR (uniqueStrings (get e ''scopeDimensions'') IDENTIFIER 32 128) (\<lambda>dims.
       Inr (AList.update code \<lparr>perm_action = action, perm_code = code, perm_resource = resource,
              scopeDimensions = dims\<rparr> (fst acc),
            insert (resource @ [CHR 0x00] @ action) (snd acc))))))))"

definition binding_entry ::
    "(string \<times> permission_declaration) list \<Rightarrow> jval \<Rightarrow> role_binding list \<Rightarrow> policy_error + role_binding list" where
  "binding_entry permissions b seen =
     bindR (require (is_record b \<and> exactKeys b [''permissionCode'', ''scope''])) (\<lambda>_.
     bindR (string_of (get b ''permissionCode'') BINDING_CODE 193) (\<lambda>code.
     case map_of permissions code of
       None \<Rightarrow> invalid_policy
     | Some permission \<Rightarrow>
         bindR (require (code \<notin> permissionCode ` set seen)) (\<lambda>_.
         bindR (normalizeScope (get b ''scope'') (scopeDimensions permission)) (\<lambda>scope.
           Inr (seen @ [\<lparr>permissionCode = code, binding_scope = scope\<rparr>])))))"

definition role_entry ::
    "(string \<times> permission_declaration) list \<Rightarrow> jval \<Rightarrow> (string \<times> role_definition) list
     \<Rightarrow> policy_error + (string \<times> role_definition) list" where
  "role_entry permissions e roles =
     bindR (require (is_record e \<and> exactKeys e [''permissions'', ''roleId''])) (\<lambda>_.
     case get e ''permissions'' of
       JArr bindings \<Rightarrow>
         bindR (require (bindings \<noteq> [] \<and> length bindings \<le> 1000)) (\<lambda>_.
         bindR (uuid (get e ''roleId'')) (\<lambda>roleId.
         bindR (require (map_of roles roleId = None)) (\<lambda>_.
         bindR (foldR (binding_entry permissions) bindings []) (\<lambda>bs.
           Inr (AList.update roleId \<lparr>role_permissions = bs, role_roleId = roleId\<rparr> roles)))))
     | _ \<Rightarrow> invalid_policy)"

definition grant_subject_of :: "jval \<Rightarrow> policy_error + grant_subject" where
  "grant_subject_of s =
     (if get s ''kind'' = JStr ''workforce_person'' \<and> exactKeys s [''kind'', ''workforcePersonId''] then
        bindR (uuid (get s ''workforcePersonId'')) (\<lambda>i. Inr (Workforce_person_subject i))
      else if get s ''kind'' = JStr ''assignment'' \<and> exactKeys s [''assignmentId'', ''kind''] then
        bindR (uuid (get s ''assignmentId'')) (\<lambda>i. Inr (Assignment_subject i))
      else invalid_policy)"

definition grant_entry ::
    "(string \<times> role_definition) list \<Rightarrow> jval \<Rightarrow> validated_grant list \<Rightarrow> policy_error + validated_grant list" where
  "grant_entry roles e acc =
     bindR (require (is_record e \<and> length (keys e) \<in> {4, 5} \<and>
       list_all (\<lambda>k. k \<in> set (keys e)) [''grantId'', ''roleId'', ''subject'', ''validFrom''] \<and>
       list_all (\<lambda>k. k \<in> set [''grantId'', ''roleId'', ''subject'', ''validFrom'', ''validTo'']) (keys e))) (\<lambda>_.
     bindR (uuid (get e ''grantId'')) (\<lambda>gid.
     bindR (uuid (get e ''roleId'')) (\<lambda>rid.
     bindR (require (gid \<notin> grantId ` set acc \<and> map_of roles rid \<noteq> None \<and> is_record (get e ''subject''))) (\<lambda>_.
     bindR (grant_subject_of (get e ''subject'')) (\<lambda>subject.
     bindR (timestamp (get e ''validFrom'')) (\<lambda>from'.
     bindR (if get e ''validTo'' = JUndef then Inr None
            else bindR (timestamp (get e ''validTo'')) (\<lambda>t. Inr (Some t))) (\<lambda>to'.
     bindR (require (opt_all (\<lambda>t. from' < t) to')) (\<lambda>_.
       Inr (acc @ [\<lparr>grantId = gid, grant_roleId = rid, grant_subject = subject,
                    validFrom = from', validTo = to'\<rparr>])))))))))"

definition array_upto :: "jval \<Rightarrow> nat \<Rightarrow> policy_error + jval list" where
  "array_upto v maximum = (case v of
     JArr xs \<Rightarrow> if length xs \<le> maximum then Inr xs else invalid_policy | _ \<Rightarrow> invalid_policy)"

definition validatePolicySnapshot :: "jval \<Rightarrow> string \<Rightarrow> policy_error + validated_policy" where
  "validatePolicySnapshot v expectedVersion =
     bindR (require (is_record v \<and> exactKeys v [''grants'', ''permissions'', ''roles'', ''version''])) (\<lambda>_.
     bindR (array_upto (get v ''permissions'') 10000) (\<lambda>permissionEntries.
     bindR (array_upto (get v ''roles'') 10000) (\<lambda>roleEntries.
     bindR (array_upto (get v ''grants'') 100000) (\<lambda>grantEntries.
     bindR (string_of (get v ''version'') POLICY_VERSION 128) (\<lambda>version.
     bindR (require (version = expectedVersion)) (\<lambda>_.
     bindR (foldR permission_entry permissionEntries ([], {})) (\<lambda>(permissions, pairs).
     bindR (foldR (role_entry permissions) roleEntries []) (\<lambda>roles.
     bindR (foldR (grant_entry roles) grantEntries []) (\<lambda>grants.
       Inr \<lparr>policy_grants = grants, policy_permissions = permissions, policy_roles = roles,
            policy_version = version\<rparr>)))))))))"

section \<open>Subjects and requests\<close>

definition validateSubjectContext :: "jval \<Rightarrow> subject_context option" where
  "validateSubjectContext v = (case (get v ''workforcePersonId'', get v ''activeAssignmentIds'') of
     (JStr person, JArr rawIds) \<Rightarrow>
       if \<not> rx_test UUID_I person then None
       else (let ids = map to_lower (List.map_filter str_of rawIds); raw = get v ''selectedAssignmentId''
             in if length ids \<noteq> length rawIds \<or> 128 < length ids \<or>
                   \<not> list_all (rx_test UUID_I) ids \<or> \<not> distinct ids then None
                else (case raw of
                    JUndef \<Rightarrow> Some \<lparr>activeAssignmentIds = sort ids, selectedAssignmentId = None,
                                     workforcePersonId = to_lower person\<rparr>
                  | JStr s \<Rightarrow>
                      if rx_test UUID_I (to_lower s) \<and> to_lower s \<in> set ids
                      then Some \<lparr>activeAssignmentIds = sort ids, selectedAssignmentId = Some (to_lower s),
                                 workforcePersonId = to_lower person\<rparr>
                      else None
                  | _ \<Rightarrow> None))
   | _ \<Rightarrow> None)"

definition context_entries :: "(string \<times> jval) list \<Rightarrow> (string \<times> string) list option" where
  "context_entries ps =
     (if list_all (\<lambda>(d, item). rx_test IDENTIFIER d \<and> length d \<le> 128 \<and>
           (case item of JStr s \<Rightarrow> rx_test VALUE s | _ \<Rightarrow> False)) ps
      then Some (sort_le (\<lambda>l r. fst l \<le> fst r)
             (fold (\<lambda>(d, item) m. case item of JStr s \<Rightarrow> AList.update d s m | _ \<Rightarrow> m) ps []))
      else None)"

definition validatePermissionRequest :: "jval \<Rightarrow> permission_request option" where
  "validatePermissionRequest v = (case (get v ''resource'', get v ''action'') of
     (JStr resource, JStr action) \<Rightarrow>
       if \<not> rx_test IDENTIFIER resource \<or> 128 < length resource \<or> \<not> rx_test ACTION action \<or> 64 < length action
       then None
       else (case get v ''resourceContext'' of
           JUndef \<Rightarrow> Some \<lparr>req_action = action, req_resource = resource, resourceContext = None\<rparr>
         | JObj ps \<Rightarrow>
             if 32 < length ps then None
             else map_option (\<lambda>es. \<lparr>req_action = action, req_resource = resource, resourceContext = Some es\<rparr>)
                    (context_entries ps)
         | _ \<Rightarrow> None)
   | _ \<Rightarrow> None)"

definition policyVersion :: "jval \<Rightarrow> policy_error + string" where
  "policyVersion v = string_of v POLICY_VERSION 128"

section \<open>JSON texts of terms\<close>

lemma json_constraint_decodable: "decodable json_constraint"
proof
  fix x y r r' assume "json_constraint x @ r = json_constraint y @ r'"
  then show "x = y \<and> r = r'"
    using decodableD [OF json_string_decodable] decodableD [OF json_strings_decodable]
    by (simp add: json_constraint_def json_object_two)
qed

lemma json_constraints_decodable: "decodable (\<lambda>cs. json_array (map json_constraint cs))"
  by (rule json_array_decodable [OF json_constraint_decodable])
    (simp add: json_constraint_def json_object_def)

lemma json_term_inj: "json_term s = json_term t \<longleftrightarrow> s = t"
proof
  have no: "json_term All_records \<noteq> json_term (Match_constraints cs)" for cs
    by (simp add: json_object_def json_member_def json_string_def json_char_def)
  assume eq: "json_term s = json_term t"
  show "s = t"
  proof (cases s; cases t)
    fix cs ds assume st: "s = Match_constraints cs" "t = Match_constraints ds"
    have "json_array (map json_constraint cs) = json_array (map json_constraint ds)"
      using eq json_object_two [of "''constraints''" _ "''kind''" "json_string ''match''" "[]"]
      by (simp add: st)
    then have "cs = ds" by (simp add: decodable_inj [OF json_constraints_decodable])
    with st show ?thesis by simp
  qed (use eq no in \<open>auto dest: sym\<close>)
qed simp

lemma set_unique_terms [simp]: "set (unique_terms ts) = set ts"
proof -
  have "snd ` set (fold (\<lambda>t m. AList.update (json_term t) t m) ts m) = set ts \<union> snd ` set m \<and>
      (\<forall>(k, t) \<in> set (fold (\<lambda>t m. AList.update (json_term t) t m) ts m). k = json_term t)"
    if "\<forall>(k, t) \<in> set m. k = json_term t" for m
    using that
  proof (induction ts arbitrary: m)
    case (Cons t ts)
    have upd: "snd ` set (AList.update (json_term t) t m) = insert t (snd ` set m) \<and>
        (\<forall>(k, t) \<in> set (AList.update (json_term t) t m). k = json_term t)"
      using Cons.prems by (induction m) (auto simp: json_term_inj)
    then show ?case using Cons.IH [of "AList.update (json_term t) t m"] by simp
  qed simp
  from this [of "[]"] show ?thesis by (simp add: unique_terms_def)
qed

lemma distinct_unique_terms: "distinct (unique_terms ts)"
proof -
  let ?f = "fold (\<lambda>t m. AList.update (json_term t) t m) ts"
  have "(\<forall>(k, t) \<in> set (?f m). k = json_term t) \<and> distinct (map fst (?f m))"
    if "\<forall>(k, t) \<in> set m. k = json_term t" "distinct (map fst m)" for m
    using that
  proof (induction ts arbitrary: m)
    case (Cons t ts)
    have "\<forall>(k, t) \<in> set (AList.update (json_term t) t m). k = json_term t"
      using Cons.prems(1) by (induction m) auto
    then show ?case
      using Cons.IH [of "AList.update (json_term t) t m"] Cons.prems(2) by (simp add: distinct_keys_update)
  qed simp
  from this [of "[]"] have all: "\<forall>p \<in> set (?f []). fst p = json_term (snd p)" and d: "distinct (map fst (?f []))"
    by auto
  from all have "map fst (?f []) = map json_term (map snd (?f []))" by simp
  with d have "distinct (map json_term (map snd (?f [])))" by metis
  then show ?thesis by (metis distinct_map unique_terms_def)
qed

section \<open>What a validated policy satisfies\<close>

definition wf_match :: "string list \<Rightarrow> scope_constraint list \<Rightarrow> bool" where
  "wf_match dims cs \<longleftrightarrow> map dimension cs = dims \<and> cs \<noteq> [] \<and> (\<forall>c \<in> set cs. scope_values c \<noteq> [] \<and>
     sorted (scope_values c) \<and> distinct (scope_values c) \<and> (\<forall>v \<in> set (scope_values c). rx_test VALUE v))"

definition wf_scope :: "string list \<Rightarrow> data_scope \<Rightarrow> bool" where
  "wf_scope dims s \<longleftrightarrow> s = [All_records] \<or>
     s \<noteq> [] \<and> distinct s \<and> (\<forall>t \<in> set s. \<exists>cs. t = Match_constraints cs \<and> wf_match dims cs)"

definition wf_permission :: "string \<times> permission_declaration \<Rightarrow> bool" where
  "wf_permission p \<longleftrightarrow> (case p of (k, d) \<Rightarrow> k = perm_code d \<and>
     perm_code d = perm_resource d @ '':'' @ perm_action d \<and>
     sorted (scopeDimensions d) \<and> distinct (scopeDimensions d) \<and> length (scopeDimensions d) \<le> 32)"

definition wf_role :: "(string \<times> permission_declaration) list \<Rightarrow> string \<times> role_definition \<Rightarrow> bool" where
  "wf_role ps r \<longleftrightarrow> (case r of (k, d) \<Rightarrow> k = role_roleId d \<and> role_permissions d \<noteq> [] \<and>
     distinct (map permissionCode (role_permissions d)) \<and>
     (\<forall>b \<in> set (role_permissions d). \<exists>p. map_of ps (permissionCode b) = Some p \<and>
        wf_scope (scopeDimensions p) (binding_scope b)))"

definition wf_grant :: "(string \<times> role_definition) list \<Rightarrow> validated_grant \<Rightarrow> bool" where
  "wf_grant rs g \<longleftrightarrow> map_of rs (grant_roleId g) \<noteq> None \<and> opt_all (\<lambda>t. validFrom g < t) (validTo g)"

definition wf_policy :: "validated_policy \<Rightarrow> bool" where
  "wf_policy p \<longleftrightarrow>
     distinct (map fst (policy_permissions p)) \<and> (\<forall>d \<in> set (policy_permissions p). wf_permission d) \<and>
     distinct (map fst (policy_roles p)) \<and> (\<forall>r \<in> set (policy_roles p). wf_role (policy_permissions p) r) \<and>
     distinct (map grantId (policy_grants p)) \<and> (\<forall>g \<in> set (policy_grants p). wf_grant (policy_roles p) g)"

lemma string_of_Inr: "string_of v p n = Inr s \<longleftrightarrow> v = JStr s \<and> length s \<le> n \<and> rx_test p s"
  by (auto simp: string_of_def split: jval.splits)

lemma uniqueStrings_Inr:
  "uniqueStrings v p m n = Inr ys \<Longrightarrow>
     sorted ys \<and> distinct ys \<and> length ys \<le> m \<and> (\<forall>y \<in> set ys. length y \<le> n \<and> rx_test p y)"
  by (auto simp: uniqueStrings_def result_simps string_of_Inr split: jval.splits
      dest: mapR_length mapR_set)

lemma normalize_constraint_Inr:
  "normalize_constraint dims v = Inr c \<Longrightarrow> dimension c \<in> set dims \<and> scope_values c \<noteq> [] \<and>
     sorted (scope_values c) \<and> distinct (scope_values c) \<and> (\<forall>v \<in> set (scope_values c). rx_test VALUE v)"
  by (auto simp: normalize_constraint_def result_simps dest: uniqueStrings_Inr)

lemma normalize_term_Inr:
  assumes "normalize_term dims v = Inr t" "sorted dims" "distinct dims"
  shows "t = All_records \<or> (\<exists>cs. t = Match_constraints cs \<and> wf_match dims cs)"
proof (cases "get v ''kind'' = JStr ''all''")
  case True
  with assms(1) show ?thesis by (auto simp: normalize_term_def result_simps)
next
  case False
  with assms(1) obtain es us where us: "es \<noteq> []" "mapR (normalize_constraint dims) es = Inr us"
    and cs: "distinct (map dimension (sort_le by_dimension us))" "length us = length dims"
    and t: "t = Match_constraints (sort_le by_dimension us)"
    by (auto simp: normalize_term_def result_simps Let_def split: jval.splits)
  let ?cs = "sort_le by_dimension us"
  have each: "dimension c \<in> set dims \<and> scope_values c \<noteq> [] \<and> sorted (scope_values c) \<and>
      distinct (scope_values c) \<and> (\<forall>v \<in> set (scope_values c). rx_test VALUE v)" if "c \<in> set us" for c
    using mapR_set [OF us(2) that] normalize_constraint_Inr by blast
  have "sorted (map dimension ?cs)"
    unfolding by_dimension_def by (rule sorted_sort_le_by)
  moreover have "set (map dimension ?cs) = set dims"
  proof (rule card_subset_eq)
    show "card (set (map dimension ?cs)) = card (set dims)"
      using distinct_card [OF cs(1)] distinct_card [OF assms(3)] cs(2) by simp
  qed (use each in auto)
  ultimately have "map dimension ?cs = dims"
    using cs(1) assms(2, 3) by (metis sorted_distinct_set_unique)
  moreover have "us \<noteq> []" using us mapR_length by fastforce
  ultimately show ?thesis using t each by (auto simp: wf_match_def)
qed

lemma normalizeScope_wf:
  assumes "normalizeScope v dims = Inr s" "sorted dims" "distinct dims"
  shows "wf_scope dims s"
proof -
  from assms(1) obtain es ts where ts: "es \<noteq> []" "mapR (normalize_term dims) es = Inr ts"
    and s: "s = (if All_records \<in> set ts then [All_records]
                 else sort_le (\<lambda>l r. json_term l \<le> json_term r) (unique_terms ts))"
    by (auto simp: normalizeScope_def result_simps split: jval.splits if_splits)
  have "ts \<noteq> []" using ts mapR_length by fastforce
  then have "unique_terms ts \<noteq> []" by (metis set_empty set_unique_terms)
  moreover have "t = All_records \<or> (\<exists>cs. t = Match_constraints cs \<and> wf_match dims cs)" if "t \<in> set ts" for t
    using mapR_set [OF ts(2) that] normalize_term_Inr [OF _ assms(2, 3)] by blast
  ultimately show ?thesis by (auto simp: s wf_scope_def distinct_unique_terms)
qed

lemma permission_entry_wf:
  assumes "permission_entry e acc = Inr acc'"
    and "distinct (map fst (fst acc)) \<and> (\<forall>d \<in> set (fst acc). wf_permission d)"
  shows "distinct (map fst (fst acc')) \<and> (\<forall>d \<in> set (fst acc'). wf_permission d)"
proof -
  from assms(1) obtain r a ds where new: "map_of (fst acc) (r @ '':'' @ a) = None"
      "fst acc' = AList.update (r @ '':'' @ a) \<lparr>perm_action = a, perm_code = r @ '':'' @ a, perm_resource = r,
         scopeDimensions = ds\<rparr> (fst acc)"
    and "uniqueStrings (get e ''scopeDimensions'') IDENTIFIER 32 128 = Inr ds"
    by (auto simp: permission_entry_def result_simps)
  from this(3) have "sorted ds \<and> distinct ds \<and> length ds \<le> 32" by (auto dest: uniqueStrings_Inr)
  then have "wf_permission (r @ '':'' @ a, \<lparr>perm_action = a, perm_code = r @ '':'' @ a, perm_resource = r,
      scopeDimensions = ds\<rparr>)"
    by (simp add: wf_permission_def)
  with assms(2) new show ?thesis by (auto simp: update_fresh distinct_update_fresh)
qed

lemma binding_entry_wf:
  assumes "binding_entry ps b seen = Inr seen'" "\<forall>d \<in> set ps. wf_permission d"
    and "distinct (map permissionCode seen) \<and> (\<forall>b \<in> set seen. \<exists>p. map_of ps (permissionCode b) = Some p \<and>
      wf_scope (scopeDimensions p) (binding_scope b))"
  shows "seen' \<noteq> [] \<and> distinct (map permissionCode seen') \<and>
    (\<forall>b \<in> set seen'. \<exists>p. map_of ps (permissionCode b) = Some p \<and> wf_scope (scopeDimensions p) (binding_scope b))"
proof -
  from assms(1) obtain code p scope where new: "map_of ps code = Some p" "code \<notin> permissionCode ` set seen"
      "normalizeScope (get b ''scope'') (scopeDimensions p) = Inr scope"
      "seen' = seen @ [\<lparr>permissionCode = code, binding_scope = scope\<rparr>]"
    by (auto simp: binding_entry_def result_simps split: option.splits)
  have "wf_permission (code, p)" using assms(2) new(1) by (auto dest: map_of_SomeD)
  then have "wf_scope (scopeDimensions p) scope"
    using normalizeScope_wf [OF new(3)] by (simp add: wf_permission_def)
  with assms(3) new show ?thesis by auto
qed

lemma role_entry_wf:
  assumes "role_entry ps e rs = Inr rs'" "\<forall>d \<in> set ps. wf_permission d"
    and "distinct (map fst rs) \<and> (\<forall>r \<in> set rs. wf_role ps r)"
  shows "distinct (map fst rs') \<and> (\<forall>r \<in> set rs'. wf_role ps r)"
proof -
  from assms(1) obtain entries i bs where "entries \<noteq> []" and bs: "foldR (binding_entry ps) entries [] = Inr bs"
    and new: "map_of rs i = None" "rs' = AList.update i \<lparr>role_permissions = bs, role_roleId = i\<rparr> rs"
    by (auto simp: role_entry_def result_simps split: jval.splits)
  then obtain x xs s where split: "entries = x # xs" "binding_entry ps x [] = Inr s" "foldR (binding_entry ps) xs s = Inr bs"
    by (cases entries) (auto simp: result_simps)
  let ?P = "\<lambda>bs. bs \<noteq> [] \<and> distinct (map permissionCode bs) \<and> (\<forall>b \<in> set bs. \<exists>p.
    map_of ps (permissionCode b) = Some p \<and> wf_scope (scopeDimensions p) (binding_scope b))"
  have "?P s" by (rule binding_entry_wf [OF split(2) assms(2)]) simp
  then have "?P bs"
    by (rule foldR_invariant [OF split(3), of ?P]) (rule binding_entry_wf [OF _ assms(2)], assumption, blast)
  then have "wf_role ps (i, \<lparr>role_permissions = bs, role_roleId = i\<rparr>)" by (simp add: wf_role_def)
  with assms(3) new show ?thesis by (auto simp: update_fresh distinct_update_fresh)
qed

lemma grant_entry_wf:
  assumes "grant_entry rs e gs = Inr gs'" "distinct (map grantId gs) \<and> (\<forall>g \<in> set gs. wf_grant rs g)"
  shows "distinct (map grantId gs') \<and> (\<forall>g \<in> set gs'. wf_grant rs g)"
  using assms by (auto simp: grant_entry_def result_simps wf_grant_def)

lemma validatePolicySnapshot_Inr:
  assumes "validatePolicySnapshot v x = Inr p"
  obtains pes res ges pairs where
    "foldR permission_entry pes ([], {}) = Inr (policy_permissions p, pairs)"
    "foldR (role_entry (policy_permissions p)) res [] = Inr (policy_roles p)"
    "foldR (grant_entry (policy_roles p)) ges [] = Inr (policy_grants p)"
    "policy_version p = x" "rx_test POLICY_VERSION x" "length x \<le> 128"
  using assms by (auto simp: validatePolicySnapshot_def result_simps string_of_Inr)

lemma validated_snapshot_wf:
  assumes "validatePolicySnapshot v x = Inr p"
  shows "wf_policy p \<and> policy_version p = x \<and> rx_test POLICY_VERSION x"
proof -
  from assms obtain pes res ges pairs where
    ps: "foldR permission_entry pes ([], {}) = Inr (policy_permissions p, pairs)" and
    rs: "foldR (role_entry (policy_permissions p)) res [] = Inr (policy_roles p)" and
    gs: "foldR (grant_entry (policy_roles p)) ges [] = Inr (policy_grants p)" and
    v: "policy_version p = x" "rx_test POLICY_VERSION x"
    by (rule validatePolicySnapshot_Inr)
  let ?P = "\<lambda>acc. distinct (map fst (fst acc)) \<and> (\<forall>d \<in> set (fst acc). wf_permission d)"
  have "?P (policy_permissions p, pairs)"
    by (rule foldR_invariant [OF ps, of ?P]) (simp, rule permission_entry_wf)
  then have P: "distinct (map fst (policy_permissions p))" "\<forall>d \<in> set (policy_permissions p). wf_permission d"
    by simp_all
  let ?R = "\<lambda>rs. distinct (map fst rs) \<and> (\<forall>r \<in> set rs. wf_role (policy_permissions p) r)"
  have "?R (policy_roles p)"
    by (rule foldR_invariant [OF rs, of ?R]) (simp, rule role_entry_wf [OF _ P(2)])
  moreover let ?G = "\<lambda>gs. distinct (map grantId gs) \<and> (\<forall>g \<in> set gs. wf_grant (policy_roles p) g)"
  have "?G (policy_grants p)"
    by (rule foldR_invariant [OF gs, of ?G]) (simp, rule grant_entry_wf)
  ultimately show ?thesis using P v by (simp add: wf_policy_def)
qed

text \<open>
  Property C14. A snapshot that passes \<open>validatePolicySnapshot\<close> is a well-formed policy of the expected
  version: permission codes are \<open>resource:action\<close> and unique with sorted distinct dimensions, every
  role is keyed by its id and binds distinct declared permissions, every scope is either
  unrestricted or a non-empty set of terms that constrain exactly the declared dimensions in order
  by non-empty value lists, and every grant names an existing role with a non-empty interval.
\<close>

theorem validated_policy_is_well_formed:
  assumes "validatePolicySnapshot v x = Inr p"
  shows "wf_policy p \<and> policy_version p = x \<and> rx_test POLICY_VERSION x"
  using assms by (rule validated_snapshot_wf)

section \<open>A concrete snapshot\<close>

definition witness_uuid :: string where
  "witness_uuid = ''00000000-0000-4000-8000-000000000001''"

definition witness_scope :: jval where
  "witness_scope = JObj [(''version'', JNum (Num 1)), (''terms'', JArr [JObj [(''kind'', JStr ''match''),
     (''constraints'', JArr [JObj [(''dimension'', JStr ''c.d''), (''values'', JArr [JStr ''y'', JStr ''x''])]])]])]"

definition witness_all :: jval where
  "witness_all = JObj [(''version'', JNum (Num 1)), (''terms'', JArr [JObj [(''kind'', JStr ''all'')]])]"

definition witness_permission_values :: "jval list" where
  "witness_permission_values =
     [JObj [(''action'', JStr ''publish''), (''code'', JStr ''a.b:publish''),
            (''resource'', JStr ''a.b''), (''scopeDimensions'', JArr [])],
      JObj [(''action'', JStr ''read''), (''code'', JStr ''a.b:read''),
            (''resource'', JStr ''a.b''), (''scopeDimensions'', JArr [JStr ''c.d''])]]"

definition witness_snapshot :: jval where
  "witness_snapshot = JObj
     [(''version'', JStr ''v1''),
      (''permissions'', JArr witness_permission_values),
      (''roles'', JArr [JObj [(''roleId'', JStr witness_uuid), (''permissions'',
          JArr [JObj [(''permissionCode'', JStr ''a.b:publish''), (''scope'', witness_all)],
                JObj [(''permissionCode'', JStr ''a.b:read''), (''scope'', witness_scope)]])]]),
      (''grants'', JArr [JObj [(''grantId'', JStr witness_uuid), (''roleId'', JStr witness_uuid),
          (''subject'', JObj [(''kind'', JStr ''assignment''), (''assignmentId'', JStr witness_uuid)]),
          (''validFrom'', JStr ''2026-01-01T00:00:00.000Z''), (''validTo'', JStr ''2027-01-01T00:00:00.000Z'')]])]"

definition witness_validated :: validated_policy where
  "witness_validated = \<lparr>
     policy_grants = [\<lparr>grantId = witness_uuid, grant_roleId = witness_uuid,
       grant_subject = Assignment_subject witness_uuid, validFrom = 1767225600000, validTo = Some 1798761600000\<rparr>],
     policy_permissions =
       [(''a.b:publish'', \<lparr>perm_action = ''publish'', perm_code = ''a.b:publish'', perm_resource = ''a.b'', scopeDimensions = []\<rparr>),
        (''a.b:read'', \<lparr>perm_action = ''read'', perm_code = ''a.b:read'', perm_resource = ''a.b'', scopeDimensions = [''c.d'']\<rparr>)],
     policy_roles = [(witness_uuid, \<lparr>role_permissions =
       [\<lparr>permissionCode = ''a.b:publish'', binding_scope = [All_records]\<rparr>,
        \<lparr>permissionCode = ''a.b:read'',
         binding_scope = [Match_constraints [\<lparr>dimension = ''c.d'', scope_values = [''x'', ''y'']\<rparr>]]\<rparr>],
       role_roleId = witness_uuid\<rparr>)],
     policy_version = ''v1''\<rparr>"

lemma uuid_witness_uuid: "uuid (JStr witness_uuid) = Inr witness_uuid"
  by code_simp

lemma witness_from: "timestamp (JStr ''2026-01-01T00:00:00.000Z'') = Inr 1767225600000"
  by code_simp

lemma witness_to: "timestamp (JStr ''2027-01-01T00:00:00.000Z'') = Inr 1798761600000"
  by code_simp

lemma witness_scope_normal:
  "normalizeScope witness_scope [''c.d''] =
     Inr [Match_constraints [\<lparr>dimension = ''c.d'', scope_values = [''x'', ''y'']\<rparr>]]"
  by code_simp

lemma witness_all_normal: "normalizeScope witness_all [] = Inr [All_records]"
  by code_simp

lemma witness_permission:
  "foldR permission_entry witness_permission_values ([], {}) =
   Inr (policy_permissions witness_validated,
        {''a.b'' @ [CHR 0x00] @ ''read'', ''a.b'' @ [CHR 0x00] @ ''publish''})"
  by code_simp

lemma witness_role:
  "role_entry (policy_permissions witness_validated)
     (JObj [(''roleId'', JStr witness_uuid), (''permissions'',
        JArr [JObj [(''permissionCode'', JStr ''a.b:publish''), (''scope'', witness_all)],
              JObj [(''permissionCode'', JStr ''a.b:read''), (''scope'', witness_scope)]])]) [] =
   Inr (policy_roles witness_validated)"
proof -
  have "string_of (JStr ''a.b:read'') BINDING_CODE 193 = Inr ''a.b:read''"
    "string_of (JStr ''a.b:publish'') BINDING_CODE 193 = Inr ''a.b:publish''" by code_simp+
  then show ?thesis
    by (simp add: role_entry_def exactKeys_def binding_entry_def uuid_witness_uuid witness_scope_normal witness_all_normal
        witness_validated_def)
qed

lemma witness_grant:
  "grant_entry (policy_roles witness_validated)
     (JObj [(''grantId'', JStr witness_uuid), (''roleId'', JStr witness_uuid),
          (''subject'', JObj [(''kind'', JStr ''assignment''), (''assignmentId'', JStr witness_uuid)]),
          (''validFrom'', JStr ''2026-01-01T00:00:00.000Z''), (''validTo'', JStr ''2027-01-01T00:00:00.000Z'')]) [] =
   Inr (policy_grants witness_validated)"
  by (simp add: grant_entry_def exactKeys_def grant_subject_of_def uuid_witness_uuid witness_from witness_to
      witness_validated_def)

lemma witness_snapshot_valid: "validatePolicySnapshot witness_snapshot ''v1'' = Inr witness_validated"
proof -
  have "string_of (JStr ''v1'') POLICY_VERSION 128 = Inr ''v1''" by code_simp
  moreover have "exactKeys witness_snapshot [''grants'', ''permissions'', ''roles'', ''version'']" by code_simp
  moreover have "length witness_permission_values = 2" by (simp add: witness_permission_values_def)
  ultimately show ?thesis
    unfolding witness_snapshot_def
    by (simp add: validatePolicySnapshot_def array_upto_def witness_permission witness_role witness_grant)
      (simp add: witness_validated_def)
qed

lemma validated_policy_is_well_formed_witness: "wf_policy witness_validated"
  using validated_policy_is_well_formed [OF witness_snapshot_valid] by simp

end
