(* ===== verification/Authz_Engine.thy ===== *)
theory Authz_Engine
  imports Authz_Policy
begin

text \<open>
  \<open>packages/platform-modules/authorization/src/engine.ts\<close>: the evaluation of a policy and the service
  built on it.

  A call of \<open>decide\<close> asks each dependency at most once, so the dependencies' answers during one
  call are a record \<^emph>\<open>of the call\<close>, \<open>engine_env\<close>: a theorem for every \<open>engine_env\<close> covers
  every behaviour of the clock, the policy store, the cache, the recorder and the generators, failures
  included. \<open>decide\<close> returns the list of its effects in order and its result. Arguments that
  stand for the platform: \<open>lc\<close>, \<open>l.localeCompare(r) <= 0\<close>; \<open>sha256\<close>, the hexadecimal digest.

  The time to live divides milliseconds by 1000 and is capped by \<open>cacheTtlSeconds \<le> 86400\<close>; below
  that cap binary64 division followed by \<open>Math.floor\<close> is the integer quotient, so the model uses
  \<open>div\<close>.
\<close>

section \<open>Evaluation\<close>

record evaluation =
  eval_allowed :: bool
  eval_policyVersion :: string
  eval_reason :: decision_reason
  eval_scope :: "data_scope option"

datatype authz_operation = Batch_check | Check_permission | Resolve_data_scope

definition permission_code_of :: "permission_request \<Rightarrow> string" where
  "permission_code_of r = req_resource r @ '':'' @ req_action r"

definition isActive :: "validated_grant \<Rightarrow> int \<Rightarrow> bool" where
  "isActive g t \<longleftrightarrow> validFrom g \<le> t \<and> opt_all (\<lambda>e. t < e) (validTo g)"

definition applicableGrant :: "validated_grant \<Rightarrow> subject_context \<Rightarrow> int \<Rightarrow> bool" where
  "applicableGrant g s t \<longleftrightarrow> isActive g t \<and>
     (case grant_subject g of
        Workforce_person_subject i \<Rightarrow> i = workforcePersonId s
      | Assignment_subject i \<Rightarrow> selectedAssignmentId s = Some i)"

definition normalizeCombinedScope :: "(string \<Rightarrow> string \<Rightarrow> bool) \<Rightarrow> scope_term list \<Rightarrow> data_scope" where
  "normalizeCombinedScope lc ts =
     (if All_records \<in> set ts then [All_records]
      else sort_le (\<lambda>l r. lc (json_term l) (json_term r)) (unique_terms ts))"

fun term_matches :: "(string \<times> string) list \<Rightarrow> scope_term \<Rightarrow> bool" where
  "term_matches ctx All_records = True"
| "term_matches ctx (Match_constraints cs) = list_all (\<lambda>c.
     (case map_of ctx (dimension c) of None \<Rightarrow> '''' | Some v \<Rightarrow> v) \<in> set (scope_values c)) cs"

definition scopeMatches :: "data_scope \<Rightarrow> (string \<times> string) list \<Rightarrow> bool" where
  "scopeMatches scope ctx = list_ex (term_matches ctx) scope"

definition resourceContextIsComplete :: "permission_declaration \<Rightarrow> (string \<times> string) list \<Rightarrow> bool" where
  "resourceContextIsComplete p ctx \<longleftrightarrow> sort (scopeDimensions p) = sort (map fst ctx)"

definition denied :: "validated_policy \<Rightarrow> decision_reason \<Rightarrow> evaluation" where
  "denied p r = \<lparr>eval_allowed = False, eval_policyVersion = policy_version p, eval_reason = r, eval_scope = None\<rparr>"

definition grant_scope :: "validated_policy \<Rightarrow> subject_context \<Rightarrow> string \<Rightarrow> int \<Rightarrow> validated_grant \<Rightarrow> data_scope list" where
  "grant_scope p s code t g =
     (if \<not> applicableGrant g s t then []
      else case map_of (policy_roles p) (grant_roleId g) of
        None \<Rightarrow> []
      | Some role \<Rightarrow> (case find (\<lambda>b. permissionCode b = code) (role_permissions role) of
          None \<Rightarrow> [] | Some b \<Rightarrow> [binding_scope b]))"

definition policy_scopes :: "validated_policy \<Rightarrow> subject_context \<Rightarrow> string \<Rightarrow> int \<Rightarrow> data_scope list" where
  "policy_scopes p s code t = concat (map (grant_scope p s code t) (policy_grants p))"

definition evaluatePolicy ::
    "(string \<Rightarrow> string \<Rightarrow> bool) \<Rightarrow> validated_policy \<Rightarrow> subject_context \<Rightarrow> permission_request \<Rightarrow> int
     \<Rightarrow> authz_operation \<Rightarrow> evaluation" where
  "evaluatePolicy lc p s r t oper = (let code = permission_code_of r in
     case map_of (policy_permissions p) code of
       None \<Rightarrow> denied p Unknown_permission
     | Some permission \<Rightarrow>
         if oper = Check_permission \<and> scopeDimensions permission \<noteq> [] \<and> resourceContext r = None
         then denied p Resource_context_required
         else if oper = Check_permission \<and> \<not> opt_all (resourceContextIsComplete permission) (resourceContext r)
         then denied p Invalid_context
         else (let scopes = policy_scopes p s code t in
           if scopes = [] then denied p No_applicable_grant
           else (let scope = normalizeCombinedScope lc (concat scopes) in
             if oper = Check_permission \<and> \<not> opt_all (scopeMatches scope) (resourceContext r)
             then denied p Scope_mismatch
             else \<lparr>eval_allowed = True, eval_policyVersion = policy_version p, eval_reason = Allowed,
                   eval_scope = Some scope\<rparr>)))"

section \<open>Cache keys and lifetimes\<close>

fun reason_text :: "decision_reason \<Rightarrow> string" where
  "reason_text Allowed = ''allowed''"
| "reason_text Unknown_permission = ''unknown_permission''"
| "reason_text No_applicable_grant = ''no_applicable_grant''"
| "reason_text Invalid_context = ''invalid_context''"
| "reason_text Resource_context_required = ''resource_context_required''"
| "reason_text Scope_mismatch = ''scope_mismatch''"
| "reason_text Policy_unavailable = ''policy_unavailable''"
| "reason_text Policy_invalid = ''policy_invalid''"

fun operation_text :: "authz_operation \<Rightarrow> string" where
  "operation_text Batch_check = ''batch_check''"
| "operation_text Check_permission = ''check''"
| "operation_text Resolve_data_scope = ''resolve_data_scope''"

definition json_request :: "permission_request \<Rightarrow> string" where
  "json_request r = json_object
     ([(''action'', json_string (req_action r)), (''resource'', json_string (req_resource r))] @
      (case resourceContext r of None \<Rightarrow> []
       | Some ctx \<Rightarrow> [(''resourceContext'', json_object (map (\<lambda>(d, v). (d, json_string v)) ctx))]))"

definition json_subject :: "subject_context \<Rightarrow> string" where
  "json_subject s = json_object
     ([(''activeAssignmentIds'', json_array (map json_string (activeAssignmentIds s)))] @
      (case selectedAssignmentId s of None \<Rightarrow> [] | Some i \<Rightarrow> [(''selectedAssignmentId'', json_string i)]) @
      [(''workforcePersonId'', json_string (workforcePersonId s))])"

definition cacheKey ::
    "(string \<Rightarrow> string) \<Rightarrow> authz_operation \<Rightarrow> string \<Rightarrow> subject_context \<Rightarrow> permission_request \<Rightarrow> string" where
  "cacheKey sha256 oper version s r = sha256 (json_object
     [(''operation'', json_string (operation_text oper)), (''policyVersionValue'', json_string version),
      (''request'', json_request r), (''subject'', json_subject s)])"

definition json_scope :: "data_scope \<Rightarrow> string" where
  "json_scope sc = json_object [(''terms'', json_array (map json_term sc)), (''version'', ''1'')]"

definition json_evaluation :: "evaluation \<Rightarrow> string" where
  "json_evaluation e = json_object
     ([(''allowed'', json_bool (eval_allowed e)), (''policyVersion'', json_string (eval_policyVersion e)),
       (''reason'', json_string (reason_text (eval_reason e)))] @
      (case eval_scope e of None \<Rightarrow> [] | Some sc \<Rightarrow> [(''scope'', json_scope sc)]))"

definition evaluationEqual :: "evaluation \<Rightarrow> evaluation \<Rightarrow> bool" where
  "evaluationEqual l r \<longleftrightarrow> json_evaluation l = json_evaluation r"

definition grant_instants :: "validated_grant \<Rightarrow> int list" where
  "grant_instants g = validFrom g # (case validTo g of None \<Rightarrow> [] | Some e \<Rightarrow> [e])"

definition nextPolicyBoundary :: "validated_policy \<Rightarrow> int \<Rightarrow> int option" where
  "nextPolicyBoundary p t =
     (let future = filter (\<lambda>v. t < v) (concat (map grant_instants (policy_grants p)))
      in if future = [] then None else Some (fold min (tl future) (hd future)))"

definition cache_ttl :: "validated_policy \<Rightarrow> int \<Rightarrow> int \<Rightarrow> int" where
  "cache_ttl p t cacheTtlSeconds = (case nextPolicyBoundary p t of
     None \<Rightarrow> cacheTtlSeconds | Some b \<Rightarrow> min cacheTtlSeconds ((b - t) div 1000))"

section \<open>The service\<close>

datatype authz_error =
    AuthorizationDenied string
  | AuthorizationUnavailable
  | Authz_type_error string

record decision =
  decision_allowed :: bool
  decisionId :: string
  evaluatedAt :: string
  decision_policyVersion :: string
  decision_reason :: decision_reason

record decision_record =
  rec_action :: string
  rec_allowed :: bool
  rec_decisionId :: string
  rec_evaluatedAt :: string
  rec_operation :: authz_operation
  rec_permissionCode :: string
  rec_policyVersion :: string
  rec_reason :: decision_reason
  rec_resource :: string
  rec_selectedAssignmentId :: "string option"
  rec_traceId :: string
  rec_workforcePersonId :: "string option"

datatype cache_status = Cache_error | Cache_hit | Cache_miss | Cache_not_used

record telemetry_event =
  tel_cache :: cache_status
  tel_durationMs :: int
  tel_operation :: authz_operation
  tel_reason :: decision_reason
  tel_allowed :: bool

datatype authz_effect =
    Cache_get string
  | Cache_set string evaluation int string
  | Decision_recorded decision_record
  | Telemetry telemetry_event

text \<open>
  A rejected promise of the store: with an instance of \<open>PolicyValidationError\<close> or with anything else.
  \<open>env_clock\<close> is \<open>None\<close> when the clock throws or returns no valid date.
\<close>

datatype rejection = Rejected_invalid | Rejected

record cache_answers =
  cache_answer :: "string \<Rightarrow> evaluation option option"
  cache_accepts :: "string \<Rightarrow> evaluation \<Rightarrow> int \<Rightarrow> string \<Rightarrow> bool"

record engine_env =
  env_clock :: "int option"
  env_currentVersion :: "rejection + jval"
  env_load :: "string \<Rightarrow> rejection + jval"
  env_cache :: "cache_answers option"
  env_decisionId :: "jval option"
  env_traceId :: "string option"
  env_recorder :: "decision_record \<Rightarrow> bool"
  env_observed :: bool
  env_elapsed :: rat

record engine_options =
  cacheTtlSeconds :: int
  opt_localeCompare :: "string \<Rightarrow> string \<Rightarrow> bool"
  opt_sha256 :: "string \<Rightarrow> string"

definition UNAVAILABLE_VERSION :: string where
  "UNAVAILABLE_VERSION = ''unavailable''"

definition is_trace_id :: "string \<Rightarrow> bool" where
  "is_trace_id s \<longleftrightarrow> rx_test (rx_times 32 (Cls cls_hex)) s \<and> s \<noteq> replicate 32 CHR ''0''"

definition unavailable :: "decision_reason \<Rightarrow> evaluation" where
  "unavailable r = \<lparr>eval_allowed = False, eval_policyVersion = UNAVAILABLE_VERSION, eval_reason = r, eval_scope = None\<rparr>"

text \<open>A \<open>PolicyValidationError\<close> thrown in the \<open>try\<close> block.\<close>

definition as_rejection :: "policy_error + 'a \<Rightarrow> rejection + 'a" where
  "as_rejection r = (case r of Inl _ \<Rightarrow> Inl Rejected_invalid | Inr x \<Rightarrow> Inr x)"

lemma as_rejection_Inr [result_simps]: "as_rejection r = Inr x \<longleftrightarrow> r = Inr x"
  by (simp add: as_rejection_def split: sum.splits)

definition load_policy :: "engine_env \<Rightarrow> rejection + string \<times> validated_policy" where
  "load_policy env =
     bindR (env_currentVersion env) (\<lambda>cv.
     bindR (as_rejection (policyVersion cv)) (\<lambda>version.
     bindR (env_load env version) (\<lambda>raw.
     bindR (as_rejection (validatePolicySnapshot raw version)) (\<lambda>p. Inr (version, p)))))"

definition use_cache ::
    "engine_options \<Rightarrow> engine_env \<Rightarrow> string \<Rightarrow> validated_policy \<Rightarrow> int \<Rightarrow> string \<Rightarrow> evaluation
     \<Rightarrow> authz_effect list \<times> cache_status" where
  "use_cache opts env version p t key fresh = (case env_cache env of
     None \<Rightarrow> ([], Cache_not_used)
   | Some c \<Rightarrow> (case cache_answer c key of
       None \<Rightarrow> ([Cache_get key], Cache_error)
     | Some cached \<Rightarrow>
         if cached \<noteq> None \<and> evaluationEqual (the cached) fresh then ([Cache_get key], Cache_hit)
         else (let status = (if cached = None then Cache_miss else Cache_error);
                   ttl = cache_ttl p t (cacheTtlSeconds opts)
               in if 1 \<le> ttl
                  then ([Cache_get key, Cache_set key fresh ttl version],
                        if cache_accepts c key fresh ttl version then status else Cache_error)
                  else ([Cache_get key], status))))"

definition finalize ::
    "engine_env \<Rightarrow> evaluation \<Rightarrow> permission_request \<Rightarrow> subject_context option \<Rightarrow> authz_operation
     \<Rightarrow> cache_status \<Rightarrow> string \<Rightarrow> authz_effect list \<times> (authz_error + decision \<times> data_scope option)" where
  "finalize env e r s oper status evaluated = (case (env_decisionId env, env_traceId env) of
     (Some (JStr i), Some trace) \<Rightarrow>
       if \<not> rx_test UUID_I i \<or> \<not> is_trace_id trace then ([], Inl AuthorizationUnavailable)
       else (let d = \<lparr>decision_allowed = eval_allowed e, decisionId = i, evaluatedAt = evaluated,
                    decision_policyVersion = eval_policyVersion e, decision_reason = eval_reason e\<rparr>;
                 rec = \<lparr>rec_action = req_action r, rec_allowed = eval_allowed e, rec_decisionId = i,
                    rec_evaluatedAt = evaluated, rec_operation = oper, rec_permissionCode = permission_code_of r,
                    rec_policyVersion = eval_policyVersion e, rec_reason = eval_reason e,
                    rec_resource = req_resource r, rec_selectedAssignmentId = Option.bind s selectedAssignmentId,
                    rec_traceId = trace, rec_workforcePersonId = map_option workforcePersonId s\<rparr>
             in if \<not> env_recorder env rec then ([Decision_recorded rec], Inl AuthorizationUnavailable)
                else (Decision_recorded rec #
                   (if env_observed env
                    then [Telemetry \<lparr>tel_cache = status, tel_durationMs = max 0 (math_round (env_elapsed env)),
                            tel_operation = oper, tel_reason = eval_reason e, tel_allowed = eval_allowed e\<rparr>]
                    else []),
                   Inr (d, eval_scope e)))
   | _ \<Rightarrow> ([], Inl AuthorizationUnavailable))"

definition evaluationOperation :: "authz_operation \<Rightarrow> authz_operation" where
  "evaluationOperation oper = (if oper = Resolve_data_scope then oper else Check_permission)"

definition decide ::
    "engine_options \<Rightarrow> engine_env \<Rightarrow> jval \<Rightarrow> jval \<Rightarrow> authz_operation
     \<Rightarrow> authz_effect list \<times> (authz_error + decision \<times> data_scope option)" where
  "decide opts env subjectInput requestInput oper =
     (let evaluated = to_iso (case env_clock env of None \<Rightarrow> 0 | Some t \<Rightarrow> t);
          subject = validateSubjectContext subjectInput;
          request = validatePermissionRequest requestInput;
          containsContext = (oper = Resolve_data_scope \<and> request \<noteq> None \<and>
            ''resourceContext'' \<in> set (keys requestInput));
          placeholder = \<lparr>req_action = ''invalid'', req_resource = ''invalid.invalid'', resourceContext = None\<rparr>;
          shown = (case request of None \<Rightarrow> placeholder | Some r \<Rightarrow> r)
      in case env_clock env of
           None \<Rightarrow> finalize env (unavailable Policy_unavailable) shown subject oper Cache_not_used evaluated
         | Some t \<Rightarrow> (case (subject, request) of
             (Some s, Some r) \<Rightarrow>
               if containsContext
               then finalize env (unavailable Invalid_context) shown subject oper Cache_not_used evaluated
               else (case load_policy env of
                   Inl err \<Rightarrow> finalize env
                     (unavailable (if err = Rejected_invalid then Policy_invalid else Policy_unavailable))
                     r subject oper Cache_not_used evaluated
                 | Inr (version, p) \<Rightarrow>
                     (let oper' = evaluationOperation oper;
                          fresh = evaluatePolicy (opt_localeCompare opts) p s r t oper';
                          key = cacheKey (opt_sha256 opts) oper' version s r;
                          (effs, status) = use_cache opts env version p t key fresh;
                          (effs', result) = finalize env fresh shown subject oper status evaluated
                      in (effs @ effs', result)))
           | _ \<Rightarrow> finalize env (unavailable Invalid_context) shown subject oper Cache_not_used evaluated))"

definition createAuthorizationService :: "jnum \<Rightarrow> (string \<Rightarrow> string \<Rightarrow> bool) \<Rightarrow> (string \<Rightarrow> string) \<Rightarrow> authz_error + engine_options" where
  "createAuthorizationService ttl lc sha256 = (case int_val ttl of
     Some n \<Rightarrow> if n < 1 \<or> 86400 < n then Inl (Authz_type_error ''AUTHORIZATION_INVALID_CONFIGURATION'')
       else Inr \<lparr>cacheTtlSeconds = n, opt_localeCompare = lc, opt_sha256 = sha256\<rparr>
   | None \<Rightarrow> Inl (Authz_type_error ''AUTHORIZATION_INVALID_CONFIGURATION''))"

definition check_permission ::
    "engine_options \<Rightarrow> engine_env \<Rightarrow> jval \<Rightarrow> jval \<Rightarrow> authz_effect list \<times> (authz_error + decision)" where
  "check_permission opts env s r = (case decide opts env s r Check_permission of
     (effs, result) \<Rightarrow> (effs, bindR result (\<lambda>(d, _). Inr d)))"

definition requireAllowed ::
    "engine_options \<Rightarrow> engine_env \<Rightarrow> jval \<Rightarrow> jval \<Rightarrow> authz_effect list \<times> (authz_error + decision)" where
  "requireAllowed opts env s r = (case decide opts env s r Check_permission of
     (effs, result) \<Rightarrow> (effs, bindR result (\<lambda>(d, _).
        if \<not> decision_allowed d then Inl (AuthorizationDenied (decisionId d)) else Inr d)))"

definition resolveDataScope ::
    "engine_options \<Rightarrow> engine_env \<Rightarrow> jval \<Rightarrow> jval
     \<Rightarrow> authz_effect list \<times> (authz_error + decision \<times> data_scope option)" where
  "resolveDataScope opts env s r = decide opts env s r Resolve_data_scope"

text \<open>\<open>envs\<close> holds the answers given during each request of the batch.\<close>

fun batch_loop ::
    "engine_options \<Rightarrow> jval \<Rightarrow> (engine_env \<times> jval) list \<Rightarrow> authz_effect list \<times> (authz_error + decision list)" where
  "batch_loop opts s [] = ([], Inr [])"
| "batch_loop opts s ((env, r) # rest) = (case decide opts env s r Batch_check of
     (effs, Inl e) \<Rightarrow> (effs, Inl e)
   | (effs, Inr (d, _)) \<Rightarrow> (case batch_loop opts s rest of
       (effs', result) \<Rightarrow> (effs @ effs', bindR result (\<lambda>ds. Inr (d # ds)))))"

definition batchCheck ::
    "engine_options \<Rightarrow> (nat \<Rightarrow> engine_env) \<Rightarrow> jval \<Rightarrow> jval \<Rightarrow> authz_effect list \<times> (authz_error + decision list)" where
  "batchCheck opts envs s requests = (case requests of
     JArr rs \<Rightarrow> if 256 < length rs then ([], Inl (Authz_type_error ''AUTHORIZATION_BATCH_TOO_LARGE''))
       else batch_loop opts s (zip (map envs [0..<length rs]) rs)
   | _ \<Rightarrow> ([], Inl (Authz_type_error ''AUTHORIZATION_BATCH_TOO_LARGE'')))"

text \<open>\<open>invalidatePolicyVersion\<close>: the version handed to the cache, if any; it never throws.\<close>

definition invalidatePolicyVersion :: "bool \<Rightarrow> jval \<Rightarrow> string option" where
  "invalidatePolicyVersion hasCache version =
     (if hasCache then (case policyVersion version of Inr v \<Rightarrow> Some v | Inl _ \<Rightarrow> None) else None)"

section \<open>The policy decides\<close>

lemma scopeMatches_iff: "scopeMatches sc ctx \<longleftrightarrow> (\<exists>t \<in> set sc. term_matches ctx t)"
  by (simp add: scopeMatches_def list_ex_iff)

text \<open>Combining terms changes neither their meaning nor the order-independent set of contexts matched.\<close>

lemma scopeMatches_combined: "scopeMatches (normalizeCombinedScope lc ts) ctx \<longleftrightarrow> scopeMatches ts ctx"
proof (cases "All_records \<in> set ts")
  case True
  then have "scopeMatches ts ctx" by (auto simp: scopeMatches_iff intro: bexI [of _ All_records])
  with True show ?thesis by (simp add: normalizeCombinedScope_def scopeMatches_iff)
qed (simp add: normalizeCombinedScope_def scopeMatches_iff)

text \<open>What the policy says, without lists, texts or order: a grant in force, to this subject, of a role
  that binds the permission, with a scope.\<close>

definition granted_scope :: "validated_policy \<Rightarrow> subject_context \<Rightarrow> string \<Rightarrow> int \<Rightarrow> data_scope \<Rightarrow> bool" where
  "granted_scope p s code t sc \<longleftrightarrow> (\<exists>g \<in> set (policy_grants p). \<exists>role b.
     validFrom g \<le> t \<and> (\<forall>e. validTo g = Some e \<longrightarrow> t < e) \<and>
     (grant_subject g = Workforce_person_subject (workforcePersonId s) \<or>
      (\<exists>i. selectedAssignmentId s = Some i \<and> grant_subject g = Assignment_subject i)) \<and>
     map_of (policy_roles p) (grant_roleId g) = Some role \<and> b \<in> set (role_permissions role) \<and>
     permissionCode b = code \<and> binding_scope b = sc)"

definition may_access :: "validated_policy \<Rightarrow> subject_context \<Rightarrow> permission_request \<Rightarrow> int \<Rightarrow> bool" where
  "may_access p s r t \<longleftrightarrow> (\<exists>permission sc.
     map_of (policy_permissions p) (permission_code_of r) = Some permission \<and>
     granted_scope p s (permission_code_of r) t sc \<and>
     (case resourceContext r of
        None \<Rightarrow> scopeDimensions permission = []
      | Some ctx \<Rightarrow> set (map fst ctx) = set (scopeDimensions permission) \<and>
          (\<exists>term \<in> set sc. term_matches ctx term)))"

lemma applicableGrant_iff:
  "applicableGrant g s t \<longleftrightarrow> validFrom g \<le> t \<and> (\<forall>e. validTo g = Some e \<longrightarrow> t < e) \<and>
     (grant_subject g = Workforce_person_subject (workforcePersonId s) \<or>
      (\<exists>i. selectedAssignmentId s = Some i \<and> grant_subject g = Assignment_subject i))"
  by (auto simp: applicableGrant_def isActive_def opt_all_iff split: grant_subject.splits)

lemma find_distinct:
  assumes "distinct (map f xs)"
  shows "find (\<lambda>x. f x = k) xs = Some x \<longleftrightarrow> x \<in> set xs \<and> f x = k"
  using assms by (induction xs) auto

lemma grant_scope_iff:
  "sc \<in> set (grant_scope p s code t g) \<longleftrightarrow> applicableGrant g s t \<and> (\<exists>role b.
     map_of (policy_roles p) (grant_roleId g) = Some role \<and>
     find (\<lambda>b. permissionCode b = code) (role_permissions role) = Some b \<and> binding_scope b = sc)"
proof (cases "map_of (policy_roles p) (grant_roleId g)")
  case (Some role)
  then show ?thesis
    by (cases "find (\<lambda>b. permissionCode b = code) (role_permissions role)") (auto simp: grant_scope_def)
qed (simp add: grant_scope_def)

lemma policy_scopes_iff:
  assumes wf: "wf_policy p"
  shows "sc \<in> set (policy_scopes p s code t) \<longleftrightarrow> granted_scope p s code t sc"
proof -
  have "distinct (map permissionCode (role_permissions role))" if "map_of (policy_roles p) i = Some role" for i role
    using wf map_of_SomeD [OF that] by (auto simp: wf_policy_def wf_role_def)
  then have "map_of (policy_roles p) i = Some role \<and>
      find (\<lambda>b. permissionCode b = code) (role_permissions role) = Some b \<and> binding_scope b = sc \<longleftrightarrow>
    map_of (policy_roles p) i = Some role \<and> b \<in> set (role_permissions role) \<and>
      permissionCode b = code \<and> binding_scope b = sc" for i role b
    using find_distinct [of permissionCode "role_permissions role" code b] by blast
  then show ?thesis
    by (simp only: policy_scopes_def granted_scope_def set_concat set_map UN_iff bex_simps image_iff
        grant_scope_iff applicableGrant_iff) auto
qed

lemma eval_allowed_check:
  "eval_allowed (evaluatePolicy lc p s r t Check_permission) \<longleftrightarrow>
     (\<exists>d. map_of (policy_permissions p) (permission_code_of r) = Some d \<and>
        policy_scopes p s (permission_code_of r) t \<noteq> [] \<and>
        (case resourceContext r of
           None \<Rightarrow> scopeDimensions d = []
         | Some ctx \<Rightarrow> resourceContextIsComplete d ctx \<and>
             scopeMatches (concat (policy_scopes p s (permission_code_of r) t)) ctx))"
  by (cases "map_of (policy_permissions p) (permission_code_of r)"; cases "resourceContext r")
    (simp_all add: evaluatePolicy_def Let_def denied_def scopeMatches_combined)

lemma context_entries_distinct: "context_entries ps = Some es \<Longrightarrow> distinct (map fst es)"
proof -
  assume "context_entries ps = Some es"
  then have es: "es = sort_le (\<lambda>l r. fst l \<le> fst r)
      (fold (\<lambda>(d, item) m. case item of JStr s \<Rightarrow> AList.update d s m | _ \<Rightarrow> m) ps [])"
    by (simp add: context_entries_def split: if_splits)
  have "distinct (map fst (fold (\<lambda>(d, item) m. case item of JStr s \<Rightarrow> AList.update d s m | _ \<Rightarrow> m) ps m))"
    if "distinct (map fst m)" for m :: "(string \<times> string) list"
    using that by (induction ps arbitrary: m) (auto simp: distinct_keys_update split: jval.splits)
  then have "distinct (map fst (fold (\<lambda>(d, item) m. case item of JStr s \<Rightarrow> AList.update d s m | _ \<Rightarrow> m) ps []))"
    by simp
  then show ?thesis unfolding es by (simp add: map_sort_le [of _ "(\<le>)" fst])
qed

lemma validated_request_distinct:
  "validatePermissionRequest v = Some r \<Longrightarrow> resourceContext r = Some ctx \<Longrightarrow> distinct (map fst ctx)"
  by (auto simp: validatePermissionRequest_def split: jval.splits if_splits dest: context_entries_distinct)

lemma complete_iff:
  assumes "distinct (map fst ctx)" "distinct (scopeDimensions d)"
  shows "resourceContextIsComplete d ctx \<longleftrightarrow> set (map fst ctx) = set (scopeDimensions d)"
  using assms unfolding resourceContextIsComplete_def
  by (metis set_sort sorted_distinct_set_unique sorted_sort distinct_sort)

lemma wf_dimensions:
  assumes "wf_policy p" "map_of (policy_permissions p) code = Some d"
  shows "distinct (scopeDimensions d)"
  using assms map_of_SomeD [OF assms(2)] by (auto simp: wf_policy_def wf_permission_def)

lemma scopeMatches_concat: "scopeMatches (concat scs) ctx \<longleftrightarrow> (\<exists>sc \<in> set scs. scopeMatches sc ctx)"
  by (auto simp: scopeMatches_iff)

lemma allowed_may_access:
  assumes wf: "wf_policy p" and "validatePermissionRequest v = Some r"
  shows "eval_allowed (evaluatePolicy lc p s r t Check_permission) \<longleftrightarrow> may_access p s r t"
proof -
  note scopes = policy_scopes_iff [OF wf, of _ s "permission_code_of r" t]
  have nonempty: "policy_scopes p s (permission_code_of r) t \<noteq> [] \<longleftrightarrow>
      (\<exists>sc. granted_scope p s (permission_code_of r) t sc)"
    using scopes by (metis all_not_in_conv set_empty)
  show ?thesis
  proof (cases "resourceContext r")
    case None
    then show ?thesis by (auto simp: eval_allowed_check nonempty may_access_def)
  next
    case (Some ctx)
    have "resourceContextIsComplete d ctx \<longleftrightarrow> set (map fst ctx) = set (scopeDimensions d)"
      if "map_of (policy_permissions p) (permission_code_of r) = Some d" for d
      using complete_iff validated_request_distinct [OF assms(2) Some] wf_dimensions [OF wf that] by blast
    moreover have "scopeMatches (concat (policy_scopes p s (permission_code_of r) t)) ctx \<longleftrightarrow>
        (\<exists>sc. granted_scope p s (permission_code_of r) t sc \<and> (\<exists>term \<in> set sc. term_matches ctx term))"
      using scopes by (simp add: scopeMatches_concat scopeMatches_iff) blast
    ultimately show ?thesis
      unfolding eval_allowed_check nonempty may_access_def Some option.case by blast
  qed
qed

text \<open>
  Property C15. The engine's check of a validated request against a validated policy grants access exactly
  when the policy says so: the permission is declared, the request names exactly the declared scope
  dimensions (or none is declared), and some grant that is in force at that instant, to the person or
  to the selected assignment, of a role that binds the permission, has a scope term that matches.
  Flattening, de-duplication by JSON text and sorting by \<open>localeCompare\<close> do not change the answer.
\<close>

theorem access_is_granted_exactly_by_the_policy:
  assumes "validatePolicySnapshot raw x = Inr p" "validatePermissionRequest v = Some r"
  shows "eval_allowed (evaluatePolicy lc p s r t Check_permission) \<longleftrightarrow> may_access p s r t"
  using allowed_may_access [OF _ assms(2)] validated_snapshot_wf [OF assms(1)] by blast

text \<open>
  Property C16. Resolving a data scope and checking single records agree: for a declared permission and a
  context naming exactly its dimensions, the check allows the record if and only if the scope resolved
  for the same subject, permission and instant matches it, so a list filtered by the resolved scope
  shows exactly the records that could be opened one by one.
\<close>

theorem resolved_scope_agrees_with_check:
  "map_of (policy_permissions p) (permission_code_of r) = Some d \<and> resourceContextIsComplete d ctx \<longrightarrow>
     (eval_allowed (evaluatePolicy lc p s (r\<lparr>resourceContext := Some ctx\<rparr>) t Check_permission) \<longleftrightarrow>
      (\<exists>sc. eval_scope (evaluatePolicy lc' p s r t Resolve_data_scope) = Some sc \<and> scopeMatches sc ctx))"
proof -
  have "permission_code_of (r\<lparr>resourceContext := Some ctx\<rparr>) = permission_code_of r"
    by (simp add: permission_code_of_def)
  then show ?thesis
    by (simp add: eval_allowed_check) (simp add: evaluatePolicy_def Let_def denied_def scopeMatches_combined)
qed

section \<open>A decision lasts until the next boundary\<close>

lemma fold_min_le: "fold min xs (x :: int) \<le> x \<and> (\<forall>y \<in> set xs. fold min xs x \<le> y)"
proof (induction xs arbitrary: x)
  case (Cons a xs)
  from Cons [of "min a x"] show ?case by auto
qed simp

lemma nextPolicyBoundary_le:
  assumes "g \<in> set (policy_grants p)" "v \<in> set (grant_instants g)" "t < v"
  shows "\<exists>b. nextPolicyBoundary p t = Some b \<and> b \<le> v"
proof -
  let ?f = "filter (\<lambda>v. t < v) (concat (map grant_instants (policy_grants p)))"
  have "v \<in> set ?f" using assms by auto
  then obtain x xs where f: "?f = x # xs" and "v = x \<or> v \<in> set xs" by (cases ?f) auto
  then have "fold min xs x \<le> v" using fold_min_le [of xs x] by auto
  with f show ?thesis by (simp add: nextPolicyBoundary_def)
qed

lemma isActive_until:
  assumes "g \<in> set (policy_grants p)" "t \<le> u" "opt_all (\<lambda>b. u < b) (nextPolicyBoundary p t)"
  shows "isActive g u \<longleftrightarrow> isActive g t"
proof -
  have later: "v \<in> set (grant_instants g) \<Longrightarrow> t < v \<Longrightarrow> u < v" for v
    using nextPolicyBoundary_le [OF assms(1), of v t] assms(3) by auto
  have "validFrom g \<le> u \<longleftrightarrow> validFrom g \<le> t"
    using later [of "validFrom g"] assms(2) by (fastforce simp: grant_instants_def)
  moreover have "u < e \<longleftrightarrow> t < e" if "validTo g = Some e" for e
    using later [of e] assms(2) that by (fastforce simp: grant_instants_def)
  ultimately show ?thesis by (cases "validTo g") (simp_all add: isActive_def)
qed

lemma evaluatePolicy_until:
  assumes "t \<le> u" "opt_all (\<lambda>b. u < b) (nextPolicyBoundary p t)"
  shows "evaluatePolicy lc p s r u oper = evaluatePolicy lc p s r t oper"
proof -
  have "grant_scope p s code u g = grant_scope p s code t g" if "g \<in> set (policy_grants p)" for g code
    using isActive_until [OF that assms] by (simp add: grant_scope_def applicableGrant_def)
  then have "policy_scopes p s code u = policy_scopes p s code t" for code
    by (simp add: policy_scopes_def cong: map_cong)
  then show ?thesis unfolding evaluatePolicy_def Let_def by presburger
qed

text \<open>The seconds of \<open>cache_ttl\<close> end before the boundary.\<close>

lemma evaluatePolicy_cached:
  assumes "1 \<le> cache_ttl p t n" "t \<le> u" "u < t + cache_ttl p t n * 1000"
  shows "evaluatePolicy lc p s r u oper = evaluatePolicy lc p s r t oper"
proof (rule evaluatePolicy_until [OF assms(2)])
  show "opt_all (\<lambda>b. u < b) (nextPolicyBoundary p t)"
  proof (cases "nextPolicyBoundary p t")
    case (Some b)
    have "(b - t) div 1000 * 1000 \<le> b - t" by (simp add: minus_mod_eq_div_mult [symmetric])
    moreover have "cache_ttl p t n \<le> (b - t) div 1000" by (simp add: cache_ttl_def Some)
    ultimately have "u < b" using assms(3) by linarith
    with Some show ?thesis by simp
  qed simp
qed

section \<open>The service\<close>

lemma use_cache_set:
  "Cache_set k e ttl v \<in> set (fst (use_cache opts env version p t key fresh)) \<Longrightarrow>
     k = key \<and> e = fresh \<and> v = version \<and> ttl = cache_ttl p t (cacheTtlSeconds opts) \<and> 1 \<le> ttl"
  by (auto simp: use_cache_def Let_def split: option.splits if_splits)

lemma use_cache_no_record: "Decision_recorded rec \<notin> set (fst (use_cache opts env version p t key fresh))"
  by (auto simp: use_cache_def Let_def split: option.splits if_splits)

lemma finalize_no_cache: "Cache_set k e ttl v \<notin> set (fst (finalize env ev r s oper st evd))"
  by (auto simp: finalize_def Let_def split: option.splits jval.splits if_splits)

definition recorded :: "authz_effect list \<Rightarrow> decision_record list" where
  "recorded effs = List.map_filter (\<lambda>e. case e of Decision_recorded r \<Rightarrow> Some r | _ \<Rightarrow> None) effs"

lemma recorded_simps [simp]:
  "recorded [] = []" "recorded (Decision_recorded r # es) = r # recorded es"
  "recorded (Cache_get k # es) = recorded es" "recorded (Cache_set k e n v # es) = recorded es"
  "recorded (Telemetry x # es) = recorded es" "recorded (es @ es') = recorded es @ recorded es'"
  by (simp_all add: recorded_def map_filter_def)

lemma use_cache_recorded [simp]: "recorded (fst (use_cache opts env version p t key fresh)) = []"
  by (auto simp: use_cache_def Let_def split: option.splits)

lemma finalize_Inr:
  assumes "finalize env ev r s oper st evd = (effs, Inr (d, sc))"
  shows "sc = eval_scope ev \<and> decision_allowed d = eval_allowed ev \<and> decision_reason d = eval_reason ev \<and>
    decision_policyVersion d = eval_policyVersion ev \<and> evaluatedAt d = evd \<and>
    (\<exists>rec. recorded effs = [rec] \<and> env_recorder env rec \<and> rec_decisionId rec = decisionId d \<and>
       rec_allowed rec = eval_allowed ev \<and> rec_reason rec = eval_reason ev \<and> rec_operation rec = oper \<and>
       rec_policyVersion rec = eval_policyVersion ev)"
  using assms by (auto simp: finalize_def Let_def split: option.splits jval.splits if_splits)

lemma finalize_status:
  "snd (finalize env e r s oper st evd) = snd (finalize env e r s oper st' evd) \<and>
   recorded (fst (finalize env e r s oper st evd)) = recorded (fst (finalize env e r s oper st' evd))"
  by (auto simp: finalize_def Let_def split: option.splits jval.splits)

text \<open>Nothing but \<open>use_cache\<close> looks at the cache.\<close>

lemma cache_update_simps [simp]:
  "env_clock (env\<lparr>env_cache := c\<rparr>) = env_clock env"
  "env_currentVersion (env\<lparr>env_cache := c\<rparr>) = env_currentVersion env"
  "env_load (env\<lparr>env_cache := c\<rparr>) = env_load env"
  "env_decisionId (env\<lparr>env_cache := c\<rparr>) = env_decisionId env"
  "env_traceId (env\<lparr>env_cache := c\<rparr>) = env_traceId env"
  "env_recorder (env\<lparr>env_cache := c\<rparr>) = env_recorder env"
  "env_observed (env\<lparr>env_cache := c\<rparr>) = env_observed env"
  "env_elapsed (env\<lparr>env_cache := c\<rparr>) = env_elapsed env"
  for env :: engine_env
  by simp_all

lemma finalize_cache_update [simp]: "finalize (env\<lparr>env_cache := c\<rparr>) = finalize env" for env :: engine_env
  unfolding finalize_def cache_update_simps ..

lemma load_policy_cache_update [simp]: "load_policy (env\<lparr>env_cache := c\<rparr>) = load_policy env" for env :: engine_env
  unfolding load_policy_def cache_update_simps ..

text \<open>Every way through \<open>decide\<close> ends in \<open>finalize\<close>.\<close>

lemma decide_cases:
  obtains (evaluated) t s r version p effs st where
    "env_clock env = Some t" "validateSubjectContext sj = Some s" "validatePermissionRequest rq = Some r"
    "load_policy env = Inr (version, p)" "\<not> (oper = Resolve_data_scope \<and> ''resourceContext'' \<in> set (keys rq))"
    "effs = fst (use_cache opts env version p t (cacheKey (opt_sha256 opts)
        (evaluationOperation oper) version s r)
        (evaluatePolicy (opt_localeCompare opts) p s r t (evaluationOperation oper)))"
    "decide opts env sj rq oper = (effs @ fst (finalize env (evaluatePolicy (opt_localeCompare opts) p s r t
         (evaluationOperation oper)) r (Some s) oper st (to_iso t)),
       snd (finalize env (evaluatePolicy (opt_localeCompare opts) p s r t
         (evaluationOperation oper)) r (Some s) oper st (to_iso t)))"
  | (refused) reason r s evd where
    "decide opts env sj rq oper = finalize env (unavailable reason) r s oper Cache_not_used evd"
    "reason \<noteq> Allowed"
    "\<And>c. decide opts (env\<lparr>env_cache := c\<rparr>) sj rq oper = decide opts env sj rq oper"
proof (cases "env_clock env")
  case None
  then show thesis by (intro refused [of Policy_unavailable]) (simp_all add: decide_def Let_def)
next
  case (Some t)
  note clock = Some
  have invalid: thesis if "validateSubjectContext sj = None \<or> validatePermissionRequest rq = None"
  proof (cases "validatePermissionRequest rq")
    case None
    with clock show thesis
      by (cases "validateSubjectContext sj"; intro refused [of Invalid_context]) (simp_all add: decide_def Let_def)
  next
    case (Some r)
    with that clock show thesis
      by (intro refused [of Invalid_context]) (simp_all add: decide_def Let_def)
  qed
  show thesis
  proof (cases "validateSubjectContext sj = None \<or> validatePermissionRequest rq = None")
    case False
    then obtain s r where sr: "validateSubjectContext sj = Some s" "validatePermissionRequest rq = Some r"
      by auto
    show thesis
    proof (cases "oper = Resolve_data_scope \<and> ''resourceContext'' \<in> set (keys rq)")
      case True
      with clock sr show thesis
        by (intro refused [of Invalid_context]) (simp_all add: decide_def Let_def)
    next
      case False
      show thesis
      proof (cases "load_policy env")
        case (Inl err)
        with clock sr False show thesis
          by (intro refused [of "if err = Rejected_invalid then Policy_invalid else Policy_unavailable"])
            (auto simp: decide_def Let_def)
      next
        case (Inr vp)
        then obtain version p where lp: "load_policy env = Inr (version, p)" by (cases vp) auto
        define e where "e = evaluatePolicy (opt_localeCompare opts) p s r t (evaluationOperation oper)"
        define uc where "uc = use_cache opts env version p t
          (cacheKey (opt_sha256 opts) (evaluationOperation oper) version s r) e"
        have "decide opts env sj rq oper = (fst uc @ fst (finalize env e r (Some s) oper (snd uc) (to_iso t)),
            snd (finalize env e r (Some s) oper (snd uc) (to_iso t)))"
          using clock sr False lp by (auto simp: decide_def Let_def case_prod_beta e_def uc_def)
        then show thesis by (rule evaluated [OF clock sr lp False, folded e_def, folded uc_def, OF refl])
      qed
    qed
  qed (rule invalid)
qed

text \<open>
  Property C17. What the engine puts in the cache stays true for as long as the cache may keep it: the stored
  evaluation is what the loaded policy gives for the stored subject and request at every instant of
  the time to live, which is at least a second and at most the configured number of seconds, because
  no grant starts or ends before it has passed.
\<close>

theorem cached_evaluation_stays_true:
  assumes "Cache_set key e ttl version \<in> set (fst (decide opts env sj rq oper))"
  shows "1 \<le> ttl \<and> ttl \<le> cacheTtlSeconds opts \<and> (\<exists>t s r p. env_clock env = Some t \<and>
    validateSubjectContext sj = Some s \<and> validatePermissionRequest rq = Some r \<and>
    load_policy env = Inr (version, p) \<and>
    (\<forall>u. t \<le> u \<and> u < t + ttl * 1000 \<longrightarrow>
       evaluatePolicy (opt_localeCompare opts) p s r u (evaluationOperation oper) = e))"
proof (cases rule: decide_cases [of env sj rq oper opts])
  case (evaluated t s r v p effs st)
  with assms have "Cache_set key e ttl version \<in> set effs" using finalize_no_cache by auto
  then have set: "version = v" "ttl = cache_ttl p t (cacheTtlSeconds opts)" "1 \<le> ttl"
      "e = evaluatePolicy (opt_localeCompare opts) p s r t (evaluationOperation oper)"
    using evaluated(6) use_cache_set by blast+
  moreover have "ttl \<le> cacheTtlSeconds opts"
    by (simp add: set(2) cache_ttl_def split: option.splits)
  moreover have "evaluatePolicy (opt_localeCompare opts) p s r u (evaluationOperation oper) = e"
    if "t \<le> u" "u < t + ttl * 1000" for u
    unfolding set(4) by (rule evaluatePolicy_cached [OF _ that(1)]) (use set that in simp_all)
  ultimately show ?thesis using evaluated(1-4) by blast
qed (use assms finalize_no_cache in \<open>metis\<close>)

lemma decide_cache:
  "snd (decide opts (env\<lparr>env_cache := c\<rparr>) sj rq oper) = snd (decide opts env sj rq oper) \<and>
   recorded (fst (decide opts (env\<lparr>env_cache := c\<rparr>) sj rq oper)) = recorded (fst (decide opts env sj rq oper))"
proof (cases rule: decide_cases [of env sj rq oper opts])
  case (evaluated t s r v p effs st)
  let ?op = "evaluationOperation oper"
  let ?e = "evaluatePolicy (opt_localeCompare opts) p s r t ?op"
  let ?uc = "use_cache opts (env\<lparr>env_cache := c\<rparr>) v p t (cacheKey (opt_sha256 opts) ?op v s r) ?e"
  have "decide opts (env\<lparr>env_cache := c\<rparr>) sj rq oper =
      (fst ?uc @ fst (finalize env ?e r (Some s) oper (snd ?uc) (to_iso t)),
       snd (finalize env ?e r (Some s) oper (snd ?uc) (to_iso t)))"
    using evaluated(1-5) by (auto simp: decide_def Let_def case_prod_beta)
  then show ?thesis
    using finalize_status [of env ?e r "Some s" oper "snd ?uc" "to_iso t" st] by (simp add: evaluated(6,7))
qed simp

text \<open>
  Property C18. The cache cannot change a decision: whatever it holds and however it fails, the result of a
  call and the records it leaves are those of a service without a cache.
\<close>

theorem decisions_do_not_depend_on_the_cache:
  "snd (decide opts (env\<lparr>env_cache := c\<rparr>) sj rq oper) = snd (decide opts (env\<lparr>env_cache := c'\<rparr>) sj rq oper) \<and>
   recorded (fst (decide opts (env\<lparr>env_cache := c\<rparr>) sj rq oper)) =
     recorded (fst (decide opts (env\<lparr>env_cache := c'\<rparr>) sj rq oper))"
  using decide_cache by simp

lemma load_policy_version: "load_policy env = Inr (v, p) \<Longrightarrow> policy_version p = v \<and> wf_policy p"
  by (auto simp: load_policy_def result_simps dest: validated_snapshot_wf)

lemma eval_version: "eval_policyVersion (evaluatePolicy lc p s r t oper) = policy_version p"
  by (simp add: evaluatePolicy_def denied_def Let_def split: option.splits)

lemma eval_reason_allowed: "eval_reason (evaluatePolicy lc p s r t oper) = Allowed \<longleftrightarrow> eval_allowed (evaluatePolicy lc p s r t oper)"
  by (simp add: evaluatePolicy_def denied_def Let_def split: option.splits)

lemma finalize_Inl: "snd (finalize env ev r s oper st evd) = Inl e \<Longrightarrow> e = AuthorizationUnavailable"
  by (auto simp: finalize_def Let_def split: option.splits jval.splits if_splits)

lemma decide_Inl: "snd (decide opts env sj rq oper) = Inl e \<Longrightarrow> e = AuthorizationUnavailable"
  by (cases rule: decide_cases [of env sj rq oper opts]) (auto dest: finalize_Inl)

lemma eval_refused: "\<not> eval_allowed (evaluatePolicy lc p s r t oper) \<Longrightarrow> eval_scope (evaluatePolicy lc p s r t oper) = None"
proof -
  have "\<not> eval_allowed (evaluatePolicy lc p s r t oper) \<longrightarrow> eval_scope (evaluatePolicy lc p s r t oper) = None"
    unfolding evaluatePolicy_def Let_def denied_def by (simp split: option.split)
  then show "\<not> eval_allowed (evaluatePolicy lc p s r t oper) \<Longrightarrow> eval_scope (evaluatePolicy lc p s r t oper) = None" ..
qed

text \<open>An allowed evaluation has the scope the policy grants: declared, granted, and matching what a grant matches.\<close>

lemma allowed_scope:
  assumes wf: "wf_policy p" and a: "eval_allowed (evaluatePolicy lc p s r t oper)"
  shows "map_of (policy_permissions p) (permission_code_of r) \<noteq> None
    \<and> (\<exists>g. granted_scope p s (permission_code_of r) t g)
    \<and> (\<exists>scope. eval_scope (evaluatePolicy lc p s r t oper) = Some scope
         \<and> (\<forall>ctx. scopeMatches scope ctx \<longleftrightarrow>
              (\<exists>g. granted_scope p s (permission_code_of r) t g \<and> scopeMatches g ctx)))"
proof -
  define scopes where "scopes = policy_scopes p s (permission_code_of r) t"
  have scopes: "g \<in> set scopes \<longleftrightarrow> granted_scope p s (permission_code_of r) t g" for g
    using policy_scopes_iff [OF wf] by (simp add: scopes_def)
  from a obtain d where d: "map_of (policy_permissions p) (permission_code_of r) = Some d" "scopes \<noteq> []"
    "eval_scope (evaluatePolicy lc p s r t oper) = Some (normalizeCombinedScope lc (concat scopes))"
    by (auto simp: evaluatePolicy_def denied_def Let_def scopes_def split: option.splits if_splits)
  from d(2) scopes obtain g where "granted_scope p s (permission_code_of r) t g" by (metis list.set_intros(1) neq_Nil_conv)
  with d scopes show ?thesis by (auto simp: scopeMatches_combined scopeMatches_concat)
qed

lemma decide_Inr:
  assumes "decide opts env sj rq oper = (effs, Inr (d, sc))"
  shows "(\<exists>rec. recorded effs = [rec] \<and> env_recorder env rec \<and> rec_decisionId rec = decisionId d \<and>
      rec_allowed rec = decision_allowed d \<and> rec_reason rec = decision_reason d \<and>
      rec_policyVersion rec = decision_policyVersion d \<and> rec_operation rec = oper) \<and>
    (decision_allowed d \<longleftrightarrow> decision_reason d = Allowed) \<and>
    (decision_allowed d \<longrightarrow> (\<exists>t s r p. env_clock env = Some t \<and> evaluatedAt d = to_iso t \<and>
       validateSubjectContext sj = Some s \<and> validatePermissionRequest rq = Some r \<and>
       load_policy env = Inr (decision_policyVersion d, p) \<and>
       eval_allowed (evaluatePolicy (opt_localeCompare opts) p s r t (evaluationOperation oper)) \<and>
       sc = eval_scope (evaluatePolicy (opt_localeCompare opts) p s r t (evaluationOperation oper)))) \<and>
    (\<not> decision_allowed d \<longrightarrow> sc = None)"
proof (cases rule: decide_cases [of env sj rq oper opts])
  case (evaluated t s r v p effs0 st)
  let ?e = "evaluatePolicy (opt_localeCompare opts) p s r t (evaluationOperation oper)"
  from evaluated(7) assms obtain effs' where fin: "finalize env ?e r (Some s) oper st (to_iso t) = (effs', Inr (d, sc))"
    and effs: "effs = effs0 @ effs'" by (cases "finalize env ?e r (Some s) oper st (to_iso t)") auto
  have "eval_policyVersion ?e = v" using load_policy_version [OF evaluated(4)] by (simp add: eval_version)
  then show ?thesis
    using finalize_Inr [OF fin] eval_refused [of "opt_localeCompare opts" p s r t "evaluationOperation oper"]
      evaluated(1-4) effs evaluated(6) by (auto simp: eval_reason_allowed)
next
  case (refused reason r s evd)
  from refused assms have "finalize env (unavailable reason) r s oper Cache_not_used evd = (effs, Inr (d, sc))"
    by simp
  from finalize_Inr [OF this] refused(2) show ?thesis by (auto simp: unavailable_def)
qed

text \<open>
  Property C19. Fail closed, and on the record: a decision that is returned has been accepted by the recorder
  exactly once, with the same id, outcome, reason and version. It allows only if the clock, the
  subject, the request, the published version and its snapshot were all valid and the policy, at the
  clock's instant, grants the declared permission; the returned scope then matches exactly the contexts
  that a granted scope matches, and a check also needs its own context matched. A refusal returns no scope.
  Every failure on the way is a refusal or an error.
\<close>

theorem decision_is_recorded_and_justified:
  assumes "decide opts env sj rq oper = (effs, Inr (d, sc))"
  shows "(\<exists>rec. recorded effs = [rec] \<and> env_recorder env rec \<and> rec_decisionId rec = decisionId d \<and>
      rec_allowed rec = decision_allowed d \<and> rec_reason rec = decision_reason d \<and>
      rec_policyVersion rec = decision_policyVersion d \<and> rec_operation rec = oper) \<and>
    (decision_allowed d \<longleftrightarrow> decision_reason d = Allowed) \<and>
    (decision_allowed d \<longrightarrow> (\<exists>t s r p scope. env_clock env = Some t \<and> evaluatedAt d = to_iso t \<and>
       validateSubjectContext sj = Some s \<and> validatePermissionRequest rq = Some r \<and>
       load_policy env = Inr (decision_policyVersion d, p) \<and>
       map_of (policy_permissions p) (permission_code_of r) \<noteq> None \<and>
       (\<exists>g. granted_scope p s (permission_code_of r) t g) \<and>
       sc = Some scope \<and>
       (\<forall>ctx. scopeMatches scope ctx \<longleftrightarrow> (\<exists>g. granted_scope p s (permission_code_of r) t g \<and> scopeMatches g ctx)) \<and>
       (oper \<noteq> Resolve_data_scope \<longrightarrow> may_access p s r t))) \<and>
    (\<not> decision_allowed d \<longrightarrow> sc = None)"
proof -
  note dec = decide_Inr [OF assms]
  have "\<exists>t s r p scope. env_clock env = Some t \<and> evaluatedAt d = to_iso t \<and>
       validateSubjectContext sj = Some s \<and> validatePermissionRequest rq = Some r \<and>
       load_policy env = Inr (decision_policyVersion d, p) \<and>
       map_of (policy_permissions p) (permission_code_of r) \<noteq> None \<and>
       (\<exists>g. granted_scope p s (permission_code_of r) t g) \<and>
       sc = Some scope \<and>
       (\<forall>ctx. scopeMatches scope ctx \<longleftrightarrow> (\<exists>g. granted_scope p s (permission_code_of r) t g \<and> scopeMatches g ctx)) \<and>
       (oper \<noteq> Resolve_data_scope \<longrightarrow> may_access p s r t)" if "decision_allowed d"
  proof -
    from dec that obtain t s r p where h: "env_clock env = Some t" "evaluatedAt d = to_iso t"
      "validateSubjectContext sj = Some s" "validatePermissionRequest rq = Some r"
      "load_policy env = Inr (decision_policyVersion d, p)"
      "eval_allowed (evaluatePolicy (opt_localeCompare opts) p s r t (evaluationOperation oper))"
      "sc = eval_scope (evaluatePolicy (opt_localeCompare opts) p s r t (evaluationOperation oper))" by blast
    from load_policy_version [OF h(5)] have wf: "wf_policy p" ..
    have "oper \<noteq> Resolve_data_scope \<longrightarrow> may_access p s r t"
      using allowed_may_access [OF wf h(4)] h(6) by (auto simp: evaluationOperation_def)
    with allowed_scope [OF wf h(6)] h show ?thesis by auto
  qed
  with dec show ?thesis by blast
qed

text \<open>
  \<open>requireAllowed\<close> returns only decisions that allow, and a refusal is reported as
  \<open>AuthorizationDeniedError\<close> with the id of the recorded decision; the only other error is
  \<open>AuthorizationUnavailableError\<close>.
\<close>

theorem requireAllowed_returns_only_allowed_decisions:
  "case requireAllowed opts env sj rq of
     (effs, Inr d) \<Rightarrow> decision_allowed d \<and> (\<exists>rec. recorded effs = [rec] \<and> rec_allowed rec \<and> rec_decisionId rec = decisionId d)
   | (effs, Inl (AuthorizationDenied i)) \<Rightarrow> (\<exists>rec. recorded effs = [rec] \<and> \<not> rec_allowed rec \<and> rec_decisionId rec = i)
   | (effs, Inl AuthorizationUnavailable) \<Rightarrow> True
   | (effs, Inl (Authz_type_error m)) \<Rightarrow> False"
proof (cases "decide opts env sj rq Check_permission")
  case (Pair effs result)
  show ?thesis
  proof (cases result)
    case (Inl e)
    with Pair decide_Inl [of opts env sj rq Check_permission e] show ?thesis by (simp add: requireAllowed_def)
  next
    case (Inr dsc)
    then obtain d sc where "result = Inr (d, sc)" by (cases dsc) auto
    with Pair decide_Inr [of opts env sj rq Check_permission effs d sc] show ?thesis
      by (auto simp: requireAllowed_def)
  qed
qed

lemma batch_loop_Inr:
  "batch_loop opts s ers = (effs, Inr ds) \<Longrightarrow> length ds = length ers \<and>
     map rec_decisionId (recorded effs) = map decisionId ds \<and>
     (\<forall>i < length ers. \<exists>effs' sc. decide opts (fst (ers ! i)) s (snd (ers ! i)) Batch_check = (effs', Inr (ds ! i, sc)))"
proof (induction ers arbitrary: effs ds)
  case (Cons er rest)
  obtain env r where er: "er = (env, r)" by (cases er)
  from Cons.prems obtain effs1 d sc effs2 ds' where
    first: "decide opts env s r Batch_check = (effs1, Inr (d, sc))" and
    loop: "batch_loop opts s rest = (effs2, Inr ds')" and eq: "effs = effs1 @ effs2" "ds = d # ds'"
    by (auto simp: er result_simps split: prod.splits sum.splits)
  from decide_Inr [OF first] have "map rec_decisionId (recorded effs1) = [decisionId d]" by auto
  with Cons.IH [OF loop] first show ?case by (auto simp: eq er nth_Cons split: nat.splits)
qed simp

lemma batch_loop_Inl: "snd (batch_loop opts s ers) = Inl e \<Longrightarrow> e = AuthorizationUnavailable"
proof (induction ers)
  case (Cons er rest)
  obtain env r where er: "er = (env, r)" by (cases er)
  show ?case
  proof (cases "decide opts env s r Batch_check")
    case (Pair effs result)
    with Cons decide_Inl [of opts env s r Batch_check e] show ?thesis
      by (cases result) (auto simp: er result_simps split: prod.splits)
  qed
qed simp

text \<open>
  A batch of at most 256 requests is answered with one decision for each request, in order, each
  being the decision of its own call, recorded in that order; a larger batch is refused before anything
  is decided; a failure in the middle is \<open>AuthorizationUnavailableError\<close>, never a denial.
\<close>

theorem batch_is_answered_request_by_request:
  "case batchCheck opts envs s (JArr rs) of
     (effs, Inr ds) \<Rightarrow> length rs \<le> 256 \<and> length ds = length rs \<and>
       map rec_decisionId (recorded effs) = map decisionId ds \<and>
       list_all (\<lambda>i. \<exists>effs' sc. decide opts (envs i) s (rs ! i) Batch_check = (effs', Inr (ds ! i, sc))) [0..<length rs]
   | (effs, Inl e) \<Rightarrow>
       (if 256 < length rs then effs = [] \<and> e = Authz_type_error ''AUTHORIZATION_BATCH_TOO_LARGE''
        else e = AuthorizationUnavailable)"
proof (cases "256 < length rs")
  case False
  let ?ers = "zip (map envs [0..<length rs]) rs"
  show ?thesis
  proof (cases "batch_loop opts s ?ers")
    case (Pair effs result)
    with False batch_loop_Inr [of opts s ?ers effs] batch_loop_Inl [of opts s ?ers] show ?thesis
      by (cases result) (auto simp: batchCheck_def list_all_iff)
  qed
qed (simp add: batchCheck_def)

section \<open>Cache keys identify the question\<close>

lemma json_request_decodable: "decodable json_request"
proof
  fix x y r r' assume "json_request x @ r = json_request y @ r'"
  then show "x = y \<and> r = r'"
    using decodableD [OF json_string_decodable] decodableD [OF json_pairs_decodable]
    by (auto simp: json_request_def json_object_Cons json_member_append split: option.splits)
qed

lemma json_subject_decodable: "decodable json_subject"
proof
  fix x y r r' assume eq: "json_subject x @ r = json_subject y @ r'"
  have keys: "json_string ''selectedAssignmentId'' @ a = json_string ''workforcePersonId'' @ b \<longleftrightarrow> False" for a b
    using decodableD [OF json_string_decodable, of "''selectedAssignmentId''" a "''workforcePersonId''" b] by simp
  from eq show "x = y \<and> r = r'"
    using decodableD [OF json_string_decodable] decodableD [OF json_strings_decodable]
    by (auto simp: json_subject_def json_object_Cons json_member_append split: option.splits)
qed

lemma operation_text_inj: "operation_text x = operation_text y \<longleftrightarrow> x = y"
  by (cases x; cases y) simp_all

text \<open>
  The text that is hashed into a cache key determines the operation, the policy version, the
  request and the subject: two different questions never share a key text, whatever characters their
  strings contain.
\<close>

theorem cache_key_text_is_injective:
  "cacheKey id oper v s r = cacheKey id oper' v' s' r' \<longleftrightarrow> oper = oper' \<and> v = v' \<and> s = s' \<and> r = r'"
  using decodableD [OF json_string_decodable] decodableD [OF json_request_decodable]
    decodableD [OF json_subject_decodable]
  by (auto simp: cacheKey_def json_object_Cons json_member_append operation_text_inj
      decodable_inj [OF json_subject_decodable])

section \<open>A concrete decision\<close>

definition witness_subject_value :: jval where
  "witness_subject_value = JObj [(''activeAssignmentIds'', JArr [JStr witness_uuid]),
     (''selectedAssignmentId'', JStr witness_uuid), (''workforcePersonId'', JStr witness_uuid)]"

definition witness_subject_context :: subject_context where
  "witness_subject_context = \<lparr>activeAssignmentIds = [witness_uuid], selectedAssignmentId = Some witness_uuid,
     workforcePersonId = witness_uuid\<rparr>"

definition witness_request_value :: jval where
  "witness_request_value = JObj [(''action'', JStr ''read''), (''resource'', JStr ''a.b''),
     (''resourceContext'', JObj [(''c.d'', JStr ''x'')])]"

definition witness_permission_request :: permission_request where
  "witness_permission_request = \<lparr>req_action = ''read'', req_resource = ''a.b'', resourceContext = Some [(''c.d'', ''x'')]\<rparr>"

definition witness_trace_id :: string where
  "witness_trace_id = ''1234567890abcdef1234567890abcdef''"

definition witness_engine_env :: engine_env where
  "witness_engine_env = \<lparr>env_clock = Some 1769904000000, env_currentVersion = Inr (JStr ''v1''),
     env_load = (\<lambda>_. Inr witness_snapshot),
     env_cache = Some \<lparr>cache_answer = (\<lambda>_. Some None), cache_accepts = (\<lambda>_ _ _ _. True)\<rparr>,
     env_decisionId = Some (JStr witness_uuid), env_traceId = Some witness_trace_id, env_recorder = (\<lambda>_. True),
     env_observed = False, env_elapsed = 0\<rparr>"

definition witness_engine_options :: engine_options where
  "witness_engine_options = \<lparr>cacheTtlSeconds = 60, opt_localeCompare = (\<le>), opt_sha256 = id\<rparr>"

definition witness_evaluation :: evaluation where
  "witness_evaluation = \<lparr>eval_allowed = True, eval_policyVersion = ''v1'', eval_reason = Allowed,
     eval_scope = Some [Match_constraints [\<lparr>dimension = ''c.d'', scope_values = [''x'', ''y'']\<rparr>]]\<rparr>"

lemma witness_uuid_matches: "rx_test UUID_I witness_uuid" "to_lower witness_uuid = witness_uuid"
  by code_simp+

lemma witness_subject_valid: "validateSubjectContext witness_subject_value = Some witness_subject_context"
  by (simp add: validateSubjectContext_def witness_subject_value_def witness_subject_context_def
      witness_uuid_matches map_filter_simps)

lemma witness_request_valid: "validatePermissionRequest witness_request_value = Some witness_permission_request"
  by code_simp

lemma witness_policy_loaded: "load_policy witness_engine_env = Inr (''v1'', witness_validated)"
proof -
  have "policyVersion (JStr ''v1'') = Inr ''v1''" by code_simp
  then show ?thesis by (simp add: load_policy_def witness_engine_env_def as_rejection_def witness_snapshot_valid)
qed

lemma witness_evaluates:
  "evaluatePolicy (opt_localeCompare witness_engine_options) witness_validated witness_subject_context
     witness_permission_request 1769904000000 Check_permission = witness_evaluation"
  by code_simp

lemma witness_decision:
  "decide witness_engine_options witness_engine_env witness_subject_value witness_request_value Check_permission =
     (let key = cacheKey id Check_permission ''v1'' witness_subject_context witness_permission_request;
          rec = \<lparr>rec_action = ''read'', rec_allowed = True, rec_decisionId = witness_uuid,
            rec_evaluatedAt = ''2026-02-01T00:00:00.000Z'', rec_operation = Check_permission,
            rec_permissionCode = ''a.b:read'', rec_policyVersion = ''v1'', rec_reason = Allowed,
            rec_resource = ''a.b'', rec_selectedAssignmentId = Some witness_uuid,
            rec_traceId = witness_trace_id, rec_workforcePersonId = Some witness_uuid\<rparr>
      in ([Cache_get key, Cache_set key witness_evaluation 60 ''v1'', Decision_recorded rec],
          Inr (\<lparr>decision_allowed = True, decisionId = witness_uuid, evaluatedAt = ''2026-02-01T00:00:00.000Z'',
                decision_policyVersion = ''v1'', decision_reason = Allowed\<rparr>, eval_scope witness_evaluation)))"
proof -
  have "to_iso 1769904000000 = ''2026-02-01T00:00:00.000Z''" by code_simp
  moreover have "is_trace_id witness_trace_id" by code_simp
  moreover have "cache_ttl witness_validated 1769904000000 60 = 60" by code_simp
  moreover have "env_clock witness_engine_env = Some 1769904000000"
    "env_cache witness_engine_env = Some \<lparr>cache_answer = (\<lambda>_. Some None), cache_accepts = (\<lambda>_ _ _ _. True)\<rparr>"
    "env_decisionId witness_engine_env = Some (JStr witness_uuid)" "env_traceId witness_engine_env = Some witness_trace_id"
    "env_recorder witness_engine_env = (\<lambda>_. True)" "\<not> env_observed witness_engine_env"
    by (simp_all add: witness_engine_env_def)
  moreover have "opt_sha256 witness_engine_options = id" "cacheTtlSeconds witness_engine_options = 60"
    by (simp_all add: witness_engine_options_def)
  ultimately show ?thesis
    by (simp add: decide_def Let_def witness_subject_valid witness_request_valid witness_policy_loaded
        evaluationOperation_def witness_evaluates use_cache_def finalize_def witness_uuid_matches)
      (simp add: witness_evaluation_def witness_permission_request_def witness_subject_context_def permission_code_of_def)
qed

lemma access_is_granted_exactly_by_the_policy_witness:
  "may_access witness_validated witness_subject_context witness_permission_request 1769904000000"
  using access_is_granted_exactly_by_the_policy [OF witness_snapshot_valid witness_request_valid,
      of "opt_localeCompare witness_engine_options" witness_subject_context 1769904000000]
  by (simp add: witness_evaluates) (simp add: witness_evaluation_def)

lemma resolved_scope_agrees_with_check_witness:
  "eval_allowed (evaluatePolicy (\<le>) witness_validated witness_subject_context
     (witness_permission_request\<lparr>resourceContext := Some [(''c.d'', ''x'')]\<rparr>) 1769904000000 Check_permission) \<longleftrightarrow>
   (\<exists>sc. eval_scope (evaluatePolicy (\<le>) witness_validated witness_subject_context
     witness_permission_request 1769904000000 Resolve_data_scope) = Some sc \<and> scopeMatches sc [(''c.d'', ''x'')])"
proof -
  have "map_of (policy_permissions witness_validated) (permission_code_of witness_permission_request) =
      Some \<lparr>perm_action = ''read'', perm_code = ''a.b:read'', perm_resource = ''a.b'', scopeDimensions = [''c.d'']\<rparr>"
    by code_simp
  moreover have "resourceContextIsComplete \<lparr>perm_action = ''read'', perm_code = ''a.b:read'', perm_resource = ''a.b'',
      scopeDimensions = [''c.d'']\<rparr> [(''c.d'', ''x'')]"
    by code_simp
  ultimately show ?thesis using resolved_scope_agrees_with_check by blast
qed

lemma cached_evaluation_stays_true_witness:
  "1 \<le> (60 :: int) \<and> 60 \<le> cacheTtlSeconds witness_engine_options"
  using cached_evaluation_stays_true [of "cacheKey id Check_permission ''v1'' witness_subject_context witness_permission_request"
      witness_evaluation 60 "''v1''" witness_engine_options witness_engine_env witness_subject_value
      witness_request_value Check_permission]
  by (simp add: witness_decision Let_def)

lemma decision_is_recorded_and_justified_witness:
  "\<exists>rec. recorded (fst (decide witness_engine_options witness_engine_env witness_subject_value witness_request_value
      Check_permission)) = [rec] \<and> rec_decisionId rec = witness_uuid \<and> rec_allowed rec"
  using decision_is_recorded_and_justified
    [of witness_engine_options witness_engine_env witness_subject_value witness_request_value Check_permission]
  by (simp add: witness_decision Let_def)

end
