(* ===== verification/Authz_Persistence.thy ===== *)
theory Authz_Persistence
  imports Authz_Engine
begin

text \<open>
  \<open>packages/platform-modules/authorization/src/postgres-persistence.ts\<close>: canonical policies, and the
  publisher, the store and the decision recorder over the tables of the schema
  \<open>authorization_core\<close>.

  The tables are maps; a transaction is a function of the database that returns the new database or an
  error, and an error leaves the database as it was (\<open>withTransaction\<close>). Each statement of a
  transaction may fail: \<open>fault k\<close> is the SQLSTATE with which the \<open>k\<close>-th statement fails, if
  it does. \<open>pg_jsonb v\<close> is what a \<open>jsonb\<close> column returns for a stored value \<open>v\<close> (it may
  reorder members), \<open>pg_sha256\<close> the hexadecimal digest and \<open>pg_number\<close> the text of a number.
\<close>

datatype persistence_code =
    Authorization_decision_conflict
  | Authorization_persistence_unavailable
  | Authorization_policy_conflict
  | Authorization_policy_invalid

section \<open>Canonical values\<close>

fun canonicalValue :: "jval \<Rightarrow> jval" where
  "canonicalValue (JArr xs) = JArr (map canonicalValue xs)"
| "canonicalValue (JObj ps) = JObj (sort_le (\<lambda>l r. fst l \<le> fst r) (map (\<lambda>(k, v). (k, canonicalValue v)) ps))"
| "canonicalValue v = v"

definition canonicalJson :: "(jnum \<Rightarrow> string) \<Rightarrow> jval \<Rightarrow> string" where
  "canonicalJson nt v = json_value nt (canonicalValue v)"

definition constraint_value :: "scope_constraint \<Rightarrow> jval" where
  "constraint_value c = JObj [(''dimension'', JStr (dimension c)), (''values'', JArr (map JStr (scope_values c)))]"

fun term_value :: "scope_term \<Rightarrow> jval" where
  "term_value All_records = JObj [(''kind'', JStr ''all'')]"
| "term_value (Match_constraints cs) = JObj [(''constraints'', JArr (map constraint_value cs)), (''kind'', JStr ''match'')]"

definition scope_value :: "data_scope \<Rightarrow> jval" where
  "scope_value sc = JObj [(''terms'', JArr (map term_value sc)), (''version'', JNum (Num 1))]"

definition permission_value :: "permission_declaration \<Rightarrow> jval" where
  "permission_value d = JObj [(''action'', JStr (perm_action d)), (''code'', JStr (perm_code d)),
     (''resource'', JStr (perm_resource d)), (''scopeDimensions'', JArr (map JStr (scopeDimensions d)))]"

definition binding_value :: "role_binding \<Rightarrow> jval" where
  "binding_value b = JObj [(''permissionCode'', JStr (permissionCode b)), (''scope'', scope_value (binding_scope b))]"

definition role_value :: "role_definition \<Rightarrow> jval" where
  "role_value r = JObj [(''roleId'', JStr (role_roleId r)), (''permissions'', JArr (map binding_value (role_permissions r)))]"

fun subject_value :: "grant_subject \<Rightarrow> jval" where
  "subject_value (Workforce_person_subject i) = JObj [(''kind'', JStr ''workforce_person''), (''workforcePersonId'', JStr i)]"
| "subject_value (Assignment_subject i) = JObj [(''assignmentId'', JStr i), (''kind'', JStr ''assignment'')]"

definition grant_value :: "validated_grant \<Rightarrow> jval" where
  "grant_value g = JObj ([(''grantId'', JStr (grantId g)), (''roleId'', JStr (grant_roleId g)),
     (''subject'', subject_value (grant_subject g)), (''validFrom'', JStr (to_iso (validFrom g)))] @
     (case validTo g of None \<Rightarrow> [] | Some t \<Rightarrow> [(''validTo'', JStr (to_iso t))]))"

fun canonical_term :: "scope_term \<Rightarrow> scope_term" where
  "canonical_term All_records = All_records"
| "canonical_term (Match_constraints cs) = Match_constraints (sort_le by_dimension cs)"

definition canonical_scope :: "(jnum \<Rightarrow> string) \<Rightarrow> data_scope \<Rightarrow> data_scope" where
  "canonical_scope nt sc = sort_le (\<lambda>l r. canonicalJson nt (term_value l) \<le> canonicalJson nt (term_value r))
     (map canonical_term sc)"

definition canonical_role :: "(jnum \<Rightarrow> string) \<Rightarrow> role_definition \<Rightarrow> role_definition" where
  "canonical_role nt r = r\<lparr>role_permissions := sort_le (\<lambda>l r. permissionCode l \<le> permissionCode r)
     (map (\<lambda>b. b\<lparr>binding_scope := canonical_scope nt (binding_scope b)\<rparr>) (role_permissions r))\<rparr>"

definition canonicalizeAuthorizationPolicy :: "(jnum \<Rightarrow> string) \<Rightarrow> jval \<Rightarrow> persistence_code + jval" where
  "canonicalizeAuthorizationPolicy nt snapshot =
     (case bindR (policyVersion (get snapshot ''version'')) (validatePolicySnapshot snapshot) of
        Inl _ \<Rightarrow> Inl Authorization_policy_invalid
      | Inr p \<Rightarrow>
          if policy_permissions p = [] \<or> policy_roles p = [] \<or> policy_grants p = []
          then Inl Authorization_policy_invalid
          else (let permissions = sort_le (\<lambda>l r. perm_code l \<le> perm_code r) (map snd (policy_permissions p));
                    roles = sort_le (\<lambda>l r. role_roleId l \<le> role_roleId r)
                      (map (canonical_role nt) (map snd (policy_roles p)));
                    grants = sort_le (\<lambda>l r. grantId l \<le> grantId r) (policy_grants p)
                in Inr (JObj [(''grants'', JArr (map grant_value grants)),
                      (''permissions'', JArr (map permission_value permissions)),
                      (''roles'', JArr (map role_value roles)), (''version'', JStr (policy_version p))])))"

section \<open>Tables\<close>

record pg_runtime =
  pg_number :: "jnum \<Rightarrow> string"
  pg_sha256 :: "string \<Rightarrow> string"
  pg_jsonb :: "jval \<Rightarrow> jval"

record policy_row =
  pv_contract_version :: string
  pv_content_digest :: string
  pv_snapshot :: jval

record publication_row =
  pp_fingerprint :: string
  pp_policy_version :: string
  pp_result :: jval

record current_row =
  cp_version :: string
  cp_content_digest :: string
  cp_publication_id :: string

record authorization_core =
  policy_versions :: "string \<Rightarrow> policy_row option"
  policy_publications :: "string \<Rightarrow> publication_row option"
  current_policy :: "current_row option"
  decision_records :: "string \<Rightarrow> string option"

definition pg_digest :: "pg_runtime \<Rightarrow> jval \<Rightarrow> string" where
  "pg_digest rt v = pg_sha256 rt (canonicalJson (pg_number rt) v)"

definition DIGEST :: rx where
  "DIGEST = rx_times 64 (Cls cls_hex)"

definition SUPPORTED_CONTRACT_VERSION :: string where
  "SUPPORTED_CONTRACT_VERSION = ''authorization-policy.v1''"

definition pg_uuid :: "jval \<Rightarrow> persistence_code \<Rightarrow> persistence_code + string" where
  "pg_uuid v err = (case v of JStr s \<Rightarrow> if rx_test UUID_I s then Inr (to_lower s) else Inl err | _ \<Rightarrow> Inl err)"

definition pg_iso :: "jval \<Rightarrow> persistence_code + string" where
  "pg_iso v = (case v of
     JStr s \<Rightarrow> if rx_test TIMESTAMP s \<and> iso_instant s \<noteq> None then Inr s else Inl Authorization_policy_invalid
   | _ \<Rightarrow> Inl Authorization_policy_invalid)"

section \<open>Publications\<close>

record publication =
  contentDigest :: string
  previousVersion :: "string option"
  publicationId :: string
  publishedAt :: string
  replayed :: bool
  published_version :: string

record publish_command =
  cmd_contractVersion :: jval
  cmd_expectedPreviousVersion :: jval
  cmd_publicationId :: jval
  cmd_publishedAt :: jval
  cmd_snapshot :: jval

definition publicationResult :: "jval \<Rightarrow> bool \<Rightarrow> persistence_code + publication" where
  "publicationResult v again =
     (case (get v ''contentDigest'', get v ''publicationId'', get v ''version'', get v ''publishedAt'', get v ''previousVersion'') of
        (JStr cd, JStr pid, JStr ver, JStr pat, prev) \<Rightarrow>
          if rx_test DIGEST cd \<and> rx_test UUID_I pid \<and> (prev = JUndef \<or> str_of prev \<noteq> None)
          then Inr \<lparr>contentDigest = cd, previousVersion = str_of prev, publicationId = to_lower pid,
                 publishedAt = pat, replayed = again, published_version = ver\<rparr>
          else Inl Authorization_persistence_unavailable
      | _ \<Rightarrow> Inl Authorization_persistence_unavailable)"

definition result_value :: "publication \<Rightarrow> jval" where
  "result_value r = JObj ([(''contentDigest'', JStr (contentDigest r))] @
     (case previousVersion r of None \<Rightarrow> [] | Some v \<Rightarrow> [(''previousVersion'', JStr v)]) @
     [(''publicationId'', JStr (publicationId r)), (''publishedAt'', JStr (publishedAt r)),
      (''version'', JStr (published_version r))])"

datatype tx_error = Persistence persistence_code | Sql_state string

definition sql :: "(nat \<Rightarrow> string option) \<Rightarrow> nat \<Rightarrow> tx_error + unit" where
  "sql fault k = (case fault k of None \<Rightarrow> Inr () | Some code \<Rightarrow> Inl (Sql_state code))"

fun tx_code :: "tx_error \<Rightarrow> persistence_code" where
  "tx_code (Persistence c) = c"
| "tx_code (Sql_state code) = (if code \<in> {''23505'', ''23514'', ''55000''} then Authorization_policy_conflict
     else Authorization_persistence_unavailable)"

record valid_publish =
  vp_publicationId :: string
  vp_publishedAt :: string
  vp_expected :: jval
  vp_snapshot :: jval
  vp_version :: string

definition validate_publish :: "pg_runtime \<Rightarrow> publish_command \<Rightarrow> persistence_code + valid_publish" where
  "validate_publish rt c =
     bindR (pg_uuid (cmd_publicationId c) Authorization_policy_invalid) (\<lambda>pid.
     bindR (pg_iso (cmd_publishedAt c)) (\<lambda>pat.
     bindR (check (cmd_contractVersion c = JStr SUPPORTED_CONTRACT_VERSION) Authorization_policy_invalid) (\<lambda>_.
     bindR (if cmd_expectedPreviousVersion c = JUndef \<or> cmd_expectedPreviousVersion c = JNull
            then Inr (cmd_expectedPreviousVersion c)
            else case policyVersion (cmd_expectedPreviousVersion c) of
                Inl _ \<Rightarrow> Inl Authorization_policy_invalid | Inr v \<Rightarrow> Inr (JStr v)) (\<lambda>expected.
     bindR (canonicalizeAuthorizationPolicy (pg_number rt) (cmd_snapshot c)) (\<lambda>snapshot.
       Inr \<lparr>vp_publicationId = pid, vp_publishedAt = pat, vp_expected = expected, vp_snapshot = snapshot,
            vp_version = the (str_of (get snapshot ''version''))\<rparr>)))))"

definition publish_fingerprint :: "pg_runtime \<Rightarrow> valid_publish \<Rightarrow> string" where
  "publish_fingerprint rt vp = pg_digest rt (JObj
     ([(''contentDigest'', JStr (pg_digest rt (vp_snapshot vp))),
       (''contractVersion'', JStr SUPPORTED_CONTRACT_VERSION), (''publishedAt'', JStr (vp_publishedAt vp)),
       (''version'', JStr (vp_version vp))] @
      (if vp_expected vp = JUndef then [] else [(''expectedPreviousVersion'', vp_expected vp)])))"

definition same_version :: "pg_runtime \<Rightarrow> valid_publish \<Rightarrow> policy_row \<Rightarrow> bool" where
  "same_version rt vp row \<longleftrightarrow> pv_contract_version row = SUPPORTED_CONTRACT_VERSION \<and>
     pv_content_digest row = pg_digest rt (vp_snapshot vp) \<and>
     canonicalJson (pg_number rt) (pv_snapshot row) = canonicalJson (pg_number rt) (vp_snapshot vp)"

definition expected_holds :: "jval \<Rightarrow> current_row option \<Rightarrow> bool" where
  "expected_holds expected current = (case expected of
     JNull \<Rightarrow> current = None
   | JStr v \<Rightarrow> map_option cp_version current = Some v
   | _ \<Rightarrow> True)"

definition publish_transaction ::
    "pg_runtime \<Rightarrow> (nat \<Rightarrow> string option) \<Rightarrow> valid_publish \<Rightarrow> authorization_core
     \<Rightarrow> tx_error + publication \<times> authorization_core" where
  "publish_transaction rt fault vp db =
     (let fp = publish_fingerprint rt vp; cd = pg_digest rt (vp_snapshot vp); ver = vp_version vp in
      bindR (sql fault 0) (\<lambda>_. bindR (sql fault 1) (\<lambda>_.
      case policy_publications db (vp_publicationId vp) of
        Some prior \<Rightarrow>
          if pp_fingerprint prior \<noteq> fp then Inl (Persistence Authorization_policy_conflict)
          else (case publicationResult (pp_result prior) True of
              Inl c \<Rightarrow> Inl (Persistence c) | Inr r \<Rightarrow> Inr (r, db))
      | None \<Rightarrow>
          bindR (sql fault 2) (\<lambda>_.
          bindR (check (opt_all (same_version rt vp) (policy_versions db ver)) (Persistence Authorization_policy_conflict)) (\<lambda>_.
          bindR (if policy_versions db ver \<noteq> None then Inr db
                 else bindR (sql fault 3) (\<lambda>_. Inr (db\<lparr>policy_versions := (policy_versions db)(ver \<mapsto>
                   \<lparr>pv_contract_version = SUPPORTED_CONTRACT_VERSION, pv_content_digest = cd,
                    pv_snapshot = pg_jsonb rt (vp_snapshot vp)\<rparr>)\<rparr>))) (\<lambda>db1.
          bindR (sql fault 4) (\<lambda>_.
          bindR (check (expected_holds (vp_expected vp) (current_policy db1)) (Persistence Authorization_policy_conflict)) (\<lambda>_.
          (let result = \<lparr>contentDigest = cd, previousVersion = map_option cp_version (current_policy db1),
                 publicationId = vp_publicationId vp, publishedAt = vp_publishedAt vp, replayed = False,
                 published_version = ver\<rparr>
           in bindR (sql fault 5) (\<lambda>_. bindR (sql fault 6) (\<lambda>_. bindR (sql fault 7) (\<lambda>_.
             (let db2 = db1\<lparr>policy_publications := (policy_publications db1)(vp_publicationId vp \<mapsto>
                    \<lparr>pp_fingerprint = fp, pp_policy_version = ver, pp_result = pg_jsonb rt (result_value result)\<rparr>),
                    current_policy := Some \<lparr>cp_version = ver, cp_content_digest = cd,
                      cp_publication_id = vp_publicationId vp\<rparr>\<rparr>
              in case policy_versions db2 ver of
                   None \<Rightarrow> Inl (Persistence Authorization_persistence_unavailable)
                 | Some row \<Rightarrow>
                     if pv_content_digest row \<noteq> cd then Inl (Persistence Authorization_persistence_unavailable)
                     else (case canonicalizeAuthorizationPolicy (pg_number rt) (pv_snapshot row) of
                         Inl c \<Rightarrow> Inl (Persistence c)
                       | Inr again \<Rightarrow>
                           if pg_digest rt again \<noteq> cd then Inl (Persistence Authorization_persistence_unavailable)
                           else Inr (result, db2)))))))))))))))"

text \<open>Statement 8 is the commit, whose failure \<open>withTransaction\<close> reports.\<close>

definition pg_publish ::
    "pg_runtime \<Rightarrow> (nat \<Rightarrow> string option) \<Rightarrow> publish_command \<Rightarrow> authorization_core
     \<Rightarrow> (persistence_code + publication) \<times> authorization_core" where
  "pg_publish rt fault c db = (case validate_publish rt c of
     Inl e \<Rightarrow> (Inl e, db)
   | Inr vp \<Rightarrow> (case publish_transaction rt fault vp db of
       Inl e \<Rightarrow> (Inl (tx_code e), db)
     | Inr (r, db') \<Rightarrow> if fault 8 \<noteq> None then (Inl Authorization_persistence_unavailable, db) else (Inr r, db')))"

section \<open>The store\<close>

text \<open>\<open>query_ok\<close>: the query of the call did not fail.\<close>

definition pg_currentVersion :: "bool \<Rightarrow> authorization_core \<Rightarrow> persistence_code + string" where
  "pg_currentVersion query_ok db = (if \<not> query_ok then Inl Authorization_persistence_unavailable
   else case current_policy db of
     None \<Rightarrow> Inl Authorization_persistence_unavailable
   | Some c \<Rightarrow> (case (policy_versions db (cp_version c), policy_publications db (cp_publication_id c)) of
       (Some v, Some p) \<Rightarrow>
         if pv_content_digest v = cp_content_digest c \<and> pp_policy_version p = cp_version c \<and>
            pv_contract_version v = SUPPORTED_CONTRACT_VERSION \<and> rx_test DIGEST (cp_content_digest c)
         then (case policyVersion (JStr (cp_version c)) of
             Inl _ \<Rightarrow> Inl Authorization_persistence_unavailable | Inr ver \<Rightarrow> Inr ver)
         else Inl Authorization_persistence_unavailable
     | _ \<Rightarrow> Inl Authorization_persistence_unavailable))"

text \<open>\<open>ids\<close> are the publication ids of the table, over which the query's \<open>exists\<close> ranges.\<close>

definition pg_load :: "pg_runtime \<Rightarrow> bool \<Rightarrow> string list \<Rightarrow> authorization_core \<Rightarrow> jval \<Rightarrow> persistence_code + jval" where
  "pg_load rt query_ok ids db versionInput = (case policyVersion versionInput of
     Inl _ \<Rightarrow> Inl Authorization_persistence_unavailable
   | Inr ver \<Rightarrow> if \<not> query_ok then Inl Authorization_persistence_unavailable else (case policy_versions db ver of
       None \<Rightarrow> Inl Authorization_persistence_unavailable
     | Some row \<Rightarrow>
         if \<not> list_ex (\<lambda>i. map_option pp_policy_version (policy_publications db i) = Some ver) ids \<or>
            pv_contract_version row \<noteq> SUPPORTED_CONTRACT_VERSION \<or> \<not> rx_test DIGEST (pv_content_digest row) \<or>
            \<not> is_record (pv_snapshot row)
         then Inl Authorization_persistence_unavailable
         else (case canonicalizeAuthorizationPolicy (pg_number rt) (pv_snapshot row) of
             Inl _ \<Rightarrow> Inl Authorization_persistence_unavailable
           | Inr normalized \<Rightarrow>
               if pg_digest rt normalized \<noteq> pv_content_digest row then Inl Authorization_persistence_unavailable
               else Inr normalized)))"

section \<open>The decision recorder\<close>

definition record_value :: "decision_record \<Rightarrow> jval" where
  "record_value r = JObj ([(''action'', JStr (rec_action r)), (''allowed'', JBool (rec_allowed r)),
     (''decisionId'', JStr (rec_decisionId r)), (''evaluatedAt'', JStr (rec_evaluatedAt r)),
     (''operation'', JStr (operation_text (rec_operation r))), (''permissionCode'', JStr (rec_permissionCode r)),
     (''policyVersion'', JStr (rec_policyVersion r)), (''reason'', JStr (reason_text (rec_reason r))),
     (''resource'', JStr (rec_resource r))] @
     (case rec_selectedAssignmentId r of None \<Rightarrow> [] | Some i \<Rightarrow> [(''selectedAssignmentId'', JStr i)]) @
     [(''traceId'', JStr (rec_traceId r))] @
     (case rec_workforcePersonId r of None \<Rightarrow> [] | Some i \<Rightarrow> [(''workforcePersonId'', JStr i)]))"

definition optional_uuid :: "string option \<Rightarrow> persistence_code + string option" where
  "optional_uuid x = (case x of None \<Rightarrow> Inr None
     | Some i \<Rightarrow> bindR (pg_uuid (JStr i) Authorization_decision_conflict) (\<lambda>i. Inr (Some i)))"

definition record_shape :: "decision_record \<Rightarrow> bool" where
  "record_shape r \<longleftrightarrow> rx_test (rx_times 32 (Cls cls_hex)) (rec_traceId r) \<and>
     rx_test TIMESTAMP (rec_evaluatedAt r) \<and> iso_instant (rec_evaluatedAt r) \<noteq> None \<and>
     rx_test IDENTIFIER (rec_resource r) \<and> length (rec_resource r) \<le> 128 \<and>
     rx_test ACTION (rec_action r) \<and> length (rec_action r) \<le> 64 \<and>
     rec_permissionCode r = rec_resource r @ '':'' @ rec_action r \<and> length (rec_permissionCode r) \<le> 193 \<and>
     (rec_allowed r \<longleftrightarrow> rec_reason r = Allowed)"

definition pg_record ::
    "pg_runtime \<Rightarrow> (nat \<Rightarrow> bool) \<Rightarrow> string list \<Rightarrow> decision_record \<Rightarrow> authorization_core
     \<Rightarrow> (persistence_code + unit) \<times> authorization_core" where
  "pg_record rt query_ok ids r db = (let conflict = (Inl Authorization_decision_conflict, db) in
     case pg_uuid (JStr (rec_decisionId r)) Authorization_decision_conflict of
       Inl e \<Rightarrow> (Inl e, db)
     | Inr did \<Rightarrow>
         if \<not> record_shape r \<or> policyVersion (JStr (rec_policyVersion r)) = invalid_policy then conflict
         else (case (optional_uuid (rec_selectedAssignmentId r), optional_uuid (rec_workforcePersonId r)) of
             (Inr sel, Inr person) \<Rightarrow>
               (let normalized = r\<lparr>rec_decisionId := did, rec_selectedAssignmentId := sel, rec_workforcePersonId := person\<rparr>;
                    d = pg_digest rt (record_value normalized);
                    unavailableReason = (rec_reason r \<in> {Policy_unavailable, Policy_invalid, Invalid_context})
                in case (if rec_policyVersion r = UNAVAILABLE_VERSION
                         then (if rec_allowed r \<or> \<not> unavailableReason then Inl Authorization_decision_conflict else Inr JNull)
                         else pg_load rt (query_ok 0) ids db (JStr (rec_policyVersion r))) of
                     Inl e \<Rightarrow> (Inl e, db)
                   | Inr _ \<Rightarrow>
                       if \<not> query_ok 1 then (Inl Authorization_persistence_unavailable, db)
                       else (case decision_records db did of
                           None \<Rightarrow> (Inr (), db\<lparr>decision_records := (decision_records db)(did \<mapsto> d)\<rparr>)
                         | Some existing \<Rightarrow>
                             if \<not> query_ok 2 then (Inl Authorization_persistence_unavailable, db)
                             else if existing \<noteq> d then conflict else (Inr (), db)))
           | _ \<Rightarrow> conflict))"

section \<open>Canonical policies validate to themselves\<close>

definition ok_constraint :: "string list \<Rightarrow> scope_constraint \<Rightarrow> bool" where
  "ok_constraint dims c \<longleftrightarrow> dimension c \<in> set dims \<and> rx_test IDENTIFIER (dimension c) \<and> length (dimension c) \<le> 128 \<and>
     scope_values c \<noteq> [] \<and> sorted (scope_values c) \<and> distinct (scope_values c) \<and> length (scope_values c) \<le> 256 \<and>
     (\<forall>v \<in> set (scope_values c). rx_test VALUE v \<and> length v \<le> 255)"

lemma uniqueStrings_value:
  assumes "sorted ys" "distinct ys" "length ys \<le> m" "\<forall>y \<in> set ys. rx_test p y \<and> length y \<le> n"
  shows "uniqueStrings (JArr (map JStr ys)) p m n = Inr ys"
proof -
  have "mapR (\<lambda>e. string_of e p n) (map JStr ys) = Inr (map (\<lambda>y. y) ys)"
    using assms(4) by (intro mapR_map) (simp add: string_of_def)
  with assms show ?thesis by (simp add: uniqueStrings_def sorted_sort_id)
qed

lemma normalize_constraint_ok: "normalize_constraint dims v = Inr c \<Longrightarrow> ok_constraint dims c"
  by (auto simp: normalize_constraint_def ok_constraint_def result_simps string_of_Inr dest: uniqueStrings_Inr)

lemma normalize_constraint_value: "ok_constraint dims c \<Longrightarrow> normalize_constraint dims (constraint_value c) = Inr c"
  by (simp add: ok_constraint_def normalize_constraint_def constraint_value_def exactKeys_def string_of_def
      uniqueStrings_value)

fun ok_term :: "string list \<Rightarrow> scope_term \<Rightarrow> bool" where
  "ok_term dims All_records \<longleftrightarrow> True"
| "ok_term dims (Match_constraints cs) \<longleftrightarrow>
     cs \<noteq> [] \<and> length cs \<le> 32 \<and> map dimension cs = dims \<and> (\<forall>c \<in> set cs. ok_constraint dims c)"

lemma normalize_term_ok:
  assumes "normalize_term dims v = Inr t" "sorted dims" "distinct dims"
  shows "ok_term dims t"
proof (cases "get v ''kind'' = JStr ''all''")
  case True
  with assms(1) show ?thesis by (auto simp: normalize_term_def result_simps)
next
  case False
  with assms(1) obtain es us where es: "length es \<le> 32" "mapR (normalize_constraint dims) es = Inr us"
    and t: "t = Match_constraints (sort_le by_dimension us)"
    by (auto simp: normalize_term_def result_simps Let_def split: jval.splits)
  have "\<forall>c \<in> set us. ok_constraint dims c" using mapR_set [OF es(2)] normalize_constraint_ok by blast
  moreover have "wf_match dims (sort_le by_dimension us)" using normalize_term_Inr [OF assms] t by simp
  ultimately show ?thesis using es mapR_length [OF es(2)] t by (auto simp: wf_match_def)
qed

lemma by_dimension_sorted: "sorted (map dimension cs) \<Longrightarrow> sort_le by_dimension cs = cs"
  using sort_le_by [of dimension cs] by (simp add: by_dimension_def [abs_def])

lemma normalize_term_value:
  assumes "ok_term dims t" "sorted dims" "distinct dims"
  shows "normalize_term dims (term_value t) = Inr t"
proof (cases t)
  case (Match_constraints cs)
  with assms(1) have cs: "cs \<noteq> []" "length cs \<le> 32" "map dimension cs = dims" "\<forall>c \<in> set cs. ok_constraint dims c"
    by simp_all
  have "mapR (normalize_constraint dims) (map constraint_value cs) = Inr (map (\<lambda>c. c) cs)"
    using cs(4) by (intro mapR_map) (simp add: normalize_constraint_value)
  moreover have "sort_le by_dimension cs = cs" using by_dimension_sorted cs(3) assms(2) by simp
  moreover have "length cs = length dims" using cs(3) by auto
  ultimately show ?thesis
    using cs assms by (simp add: Match_constraints normalize_term_def exactKeys_def)
qed (simp add: normalize_term_def exactKeys_def)

definition ok_scope :: "string list \<Rightarrow> data_scope \<Rightarrow> bool" where
  "ok_scope dims sc \<longleftrightarrow> sc = [All_records] \<or> sc \<noteq> [] \<and> distinct sc \<and> length sc \<le> 128 \<and>
     All_records \<notin> set sc \<and> (\<forall>t \<in> set sc. ok_term dims t) \<and> sorted (map json_term sc)"

lemma unique_terms_distinct: "distinct ts \<Longrightarrow> unique_terms ts = ts"
proof -
  have "fold (\<lambda>t m. AList.update (json_term t) t m) ts m = m @ map (\<lambda>t. (json_term t, t)) ts"
    if "distinct ts" "\<forall>t \<in> set ts. json_term t \<notin> fst ` set m" for m
    using that
  proof (induction ts arbitrary: m)
    case (Cons t ts)
    from Cons.prems have "map_of m (json_term t) = None" by (simp add: map_of_eq_None_iff)
    moreover have "fold (\<lambda>t m. AList.update (json_term t) t m) ts (m @ [(json_term t, t)]) =
        (m @ [(json_term t, t)]) @ map (\<lambda>t. (json_term t, t)) ts"
      using Cons.prems by (intro Cons.IH) (auto simp: json_term_inj)
    ultimately show ?case by (simp add: update_fresh)
  qed simp
  then show "distinct ts \<Longrightarrow> unique_terms ts = ts" by (simp add: unique_terms_def comp_def)
qed

lemma normalizeScope_ok:
  assumes "normalizeScope v dims = Inr sc" "sorted dims" "distinct dims"
  shows "ok_scope dims sc"
proof -
  from assms(1) obtain es ts where ts: "es \<noteq> []" "length es \<le> 128" "mapR (normalize_term dims) es = Inr ts"
    and sc: "sc = (if All_records \<in> set ts then [All_records]
                 else sort_le (\<lambda>l r. json_term l \<le> json_term r) (unique_terms ts))"
    by (auto simp: normalizeScope_def result_simps split: jval.splits if_splits)
  have "ts \<noteq> []" using ts mapR_length by fastforce
  then have "unique_terms ts \<noteq> []" by (metis set_empty set_unique_terms)
  moreover have "\<forall>t \<in> set ts. ok_term dims t"
    using mapR_set [OF ts(3)] normalize_term_ok [OF _ assms(2, 3)] by blast
  moreover have "length (unique_terms ts) \<le> 128"
    using distinct_card [OF distinct_unique_terms, of ts] card_length [of ts] ts(2) mapR_length [OF ts(3)] by simp
  ultimately show ?thesis
    using sorted_sort_le_by [of json_term "unique_terms ts"] by (auto simp: sc ok_scope_def distinct_unique_terms)
qed

lemma normalizeScope_value:
  assumes "ok_scope dims sc" "sorted dims" "distinct dims"
  shows "normalizeScope (scope_value sc) dims = Inr sc"
proof -
  have "\<forall>t \<in> set sc. ok_term dims t" "sc \<noteq> []" "length sc \<le> 128" "distinct sc" "sorted (map json_term sc)"
    using assms(1) by (auto simp: ok_scope_def)
  moreover from this(1) have "mapR (normalize_term dims) (map term_value sc) = Inr (map (\<lambda>t. t) sc)"
    by (intro mapR_map) (simp add: normalize_term_value assms)
  moreover have "sort_le (\<lambda>l r. json_term l \<le> json_term r) sc = sc"
    using calculation(5) sort_le_by by blast
  moreover have "All_records \<in> set sc \<Longrightarrow> sc = [All_records]" using assms(1) by (auto simp: ok_scope_def)
  ultimately show ?thesis
    by (simp add: normalizeScope_def scope_value_def exactKeys_def unique_terms_distinct)
qed

definition ok_permission :: "permission_declaration \<Rightarrow> bool" where
  "ok_permission d \<longleftrightarrow> perm_code d = perm_resource d @ '':'' @ perm_action d \<and>
     rx_test IDENTIFIER (perm_resource d) \<and> length (perm_resource d) \<le> 128 \<and>
     rx_test ACTION (perm_action d) \<and> length (perm_action d) \<le> 64 \<and>
     rx_test PERMISSION_CODE (perm_code d) \<and> length (perm_code d) \<le> 193 \<and>
     sorted (scopeDimensions d) \<and> distinct (scopeDimensions d) \<and> length (scopeDimensions d) \<le> 32 \<and>
     (\<forall>i \<in> set (scopeDimensions d). rx_test IDENTIFIER i \<and> length i \<le> 128)"

definition pair_key :: "permission_declaration \<Rightarrow> string" where
  "pair_key d = perm_resource d @ [CHR 0x00] @ perm_action d"

lemma permission_entry_ok:
  assumes "permission_entry e acc = Inr acc'"
  shows "\<exists>d. ok_permission d \<and> map_of (fst acc) (perm_code d) = None \<and> fst acc' = fst acc @ [(perm_code d, d)]"
proof -
  from assms obtain r a ds where new: "map_of (fst acc) (r @ '':'' @ a) = None"
      "fst acc' = AList.update (r @ '':'' @ a) \<lparr>perm_action = a, perm_code = r @ '':'' @ a, perm_resource = r,
         scopeDimensions = ds\<rparr> (fst acc)"
    and strs: "rx_test IDENTIFIER r" "length r \<le> 128" "rx_test ACTION a" "length a \<le> 64"
      "rx_test PERMISSION_CODE (r @ '':'' @ a)" "length (r @ '':'' @ a) \<le> 193"
    and "uniqueStrings (get e ''scopeDimensions'') IDENTIFIER 32 128 = Inr ds"
    by (auto simp: permission_entry_def result_simps string_of_Inr)
  from this(9) have "ok_permission \<lparr>perm_action = a, perm_code = r @ '':'' @ a, perm_resource = r, scopeDimensions = ds\<rparr>"
    using strs by (auto simp: ok_permission_def dest: uniqueStrings_Inr)
  with new show ?thesis by (intro exI conjI) (assumption, simp_all add: update_fresh)
qed

lemma no_nul:
  assumes "rx_test IDENTIFIER s \<or> rx_test ACTION s"
  shows "CHR 0x00 \<notin> set s"
proof
  assume "CHR 0x00 \<in> set s"
  with assms have "rx_chars IDENTIFIER (CHR 0x00) \<or> rx_chars ACTION (CHR 0x00)" using rx_test_chars by blast
  moreover have "\<not> rx_chars IDENTIFIER (CHR 0x00)" "\<not> rx_chars ACTION (CHR 0x00)" by code_simp+
  ultimately show False by simp
qed

lemma pair_key_inj: "ok_permission d \<Longrightarrow> ok_permission d' \<Longrightarrow> pair_key d = pair_key d' \<Longrightarrow> perm_code d = perm_code d'"
  using append_Cons_eq_iff [of "CHR 0x00" "perm_resource d" "perm_action d"] no_nul
  by (simp add: pair_key_def ok_permission_def)

lemma permission_entry_value:
  assumes "ok_permission d" "map_of acc (perm_code d) = None" "pair_key d \<notin> S"
  shows "permission_entry (permission_value d) (acc, S) = Inr (acc @ [(perm_code d, d)], insert (pair_key d) S)"
  using assms uniqueStrings_value [of "scopeDimensions d" 32 IDENTIFIER 128]
  by (auto simp: permission_entry_def permission_value_def exactKeys_def string_of_def ok_permission_def
      pair_key_def update_fresh)

lemma permissions_value:
  assumes "\<forall>d \<in> set (ds0 @ ds). ok_permission d" "distinct (map perm_code (ds0 @ ds))"
  shows "\<exists>S. foldR permission_entry (map permission_value ds) (map (\<lambda>d. (perm_code d, d)) ds0, pair_key ` set ds0) =
    Inr (map (\<lambda>d. (perm_code d, d)) (ds0 @ ds), S)"
  using assms
proof (induction ds arbitrary: ds0)
  case (Cons d ds)
  have "permission_entry (permission_value d) (map (\<lambda>d. (perm_code d, d)) ds0, pair_key ` set ds0) =
      Inr (map (\<lambda>d. (perm_code d, d)) ds0 @ [(perm_code d, d)], insert (pair_key d) (pair_key ` set ds0))"
  proof (rule permission_entry_value)
    show "map_of (map (\<lambda>d. (perm_code d, d)) ds0) (perm_code d) = None"
      using Cons.prems(2) by (auto simp: map_of_eq_None_iff)
    show "pair_key d \<notin> pair_key ` set ds0"
    proof
      assume "pair_key d \<in> pair_key ` set ds0"
      then obtain d' where "d' \<in> set ds0" "pair_key d = pair_key d'" by blast
      with Cons.prems pair_key_inj [of d d'] show False by (auto simp: image_iff)
    qed
  qed (use Cons.prems in simp)
  with Cons.IH [of "ds0 @ [d]"] Cons.prems show ?case by simp
qed simp

definition ok_binding :: "(string \<Rightarrow> permission_declaration option) \<Rightarrow> role_binding \<Rightarrow> bool" where
  "ok_binding ps b \<longleftrightarrow> rx_test BINDING_CODE (permissionCode b) \<and> length (permissionCode b) \<le> 193 \<and>
     (\<exists>d. ps (permissionCode b) = Some d \<and> ok_permission d \<and> ok_scope (scopeDimensions d) (binding_scope b))"

lemma binding_entry_ok:
  assumes "binding_entry ps e bs = Inr bs'" "\<forall>d \<in> set (map snd ps). ok_permission d"
  shows "\<exists>b. ok_binding (map_of ps) b \<and> permissionCode b \<notin> permissionCode ` set bs \<and> bs' = bs @ [b]"
proof -
  from assms(1) obtain code d scope where new: "map_of ps code = Some d" "code \<notin> permissionCode ` set bs"
      "normalizeScope (get e ''scope'') (scopeDimensions d) = Inr scope"
      "bs' = bs @ [\<lparr>permissionCode = code, binding_scope = scope\<rparr>]"
    and "rx_test BINDING_CODE code" "length code \<le> 193"
    by (auto simp: binding_entry_def result_simps string_of_Inr split: option.splits)
  have ok: "ok_permission d" using assms(2) map_of_SomeD [OF new(1)] by force
  then have "ok_scope (scopeDimensions d) scope"
    using normalizeScope_ok [OF new(3)] by (simp add: ok_permission_def)
  with ok new \<open>rx_test BINDING_CODE code\<close> \<open>length code \<le> 193\<close> show ?thesis
    by (intro exI [of _ "\<lparr>permissionCode = code, binding_scope = scope\<rparr>"]) (simp add: ok_binding_def)
qed

lemma bindings_value:
  assumes "\<forall>b \<in> set bs. ok_binding (map_of ps) b" "distinct (map permissionCode (bs0 @ bs))"
  shows "foldR (binding_entry ps) (map binding_value bs) bs0 = Inr (bs0 @ bs)"
  using assms
proof (induction bs arbitrary: bs0)
  case (Cons b bs)
  then obtain d where d: "map_of ps (permissionCode b) = Some d" "ok_permission d"
      "ok_scope (scopeDimensions d) (binding_scope b)" "rx_test BINDING_CODE (permissionCode b)"
      "length (permissionCode b) \<le> 193"
    by (auto simp: ok_binding_def)
  have "binding_entry ps (binding_value b) bs0 = Inr (bs0 @ [b])"
    using d Cons.prems(2) normalizeScope_value [OF d(3)]
    by (simp add: binding_entry_def binding_value_def exactKeys_def string_of_def ok_permission_def)
  with Cons show ?case by simp
qed simp

definition ok_id :: "string \<Rightarrow> bool" where
  "ok_id i \<longleftrightarrow> rx_test UUID_I i \<and> length i \<le> 36 \<and> to_lower i = i"

lemma uuid_ok: "uuid v = Inr i \<Longrightarrow> ok_id i"
  by (auto simp: uuid_def result_simps string_of_Inr ok_id_def UUID_I_to_lower)

lemma uuid_value: "ok_id i \<Longrightarrow> uuid (JStr i) = Inr i"
  by (simp add: uuid_def string_of_def ok_id_def)

definition ok_role :: "(string \<Rightarrow> permission_declaration option) \<Rightarrow> role_definition \<Rightarrow> bool" where
  "ok_role ps r \<longleftrightarrow> ok_id (role_roleId r) \<and> role_permissions r \<noteq> [] \<and> length (role_permissions r) \<le> 1000 \<and>
     distinct (map permissionCode (role_permissions r)) \<and> (\<forall>b \<in> set (role_permissions r). ok_binding ps b)"

lemma role_entry_ok:
  assumes "role_entry ps e rs = Inr rs'" "\<forall>d \<in> set (map snd ps). ok_permission d"
  shows "\<exists>r. ok_role (map_of ps) r \<and> map_of rs (role_roleId r) = None \<and> rs' = rs @ [(role_roleId r, r)]"
proof -
  from assms(1) obtain entries i bs where entries: "entries \<noteq> []" "length entries \<le> 1000"
    and bs: "foldR (binding_entry ps) entries [] = Inr bs"
    and new: "map_of rs i = None" "rs' = AList.update i \<lparr>role_permissions = bs, role_roleId = i\<rparr> rs"
    and "uuid (get e ''roleId'') = Inr i"
    by (auto simp: role_entry_def result_simps split: jval.splits)
  have "length bs = length ([] :: role_binding list) + length entries"
    by (rule foldR_measure [OF bs]) (use binding_entry_ok [OF _ assms(2)] in fastforce)
  moreover let ?P = "\<lambda>bs. distinct (map permissionCode bs) \<and> (\<forall>b \<in> set bs. ok_binding (map_of ps) b)"
  have "?P bs"
    by (rule foldR_invariant [OF bs, of ?P]) (simp, use binding_entry_ok [OF _ assms(2)] in fastforce)
  ultimately have "ok_role (map_of ps) \<lparr>role_permissions = bs, role_roleId = i\<rparr>"
    using entries uuid_ok [OF \<open>uuid _ = _\<close>] by (auto simp: ok_role_def)
  with new show ?thesis
    by (intro exI [of _ "\<lparr>role_permissions = bs, role_roleId = i\<rparr>"]) (simp add: update_fresh)
qed

lemma roles_value:
  assumes "\<forall>r \<in> set rs. ok_role (map_of ps) r" "distinct (map role_roleId (rs0 @ rs))"
  shows "foldR (role_entry ps) (map role_value rs) (map (\<lambda>r. (role_roleId r, r)) rs0) =
    Inr (map (\<lambda>r. (role_roleId r, r)) (rs0 @ rs))"
  using assms
proof (induction rs arbitrary: rs0)
  case (Cons r rs)
  then have r: "ok_id (role_roleId r)" "role_permissions r \<noteq> []" "length (role_permissions r) \<le> 1000"
      "foldR (binding_entry ps) (map binding_value (role_permissions r)) [] = Inr (role_permissions r)"
    using bindings_value [of "role_permissions r" ps "[]"] by (auto simp: ok_role_def)
  have "map_of (map (\<lambda>r. (role_roleId r, r)) rs0) (role_roleId r) = None"
    using Cons.prems(2) by (auto simp: map_of_eq_None_iff)
  moreover have "exactKeys (role_value r) [''permissions'', ''roleId'']"
    by (simp add: exactKeys_def role_value_def)
  ultimately have "role_entry ps (role_value r) (map (\<lambda>r. (role_roleId r, r)) rs0) =
      Inr (map (\<lambda>r. (role_roleId r, r)) (rs0 @ [r]))"
    using r uuid_value [OF r(1)] by (simp add: role_entry_def role_value_def update_fresh)
  with Cons.IH [of "rs0 @ [r]"] Cons.prems show ?case by simp
qed simp

definition ok_time :: "int \<Rightarrow> bool" where
  "ok_time t \<longleftrightarrow> rx_test TIMESTAMP (to_iso t) \<and> length (to_iso t) \<le> 24 \<and> \<bar>t\<bar> \<le> max_time"

lemma timestamp_ok: "timestamp v = Inr t \<Longrightarrow> ok_time t"
  by (auto simp: timestamp_def result_simps string_of_Inr iso_instant_Some ok_time_def split: option.splits)

lemma timestamp_value: "ok_time t \<Longrightarrow> timestamp (JStr (to_iso t)) = Inr t"
  by (simp add: timestamp_def string_of_def ok_time_def)

fun ok_subject :: "grant_subject \<Rightarrow> bool" where
  "ok_subject (Workforce_person_subject i) \<longleftrightarrow> ok_id i"
| "ok_subject (Assignment_subject i) \<longleftrightarrow> ok_id i"

definition ok_grant :: "(string \<Rightarrow> role_definition option) \<Rightarrow> validated_grant \<Rightarrow> bool" where
  "ok_grant rs g \<longleftrightarrow> ok_id (grantId g) \<and> ok_id (grant_roleId g) \<and> rs (grant_roleId g) \<noteq> None \<and>
     ok_subject (grant_subject g) \<and> ok_time (validFrom g) \<and> opt_all ok_time (validTo g) \<and>
     opt_all (\<lambda>t. validFrom g < t) (validTo g)"

lemma grant_entry_ok:
  "grant_entry rs e gs = Inr gs' \<Longrightarrow> \<exists>g. ok_grant (map_of rs) g \<and> grantId g \<notin> grantId ` set gs \<and> gs' = gs @ [g]"
  by (auto simp: grant_entry_def grant_subject_of_def result_simps ok_grant_def split: if_splits
      dest!: uuid_ok timestamp_ok)

lemma grants_value:
  assumes "\<forall>g \<in> set gs. ok_grant (map_of rs) g" "distinct (map grantId (gs0 @ gs))"
  shows "foldR (grant_entry rs) (map grant_value gs) gs0 = Inr (gs0 @ gs)"
  using assms
proof (induction gs arbitrary: gs0)
  case (Cons g gs)
  then have g: "ok_grant (map_of rs) g" "grantId g \<notin> grantId ` set gs0" by auto
  have "grant_subject_of (subject_value (grant_subject g)) = Inr (grant_subject g)" "is_record (subject_value (grant_subject g))"
    using g(1) by (cases "grant_subject g"; simp add: ok_grant_def grant_subject_of_def exactKeys_def uuid_value)+
  then have "grant_entry rs (grant_value g) gs0 = Inr (gs0 @ [g])"
    using g by (cases "validTo g") (auto simp: grant_entry_def grant_value_def ok_grant_def uuid_value timestamp_value)
  with Cons show ?case by simp
qed simp

definition policy_json ::
    "validated_grant list \<Rightarrow> permission_declaration list \<Rightarrow> role_definition list \<Rightarrow> string \<Rightarrow> jval" where
  "policy_json gs ds rs ver = JObj [(''grants'', JArr (map grant_value gs)),
     (''permissions'', JArr (map permission_value ds)), (''roles'', JArr (map role_value rs)), (''version'', JStr ver)]"

definition ok_policy ::
    "validated_grant list \<Rightarrow> permission_declaration list \<Rightarrow> role_definition list \<Rightarrow> string \<Rightarrow> bool" where
  "ok_policy gs ds rs ver \<longleftrightarrow>
     rx_test POLICY_VERSION ver \<and> length ver \<le> 128 \<and>
     length ds \<le> 10000 \<and> distinct (map perm_code ds) \<and> (\<forall>d \<in> set ds. ok_permission d) \<and>
     length rs \<le> 10000 \<and> distinct (map role_roleId rs) \<and>
       (\<forall>r \<in> set rs. ok_role (map_of (map (\<lambda>d. (perm_code d, d)) ds)) r) \<and>
     length gs \<le> 100000 \<and> distinct (map grantId gs) \<and>
       (\<forall>g \<in> set gs. ok_grant (map_of (map (\<lambda>r. (role_roleId r, r)) rs)) g)"

lemma validate_policy_json:
  assumes "ok_policy gs ds rs ver"
  shows "validatePolicySnapshot (policy_json gs ds rs ver) ver =
    Inr \<lparr>policy_grants = gs, policy_permissions = map (\<lambda>d. (perm_code d, d)) ds,
         policy_roles = map (\<lambda>r. (role_roleId r, r)) rs, policy_version = ver\<rparr>"
proof -
  from assms obtain S where "foldR permission_entry (map permission_value ds) ([], {}) =
      Inr (map (\<lambda>d. (perm_code d, d)) ds, S)"
    using permissions_value [of "[]" ds] by (auto simp: ok_policy_def)
  moreover have "foldR (role_entry (map (\<lambda>d. (perm_code d, d)) ds)) (map role_value rs) [] =
      Inr (map (\<lambda>r. (role_roleId r, r)) rs)"
    using assms roles_value [of rs _ "[]"] by (simp add: ok_policy_def)
  moreover have "foldR (grant_entry (map (\<lambda>r. (role_roleId r, r)) rs)) (map grant_value gs) [] = Inr gs"
    using assms grants_value [of gs _ "[]"] by (simp add: ok_policy_def)
  moreover have "exactKeys (policy_json gs ds rs ver) [''grants'', ''permissions'', ''roles'', ''version'']"
    by (simp add: exactKeys_def policy_json_def)
  ultimately show ?thesis
    using assms by (simp add: validatePolicySnapshot_def policy_json_def array_upto_def string_of_def ok_policy_def)
qed

lemma keyed_map: "\<forall>(k, d) \<in> set m. k = f d \<Longrightarrow> m = map (\<lambda>d. (f d, d)) (map snd m)"
  by (induction m) auto

lemma keyed_map_fst: "\<forall>(k, d) \<in> set m. k = f d \<Longrightarrow> map f (map snd m) = map fst m"
  by (induction m) auto

lemma map_of_keyed_map:
  "(\<And>r. r \<in> set rs \<Longrightarrow> f (g r) = f r) \<Longrightarrow>
     map_of (map (\<lambda>r. (f r, r)) (map g rs)) i = map_option g (map_of (map (\<lambda>r. (f r, r)) rs) i)"
  by (induction rs) auto

lemma validated_ok_policy:
  assumes "validatePolicySnapshot v x = Inr p"
  shows "ok_policy (policy_grants p) (map snd (policy_permissions p)) (map snd (policy_roles p)) x \<and>
    policy_permissions p = map (\<lambda>d. (perm_code d, d)) (map snd (policy_permissions p)) \<and>
    policy_roles p = map (\<lambda>r. (role_roleId r, r)) (map snd (policy_roles p))"
proof -
  from assms obtain pes res ges pairs where lens: "length pes \<le> 10000" "length res \<le> 10000" "length ges \<le> 100000" and
    ps: "foldR permission_entry pes ([], {}) = Inr (policy_permissions p, pairs)" and
    rs: "foldR (role_entry (policy_permissions p)) res [] = Inr (policy_roles p)" and
    gs: "foldR (grant_entry (policy_roles p)) ges [] = Inr (policy_grants p)" and
    v: "rx_test POLICY_VERSION x" "length x \<le> 128"
    by (auto simp: validatePolicySnapshot_def array_upto_def result_simps string_of_Inr split: jval.splits if_splits)
  let ?P = "\<lambda>acc. distinct (map fst (fst acc)) \<and> (\<forall>(k, d) \<in> set (fst acc). k = perm_code d \<and> ok_permission d)"
  have P: "?P (policy_permissions p, pairs)"
    by (rule foldR_invariant [OF ps, of ?P]) (simp, drule permission_entry_ok, auto simp: map_of_eq_None_iff)
  have lenP: "length (policy_permissions p) = length pes"
    using foldR_measure [OF ps, of "\<lambda>acc. length (fst acc)"] permission_entry_ok by fastforce
  from P have okP: "\<forall>d \<in> set (map snd (policy_permissions p)). ok_permission d" by auto
  from P have keyP: "policy_permissions p = map (\<lambda>d. (perm_code d, d)) (map snd (policy_permissions p))"
    by (intro keyed_map) auto
  let ?R = "\<lambda>rs. distinct (map fst rs) \<and> (\<forall>(k, r) \<in> set rs. k = role_roleId r \<and> ok_role (map_of (policy_permissions p)) r)"
  have R: "?R (policy_roles p)"
    by (rule foldR_invariant [OF rs, of ?R]) (simp, drule role_entry_ok [OF _ okP], auto simp: map_of_eq_None_iff)
  have lenR: "length (policy_roles p) = length res"
    using foldR_measure [OF rs, of length] role_entry_ok [OF _ okP] by fastforce
  from R have keyR: "policy_roles p = map (\<lambda>r. (role_roleId r, r)) (map snd (policy_roles p))"
    by (intro keyed_map) auto
  let ?G = "\<lambda>gs. distinct (map grantId gs) \<and> (\<forall>g \<in> set gs. ok_grant (map_of (policy_roles p)) g)"
  have G: "?G (policy_grants p)"
    by (rule foldR_invariant [OF gs, of ?G]) (simp, drule grant_entry_ok, auto)
  have lenG: "length (policy_grants p) = length ges"
    using foldR_measure [OF gs, of length] grant_entry_ok by fastforce
  have "map perm_code (map snd (policy_permissions p)) = map fst (policy_permissions p)"
    "map role_roleId (map snd (policy_roles p)) = map fst (policy_roles p)"
    using P R by (auto intro!: keyed_map_fst simp del: map_map)
  then show ?thesis
    unfolding ok_policy_def keyP [symmetric] keyR [symmetric]
    using P R G lenP lenR lenG lens v okP keyP keyR by (auto simp del: map_map)
qed

section \<open>Canonicalisation is idempotent\<close>

lemma json_value_constraint: "json_value nt (canonicalValue (constraint_value c)) = json_constraint c"
  by (simp add: constraint_value_def json_constraint_def comp_def)

lemma canonicalJson_term: "canonicalJson nt (term_value t) = json_term t"
proof (cases t)
  case (Match_constraints cs)
  have "json_value nt \<circ> (canonicalValue \<circ> constraint_value) = json_constraint"
    by (simp add: fun_eq_iff json_value_constraint)
  with Match_constraints show ?thesis by (simp add: canonicalJson_def)
qed (simp add: canonicalJson_def)

lemma canonical_scope_ok:
  assumes "ok_scope dims sc" "sorted dims"
  shows "canonical_scope nt sc = sc"
proof -
  have "canonical_term t = t" if "t \<in> set sc" for t
    using assms that by (cases t) (auto simp: ok_scope_def by_dimension_sorted)
  then have "map canonical_term sc = sc" by (simp add: map_idI)
  moreover have "sorted (map json_term sc)" using assms(1) by (auto simp: ok_scope_def)
  ultimately show ?thesis using sort_le_by by (simp add: canonical_scope_def canonicalJson_term) blast
qed

lemma canonical_role_ok:
  assumes "ok_role ps r"
  shows "canonical_role nt r = r\<lparr>role_permissions := sort_le (\<lambda>l r. permissionCode l \<le> permissionCode r) (role_permissions r)\<rparr>"
proof -
  have "b\<lparr>binding_scope := canonical_scope nt (binding_scope b)\<rparr> = b" if "b \<in> set (role_permissions r)" for b
    using assms that canonical_scope_ok by (fastforce simp: ok_role_def ok_binding_def ok_permission_def)
  then show ?thesis by (simp add: canonical_role_def map_idI)
qed

lemma ok_role_sorted:
  assumes "ok_role ps r"
  shows "ok_role ps (canonical_role nt r) \<and> role_roleId (canonical_role nt r) = role_roleId r \<and>
    canonical_role nt' (canonical_role nt r) = canonical_role nt r"
proof -
  let ?s = "sort_le (\<lambda>l r. permissionCode l \<le> permissionCode r)"
  have ok: "ok_role ps (r\<lparr>role_permissions := ?s (role_permissions r)\<rparr>)" using assms by (simp add: ok_role_def)
  have "?s (?s (role_permissions r)) = ?s (role_permissions r)"
    using sort_le_by [of permissionCode] sorted_sort_le_by [of permissionCode] by blast
  with ok canonical_role_ok [OF ok, of nt'] show ?thesis by (simp add: canonical_role_ok [OF assms])
qed

lemma canonical_policy_ok:
  assumes "ok_policy gs ds rs ver"
  shows "ok_policy (sort_le (\<lambda>l r. grantId l \<le> grantId r) gs) (sort_le (\<lambda>l r. perm_code l \<le> perm_code r) ds)
    (sort_le (\<lambda>l r. role_roleId l \<le> role_roleId r) (map (canonical_role nt) rs)) ver"
proof -
  let ?ds = "sort_le (\<lambda>l r. perm_code l \<le> perm_code r) ds"
  let ?rs = "sort_le (\<lambda>l r. role_roleId l \<le> role_roleId r) (map (canonical_role nt) rs)"
  have ids: "map role_roleId (map (canonical_role nt) rs) = map role_roleId rs"
    using assms ok_role_sorted by (auto simp: ok_policy_def)
  have ds: "map_of (map (\<lambda>d. (perm_code d, d)) ?ds) = map_of (map (\<lambda>d. (perm_code d, d)) ds)"
    using assms by (intro map_of_reorder) (simp_all add: comp_def ok_policy_def)
  have "map_of (map (\<lambda>r. (role_roleId r, r)) ?rs) i \<noteq> None \<longleftrightarrow> map_of (map (\<lambda>r. (role_roleId r, r)) rs) i \<noteq> None" for i
    using ids by (auto simp: map_of_eq_None_iff image_image image_iff)
  moreover have "\<forall>r \<in> set ?rs. ok_role (map_of (map (\<lambda>d. (perm_code d, d)) ds)) r"
    using assms ok_role_sorted by (auto simp: ok_policy_def)
  ultimately show ?thesis
    using assms ids by (auto simp: ok_policy_def ok_grant_def ds simp del: map_map)
qed

lemma canonicalize_Inr:
  assumes "canonicalizeAuthorizationPolicy nt v = Inr c"
  obtains gs ds rs ver where "c = policy_json gs ds rs ver" "ok_policy gs ds rs ver" "gs \<noteq> []" "ds \<noteq> []" "rs \<noteq> []"
    "sorted (map grantId gs)" "sorted (map perm_code ds)" "sorted (map role_roleId rs)"
    "\<And>nt'. map (canonical_role nt') rs = rs" "get v ''version'' = JStr ver"
proof -
  from assms obtain p ver where v: "get v ''version'' = JStr ver" "validatePolicySnapshot v ver = Inr p" and
    ne: "policy_permissions p \<noteq> []" "policy_roles p \<noteq> []" "policy_grants p \<noteq> []" and
    c: "c = policy_json (sort_le (\<lambda>l r. grantId l \<le> grantId r) (policy_grants p))
      (sort_le (\<lambda>l r. perm_code l \<le> perm_code r) (map snd (policy_permissions p)))
      (sort_le (\<lambda>l r. role_roleId l \<le> role_roleId r) (map (canonical_role nt) (map snd (policy_roles p))))
      (policy_version p)"
    by (auto simp: canonicalizeAuthorizationPolicy_def policyVersion_def string_of_Inr policy_json_def Let_def result_simps
        split: sum.split_asm if_splits)
  have ver: "policy_version p = ver" using validated_snapshot_wf [OF v(2)] by simp
  note ok = validated_ok_policy [OF v(2)]
  have "map (canonical_role nt') (sort_le (\<lambda>l r. role_roleId l \<le> role_roleId r) (map (canonical_role nt) (map snd (policy_roles p)))) =
      sort_le (\<lambda>l r. role_roleId l \<le> role_roleId r) (map (canonical_role nt) (map snd (policy_roles p)))" for nt'
    using ok ok_role_sorted by (intro map_idI) (fastforce simp: ok_policy_def)
  then show thesis
    using canonical_policy_ok [OF conjunct1 [OF ok]] ne v(1)
    by (intro that [OF c [unfolded ver]]) (simp_all add: sorted_sort_le_by)
qed

lemma canonicalize_canonical:
  assumes "ok_policy gs ds rs ver" "gs \<noteq> []" "ds \<noteq> []" "rs \<noteq> []"
    "sorted (map grantId gs)" "sorted (map perm_code ds)" "sorted (map role_roleId rs)"
    "map (canonical_role nt) rs = rs"
  shows "canonicalizeAuthorizationPolicy nt (policy_json gs ds rs ver) = Inr (policy_json gs ds rs ver)"
proof -
  have "policyVersion (get (policy_json gs ds rs ver) ''version'') = Inr ver"
    using assms(1) by (simp add: policyVersion_def policy_json_def string_of_def ok_policy_def)
  moreover have "sort_le (\<lambda>l r. grantId l \<le> grantId r) gs = gs" "sort_le (\<lambda>l r. perm_code l \<le> perm_code r) ds = ds"
    "sort_le (\<lambda>l r. role_roleId l \<le> role_roleId r) rs = rs"
    using assms(5-7) sort_le_by by blast+
  ultimately show ?thesis
    using validate_policy_json [OF assms(1)] assms(2-4,8)
    by (simp add: canonicalizeAuthorizationPolicy_def comp_def Let_def) (simp add: policy_json_def)
qed

lemma canonicalize_idem:
  "canonicalizeAuthorizationPolicy nt v = Inr c \<Longrightarrow> canonicalizeAuthorizationPolicy nt' c = Inr c"
  by (elim canonicalize_Inr) (simp add: canonicalize_canonical)

section \<open>Publication\<close>

text \<open>
  What the code relies on: SHA-256 is written as 64 hexadecimal digits, and a \<open>jsonb\<close> column returns
  the document that was stored, up to the order of members.
\<close>

definition runtime_ok :: "pg_runtime \<Rightarrow> bool" where
  "runtime_ok rt \<longleftrightarrow> (\<forall>s. rx_test DIGEST (pg_sha256 rt s)) \<and>
     (\<forall>v c. canonicalizeAuthorizationPolicy (pg_number rt) v = Inr c \<longrightarrow>
        canonicalizeAuthorizationPolicy (pg_number rt) (pg_jsonb rt c) = Inr c \<and> is_record (pg_jsonb rt c)) \<and>
     (\<forall>r k. get (pg_jsonb rt (result_value r)) k = get (result_value r) k)"

lemma validate_publish_Inr:
  assumes "validate_publish rt c = Inr vp"
  shows "rx_test UUID_I (vp_publicationId vp) \<and> to_lower (vp_publicationId vp) = vp_publicationId vp \<and>
    canonicalizeAuthorizationPolicy (pg_number rt) (cmd_snapshot c) = Inr (vp_snapshot vp) \<and>
    rx_test POLICY_VERSION (vp_version vp) \<and> length (vp_version vp) \<le> 128 \<and>
    vp_expected vp = cmd_expectedPreviousVersion c"
proof -
  from assms obtain pid pat expected snap where
    pid: "pg_uuid (cmd_publicationId c) Authorization_policy_invalid = Inr pid" and
    ex: "(if cmd_expectedPreviousVersion c = JUndef \<or> cmd_expectedPreviousVersion c = JNull
          then Inr (cmd_expectedPreviousVersion c)
          else case policyVersion (cmd_expectedPreviousVersion c) of
              Inl _ \<Rightarrow> Inl Authorization_policy_invalid | Inr v \<Rightarrow> Inr (JStr v)) = Inr expected" and
    c: "canonicalizeAuthorizationPolicy (pg_number rt) (cmd_snapshot c) = Inr snap" and
    vp: "vp = \<lparr>vp_publicationId = pid, vp_publishedAt = pat, vp_expected = expected, vp_snapshot = snap,
            vp_version = the (str_of (get snap ''version''))\<rparr>"
    unfolding validate_publish_def bindR_eq_Inr by auto
  from c have "rx_test POLICY_VERSION (vp_version vp) \<and> length (vp_version vp) \<le> 128"
    by (rule canonicalize_Inr) (simp add: vp policy_json_def ok_policy_def)
  moreover from pid have "rx_test UUID_I pid \<and> to_lower pid = pid"
    by (auto simp: pg_uuid_def UUID_I_to_lower split: jval.splits if_splits)
  moreover from ex have "expected = cmd_expectedPreviousVersion c"
    by (auto simp: policyVersion_def string_of_def split: jval.split_asm if_splits)
  ultimately show ?thesis using c by (simp add: vp)
qed

lemma sql_Inr [result_simps]: "sql fault k = Inr u \<longleftrightarrow> fault k = None"
  by (simp add: sql_def split: option.splits)

text \<open>The two ways a transaction succeeds.\<close>

lemma publish_transaction_Inr:
  assumes "publish_transaction rt fault vp db = Inr (r, db')"
  obtains (replay) prior where
      "policy_publications db (vp_publicationId vp) = Some prior" "pp_fingerprint prior = publish_fingerprint rt vp"
      "publicationResult (pp_result prior) True = Inr r" "db' = db"
  | (published) row where
      "policy_publications db (vp_publicationId vp) = None"
      "opt_all (same_version rt vp) (policy_versions db (vp_version vp))"
      "expected_holds (vp_expected vp) (current_policy db)"
      "row = (case policy_versions db (vp_version vp) of Some row \<Rightarrow> row
         | None \<Rightarrow> \<lparr>pv_contract_version = SUPPORTED_CONTRACT_VERSION,
             pv_content_digest = pg_digest rt (vp_snapshot vp), pv_snapshot = pg_jsonb rt (vp_snapshot vp)\<rparr>)"
      "\<exists>again. canonicalizeAuthorizationPolicy (pg_number rt) (pv_snapshot row) = Inr again \<and>
         pg_digest rt again = pg_digest rt (vp_snapshot vp)"
      "r = \<lparr>contentDigest = pg_digest rt (vp_snapshot vp), previousVersion = map_option cp_version (current_policy db),
         publicationId = vp_publicationId vp, publishedAt = vp_publishedAt vp, replayed = False,
         published_version = vp_version vp\<rparr>"
      "db' = db\<lparr>policy_versions := (policy_versions db)(vp_version vp \<mapsto> row),
         policy_publications := (policy_publications db)(vp_publicationId vp \<mapsto>
           \<lparr>pp_fingerprint = publish_fingerprint rt vp, pp_policy_version = vp_version vp,
            pp_result = pg_jsonb rt (result_value r)\<rparr>),
         current_policy := Some \<lparr>cp_version = vp_version vp, cp_content_digest = pg_digest rt (vp_snapshot vp),
           cp_publication_id = vp_publicationId vp\<rparr>\<rparr>"
proof (cases "policy_publications db (vp_publicationId vp)")
  case (Some prior)
  with assms show thesis
    by (intro replay [of prior])
      (auto simp: publish_transaction_def Let_def result_simps split: if_splits sum.splits)
next
  case None
  note fresh = None
  show thesis
  proof (cases "policy_versions db (vp_version vp)")
    case None
    with fresh assms show thesis
      by (intro published [OF fresh _ _ refl])
        (auto simp: publish_transaction_def Let_def result_simps split: if_splits sum.splits)
  next
    case (Some row)
    then have upd: "(policy_versions db)(vp_version vp \<mapsto> row) = policy_versions db" by auto
    from Some fresh assms show thesis
      by (intro published [OF fresh _ _ refl])
        (auto simp: publish_transaction_def Let_def result_simps upd same_version_def split: if_splits sum.splits)
  qed
qed

lemma publicationResult_value:
  assumes "\<And>k. get v k = get (result_value r) k" "rx_test DIGEST (contentDigest r)"
    "rx_test UUID_I (publicationId r)" "to_lower (publicationId r) = publicationId r"
  shows "publicationResult v True = Inr (r\<lparr>replayed := True\<rparr>)"
proof -
  have "get (result_value r) ''contentDigest'' = JStr (contentDigest r)"
    "get (result_value r) ''publicationId'' = JStr (publicationId r)"
    "get (result_value r) ''version'' = JStr (published_version r)"
    "get (result_value r) ''publishedAt'' = JStr (publishedAt r)"
    "get (result_value r) ''previousVersion'' = (case previousVersion r of None \<Rightarrow> JUndef | Some p \<Rightarrow> JStr p)"
    by (simp_all add: result_value_def split: option.splits)
  then show ?thesis using assms by (simp add: publicationResult_def split: option.splits)
qed

lemma publicationResult_replay: "publicationResult v True = Inr r \<Longrightarrow> r\<lparr>replayed := True\<rparr> = r"
  by (auto simp: publicationResult_def split: jval.splits if_splits)

lemma pg_publish_Inr:
  "pg_publish rt fault c db = (Inr r, db') \<Longrightarrow>
     \<exists>vp. validate_publish rt c = Inr vp \<and> publish_transaction rt fault vp db = Inr (r, db')"
  by (auto simp: pg_publish_def split: sum.splits if_splits prod.splits)

text \<open>
  Property C20. Publication is atomic and idempotent. A command that fails, at whatever statement, leaves the
  tables as they were; a command that succeeded and is sent again returns the same publication, marked
  as a replay, and changes nothing.
\<close>

theorem publication_is_atomic_and_idempotent:
  assumes "runtime_ok rt"
  shows "case pg_publish rt fault c db of
     (Inl e, db') \<Rightarrow> db' = db
   | (Inr r, db') \<Rightarrow> pg_publish rt (\<lambda>_. None) c db' = (Inr (r\<lparr>replayed := True\<rparr>), db')"
proof (cases "pg_publish rt fault c db")
  case (Pair result db')
  show ?thesis
  proof (cases result)
    case (Inl e)
    with Pair show ?thesis by (auto simp: pg_publish_def split: sum.splits prod.splits if_splits)
  next
    case (Inr r)
    with Pair obtain vp where vp: "validate_publish rt c = Inr vp" "publish_transaction rt fault vp db = Inr (r, db')"
      using pg_publish_Inr by blast
    have resend: "pg_publish rt (\<lambda>_. None) c db' = (Inr r', db')"
      if "policy_publications db' (vp_publicationId vp) = Some prior" "pp_fingerprint prior = publish_fingerprint rt vp"
        "publicationResult (pp_result prior) True = Inr r'" for prior r'
      using vp(1) that by (simp add: pg_publish_def publish_transaction_def Let_def sql_def)
    from vp(2) have "pg_publish rt (\<lambda>_. None) c db' = (Inr (r\<lparr>replayed := True\<rparr>), db')"
    proof (cases rule: publish_transaction_Inr)
      case (replay prior)
      then show ?thesis using resend publicationResult_replay by simp
    next
      case (published row)
      have "publicationResult (pg_jsonb rt (result_value r)) True = Inr (r\<lparr>replayed := True\<rparr>)"
      proof (rule publicationResult_value)
        show "rx_test DIGEST (contentDigest r)"
          using assms by (simp add: published(6) pg_digest_def runtime_ok_def)
      qed (use assms validate_publish_Inr [OF vp(1)] in \<open>simp_all add: published(6) runtime_ok_def\<close>)
      moreover have "policy_publications db' (vp_publicationId vp) = Some \<lparr>pp_fingerprint = publish_fingerprint rt vp,
          pp_policy_version = vp_version vp, pp_result = pg_jsonb rt (result_value r)\<rparr>"
        by (simp add: published(7))
      from resend [OF this] show ?thesis using calculation by simp
    qed
    with Pair Inr show ?thesis by simp
  qed
qed

text \<open>
  Property C21. A new publication takes effect completely: afterwards the store reports the published version as
  current and loads a policy with the announced digest, which for a version not seen before is the
  canonical form of the submitted snapshot; the precondition on the previous version held; and no
  version published earlier has changed.
\<close>

theorem a_publication_becomes_current:
  assumes "runtime_ok rt" "pg_publish rt fault c db = (Inr r, db')" "\<not> replayed r"
  shows "pg_currentVersion True db' = Inr (published_version r) \<and>
    (\<exists>loaded. pg_load rt True [publicationId r] db' (JStr (published_version r)) = Inr loaded \<and>
       pg_digest rt loaded = contentDigest r \<and>
       (policy_versions db (published_version r) = None \<longrightarrow>
        canonicalizeAuthorizationPolicy (pg_number rt) (cmd_snapshot c) = Inr loaded)) \<and>
    expected_holds (cmd_expectedPreviousVersion c) (current_policy db) \<and>
    previousVersion r = map_option cp_version (current_policy db) \<and>
    (\<forall>v row. policy_versions db v = Some row \<longrightarrow> policy_versions db' v = Some row)"
proof -
  from assms(2) obtain vp where vp: "validate_publish rt c = Inr vp" "publish_transaction rt fault vp db = Inr (r, db')"
    using pg_publish_Inr by blast
  note cmd = validate_publish_Inr [OF vp(1)]
  from vp(2) show ?thesis
  proof (cases rule: publish_transaction_Inr)
    case (replay prior)
    then have "replayed r" using publicationResult_replay [of "pp_result prior" r] by (metis publication.select_convs(5)
        publication.surjective publication.update_convs(5))
    with assms(3) show ?thesis by simp
  next
    case (published row)
    have ver: "policyVersion (JStr (vp_version vp)) = Inr (vp_version vp)"
      using cmd by (simp add: policyVersion_def string_of_def)
    have digest: "rx_test DIGEST (pg_digest rt v)" for v
      using assms(1) by (simp add: runtime_ok_def pg_digest_def)
    from published(5) obtain again where again: "canonicalizeAuthorizationPolicy (pg_number rt) (pv_snapshot row) = Inr again"
        "pg_digest rt again = pg_digest rt (vp_snapshot vp)" by blast
    have row: "pv_contract_version row = SUPPORTED_CONTRACT_VERSION \<and>
        pv_content_digest row = pg_digest rt (vp_snapshot vp)"
      using published(2,4) by (auto simp: same_version_def split: option.splits)
    have "is_record (pv_snapshot row)"
      using again(1) by (cases "pv_snapshot row") (auto simp: canonicalizeAuthorizationPolicy_def policyVersion_def string_of_def)
    then have "pg_load rt True [publicationId r] db' (JStr (published_version r)) = Inr again"
      using published row again digest ver by (simp add: pg_load_def)
    moreover have "again = vp_snapshot vp" if "policy_versions db (vp_version vp) = None"
      using that again(1) assms(1) cmd by (auto simp: published(4) runtime_ok_def)
    moreover have "pg_currentVersion True db' = Inr (published_version r)"
      using published row digest ver by (simp add: pg_currentVersion_def)
    moreover have "policy_versions db' v = Some row'" if "policy_versions db v = Some row'" for v row'
      using that published(4,7) by (auto split: option.splits)
    ultimately show ?thesis using published(3,6) cmd again(2) by auto
  qed
qed

lemma canonicalize_equivalent:
  assumes "canonicalizeAuthorizationPolicy nt v = Inr c"
  shows "\<exists>ver p q. get v ''version'' = JStr ver \<and> policy_grants p \<noteq> [] \<and>
    validatePolicySnapshot v ver = Inr p \<and> validatePolicySnapshot c ver = Inr q \<and>
       (\<forall>s r t. may_access q s r t \<longleftrightarrow> may_access p s r t)"
proof -
  from assms obtain p ver where v: "validatePolicySnapshot v ver = Inr p" and
    ne: "get v ''version'' = JStr ver" "policy_grants p \<noteq> []" and
    c: "c = policy_json (sort_le (\<lambda>l r. grantId l \<le> grantId r) (policy_grants p))
      (sort_le (\<lambda>l r. perm_code l \<le> perm_code r) (map snd (policy_permissions p)))
      (sort_le (\<lambda>l r. role_roleId l \<le> role_roleId r) (map (canonical_role nt) (map snd (policy_roles p))))
      (policy_version p)"
    by (auto simp: canonicalizeAuthorizationPolicy_def policyVersion_def string_of_Inr policy_json_def Let_def result_simps
        split: sum.split_asm if_splits)
  note ok = validated_ok_policy [OF v]
  have ver: "policy_version p = ver" using validated_snapshot_wf [OF v] by simp
  define q where "q = \<lparr>policy_grants = sort_le (\<lambda>l r. grantId l \<le> grantId r) (policy_grants p),
    policy_permissions = map (\<lambda>d. (perm_code d, d)) (sort_le (\<lambda>l r. perm_code l \<le> perm_code r) (map snd (policy_permissions p))),
    policy_roles = map (\<lambda>r. (role_roleId r, r)) (sort_le (\<lambda>l r. role_roleId l \<le> role_roleId r)
      (map (canonical_role nt) (map snd (policy_roles p)))), policy_version = ver\<rparr>"
  have q: "validatePolicySnapshot c ver = Inr q"
    unfolding c ver q_def by (rule validate_policy_json, rule canonical_policy_ok) (use ok in blast)
  have perms: "map_of (policy_permissions q) = map_of (policy_permissions p)"
  proof (rule map_of_reorder)
    show "distinct (map fst (policy_permissions p))"
      using validated_snapshot_wf [OF v] by (simp add: wf_policy_def)
    show "distinct (map fst (policy_permissions q))" using ok by (simp add: q_def comp_def ok_policy_def)
    show "set (policy_permissions q) = set (policy_permissions p)"
      unfolding q_def validated_policy.select_convs set_map set_sort_le using ok by (metis set_map)
  qed
  have role: "set (role_permissions (canonical_role nt r)) = set (role_permissions r) \<and>
      role_roleId (canonical_role nt r) = role_roleId r" if "r \<in> snd ` set (policy_roles p)" for r
  proof -
    from that ok obtain ps where "ok_role ps r" by (auto simp: ok_policy_def)
    then show ?thesis by (simp add: canonical_role_ok)
  qed
  have "map_of (policy_roles q) i = map_option (canonical_role nt) (map_of (policy_roles p) i)" for i
  proof -
    let ?rs = "map snd (policy_roles p)"
    have ids: "map role_roleId (map (canonical_role nt) ?rs) = map role_roleId ?rs" using role by auto
    have "distinct (map role_roleId (map (canonical_role nt) ?rs))" unfolding ids using ok by (simp add: ok_policy_def)
    then have "map_of (policy_roles q) = map_of (map (\<lambda>r. (role_roleId r, r)) (map (canonical_role nt) ?rs))"
      unfolding q_def validated_policy.select_convs by (intro map_of_reorder) (simp_all add: comp_def image_image)
    moreover have "map_of (map (\<lambda>r. (role_roleId r, r)) (map (canonical_role nt) ?rs)) i =
        map_option (canonical_role nt) (map_of (map (\<lambda>r. (role_roleId r, r)) ?rs) i)"
      using role by (intro map_of_keyed_map) simp
    moreover have "map (\<lambda>r. (role_roleId r, r)) ?rs = policy_roles p" using ok by metis
    ultimately show ?thesis by metis
  qed
  then have "granted_scope q s code t sc \<longleftrightarrow> granted_scope p s code t sc" for s code t sc
    using role map_of_SomeD by (fastforce simp: granted_scope_def q_def)
  then have "may_access q s r t \<longleftrightarrow> may_access p s r t" for s r t
    by (simp add: may_access_def perms)
  with q v ne show ?thesis by blast
qed

text \<open>
  Property C22. Canonicalisation keeps what a policy says and is stable: the canonical form of a snapshot
  validates to a policy that grants exactly the same accesses, and canonicalising it again gives it back
  unchanged, which is what the publisher's read-back and the store's digest check rely on.
\<close>

theorem canonical_policy_is_stable_and_equivalent:
  assumes "canonicalizeAuthorizationPolicy nt v = Inr c"
  shows "canonicalizeAuthorizationPolicy nt' c = Inr c \<and>
    (\<exists>ver p q. validatePolicySnapshot v ver = Inr p \<and> validatePolicySnapshot c ver = Inr q \<and>
       (\<forall>s r t. may_access q s r t \<longleftrightarrow> may_access p s r t))"
  using canonicalize_idem [OF assms] canonicalize_equivalent [OF assms] by blast

text \<open>
  A version may be called \<open>unavailable\<close>: the publisher accepts it, and then the recorder refuses
  every decision that allows, so nothing can be accessed under that policy.
\<close>

lemma a_policy_called_unavailable_blocks_access:
  "rx_test POLICY_VERSION UNAVAILABLE_VERSION \<and>
   (rec_policyVersion r = UNAVAILABLE_VERSION \<and> rec_allowed r \<longrightarrow> fst (pg_record rt query_ok ids r db) \<noteq> Inr ())"
proof -
  have "rx_test POLICY_VERSION UNAVAILABLE_VERSION" by code_simp
  then show ?thesis by (auto simp: pg_record_def Let_def split: sum.splits)
qed

section \<open>A concrete publication\<close>

definition witness_runtime :: pg_runtime where
  "witness_runtime = \<lparr>pg_number = (\<lambda>_. []), pg_sha256 = (\<lambda>_. replicate 64 CHR ''0''), pg_jsonb = id\<rparr>"

definition witness_core :: authorization_core where
  "witness_core = \<lparr>policy_versions = (\<lambda>_. None), policy_publications = (\<lambda>_. None), current_policy = None,
     decision_records = (\<lambda>_. None)\<rparr>"

definition witness_publish :: publish_command where
  "witness_publish = \<lparr>cmd_contractVersion = JStr ''authorization-policy.v1'', cmd_expectedPreviousVersion = JNull,
     cmd_publicationId = JStr witness_uuid, cmd_publishedAt = JStr ''2026-01-01T00:00:00.000Z'',
     cmd_snapshot = witness_snapshot\<rparr>"

definition witness_policy_json :: jval where
  "witness_policy_json = policy_json (policy_grants witness_validated)
     (map snd (policy_permissions witness_validated)) (map snd (policy_roles witness_validated)) ''v1''"

lemma witness_runtime_ok: "runtime_ok witness_runtime"
proof -
  have "rx_test DIGEST (replicate 64 CHR ''0'')" by code_simp
  moreover have "is_record c" if "canonicalizeAuthorizationPolicy nt v = Inr c" for nt v c
    using that by (rule canonicalize_Inr) (simp add: policy_json_def)
  ultimately show ?thesis by (auto simp: runtime_ok_def witness_runtime_def intro: canonicalize_idem)
qed

lemma witness_canonical: "canonicalizeAuthorizationPolicy nt witness_snapshot = Inr witness_policy_json"
proof -
  have "policyVersion (get witness_snapshot ''version'') = Inr ''v1''" by code_simp
  then show ?thesis
    by (simp add: canonicalizeAuthorizationPolicy_def witness_snapshot_valid)
      (simp add: witness_policy_json_def witness_validated_def policy_json_def canonical_role_def canonical_scope_def
        less_eq_list_code)
qed

lemma witness_publish_valid:
  "validate_publish witness_runtime witness_publish = Inr
     \<lparr>vp_publicationId = witness_uuid, vp_publishedAt = ''2026-01-01T00:00:00.000Z'', vp_expected = JNull,
      vp_snapshot = witness_policy_json, vp_version = ''v1''\<rparr>"
proof -
  have "pg_iso (JStr ''2026-01-01T00:00:00.000Z'') = Inr ''2026-01-01T00:00:00.000Z''"
    using witness_from by (auto simp: pg_iso_def timestamp_def string_of_def result_simps split: if_splits option.splits)
  moreover have "get witness_policy_json ''version'' = JStr ''v1''"
    by (simp add: witness_policy_json_def policy_json_def)
  ultimately show ?thesis
    by (simp add: validate_publish_def witness_publish_def pg_uuid_def witness_uuid_matches witness_canonical
        SUPPORTED_CONTRACT_VERSION_def)
qed

lemma witness_published:
  "\<exists>r db'. pg_publish witness_runtime (\<lambda>_. None) witness_publish witness_core = (Inr r, db') \<and> \<not> replayed r \<and>
     published_version r = ''v1''"
proof -
  have core: "policy_publications witness_core i = None" "policy_versions witness_core v = None"
    "current_policy witness_core = None" for i v
    by (simp_all add: witness_core_def)
  have "pg_jsonb witness_runtime v = v" for v by (simp add: witness_runtime_def)
  with canonicalize_idem [OF witness_canonical] show ?thesis
    by (simp add: pg_publish_def witness_publish_valid publish_transaction_def Let_def sql_def core expected_holds_def)
qed

lemma publication_is_atomic_and_idempotent_witness:
  "case pg_publish witness_runtime (\<lambda>_. None) witness_publish witness_core of
     (Inl e, db') \<Rightarrow> db' = witness_core
   | (Inr r, db') \<Rightarrow> pg_publish witness_runtime (\<lambda>_. None) witness_publish db' = (Inr (r\<lparr>replayed := True\<rparr>), db')"
  by (rule publication_is_atomic_and_idempotent [OF witness_runtime_ok])

lemma a_publication_becomes_current_witness:
  "\<exists>r db'. pg_publish witness_runtime (\<lambda>_. None) witness_publish witness_core = (Inr r, db') \<and>
     pg_currentVersion True db' = Inr ''v1''"
proof -
  obtain r db' where r: "pg_publish witness_runtime (\<lambda>_. None) witness_publish witness_core = (Inr r, db')"
      "\<not> replayed r" "published_version r = ''v1''"
    using witness_published by blast
  from a_publication_becomes_current [OF witness_runtime_ok r(1,2)] r show ?thesis by auto
qed

lemma canonical_policy_is_stable_and_equivalent_witness:
  "\<exists>c. canonicalizeAuthorizationPolicy (pg_number witness_runtime) c = Inr c"
  using canonical_policy_is_stable_and_equivalent [OF witness_canonical [of "pg_number witness_runtime"]] by blast

end
