(* ===== verification/Authz_Publication.thy ===== *)
theory Authz_Publication
  imports Authz_Persistence
begin

text \<open>
  \<open>packages/platform-modules/authorization/src/policy-publication.ts\<close>: the protected publisher, which
  validates a command, has it authorised, publishes it and leaves an audit record of every outcome;
  and \<open>platform-baseline.ts\<close>, the first policy of a platform.

  The three ports (authorizer, publisher, audit) answer each at most once in a call: their answers are
  arguments. \<open>publish_policy\<close> returns the list of calls made on the ports in order, and the outcome.
  Accessors, symbols, holes in arrays, shared references and own members called \<open>__proto__\<close> are
  not represented in \<^typ>\<open>jval\<close>; \<open>bindMethod\<close>, which finds the ports' methods, has no
  counterpart.
\<close>

section \<open>Reading commands\<close>

definition actor_id_rx :: rx where
  "actor_id_rx = Seq (Cls cls_alnum) (rx_upto 0 254 (Cls (cls_alnum @ chars_of ''._:@-'')))"

definition reason_code_rx :: rx where
  "reason_code_rx = Seq (Cls cls_lower) (rx_upto 0 63 (Cls (cls_lower @ cls_digit @ chars_of ''_'')))"

abbreviation invalid_command :: "persistence_code + 'a" where
  "invalid_command \<equiv> Inl Authorization_policy_invalid"

abbreviation demand :: "bool \<Rightarrow> persistence_code + unit" where
  "demand b \<equiv> check b Authorization_policy_invalid"

fun snapshotData :: "nat \<Rightarrow> jval \<Rightarrow> persistence_code + jval" where
  "snapshotData depth JNull = Inr JNull"
| "snapshotData depth (JStr s) = Inr (JStr s)"
| "snapshotData depth (JBool b) = Inr (JBool b)"
| "snapshotData depth (JNum n) = (if is_finite n then Inr (JNum n) else invalid_command)"
| "snapshotData depth JUndef = invalid_command"
| "snapshotData depth (JArr xs) = (if 32 < depth then invalid_command
     else bindR (mapR (snapshotData (Suc depth)) xs) (\<lambda>ys. Inr (JArr ys)))"
| "snapshotData depth (JObj ps) = (if 32 < depth then invalid_command
     else bindR (mapR (\<lambda>p. bindR (snapshotData (Suc depth) (snd p)) (\<lambda>v. Inr (fst p, v))) ps) (\<lambda>qs. Inr (JObj qs)))"

definition exactRecord :: "jval \<Rightarrow> string list \<Rightarrow> string list \<Rightarrow> persistence_code + jval" where
  "exactRecord v required optional =
     bindR (demand (is_record v \<and> list_all (\<lambda>k. k \<in> set (keys v)) required \<and>
        list_all (\<lambda>k. k \<in> set (required @ optional)) (keys v))) (\<lambda>_. Inr v)"

definition cmd_uuid :: "jval \<Rightarrow> persistence_code + string" where
  "cmd_uuid v = pg_uuid v Authorization_policy_invalid"

definition cmd_subject :: "jval \<Rightarrow> persistence_code + subject_context" where
  "cmd_subject v =
     bindR (exactRecord v [''activeAssignmentIds'', ''workforcePersonId''] [''selectedAssignmentId'']) (\<lambda>input.
     case get input ''activeAssignmentIds'' of
       JArr raw \<Rightarrow>
         bindR (mapR cmd_uuid raw) (\<lambda>ids.
         bindR (demand (length ids \<le> 128 \<and> distinct ids)) (\<lambda>_.
         bindR (if get input ''selectedAssignmentId'' = JUndef then Inr None
                else bindR (cmd_uuid (get input ''selectedAssignmentId'')) (\<lambda>i. Inr (Some i))) (\<lambda>selected.
         bindR (demand (opt_all (\<lambda>i. i \<in> set ids) selected)) (\<lambda>_.
         bindR (cmd_uuid (get input ''workforcePersonId'')) (\<lambda>person.
           Inr \<lparr>activeAssignmentIds = ids, selectedAssignmentId = selected, workforcePersonId = person\<rparr>)))))
     | _ \<Rightarrow> invalid_command)"

record publication_actor =
  pa_actorId :: string
  pa_subject :: subject_context

definition cmd_actor :: "jval \<Rightarrow> persistence_code + publication_actor" where
  "cmd_actor v =
     bindR (exactRecord v [''actorId'', ''actorType'', ''subject''] []) (\<lambda>input.
     case get input ''actorId'' of
       JStr i \<Rightarrow>
         bindR (demand (get input ''actorType'' = JStr ''authenticated_subject'' \<and> rx_test actor_id_rx i)) (\<lambda>_.
         bindR (cmd_subject (get input ''subject'')) (\<lambda>s. Inr \<lparr>pa_actorId = i, pa_subject = s\<rparr>))
     | _ \<Rightarrow> invalid_command)"

definition permission_of_options :: "jval \<Rightarrow> persistence_code + permission_request" where
  "permission_of_options v =
     bindR (exactRecord v [''action'', ''resource''] [''resourceContext'']) (\<lambda>input.
     case (get input ''resource'', get input ''action'') of
       (JStr r, JStr a) \<Rightarrow>
         if 128 < length r \<or> \<not> rx_test IDENTIFIER r \<or> 64 < length a \<or> \<not> rx_test ACTION a \<or>
            get input ''resourceContext'' \<noteq> JUndef
         then invalid_command
         else Inr \<lparr>req_action = a, req_resource = r, resourceContext = None\<rparr>
     | _ \<Rightarrow> invalid_command)"

record audit_operation_ids =
  authorizationDenied :: string
  authorizationFailed :: string
  publicationFailed :: string

record protected_command =
  pc_actor :: publication_actor
  pc_auditOperationIds :: audit_operation_ids
  pc_expectedPreviousVersion :: jval
  pc_operationId :: string
  pc_publicationId :: string
  pc_publishedAt :: string
  pc_reason :: string
  pc_snapshot :: jval
  pc_traceId :: string

definition iso_string :: "jval \<Rightarrow> persistence_code + string" where
  "iso_string v = pg_iso v"

definition text_matching :: "jval \<Rightarrow> (string \<Rightarrow> bool) \<Rightarrow> persistence_code + string" where
  "text_matching v P = (case v of JStr s \<Rightarrow> if P s then Inr s else invalid_command | _ \<Rightarrow> invalid_command)"

definition protected_command_of :: "(jnum \<Rightarrow> string) \<Rightarrow> jval \<Rightarrow> persistence_code + protected_command" where
  "protected_command_of nt v =
     bindR (exactRecord v [''actor'', ''auditOperationIds'', ''contractVersion'', ''operationId'', ''publicationId'',
       ''publishedAt'', ''reason'', ''snapshot'', ''traceId''] [''expectedPreviousVersion'']) (\<lambda>input.
     bindR (exactRecord (get input ''auditOperationIds'')
       [''authorizationDenied'', ''authorizationFailed'', ''publicationFailed''] []) (\<lambda>ids.
     bindR (exactRecord (get input ''reason'') [''code''] []) (\<lambda>reason.
     bindR (demand (get input ''contractVersion'' = JStr ''authorization-policy.v1'')) (\<lambda>_.
     bindR (text_matching (get input ''traceId'') is_trace_id) (\<lambda>trace.
     bindR (iso_string (get input ''publishedAt'')) (\<lambda>publishedAt.
     bindR (text_matching (get reason ''code'') (rx_test reason_code_rx)) (\<lambda>code.
     bindR (bindR (snapshotData 0 (get input ''snapshot'')) (canonicalizeAuthorizationPolicy nt)) (\<lambda>snapshot.
     bindR (demand (get input ''expectedPreviousVersion'' = JUndef \<or> get input ''expectedPreviousVersion'' = JNull \<or>
        (\<exists>s \<in> set_option (str_of (get input ''expectedPreviousVersion'')). rx_test POLICY_VERSION s))) (\<lambda>_.
     bindR (cmd_uuid (get input ''operationId'')) (\<lambda>operationId.
     bindR (cmd_uuid (get ids ''authorizationDenied'')) (\<lambda>denied.
     bindR (cmd_uuid (get ids ''authorizationFailed'')) (\<lambda>failed.
     bindR (cmd_uuid (get ids ''publicationFailed'')) (\<lambda>pfailed.
     bindR (demand (distinct [operationId, denied, failed, pfailed])) (\<lambda>_.
     bindR (cmd_actor (get input ''actor'')) (\<lambda>actor.
     bindR (cmd_uuid (get input ''publicationId'')) (\<lambda>publicationId.
       Inr \<lparr>pc_actor = actor, pc_auditOperationIds = \<lparr>authorizationDenied = denied, authorizationFailed = failed,
              publicationFailed = pfailed\<rparr>, pc_expectedPreviousVersion = get input ''expectedPreviousVersion'',
            pc_operationId = operationId, pc_publicationId = publicationId, pc_publishedAt = publishedAt,
            pc_reason = code, pc_snapshot = snapshot, pc_traceId = trace\<rparr>))))))))))))))))"

text \<open>\<open>None\<close> when \<open>allowedDecision\<close> throws.\<close>

definition allowedDecision :: "jval \<Rightarrow> decision option" where
  "allowedDecision v =
     (case (exactRecord v [''allowed'', ''decisionId'', ''evaluatedAt'', ''policyVersion'', ''reason''] [],
            get v ''decisionId'', pg_iso (get v ''evaluatedAt''), get v ''policyVersion'') of
        (Inr _, JStr i, Inr evaluated, JStr ver) \<Rightarrow>
          if get v ''allowed'' = JBool True \<and> get v ''reason'' = JStr ''allowed'' \<and> rx_test UUID_I i \<and>
             rx_test POLICY_VERSION ver
          then Some \<lparr>decision_allowed = True, decisionId = to_lower i, evaluatedAt = evaluated,
                  decision_policyVersion = ver, decision_reason = Allowed\<rparr>
          else None
      | _ \<Rightarrow> None)"

section \<open>Publishing with an audit trail\<close>

datatype audit_stage = Authorization_stage | Publication_stage
datatype audit_result = Audit_denied | Audit_failed | Audit_succeeded

record policy_audit =
  aud_actorId :: string
  aud_assignmentId :: "string option"
  aud_workforcePersonId :: string
  aud_auditOperationId :: string
  aud_decisionId :: "string option"
  aud_managementOperationId :: string
  aud_policyVersion :: string
  aud_publicationId :: string
  aud_reason :: string
  aud_result :: audit_result
  aud_stage :: audit_stage
  aud_traceId :: string

definition auditRecord ::
    "protected_command \<Rightarrow> string \<Rightarrow> audit_stage \<Rightarrow> audit_result \<Rightarrow> string option \<Rightarrow> policy_audit" where
  "auditRecord c operation stage result decision =
     \<lparr>aud_actorId = pa_actorId (pc_actor c), aud_assignmentId = selectedAssignmentId (pa_subject (pc_actor c)),
      aud_workforcePersonId = workforcePersonId (pa_subject (pc_actor c)), aud_auditOperationId = operation,
      aud_decisionId = map_option to_lower decision, aud_managementOperationId = pc_operationId c,
      aud_policyVersion = the (str_of (get (pc_snapshot c) ''version'')), aud_publicationId = pc_publicationId c,
      aud_reason = pc_reason c, aud_result = result, aud_stage = stage, aud_traceId = pc_traceId c\<rparr>"

datatype authorize_answer = Authorize_denied string | Authorize_failed | Authorize_returns jval

datatype publish_error =
    Publish_persistence persistence_code
  | Publish_denied string
  | Publish_unavailable
  | Publish_other

datatype port_call =
    Authorize_called subject_context permission_request string string
  | Publish_called protected_command
  | Audit_called policy_audit

text \<open>\<open>accepts\<close> says which records the audit port accepts.\<close>

definition with_audit ::
    "(policy_audit \<Rightarrow> bool) \<Rightarrow> policy_audit \<Rightarrow> publish_error + 'a \<Rightarrow> port_call list \<times> (publish_error + 'a)" where
  "with_audit accepts rec outcome = ([Audit_called rec], if accepts rec then outcome else Inl Publish_unavailable)"

definition authorize_step ::
    "(policy_audit \<Rightarrow> bool) \<Rightarrow> protected_command \<Rightarrow> authorize_answer \<Rightarrow> port_call list \<times> (publish_error + decision)" where
  "authorize_step accepts c answer =
     (let failed = with_audit accepts (auditRecord c (authorizationFailed (pc_auditOperationIds c))
            Authorization_stage Audit_failed None) (Inl Publish_unavailable)
      in case answer of
        Authorize_denied i \<Rightarrow>
          if \<not> rx_test UUID_I i then failed
          else with_audit accepts (auditRecord c (authorizationDenied (pc_auditOperationIds c))
                 Authorization_stage Audit_denied (Some i)) (Inl (Publish_denied i))
      | Authorize_failed \<Rightarrow> failed
      | Authorize_returns v \<Rightarrow> (case allowedDecision v of None \<Rightarrow> failed | Some d \<Rightarrow> ([], Inr d)))"

definition publish_step ::
    "(policy_audit \<Rightarrow> bool) \<Rightarrow> protected_command \<Rightarrow> decision \<Rightarrow> publish_error + 'p \<Rightarrow> port_call list \<times> (publish_error + 'p)" where
  "publish_step accepts c d answer =
     (let failed = auditRecord c (publicationFailed (pc_auditOperationIds c)) Publication_stage Audit_failed
            (Some (decisionId d))
      in case answer of
        Inr p \<Rightarrow> with_audit accepts (auditRecord c (pc_operationId c) Publication_stage Audit_succeeded
            (Some (decisionId d))) (Inr p)
      | Inl Publish_unavailable \<Rightarrow> ([], Inl Publish_unavailable)
      | Inl (Publish_persistence code) \<Rightarrow> with_audit accepts failed (Inl (Publish_persistence code))
      | Inl _ \<Rightarrow> with_audit accepts failed (Inl Publish_unavailable))"

definition publish_policy ::
    "(jnum \<Rightarrow> string) \<Rightarrow> permission_request \<Rightarrow> (policy_audit \<Rightarrow> bool)
     \<Rightarrow> (subject_context \<Rightarrow> permission_request \<Rightarrow> authorize_answer) \<Rightarrow> (protected_command \<Rightarrow> publish_error + 'p)
     \<Rightarrow> jval \<Rightarrow> port_call list \<times> (publish_error + 'p)" where
  "publish_policy nt permission accepts authorize publish input = (case protected_command_of nt input of
     Inl code \<Rightarrow> ([], Inl (Publish_persistence code))
   | Inr c \<Rightarrow>
       (let s = pa_subject (pc_actor c);
            call = Authorize_called s permission (pc_operationId c) (pc_traceId c)
        in case authorize_step accepts c (authorize s permission) of
             (calls, Inl e) \<Rightarrow> (call # calls, Inl e)
           | (calls, Inr d) \<Rightarrow> (case publish_step accepts c d (publish c) of
               (calls', outcome) \<Rightarrow> (call # calls @ Publish_called c # calls', outcome))))"

definition audits :: "port_call list \<Rightarrow> policy_audit list" where
  "audits calls = List.map_filter (\<lambda>c. case c of Audit_called r \<Rightarrow> Some r | _ \<Rightarrow> None) calls"

lemma audits_simps [simp]:
  "audits [] = []" "audits (Audit_called r # cs) = r # audits cs"
  "audits (Publish_called c # cs) = audits cs" "audits (Authorize_called s p i t # cs) = audits cs"
  by (simp_all add: audits_def map_filter_def)

lemma authorize_step_Inr:
  "authorize_step accepts c answer = (calls, Inr d) \<Longrightarrow>
     calls = [] \<and> (\<exists>v. answer = Authorize_returns v \<and> allowedDecision v = Some d)"
  by (auto simp: authorize_step_def with_audit_def Let_def split: authorize_answer.splits option.splits if_splits)

lemma authorize_step_Inl:
  "authorize_step accepts c answer = (calls, Inl e) \<Longrightarrow> \<exists>rec. calls = [Audit_called rec] \<and>
     aud_stage rec = Authorization_stage \<and>
     (e = Publish_unavailable \<and> (accepts rec \<longrightarrow> aud_result rec = Audit_failed) \<or> (\<exists>i. e = Publish_denied i \<and> answer = Authorize_denied i \<and> accepts rec \<and>
        aud_result rec = Audit_denied \<and> aud_decisionId rec = Some (to_lower i)))"
  by (auto simp: authorize_step_def with_audit_def auditRecord_def Let_def
      split: authorize_answer.splits option.splits if_splits)

lemma publish_step_cases:
  assumes "publish_step accepts c d answer = (calls, outcome)"
  shows "calls = [] \<and> answer = Inl Publish_unavailable \<and> outcome = Inl Publish_unavailable \<or>
    (\<exists>rec. calls = [Audit_called rec] \<and> aud_stage rec = Publication_stage \<and>
       aud_decisionId rec = Some (to_lower (decisionId d)) \<and>
       aud_result rec = (case answer of Inr _ \<Rightarrow> Audit_succeeded | Inl _ \<Rightarrow> Audit_failed) \<and>
       (outcome = Inl Publish_unavailable \<and> (accepts rec \<longrightarrow> aud_result rec = Audit_failed) \<or> accepts rec \<and>
         (outcome = answer \<and> ((\<exists>p. answer = Inr p) \<or> (\<exists>code. answer = Inl (Publish_persistence code))))))"
  using assms
  by (auto simp: publish_step_def with_audit_def auditRecord_def Let_def
      split: sum.splits publish_error.splits if_splits)

lemma publish_policy_cases:
  assumes "publish_policy nt permission accepts authorize publish input = (calls, outcome)"
  obtains (rejected) code where "protected_command_of nt input = Inl code" "calls = []"
      "outcome = Inl (Publish_persistence code)"
  | (refused) c calls' e where "protected_command_of nt input = Inr c"
      "authorize_step accepts c (authorize (pa_subject (pc_actor c)) permission) = (calls', Inl e)"
      "calls = Authorize_called (pa_subject (pc_actor c)) permission (pc_operationId c) (pc_traceId c) # calls'"
      "outcome = Inl e"
  | (tried) c d v calls' where "protected_command_of nt input = Inr c"
      "authorize (pa_subject (pc_actor c)) permission = Authorize_returns v" "allowedDecision v = Some d"
      "publish_step accepts c d (publish c) = (calls', outcome)"
      "calls = Authorize_called (pa_subject (pc_actor c)) permission (pc_operationId c) (pc_traceId c) #
         Publish_called c # calls'"
proof (cases "protected_command_of nt input")
  case (Inl code)
  with assms show thesis by (intro rejected) (auto simp: publish_policy_def)
next
  case (Inr c)
  note c = Inr
  obtain cs result where auth: "authorize_step accepts c (authorize (pa_subject (pc_actor c)) permission) = (cs, result)"
    by (cases "authorize_step accepts c (authorize (pa_subject (pc_actor c)) permission)")
  show thesis
  proof (cases result)
    case (Inl e)
    with auth c assms show thesis by (intro refused [of c cs e]) (auto simp: publish_policy_def Let_def)
  next
    case (Inr d)
    with auth authorize_step_Inr obtain v where "cs = []" and
        v: "authorize (pa_subject (pc_actor c)) permission = Authorize_returns v" "allowedDecision v = Some d"
      by blast
    with auth Inr c assms show thesis
      by (cases "publish_step accepts c d (publish c)")
        (intro tried [OF c v], auto simp: publish_policy_def Let_def)
  qed
qed


section \<open>The authorizer\<close>

text \<open>What the publisher relies on: a decision that allows is only returned where access is permitted.\<close>

locale publication_authorizer =
  fixes authorize :: "subject_context \<Rightarrow> permission_request \<Rightarrow> authorize_answer"
    and permits :: "subject_context \<Rightarrow> permission_request \<Rightarrow> bool"
  assumes returns_only_permitted:
    "authorize s r = Authorize_returns v \<Longrightarrow> allowedDecision v = Some d \<Longrightarrow> permits s r"
begin

lemma published_only_if_permitted:
  assumes "publish_policy nt permission accepts authorize publish input = (calls, outcome)" "Publish_called c \<in> set calls"
  shows "protected_command_of nt input = Inr c \<and> permits (pa_subject (pc_actor c)) permission"
  using assms(1)
proof (cases rule: publish_policy_cases)
  case (refused c' calls' e)
  with assms(2) authorize_step_Inl [OF refused(2)] show ?thesis by auto
next
  case (tried c' d v calls')
  have "c = c'" using assms(2) publish_step_cases [OF tried(4)] tried(5) by auto
  with tried returns_only_permitted show ?thesis by blast
qed (use assms(2) in simp)

end

text \<open>The engine as the authorizer of a call during which its dependencies answer as \<open>env\<close> says.\<close>

definition subject_json :: "subject_context \<Rightarrow> jval" where
  "subject_json s = JObj ([(''activeAssignmentIds'', JArr (map JStr (activeAssignmentIds s)))] @
     (case selectedAssignmentId s of None \<Rightarrow> [] | Some i \<Rightarrow> [(''selectedAssignmentId'', JStr i)]) @
     [(''workforcePersonId'', JStr (workforcePersonId s))])"

definition request_json :: "permission_request \<Rightarrow> jval" where
  "request_json r = JObj [(''action'', JStr (req_action r)), (''resource'', JStr (req_resource r))]"

definition decision_json :: "decision \<Rightarrow> jval" where
  "decision_json d = JObj [(''allowed'', JBool (decision_allowed d)), (''decisionId'', JStr (decisionId d)),
     (''evaluatedAt'', JStr (evaluatedAt d)), (''policyVersion'', JStr (decision_policyVersion d)),
     (''reason'', JStr (reason_text (decision_reason d)))]"

definition engine_authorize ::
    "engine_options \<Rightarrow> engine_env \<Rightarrow> subject_context \<Rightarrow> permission_request \<Rightarrow> authorize_answer" where
  "engine_authorize opts env s r = (case snd (requireAllowed opts env (subject_json s) (request_json r)) of
     Inl (AuthorizationDenied i) \<Rightarrow> Authorize_denied i
   | Inl _ \<Rightarrow> Authorize_failed
   | Inr d \<Rightarrow> Authorize_returns (decision_json d))"

definition engine_permits :: "engine_env \<Rightarrow> subject_context \<Rightarrow> permission_request \<Rightarrow> bool" where
  "engine_permits env s r \<longleftrightarrow> (\<exists>t s' r' version p. env_clock env = Some t \<and>
     validateSubjectContext (subject_json s) = Some s' \<and> validatePermissionRequest (request_json r) = Some r' \<and>
     load_policy env = Inr (version, p) \<and> may_access p s' r' t)"

interpretation engine: publication_authorizer "engine_authorize opts env" "engine_permits env" for opts env
proof
  fix s r v d
  assume "engine_authorize opts env s r = Authorize_returns v" "allowedDecision v = Some d"
  then obtain effs e sc where e: "decide opts env (subject_json s) (request_json r) Check_permission = (effs, Inr (e, sc))"
      "decision_allowed e"
    by (auto simp: engine_authorize_def requireAllowed_def result_simps split: sum.splits authz_error.splits if_splits prod.splits)
  from decide_Inr [OF e(1)] e(2) load_policy_version allowed_may_access show "engine_permits env s r"
    by (fastforce simp: engine_permits_def evaluationOperation_def)
qed

text \<open>
  Publication is guarded by the policy in force: when the protected publisher, with the engine as
  its authorizer, hands a command to the publisher, that command is the validated form of the input and
  the policy that was current at that instant permitted the actor to publish.
\<close>

theorem publication_needs_the_engines_permission:
  assumes "publish_policy nt permission accepts (engine_authorize opts env) publish input = (calls, outcome)"
    and "Publish_called c \<in> set calls"
  shows "protected_command_of nt input = Inr c \<and> engine_permits env (pa_subject (pc_actor c)) permission"
  using assms by (rule engine.published_only_if_permitted)

section \<open>The platform baseline\<close>

record baseline_input =
  bl_assignmentId :: string
  bl_catalog :: "permission_declaration list"
  bl_grantId :: string
  bl_managementCatalog :: "permission_declaration list"
  bl_roleId :: string
  bl_validFrom :: string
  bl_version :: string

definition baseline_snapshot :: "baseline_input \<Rightarrow> jval" where
  "baseline_snapshot i = (let declarations = bl_catalog i @ bl_managementCatalog i in
     if declarations = [] then
       JObj [(''grants'', JArr []), (''permissions'', JArr []), (''roles'', JArr []), (''version'', JStr (bl_version i))]
     else JObj
       [(''grants'', JArr [JObj [(''grantId'', JStr (bl_grantId i)), (''roleId'', JStr (bl_roleId i)),
          (''subject'', JObj [(''assignmentId'', JStr (bl_assignmentId i)), (''kind'', JStr ''assignment'')]),
          (''validFrom'', JStr (bl_validFrom i))]]),
        (''permissions'', JArr (map permission_value declarations)),
        (''roles'', JArr [JObj
          [(''permissions'', JArr (map (\<lambda>d. JObj [(''permissionCode'', JStr (perm_code d)),
              (''scope'', JObj [(''terms'', JArr [JObj [(''kind'', JStr ''all'')]]), (''version'', JNum (Num 1))])])
              declarations)),
           (''roleId'', JStr (bl_roleId i))]]),
        (''version'', JStr (bl_version i))])"

definition createPlatformBaselineAuthorizationPolicy :: "(jnum \<Rightarrow> string) \<Rightarrow> baseline_input \<Rightarrow> persistence_code + jval" where
  "createPlatformBaselineAuthorizationPolicy nt i = canonicalizeAuthorizationPolicy nt (baseline_snapshot i)"

lemma foldR_appends:
  assumes "foldR f xs s = Inr s'" "\<And>x s s'. f x s = Inr s' \<Longrightarrow> \<exists>y. R x y \<and> \<pi> s' = \<pi> s @ [y]"
  shows "\<exists>ys. \<pi> s' = \<pi> s @ ys \<and> list_all2 R xs ys"
  using assms(1)
proof (induction xs arbitrary: s)
  case (Cons x xs)
  then obtain s1 where "f x s = Inr s1" "foldR f xs s1 = Inr s'" by (auto simp: result_simps)
  with Cons.IH assms(2) show ?case by (metis append.assoc append_Cons append_Nil list_all2_Cons)
qed simp

lemma list_all2_ex: "list_all2 R xs ys \<Longrightarrow> x \<in> set xs \<Longrightarrow> \<exists>y \<in> set ys. R x y"
  by (induction rule: list_all2_induct) auto

lemma list_all2_ex2: "list_all2 R xs ys \<Longrightarrow> y \<in> set ys \<Longrightarrow> \<exists>x \<in> set xs. R x y"
  by (induction rule: list_all2_induct) auto

lemma permission_entry_declared:
  assumes "permission_entry e acc = Inr acc'"
  shows "\<exists>y. (fst y = perm_code (snd y) \<and> get e ''code'' = JStr (perm_code (snd y)) \<and>
      (\<forall>ds. get e ''scopeDimensions'' = JArr (map JStr ds) \<longrightarrow> set (scopeDimensions (snd y)) = set ds)) \<and>
    fst acc' = fst acc @ [y]"
proof -
  from assms obtain r a dims where d: "get e ''code'' = JStr (r @ '':'' @ a)" "map_of (fst acc) (r @ '':'' @ a) = None"
      "uniqueStrings (get e ''scopeDimensions'') IDENTIFIER 32 128 = Inr dims"
      "fst acc' = AList.update (r @ '':'' @ a) \<lparr>perm_action = a, perm_code = r @ '':'' @ a, perm_resource = r,
         scopeDimensions = dims\<rparr> (fst acc)"
    by (auto simp: permission_entry_def result_simps string_of_Inr)
  have "set dims = set ds" if "get e ''scopeDimensions'' = JArr (map JStr ds)" for ds
  proof -
    from d(3) [unfolded that] obtain result where
      "mapR (\<lambda>e. string_of e IDENTIFIER 128) (map JStr ds) = Inr result" "dims = sort result"
      by (auto simp: uniqueStrings_def result_simps)
    moreover from this(1) have "result = ds"
      by (induction ds arbitrary: result) (auto simp: result_simps string_of_Inr)
    ultimately show ?thesis by simp
  qed
  with d show ?thesis by (auto simp: update_fresh)
qed

lemma binding_entry_bound:
  assumes "binding_entry ps (JObj [(''permissionCode'', JStr code), (''scope'', v)]) bs = Inr bs'"
    and "\<And>dims. normalizeScope v dims = Inr [All_records]"
  shows "bs' = bs @ [\<lparr>permissionCode = code, binding_scope = [All_records]\<rparr>]"
  using assms by (auto simp: binding_entry_def result_simps string_of_Inr split: option.splits)

lemma all_scope_normal: "normalizeScope (JObj [(''terms'', JArr [JObj [(''kind'', JStr ''all'')]]), (''version'', JNum (Num 1))]) dims =
    Inr [All_records]"
  using normalizeScope_value [of dims "[All_records]"]
  by (simp add: normalizeScope_def normalize_term_def exactKeys_def)

lemma bindings_bound:
  assumes "\<And>dims. normalizeScope v dims = Inr [All_records]"
  shows "foldR (binding_entry ps) (map (\<lambda>d. JObj [(''permissionCode'', JStr (perm_code d)), (''scope'', v)]) ds) bs0 = Inr bs \<Longrightarrow>
    bs = bs0 @ map (\<lambda>d. \<lparr>permissionCode = perm_code d, binding_scope = [All_records]\<rparr>) ds"
proof (induction ds arbitrary: bs0)
  case (Cons d ds)
  then obtain bs1 where "binding_entry ps (JObj [(''permissionCode'', JStr (perm_code d)), (''scope'', v)]) bs0 = Inr bs1"
      "foldR (binding_entry ps) (map (\<lambda>d. JObj [(''permissionCode'', JStr (perm_code d)), (''scope'', v)]) ds) bs1 = Inr bs"
    by (auto simp: result_simps)
  from Cons.IH [OF this(2)] binding_entry_bound [OF this(1) assms] show ?case by simp
qed simp

lemma baseline_policy:
  assumes "validatePolicySnapshot (baseline_snapshot i) ver = Inr p" "bl_catalog i @ bl_managementCatalog i \<noteq> []"
  obtains from' where "timestamp (JStr (bl_validFrom i)) = Inr from'"
    "\<And>s code t sc. granted_scope p s code t sc \<longleftrightarrow> from' \<le> t \<and>
       selectedAssignmentId s = Some (to_lower (bl_assignmentId i)) \<and> sc = [All_records] \<and>
       code \<in> perm_code ` set (bl_catalog i @ bl_managementCatalog i)"
    "\<And>code. (map_of (policy_permissions p) code = None \<longleftrightarrow>
         code \<notin> perm_code ` set (bl_catalog i @ bl_managementCatalog i)) \<and>
       (\<forall>d \<in> set (bl_catalog i @ bl_managementCatalog i). perm_code d = code \<longrightarrow>
          (\<exists>d'. map_of (policy_permissions p) code = Some d' \<and> set (scopeDimensions d') = set (scopeDimensions d)))"
proof -
  let ?ds = "bl_catalog i @ bl_managementCatalog i"
  let ?all = "JObj [(''terms'', JArr [JObj [(''kind'', JStr ''all'')]]), (''version'', JNum (Num 1))]"
  let ?bindings = "map (\<lambda>d. JObj [(''permissionCode'', JStr (perm_code d)), (''scope'', ?all)]) ?ds"
  let ?role = "JObj [(''permissions'', JArr ?bindings), (''roleId'', JStr (bl_roleId i))]"
  let ?grant = "JObj [(''grantId'', JStr (bl_grantId i)), (''roleId'', JStr (bl_roleId i)),
          (''subject'', JObj [(''assignmentId'', JStr (bl_assignmentId i)), (''kind'', JStr ''assignment'')]),
          (''validFrom'', JStr (bl_validFrom i))]"
  have snap: "baseline_snapshot i = JObj [(''grants'', JArr [?grant]), (''permissions'', JArr (map permission_value ?ds)),
      (''roles'', JArr [?role]), (''version'', JStr (bl_version i))]"
    using assms(2) by (simp add: baseline_snapshot_def Let_def)
  from assms(1) obtain S where
    ps: "foldR permission_entry (map permission_value ?ds) ([], {}) = Inr (policy_permissions p, S)" and
    rs: "role_entry (policy_permissions p) ?role [] = Inr (policy_roles p)" and
    gs: "grant_entry (policy_roles p) ?grant [] = Inr (policy_grants p)"
    unfolding snap by (auto simp: validatePolicySnapshot_def array_upto_def result_simps split: if_splits simp del: map_append)
  let ?R = "\<lambda>e y. fst y = perm_code (snd y) \<and> get e ''code'' = JStr (perm_code (snd y)) \<and>
      (\<forall>ds. get e ''scopeDimensions'' = JArr (map JStr ds) \<longrightarrow> set (scopeDimensions (snd y)) = set ds)"
  have perms: "list_all2 ?R (map permission_value ?ds) (policy_permissions p)"
    using foldR_appends [OF ps, of ?R fst] permission_entry_declared by fastforce
  have declared: "list_all2 (\<lambda>d y. fst y = perm_code (snd y) \<and> perm_code (snd y) = perm_code d \<and>
      set (scopeDimensions (snd y)) = set (scopeDimensions d)) ?ds (policy_permissions p)"
    using perms unfolding list_all2_map1 by (rule list_all2_mono) (auto simp: permission_value_def)
  from rs obtain rid bs where bs: "foldR (binding_entry (policy_permissions p)) ?bindings [] = Inr bs"
    and role: "[(rid, \<lparr>role_permissions = bs, role_roleId = rid\<rparr>)] = policy_roles p"
    by (auto simp: role_entry_def result_simps simp del: map_append)
  have bs': "bs = map (\<lambda>d. \<lparr>permissionCode = perm_code d, binding_scope = [All_records]\<rparr>) ?ds"
    using bindings_bound [OF all_scope_normal bs] by simp
  from gs obtain gid from' where grant: "[\<lparr>grantId = gid, grant_roleId = rid,
      grant_subject = Assignment_subject (to_lower (bl_assignmentId i)), validFrom = from', validTo = None\<rparr>] = policy_grants p"
    and from': "timestamp (JStr (bl_validFrom i)) = Inr from'"
    by (auto simp: grant_entry_def grant_subject_of_def result_simps role [symmetric] uuid_def string_of_Inr split: if_splits)
  have "granted_scope p s code t sc \<longleftrightarrow> from' \<le> t \<and> selectedAssignmentId s = Some (to_lower (bl_assignmentId i)) \<and>
      sc = [All_records] \<and> code \<in> perm_code ` set ?ds" for s code t sc
    by (auto simp: granted_scope_def grant [symmetric] role [symmetric] bs')
  moreover have "map_of (policy_permissions p) code = None \<longleftrightarrow> code \<notin> perm_code ` set ?ds" for code
  proof -
    have "fst ` set (policy_permissions p) = perm_code ` set ?ds"
    proof
      show "fst ` set (policy_permissions p) \<subseteq> perm_code ` set ?ds"
        using list_all2_ex2 [OF declared] by fastforce
      show "perm_code ` set ?ds \<subseteq> fst ` set (policy_permissions p)"
      proof
        fix k assume "k \<in> perm_code ` set ?ds"
        then obtain d where "d \<in> set ?ds" "k = perm_code d" by blast
        with list_all2_ex [OF declared this(1)] show "k \<in> fst ` set (policy_permissions p)" by force
      qed
    qed
    then show ?thesis by (simp add: map_of_eq_None_iff)
  qed
  moreover have "\<exists>d'. map_of (policy_permissions p) (perm_code d) = Some d' \<and>
      set (scopeDimensions d') = set (scopeDimensions d)" if "d \<in> set ?ds" for d
  proof -
    from list_all2_ex [OF declared that] obtain y where "y \<in> set (policy_permissions p)" "fst y = perm_code d"
        "set (scopeDimensions (snd y)) = set (scopeDimensions d)" by auto
    moreover have "distinct (map fst (policy_permissions p))"
      using validated_snapshot_wf [OF assms(1)] by (simp add: wf_policy_def)
    ultimately show ?thesis by (metis map_of_is_SomeI prod.collapse)
  qed
  ultimately show thesis using that [OF from'] by blast
qed

text \<open>
  The baseline policy of a platform says exactly what its catalogs say: it gives the named
  assignment, from the given instant on, unrestricted access to every catalogued permission (a request must
  still name the declared scope dimensions), and nobody else anything.
\<close>

theorem baseline_grants_exactly_the_catalog:
  assumes "createPlatformBaselineAuthorizationPolicy nt i = Inr c"
  shows "\<exists>q from'. validatePolicySnapshot c (bl_version i) = Inr q \<and> timestamp (JStr (bl_validFrom i)) = Inr from' \<and>
    (\<forall>s r t. may_access q s r t \<longleftrightarrow> from' \<le> t \<and> selectedAssignmentId s = Some (to_lower (bl_assignmentId i)) \<and>
       (\<exists>d \<in> set (bl_catalog i @ bl_managementCatalog i). perm_code d = permission_code_of r \<and>
          (case resourceContext r of None \<Rightarrow> scopeDimensions d = []
           | Some ctx \<Rightarrow> set (map fst ctx) = set (scopeDimensions d))))"
proof -
  let ?ds = "bl_catalog i @ bl_managementCatalog i"
  from canonicalize_equivalent [OF assms [unfolded createPlatformBaselineAuthorizationPolicy_def]]
  obtain ver p q where v: "get (baseline_snapshot i) ''version'' = JStr ver" "policy_grants p \<noteq> []"
      "validatePolicySnapshot (baseline_snapshot i) ver = Inr p" "validatePolicySnapshot c ver = Inr q"
      "\<forall>s r t. may_access q s r t \<longleftrightarrow> may_access p s r t" by blast
  from v(1) have ver: "ver = bl_version i" by (simp add: baseline_snapshot_def Let_def split: if_splits)
  have "?ds \<noteq> []"
  proof
    assume "?ds = []"
    with v(2,3) show False
      by (auto simp: baseline_snapshot_def Let_def validatePolicySnapshot_def array_upto_def result_simps)
  qed
  with v(3) show ?thesis
  proof (rule baseline_policy)
  fix from' assume
    f: "timestamp (JStr (bl_validFrom i)) = Inr from'" and
    g: "\<And>s code t sc. granted_scope p s code t sc \<longleftrightarrow> from' \<le> t \<and>
       selectedAssignmentId s = Some (to_lower (bl_assignmentId i)) \<and> sc = [All_records] \<and> code \<in> perm_code ` set ?ds" and
    m: "\<And>code. (map_of (policy_permissions p) code = None \<longleftrightarrow> code \<notin> perm_code ` set ?ds) \<and>
       (\<forall>d \<in> set ?ds. perm_code d = code \<longrightarrow>
          (\<exists>d'. map_of (policy_permissions p) code = Some d' \<and> set (scopeDimensions d') = set (scopeDimensions d)))"
  have "may_access p s r t \<longleftrightarrow> from' \<le> t \<and> selectedAssignmentId s = Some (to_lower (bl_assignmentId i)) \<and>
       (\<exists>d \<in> set ?ds. perm_code d = permission_code_of r \<and>
          (case resourceContext r of None \<Rightarrow> scopeDimensions d = []
           | Some ctx \<Rightarrow> set (map fst ctx) = set (scopeDimensions d)))" (is "_ \<longleftrightarrow> ?rhs") for s r t
  proof
    assume "may_access p s r t"
    then obtain d' sc where d': "map_of (policy_permissions p) (permission_code_of r) = Some d'"
      and sc: "granted_scope p s (permission_code_of r) t sc"
      and ctx: "case resourceContext r of None \<Rightarrow> scopeDimensions d' = [] | Some ctx \<Rightarrow>
        set (map fst ctx) = set (scopeDimensions d') \<and> (\<exists>term \<in> set sc. term_matches ctx term)"
      unfolding may_access_def by blast
    from sc have "from' \<le> t" "selectedAssignmentId s = Some (to_lower (bl_assignmentId i))" unfolding g by blast+
    moreover from d' m [of "permission_code_of r"] obtain d where "d \<in> set ?ds" "perm_code d = permission_code_of r"
        "set (scopeDimensions d') = set (scopeDimensions d)" by fastforce
    moreover from ctx this(3) have "case resourceContext r of None \<Rightarrow> scopeDimensions d = []
        | Some ctx \<Rightarrow> set (map fst ctx) = set (scopeDimensions d)"
      by (cases "resourceContext r") auto
    ultimately show ?rhs by blast
  next
    assume rhs: ?rhs
    then obtain d where d: "d \<in> set ?ds" "perm_code d = permission_code_of r"
        "case resourceContext r of None \<Rightarrow> scopeDimensions d = [] | Some ctx \<Rightarrow> set (map fst ctx) = set (scopeDimensions d)"
      by blast
    with m [of "permission_code_of r"] obtain d' where d': "map_of (policy_permissions p) (permission_code_of r) = Some d'"
        "set (scopeDimensions d') = set (scopeDimensions d)" by blast
    have "granted_scope p s (permission_code_of r) t [All_records]"
      unfolding g using rhs d(1) d(2) [symmetric] by (simp add: image_iff) blast
    moreover from d(3) d'(2) have "case resourceContext r of None \<Rightarrow> scopeDimensions d' = [] | Some ctx \<Rightarrow>
        set (map fst ctx) = set (scopeDimensions d') \<and> (\<exists>term \<in> set [All_records]. term_matches ctx term)"
      by (cases "resourceContext r") auto
    ultimately show "may_access p s r t" unfolding may_access_def using d'(1) by blast
  qed
  with v(4,5) f show ?thesis unfolding ver by blast
  qed
qed

section \<open>A concrete protected publication\<close>

definition numbered_uuid :: "char \<Rightarrow> string" where
  "numbered_uuid c = ''00000000-0000-4000-8000-00000000000'' @ [c]"

definition witness_command :: jval where
  "witness_command = JObj [(''actor'', JObj [(''actorId'', JStr ''admin''), (''actorType'', JStr ''authenticated_subject''),
       (''subject'', witness_subject_value)]),
     (''auditOperationIds'', JObj [(''authorizationDenied'', JStr (numbered_uuid CHR ''2'')),
       (''authorizationFailed'', JStr (numbered_uuid CHR ''3'')), (''publicationFailed'', JStr (numbered_uuid CHR ''4''))]),
     (''contractVersion'', JStr ''authorization-policy.v1''), (''operationId'', JStr witness_uuid),
     (''publicationId'', JStr witness_uuid), (''publishedAt'', JStr ''2026-01-01T00:00:00.000Z''),
     (''reason'', JObj [(''code'', JStr ''release'')]), (''snapshot'', witness_snapshot),
     (''traceId'', JStr witness_trace_id)]"

definition witness_protected :: protected_command where
  "witness_protected = \<lparr>pc_actor = \<lparr>pa_actorId = ''admin'', pa_subject = witness_subject_context\<rparr>,
     pc_auditOperationIds = \<lparr>authorizationDenied = numbered_uuid CHR ''2'', authorizationFailed = numbered_uuid CHR ''3'',
       publicationFailed = numbered_uuid CHR ''4''\<rparr>, pc_expectedPreviousVersion = JUndef,
     pc_operationId = witness_uuid, pc_publicationId = witness_uuid, pc_publishedAt = ''2026-01-01T00:00:00.000Z'',
     pc_reason = ''release'', pc_snapshot = witness_policy_json, pc_traceId = witness_trace_id\<rparr>"

definition witness_permission_to_publish :: permission_request where
  "witness_permission_to_publish = \<lparr>req_action = ''publish'', req_resource = ''a.b'', resourceContext = None\<rparr>"

lemma witness_cmd_uuids:
  "cmd_uuid (JStr witness_uuid) = Inr witness_uuid"
  "cmd_uuid (JStr (numbered_uuid CHR ''2'')) = Inr (numbered_uuid CHR ''2'')"
  "cmd_uuid (JStr (numbered_uuid CHR ''3'')) = Inr (numbered_uuid CHR ''3'')"
  "cmd_uuid (JStr (numbered_uuid CHR ''4'')) = Inr (numbered_uuid CHR ''4'')"
  by code_simp+

lemma witness_published_at: "pg_iso (JStr ''2026-01-01T00:00:00.000Z'') = Inr ''2026-01-01T00:00:00.000Z''"
  using witness_from by (auto simp: pg_iso_def timestamp_def string_of_def result_simps split: if_splits option.splits)

lemma witness_actor_read:
  "cmd_actor (JObj [(''actorId'', JStr ''admin''), (''actorType'', JStr ''authenticated_subject''),
       (''subject'', witness_subject_value)]) = Inr \<lparr>pa_actorId = ''admin'', pa_subject = witness_subject_context\<rparr>"
proof -
  have "rx_test actor_id_rx ''admin''" by code_simp
  then show ?thesis
    by (simp add: cmd_actor_def exactRecord_def cmd_subject_def witness_subject_value_def witness_cmd_uuids
        witness_subject_context_def)
qed

lemma witness_snapshot_data: "snapshotData 0 witness_snapshot = Inr witness_snapshot"
  by (simp add: witness_snapshot_def witness_permission_values_def witness_all_def witness_scope_def is_finite_def)

lemma witness_command_valid: "protected_command_of nt witness_command = Inr witness_protected"
proof -
  have "is_trace_id witness_trace_id" "rx_test reason_code_rx ''release''" by code_simp+
  moreover have "distinct [witness_uuid, numbered_uuid CHR ''2'', numbered_uuid CHR ''3'', numbered_uuid CHR ''4'']"
    by code_simp
  ultimately show ?thesis
    unfolding witness_command_def
    by (simp add: protected_command_of_def exactRecord_def text_matching_def iso_string_def witness_published_at
        witness_snapshot_data witness_canonical witness_cmd_uuids witness_actor_read witness_protected_def
        del: distinct.simps)
qed

lemma witness_engine_allows:
  "\<exists>d. engine_authorize witness_engine_options witness_engine_env witness_subject_context witness_permission_to_publish =
     Authorize_returns d \<and> allowedDecision d \<noteq> None"
proof -
  have req: "validatePermissionRequest (request_json witness_permission_to_publish) = Some witness_permission_to_publish"
    by code_simp
  have subj: "subject_json witness_subject_context = witness_subject_value"
    by (simp add: subject_json_def witness_subject_context_def witness_subject_value_def)
  have ev: "evaluatePolicy (opt_localeCompare witness_engine_options) witness_validated witness_subject_context
      witness_permission_to_publish 1769904000000 Check_permission =
      \<lparr>eval_allowed = True, eval_policyVersion = ''v1'', eval_reason = Allowed, eval_scope = Some [All_records]\<rparr>"
    by code_simp
  have env: "env_clock witness_engine_env = Some 1769904000000"
    "env_decisionId witness_engine_env = Some (JStr witness_uuid)" "env_traceId witness_engine_env = Some witness_trace_id"
    "env_recorder witness_engine_env = (\<lambda>_. True)" "\<not> env_observed witness_engine_env"
    by (simp_all add: witness_engine_env_def)
  have strs: "to_iso 1769904000000 = ''2026-02-01T00:00:00.000Z''" "is_trace_id witness_trace_id" "rx_test POLICY_VERSION ''v1''"
    "pg_iso (JStr ''2026-02-01T00:00:00.000Z'') = Inr ''2026-02-01T00:00:00.000Z''"
    by code_simp+
  obtain sc where "snd (decide witness_engine_options witness_engine_env witness_subject_value
      (request_json witness_permission_to_publish) Check_permission) =
    Inr (\<lparr>decision_allowed = True, decisionId = witness_uuid, evaluatedAt = ''2026-02-01T00:00:00.000Z'',
      decision_policyVersion = ''v1'', decision_reason = Allowed\<rparr>, sc)"
    by (simp add: decide_def Let_def req witness_subject_valid witness_policy_loaded evaluationOperation_def ev
        finalize_def env strs witness_uuid_matches case_prod_beta)
  then show ?thesis
    by (simp add: engine_authorize_def requireAllowed_def subj case_prod_beta)
      (simp add: decision_json_def allowedDecision_def exactRecord_def strs witness_uuid_matches del: rx_test.simps)
qed

definition witness_publication :: "port_call list \<times> (publish_error + unit)" where
  "witness_publication = publish_policy (\<lambda>_. []) witness_permission_to_publish (\<lambda>_. True)
     (engine_authorize witness_engine_options witness_engine_env) (\<lambda>_. Inr ()) witness_command"

lemma witness_publication_runs:
  "snd witness_publication = Inr () \<and> Publish_called witness_protected \<in> set (fst witness_publication)"
proof -
  have "pa_subject (pc_actor witness_protected) = witness_subject_context" by (simp add: witness_protected_def)
  with witness_engine_allows show ?thesis
    by (auto simp: witness_publication_def publish_policy_def witness_command_valid Let_def authorize_step_def
        publish_step_def with_audit_def)
qed


lemma publication_needs_the_engines_permission_witness:
  "engine_permits witness_engine_env witness_subject_context witness_permission_to_publish"
proof -
  have "publish_policy (\<lambda>_. []) witness_permission_to_publish (\<lambda>_. True)
      (engine_authorize witness_engine_options witness_engine_env) (\<lambda>_. Inr ()) witness_command =
      (fst witness_publication, snd witness_publication)"
    by (simp add: witness_publication_def)
  from publication_needs_the_engines_permission [OF this conjunct2 [OF witness_publication_runs]]
  show ?thesis by (simp add: witness_protected_def)
qed

section \<open>A concrete baseline\<close>

definition witness_baseline :: baseline_input where
  "witness_baseline = \<lparr>bl_assignmentId = witness_uuid, bl_catalog = map snd (policy_permissions witness_validated),
     bl_grantId = witness_uuid, bl_managementCatalog = [], bl_roleId = witness_uuid,
     bl_validFrom = ''2026-01-01T00:00:00.000Z'', bl_version = ''v1''\<rparr>"

lemma witness_baseline_valid:
  "\<exists>p. validatePolicySnapshot (baseline_snapshot witness_baseline) ''v1'' = Inr p \<and>
     policy_permissions p \<noteq> [] \<and> policy_roles p \<noteq> [] \<and> policy_grants p \<noteq> []"
proof -
  let ?ds = "map snd (policy_permissions witness_validated)"
  have vals: "map permission_value ?ds = witness_permission_values"
    by (simp add: permission_value_def witness_validated_def witness_permission_values_def)
  have strs: "string_of (JStr ''a.b:read'') BINDING_CODE 193 = Inr ''a.b:read''"
    "string_of (JStr ''a.b:publish'') BINDING_CODE 193 = Inr ''a.b:publish''"
    "string_of (JStr ''v1'') POLICY_VERSION 128 = Inr ''v1''"
    by code_simp+
  have snap: "exactKeys (baseline_snapshot witness_baseline) [''grants'', ''permissions'', ''roles'', ''version'']"
    by code_simp
  have role: "\<exists>r. role_entry (policy_permissions witness_validated) (JObj
      [(''permissions'', JArr (map (\<lambda>d. JObj [(''permissionCode'', JStr (perm_code d)),
          (''scope'', JObj [(''terms'', JArr [JObj [(''kind'', JStr ''all'')]]), (''version'', JNum (Num 1))])]) ?ds)),
       (''roleId'', JStr witness_uuid)]) [] = Inr [(witness_uuid, r)]"
    by (simp add: role_entry_def exactKeys_def binding_entry_def uuid_witness_uuid strs all_scope_normal witness_validated_def)
  have len: "length witness_permission_values = 2" by (simp add: witness_permission_values_def)
  from role obtain r where r: "role_entry (policy_permissions witness_validated) (JObj
      [(''permissions'', JArr (map (\<lambda>d. JObj [(''permissionCode'', JStr (perm_code d)),
          (''scope'', JObj [(''terms'', JArr [JObj [(''kind'', JStr ''all'')]]), (''version'', JNum (Num 1))])]) ?ds)),
       (''roleId'', JStr witness_uuid)]) [] = Inr [(witness_uuid, r)]" by blast
  have grant: "\<exists>g. grant_entry [(witness_uuid, r)] (JObj [(''grantId'', JStr witness_uuid), (''roleId'', JStr witness_uuid),
          (''subject'', JObj [(''assignmentId'', JStr witness_uuid), (''kind'', JStr ''assignment'')]),
          (''validFrom'', JStr ''2026-01-01T00:00:00.000Z'')]) [] = Inr [g]"
    by (simp add: grant_entry_def exactKeys_def grant_subject_of_def uuid_witness_uuid witness_from)
  have ne: "?ds \<noteq> []" "policy_permissions witness_validated \<noteq> []" by (simp_all add: witness_validated_def)
  from snap ne(1) show ?thesis
    using grant r ne(2)
    by (simp add: baseline_snapshot_def Let_def witness_baseline_def validatePolicySnapshot_def array_upto_def vals
        witness_permission strs len del: map_map)
      auto
qed

lemma baseline_grants_exactly_the_catalog_witness:
  "\<exists>q. may_access q witness_subject_context witness_permission_to_publish 1769904000000"
proof -
  have "policyVersion (get (baseline_snapshot witness_baseline) ''version'') = Inr ''v1''" by code_simp
  then obtain c where c: "createPlatformBaselineAuthorizationPolicy (\<lambda>_. []) witness_baseline = Inr c"
    using witness_baseline_valid
    by (auto simp: createPlatformBaselineAuthorizationPolicy_def canonicalizeAuthorizationPolicy_def Let_def)
  have "\<exists>d \<in> set (bl_catalog witness_baseline @ bl_managementCatalog witness_baseline).
      perm_code d = permission_code_of witness_permission_to_publish \<and> scopeDimensions d = []"
    by (simp add: witness_baseline_def witness_validated_def permission_code_of_def witness_permission_to_publish_def)
  moreover have "selectedAssignmentId witness_subject_context = Some (to_lower (bl_assignmentId witness_baseline))"
    by (simp add: witness_subject_context_def witness_baseline_def witness_uuid_matches)
  moreover have "timestamp (JStr (bl_validFrom witness_baseline)) = Inr 1767225600000"
    by (simp add: witness_baseline_def witness_from)
  moreover have "resourceContext witness_permission_to_publish = None" by (simp add: witness_permission_to_publish_def)
  ultimately show ?thesis
    using baseline_grants_exactly_the_catalog [OF c] by fastforce
qed

end
