(* ===== verification/Js_Parse.thy ===== *)
theory Js_Parse
  imports Js_Json
begin

text \<open>
  \<open>JSON.parse\<close>: the grammar of JSON with white space, escapes, fractions and exponents; \<open>None\<close> when it
  throws. Of members with the same key the last value wins, in the place of the first. Code units above
  255 are not represented, so an escape of one is refused here; the order in which objects keep members
  named by array indices is not modelled. The recursion is bounded by the fuel \<open>n\<close>; twice the length of
  the text is enough, since at most two calls are made before a character is consumed.
  \<open>json_parse_value\<close> is the round trip with \<open>JSON.stringify\<close>.
\<close>

section \<open>Lexical elements\<close>

definition skip_ws :: "string \<Rightarrow> string" where
  "skip_ws = dropWhile (\<lambda>c. c \<in> {CHR '' '', CHR 0x09, CHR 0x0A, CHR 0x0D})"

definition is_hex :: "char \<Rightarrow> bool" where
  "is_hex c = (let v = of_char c :: nat in 48 \<le> v \<and> v \<le> 57 \<or> 65 \<le> v \<and> v \<le> 70 \<or> 97 \<le> v \<and> v \<le> 102)"

definition hex_of :: "char \<Rightarrow> nat" where
  "hex_of c = (if (of_char c :: nat) < 58 then of_char c - 48
     else if (of_char c :: nat) < 71 then of_char c - 55 else of_char c - 87)"

text \<open>What follows a backslash: the character and the rest.\<close>

definition read_escape :: "string \<Rightarrow> (char \<times> string) option" where
  "read_escape s = (case s of
     [] \<Rightarrow> None
   | d # ds \<Rightarrow>
       if d = CHR ''u'' then (case ds of
           a # b # h # l # rs \<Rightarrow>
             if list_all is_hex [a, b, h, l] \<and> hex_of a = 0 \<and> hex_of b = 0
             then Some (char_of (16 * hex_of h + hex_of l), rs) else None
         | _ \<Rightarrow> None)
       else if d \<in> {CHR 0x22, CHR 0x5C, CHR ''/'', CHR ''b'', CHR ''f'', CHR ''n'', CHR ''r'', CHR ''t''}
       then Some (unescape d, ds) else None)"

lemma read_escape_shorter: "read_escape s = Some (c, r) \<Longrightarrow> length r < length s"
  by (auto simp: read_escape_def split: list.splits if_splits)

text \<open>The characters of a string up to the closing quote.\<close>

function parse_chars :: "string \<Rightarrow> (string \<times> string) option" where
  "parse_chars [] = None"
| "parse_chars (c # cs) =
     (if c = quote then Some ([], cs)
      else if (of_char c :: nat) < 32 then None
      else if c \<noteq> CHR 0x5C then map_option (apfst (Cons c)) (parse_chars cs)
      else (case read_escape cs of
          None \<Rightarrow> None
        | Some (d, rs) \<Rightarrow> map_option (apfst (Cons d)) (parse_chars rs)))"
  by pat_completeness auto
termination
  by (relation "measure length") (auto dest: read_escape_shorter)

definition is_digit :: "char \<Rightarrow> bool" where
  "is_digit c = (digit_val c \<noteq> None)"

definition digits_of :: "string \<Rightarrow> string \<times> string" where
  "digits_of s = (takeWhile is_digit s, dropWhile is_digit s)"

definition value_of_digits :: "string \<Rightarrow> int" where
  "value_of_digits ds = (case digits_val 0 ds of None \<Rightarrow> 0 | Some v \<Rightarrow> v)"

text \<open>The digits of a fraction, and the exponent, when there are any.\<close>

definition parse_fraction :: "string \<Rightarrow> (string \<times> string) option" where
  "parse_fraction s = (case s of
     c # r \<Rightarrow> if c = CHR ''.'' then (case digits_of r of (ds, r') \<Rightarrow> if ds = [] then None else Some (ds, r'))
              else Some ([], s)
   | [] \<Rightarrow> Some ([], []))"

definition parse_exponent :: "string \<Rightarrow> (int \<times> string) option" where
  "parse_exponent s = (case s of
     c # r \<Rightarrow> if c = CHR ''e'' \<or> c = CHR ''E''
              then (let minus = (r \<noteq> [] \<and> hd r = CHR ''-'');
                        r1 = (if r \<noteq> [] \<and> (hd r = CHR ''-'' \<or> hd r = CHR ''+'') then tl r else r)
                    in case digits_of r1 of (ds, r2) \<Rightarrow>
                         if ds = [] then None
                         else Some (if minus then - value_of_digits ds else value_of_digits ds, r2))
              else Some (0, s)
   | [] \<Rightarrow> Some (0, []))"

definition parse_number :: "string \<Rightarrow> (jnum \<times> string) option" where
  "parse_number s =
     (let minus = (s \<noteq> [] \<and> hd s = CHR ''-'');
          (ip, s1) = digits_of (if minus then tl s else s)
      in if ip = [] \<or> (hd ip = CHR ''0'' \<and> ip \<noteq> ''0'') then None
         else (case parse_fraction s1 of
             None \<Rightarrow> None
           | Some (fr, s2) \<Rightarrow> (case parse_exponent s2 of
               None \<Rightarrow> None
             | Some (e, s3) \<Rightarrow>
                 (let q = of_int (value_of_digits (ip @ fr)) * 10 powi (e - int (length fr))
                  in Some (Num (fl (if minus then - q else q)), s3)))))"

section \<open>Values\<close>

definition object_of :: "(string \<times> jval) list \<Rightarrow> (string \<times> jval) list" where
  "object_of ps = fold (\<lambda>(k, v) m. AList.update k v m) ps []"

definition literal :: "string \<Rightarrow> jval \<Rightarrow> string \<Rightarrow> (jval \<times> string) option" where
  "literal l v s = (if take (length l) s = l then Some (v, drop (length l) s) else None)"

fun parse_value :: "nat \<Rightarrow> string \<Rightarrow> (jval \<times> string) option"
  and parse_elements :: "nat \<Rightarrow> string \<Rightarrow> (jval list \<times> string) option"
  and parse_members :: "nat \<Rightarrow> string \<Rightarrow> ((string \<times> jval) list \<times> string) option" where
  "parse_value 0 s = None"
| "parse_value (Suc n) s = (case skip_ws s of
     [] \<Rightarrow> None
   | c # r \<Rightarrow>
       if c = quote then map_option (apfst JStr) (parse_chars r)
       else if c = CHR ''['' then
         (if skip_ws r \<noteq> [] \<and> hd (skip_ws r) = CHR '']'' then Some (JArr [], tl (skip_ws r))
          else map_option (apfst JArr) (parse_elements n r))
       else if c = CHR 0x7B then
         (if skip_ws r \<noteq> [] \<and> hd (skip_ws r) = CHR 0x7D then Some (JObj [], tl (skip_ws r))
          else map_option (apfst (\<lambda>ps. JObj (object_of ps))) (parse_members n r))
       else if c = CHR ''t'' then literal ''true'' (JBool True) (c # r)
       else if c = CHR ''f'' then literal ''false'' (JBool False) (c # r)
       else if c = CHR ''n'' then literal ''null'' JNull (c # r)
       else map_option (apfst JNum) (parse_number (c # r)))"
| "parse_elements 0 s = None"
| "parse_elements (Suc n) s = (case parse_value n s of
     None \<Rightarrow> None
   | Some (v, r) \<Rightarrow> (case skip_ws r of
       [] \<Rightarrow> None
     | d # r' \<Rightarrow> if d = CHR '']'' then Some ([v], r')
                 else if d = CHR '','' then map_option (apfst (Cons v)) (parse_elements n r')
                 else None))"
| "parse_members 0 s = None"
| "parse_members (Suc n) s = (case skip_ws s of
     [] \<Rightarrow> None
   | q # s1 \<Rightarrow> if q \<noteq> quote then None else (case parse_chars s1 of
       None \<Rightarrow> None
     | Some (k, s2) \<Rightarrow> (case skip_ws s2 of
         [] \<Rightarrow> None
       | c # s3 \<Rightarrow> if c \<noteq> CHR '':'' then None else (case parse_value n s3 of
           None \<Rightarrow> None
         | Some (v, r) \<Rightarrow> (case skip_ws r of
             [] \<Rightarrow> None
           | d # r' \<Rightarrow> if d = CHR 0x7D then Some ([(k, v)], r')
                       else if d = CHR '','' then map_option (apfst (Cons (k, v))) (parse_members n r')
                       else None)))))"

definition json_parse :: "string \<Rightarrow> jval option" where
  "json_parse s = (case parse_value (2 * length s + 1) s of
     Some (v, r) \<Rightarrow> if skip_ws r = [] then Some v else None | None \<Rightarrow> None)"

lemma json_parse_examples:
  "json_parse '' { a }'' = None" "json_parse ''[1, -2.50,3e2 ,true]x'' = None"
  "json_parse ''[1, -2.50,3e2 ,true]'' = Some (JArr [JNum (Num 1), JNum (Num (- 5/2)), JNum (Num 300), JBool True])"
  by code_simp+


section \<open>Reading what \<open>JSON.stringify\<close> writes\<close>

lemma skip_ws_Cons: "c \<notin> {CHR '' '', CHR 0x09, CHR 0x0A, CHR 0x0D} \<Longrightarrow> skip_ws (c # r) = c # r"
  by (simp add: skip_ws_def)

lemma skip_ws_quote: "skip_ws (quote # r) = quote # r"
  by (simp add: skip_ws_def quote_def)

lemma hex_of_digit: "n < 16 \<Longrightarrow> hex_of (hex_digit n) = n \<and> is_hex (hex_digit n)"
  by (auto simp: hex_of_def hex_digit_def is_hex_def Let_def)

lemma read_escape_unicode:
  assumes "(of_char c :: nat) < 32"
  shows "read_escape (CHR ''u'' # CHR ''0'' # CHR ''0'' # hex_digit (of_char c div 16) # hex_digit (of_char c mod 16) # r)
     = Some (c, r)"
proof -
  have "char_of (16 * (of_char c div 16) + of_char c mod 16 :: nat) = c" by simp
  moreover have "(of_char c :: nat) div 16 < 16" "(of_char c :: nat) mod 16 < 16" using assms by simp_all
  moreover have "is_hex CHR ''0''" "hex_of CHR ''0'' = 0" by code_simp+
  ultimately show ?thesis by (simp add: read_escape_def hex_of_digit del: mult_div_mod_eq)
qed

lemma parse_chars_char: "parse_chars (json_char c @ r) = map_option (apfst (Cons c)) (parse_chars r)"
proof -
  have esc: "parse_chars (CHR 0x5C # cs) = map_option (apfst (Cons c)) (parse_chars r)" if "read_escape cs = Some (c, r)" for cs
    using that by (simp add: quote_def)
  have simple: "read_escape (d # r) = Some (unescape d, r)"
    if "d \<in> {CHR 0x22, CHR 0x5C, CHR ''/'', CHR ''b'', CHR ''f'', CHR ''n'', CHR ''r'', CHR ''t''}" for d
    using that by (auto simp: read_escape_def)
  show ?thesis
  proof (cases "json_char c = [c]")
    case True
    then have "(of_char c :: nat) \<ge> 32" "c \<noteq> CHR 0x22" "c \<noteq> CHR 0x5C"
      by (auto simp: json_char_def split: if_splits)
    with True show ?thesis by (simp add: quote_def)
  next
    case False
    then have "(\<exists>d. json_char c = [CHR 0x5C, d] \<and> read_escape (d # r) = Some (c, r)) \<or> (of_char c :: nat) < 32
        \<and> json_char c = [CHR 0x5C, CHR ''u'', CHR ''0'', CHR ''0'', hex_digit (of_char c div 16), hex_digit (of_char c mod 16)]"
      by (auto simp: json_char_def simple unescape_def split: if_splits)
    then show ?thesis using esc read_escape_unicode by auto
  qed
qed

lemma parse_chars_string: "parse_chars (concat (map json_char s) @ quote # r) = Some (s, r)"
  by (induction s) (simp_all add: parse_chars_char)

text \<open>The text of a value ends where no number goes on.\<close>

definition ends :: "string \<Rightarrow> bool" where
  "ends r = (r = [] \<or> hd r \<in> {CHR '','', CHR '']'', CHR 0x7D})"

lemma ends_simps [simp]: "ends []" "ends (CHR '','' # r)" "ends (CHR '']'' # r)" "ends (CHR 0x7D # r)"
  by (simp_all add: ends_def)

lemma digit_is_digit: "0 \<le> k \<Longrightarrow> k \<le> 9 \<Longrightarrow> is_digit (digit k)"
  by (simp add: is_digit_def digit_val_digit)

lemma decimal_digits: "list_all is_digit (decimal n) \<and> decimal n \<noteq> [] \<and> digits_val 0 (decimal n) = Some (int n)"
proof (induction n rule: decimal.induct)
  case (1 n)
  show ?case
  proof (cases "n < 10")
    case True
    then show ?thesis using digit_val_digit [of "int n"] by (simp add: decimal.simps [of n] digit_is_digit)
  next
    case False
    from 1 [OF this] have ih: "list_all is_digit (decimal (n div 10))" "decimal (n div 10) \<noteq> []"
      "digits_val 0 (decimal (n div 10)) = Some (int (n div 10))" by simp_all
    have "decimal n = decimal (n div 10) @ [digit (int (n mod 10))]" using False by (simp add: decimal.simps [of n])
    moreover have "10 * int (n div 10) + int (n mod 10) = int n" by presburger
    ultimately show ?thesis
      using ih by (simp add: digits_val_append digit_val_digit digit_is_digit)
  qed
qed

lemma decimal_leading: "hd (decimal n) = CHR ''0'' \<longrightarrow> decimal n = ''0''"
proof (induction n rule: decimal.induct)
  case (1 n)
  show ?case
  proof (cases "n < 10")
    case True
    then have "digit (int n) = CHR ''0'' \<Longrightarrow> n = 0"
      using digit_val_digit [of "int n"] by (auto simp: digit_val_def Let_def split: if_splits)
    with True show ?thesis by (auto simp: decimal.simps [of n] digit_def)
  next
    case False
    have ne: "decimal (n div 10) \<noteq> []" using decimal_digits by blast
    have "decimal (n div 10) = ''0'' \<Longrightarrow> n div 10 = 0" using decimal_digits [of "n div 10"] by (simp add: digit_val_def)
    with 1 [OF False] False ne show ?thesis by (auto simp: decimal.simps [of n])
  qed
qed

lemma not_digit [simp]: "\<not> is_digit CHR '',''" "\<not> is_digit CHR '']''" "\<not> is_digit CHR 0x7D" "\<not> is_digit CHR ''-''"
  by code_simp+

lemma digits_of_decimal: "ends r \<Longrightarrow> digits_of (decimal n @ r) = (decimal n, r)"
proof -
  assume e: "ends r"
  have "takeWhile is_digit r = []" "dropWhile is_digit r = r" using e by (cases r; auto simp: ends_def)+
  then show ?thesis using decimal_digits [of n] by (simp add: digits_of_def list_all_iff)
qed

lemma parse_number_int:
  assumes "\<bar>i\<bar> < 2 ^ 53" "ends r"
  shows "parse_number (json_int i @ r) = Some (Num (of_int i), r)"
proof -
  have frac: "parse_fraction r = Some ([], r)" "parse_exponent r = Some (0, r)"
    using assms(2) by (auto simp: parse_fraction_def parse_exponent_def ends_def split: list.splits)
  have val: "value_of_digits (decimal n) = int n" for n using decimal_digits [of n] by (simp add: value_of_digits_def)
  have ne: "decimal n \<noteq> []" for n using decimal_digits [of n] by blast
  have plus: "hd (decimal n) \<noteq> CHR ''-''" for n
    using decimal_digits [of n] ne [of n] by (cases "decimal n") auto
  show ?thesis
  proof (cases "i < 0")
    case True
    with assms show ?thesis
      using decimal_leading [of "nat (- i)"] ne [of "nat (- i)"] fl_of_int [of i]
      by (simp add: json_int_def parse_number_def digits_of_decimal frac val Let_def)
  next
    case False
    with assms show ?thesis
      using decimal_leading [of "nat i"] ne [of "nat i"] plus [of "nat i"] fl_of_int [of i]
      by (simp add: json_int_def parse_number_def digits_of_decimal frac val Let_def)
  qed
qed


text \<open>Values whose text determines them: no \<open>undefined\<close>, distinct keys, small integers.\<close>

fun plain :: "jval \<Rightarrow> bool" where
  "plain JUndef = False"
| "plain (JNum x) = (case int_val x of Some i \<Rightarrow> \<bar>i\<bar> < 2 ^ 53 | None \<Rightarrow> False)"
| "plain (JArr xs) = list_all plain xs"
| "plain (JObj ps) = (distinct (map fst ps) \<and> list_all (\<lambda>p. plain (snd p)) ps)"
| "plain _ = True"

text \<open>The fuel that reading a value needs.\<close>

fun need :: "jval \<Rightarrow> nat" where
  "need (JArr xs) = 2 + sum_list (map (\<lambda>x. need x + 1) xs)"
| "need (JObj ps) = 2 + sum_list (map (\<lambda>p. need (snd p) + 1) ps)"
| "need _ = 1"

abbreviation reads :: "(jnum \<Rightarrow> string) \<Rightarrow> jval \<Rightarrow> bool" where
  "reads nt v \<equiv> (\<forall>n r. need v \<le> n \<longrightarrow> ends r \<longrightarrow> parse_value n (json_value nt v @ r) = Some (v, r))"

lemma json_int_start: "\<exists>d ds. json_int i = d # ds \<and> (is_digit d \<or> d = CHR ''-'')"
proof -
  have "\<exists>d ds. decimal n = d # ds \<and> is_digit d" for n
    using decimal_digits [of n] by (cases "decimal n") auto
  from this [of "nat i"] show ?thesis by (cases "i < 0") (auto simp: json_int_def)
qed

lemma digit_starts: "is_digit d \<or> d = CHR ''-'' \<Longrightarrow> d \<notin> {CHR '' '', CHR 0x09, CHR 0x0A, CHR 0x0D, quote, CHR ''['', CHR '']'', CHR 0x7B,
     CHR ''t'', CHR ''f'', CHR ''n''}"
proof -
  have "\<not> is_digit c" if "c \<in> {CHR '' '', CHR 0x09, CHR 0x0A, CHR 0x0D, quote, CHR ''['', CHR '']'', CHR 0x7B,
     CHR ''t'', CHR ''f'', CHR ''n''}" for c
    using that by (auto simp: is_digit_def digit_val_def quote_def)
  then show "is_digit d \<or> d = CHR ''-'' \<Longrightarrow> d \<notin> {CHR '' '', CHR 0x09, CHR 0x0A, CHR 0x0D, quote, CHR ''['', CHR '']'', CHR 0x7B,
     CHR ''t'', CHR ''f'', CHR ''n''}" by (auto simp: quote_def)
qed

lemma reads_number:
  assumes "\<bar>i\<bar> < 2 ^ 53"
  shows "reads nt (JNum (Num (of_int i)))"
proof (intro allI impI)
  fix n r assume n: "need (JNum (Num (of_int i))) \<le> n" and r: "ends r"
  then obtain m where m: "n = Suc m" by (cases n) auto
  obtain d ds where d: "json_int i = d # ds" "is_digit d \<or> d = CHR ''-''" using json_int_start by blast
  have small: "\<bar>i\<bar> < 10 ^ 21" using assms by simp
  with small have written: "json_value nt (JNum (Num (of_int i))) = json_int i"
    by (simp add: json_number_def is_finite_def)
  have start: "skip_ws (json_int i @ r) = d # ds @ r" using d digit_starts [OF d(2)] by (simp add: skip_ws_Cons)
  with digit_starts [OF d(2)] parse_number_int [OF assms r] d(1)
  show "parse_value n (json_value nt (JNum (Num (of_int i))) @ r) = Some (JNum (Num (of_int i)), r)"
    unfolding m written by simp
qed

lemma value_start: "plain v \<Longrightarrow> \<exists>d ds. json_value nt v = d # ds \<and> d \<notin> {CHR '' '', CHR 0x09, CHR 0x0A, CHR 0x0D, CHR '']''}"
proof (cases v)
  case (JNum x)
  assume "plain v"
  then obtain i where i: "x = Num (of_int i)" "\<bar>i\<bar> < 2 ^ 53" by (auto simp: JNum int_val_Some split: option.splits)
  then have "json_value nt v = json_int i" by (simp add: JNum json_number_def is_finite_def)
  moreover obtain d ds where "json_int i = d # ds" "is_digit d \<or> d = CHR ''-''" using json_int_start by blast
  ultimately show ?thesis using digit_starts [of d] by auto
qed (simp_all add: json_bool_def json_string_def quote_def json_array_def json_object_def)

lemma reads_elements:
  assumes "\<forall>x \<in> set (x # xs). reads nt x \<and> plain x" and "sum_list (map (\<lambda>x. need x + 1) (x # xs)) \<le> n"
  shows "parse_elements n (json_value nt x @ tail_items (map (json_value nt) xs) @ CHR '']'' # r) = Some (x # xs, r)"
  using assms
proof (induction xs arbitrary: x n)
  case Nil
  then obtain m where m: "n = Suc m" by (cases n) auto
  with Nil have "parse_value m (json_value nt x @ CHR '']'' # r) = Some (x, CHR '']'' # r)" by simp
  then show ?case by (simp add: m skip_ws_Cons)
next
  case (Cons y ys)
  then obtain m where m: "n = Suc m" by (cases n) auto
  let ?rest = "json_value nt y @ tail_items (map (json_value nt) ys) @ CHR '']'' # r"
  have "parse_value m (json_value nt x @ CHR '','' # ?rest) = Some (x, CHR '','' # ?rest)"
    using Cons.prems by (simp add: m)
  moreover have "parse_elements m ?rest = Some (y # ys, r)"
    using Cons.prems by (intro Cons.IH) (auto simp: m)
  ultimately show ?case by (simp add: m skip_ws_Cons)
qed

lemma reads_members:
  assumes "\<forall>p \<in> set (p # ps). reads nt (snd p)" and "sum_list (map (\<lambda>p. need (snd p) + 1) (p # ps)) \<le> n"
  shows "parse_members n (json_member (fst p, json_value nt (snd p))
      @ tail_items (map (\<lambda>p. json_member (fst p, json_value nt (snd p))) ps) @ CHR 0x7D # r) = Some (p # ps, r)"
  using assms
proof (induction ps arbitrary: p n)
  case Nil
  then obtain m where m: "n = Suc m" by (cases n) auto
  with Nil have "parse_value m (json_value nt (snd p) @ CHR 0x7D # r) = Some (snd p, CHR 0x7D # r)" by simp
  then show ?case
    by (simp add: m json_member_append) (simp add: json_string_def skip_ws_Cons skip_ws_quote parse_chars_string)
next
  case (Cons q qs)
  then obtain m where m: "n = Suc m" by (cases n) auto
  let ?rest = "json_member (fst q, json_value nt (snd q))
      @ tail_items (map (\<lambda>p. json_member (fst p, json_value nt (snd p))) qs) @ CHR 0x7D # r"
  have "parse_value m (json_value nt (snd p) @ CHR '','' # ?rest) = Some (snd p, CHR '','' # ?rest)"
    using Cons.prems by (simp add: m)
  moreover have "parse_members m ?rest = Some (q # qs, r)"
    using Cons.prems by (intro Cons.IH) (auto simp: m)
  ultimately show ?case
    by (simp add: m json_member_append [of "fst p"]) (simp add: json_string_def skip_ws_Cons skip_ws_quote parse_chars_string)
qed


lemma object_of_distinct: "distinct (map fst ps) \<Longrightarrow> object_of ps = ps"
proof -
  have "distinct (map fst (m @ ps)) \<Longrightarrow> fold (\<lambda>(k, v) m. AList.update k v m) ps m = m @ ps" for m :: "(string \<times> jval) list"
  proof (induction ps arbitrary: m)
    case (Cons p ps)
    obtain k v where p: "p = (k, v)" by (cases p)
    from Cons.prems have "k \<notin> fst ` set m" by (auto simp: p)
    then have "AList.update k v m = m @ [(k, v)]" by (induction m) auto
    with Cons.IH [of "m @ [(k, v)]"] Cons.prems show ?case by (simp add: p)
  qed simp
  from this [of "[]"] show "distinct (map fst ps) \<Longrightarrow> object_of ps = ps" by (simp add: object_of_def)
qed

lemma reads_array:
  assumes "\<forall>x \<in> set xs. reads nt x \<and> plain x" and "need (JArr xs) \<le> n"
  shows "parse_value n (json_array (map (json_value nt) xs) @ r) = Some (JArr xs, r)"
proof -
  from assms(2) obtain m where m: "n = Suc m" by (cases n) auto
  show ?thesis
  proof (cases xs)
    case Nil
    then show ?thesis by (simp add: m json_array_def skip_ws_Cons quote_def)
  next
    case (Cons x ys)
    obtain d ds where d: "json_value nt x = d # ds" "d \<notin> {CHR '' '', CHR 0x09, CHR 0x0A, CHR 0x0D, CHR '']''}"
      using value_start [of x nt] assms(1) Cons by auto
    have "sum_list (map (\<lambda>x. need x + 1) (x # ys)) \<le> m"
      using assms(2) unfolding Cons m by simp
    from reads_elements [OF _ this] assms(1) Cons
    have e: "parse_elements m (json_value nt x @ tail_items (map (json_value nt) ys) @ CHR '']'' # r) = Some (x # ys, r)"
      by simp
    have "json_array (map (json_value nt) xs) @ r
        = CHR ''['' # json_value nt x @ tail_items (map (json_value nt) ys) @ CHR '']'' # r"
      by (simp add: json_array_def Cons join_tail)
    with e d show ?thesis by (simp add: m Cons skip_ws_Cons quote_def)
  qed
qed

lemma reads_object:
  assumes "\<forall>p \<in> set ps. reads nt (snd p)" and "distinct (map fst ps)" and "need (JObj ps) \<le> n"
  shows "parse_value n (json_object (map (\<lambda>p. (fst p, json_value nt (snd p))) ps) @ r) = Some (JObj ps, r)"
proof -
  from assms(3) obtain m where m: "n = Suc m" by (cases n) auto
  show ?thesis
  proof (cases ps)
    case Nil
    then show ?thesis by (simp add: m json_object_def skip_ws_Cons quote_def)
  next
    case (Cons p qs)
    let ?f = "\<lambda>p. json_member (fst p, json_value nt (snd p))"
    have "sum_list (map (\<lambda>p. need (snd p) + 1) (p # qs)) \<le> m"
      using assms(3) unfolding Cons m by simp
    from reads_members [OF _ this] assms(1) Cons
    have e: "parse_members m (?f p @ tail_items (map ?f qs) @ CHR 0x7D # r) = Some (p # qs, r)" by simp
    have s: "\<exists>ds. ?f p = quote # ds" by (simp add: json_member_def json_string_def)
    have "json_object (map (\<lambda>p. (fst p, json_value nt (snd p))) ps) @ r
        = CHR 0x7B # ?f p @ tail_items (map ?f qs) @ CHR 0x7D # r"
      by (simp add: json_object_Cons Cons comp_def)
    with e s object_of_distinct [OF assms(2)] show ?thesis
      by (auto simp: m Cons skip_ws_Cons quote_def)
  qed
qed

lemma reads_plain: "plain v \<Longrightarrow> reads nt v"
proof (induction v)
  case (JNum x)
  then obtain i where "x = Num (of_int i)" "\<bar>i\<bar> < 2 ^ 53" by (auto simp: int_val_Some split: option.splits)
  then show ?case using reads_number by blast
next
  case (JArr xs)
  then have "\<forall>x \<in> set xs. reads nt x \<and> plain x" by (simp add: list_all_iff)
  then show ?case using reads_array by auto
next
  case (JObj ps)
  then have all: "\<forall>p \<in> set ps. reads nt (snd p)" and d: "distinct (map fst ps)" and pl: "\<forall>p \<in> set ps. plain (snd p)"
    by (auto simp: list_all_iff)
  have "filter (\<lambda>(k, v). v \<noteq> JUndef) ps = ps" using pl by (auto simp: filter_id_conv)
  then have "json_value nt (JObj ps) = json_object (map (\<lambda>p. (fst p, json_value nt (snd p))) ps)"
    by (simp add: case_prod_unfold)
  then show ?case using reads_object [OF all d] by simp
next
  case (JBool b)
  show ?case
  proof (intro allI impI)
    fix n r assume "need (JBool b) \<le> n"
    then obtain m where "n = Suc m" by (cases n) auto
    then show "parse_value n (json_value nt (JBool b) @ r) = Some (JBool b, r)"
      by (cases b) (simp_all add: json_bool_def skip_ws_Cons quote_def literal_def)
  qed
next
  case JNull
  show ?case
  proof (intro allI impI)
    fix n r assume "need JNull \<le> n"
    then obtain m where "n = Suc m" by (cases n) auto
    then show "parse_value n (json_value nt JNull @ r) = Some (JNull, r)"
      by (simp add: skip_ws_Cons quote_def literal_def)
  qed
next
  case (JStr s)
  show ?case
  proof (intro allI impI)
    fix n r assume "need (JStr s) \<le> n"
    then obtain m where "n = Suc m" by (cases n) auto
    then show "parse_value n (json_value nt (JStr s) @ r) = Some (JStr s, r)"
      by (simp add: json_string_def skip_ws_quote parse_chars_string)
  qed
qed simp


lemma tail_items_length: "length (tail_items xs) = sum_list (map (\<lambda>x. length x + 1) xs)"
  by (induction xs) auto

lemma join_length: "xs \<noteq> [] \<Longrightarrow> length (join '','' xs) + 1 = sum_list (map (\<lambda>x. length x + 1) xs)"
  by (cases xs) (simp_all add: join_tail tail_items_length)

lemma double_sum: "sum_list (map (\<lambda>x. 2 * (length (g x) + 1)) xs) = 2 * sum_list (map (\<lambda>x. length x + 1) (map g xs))"
  by (induction xs) auto

lemma need_length: "plain v \<Longrightarrow> need v \<le> 2 * length (json_value nt v)"
proof (induction v)
  case (JNum x)
  then obtain i where i: "x = Num (of_int i)" "\<bar>i\<bar> < 2 ^ 53" by (auto simp: int_val_Some split: option.splits)
  obtain d ds where "json_int i = d # ds" using json_int_start by blast
  with i show ?case by (simp add: json_number_def is_finite_def)
next
  case (JArr xs)
  have "sum_list (map (\<lambda>x. need x + 1) xs) \<le> sum_list (map (\<lambda>x. 2 * (length (json_value nt x) + 1)) xs)"
    using JArr by (intro sum_list_mono) (fastforce simp: list_all_iff)
  also have "\<dots> = 2 * sum_list (map (\<lambda>x. length x + 1) (map (json_value nt) xs))"
    by (rule double_sum)
  also have "\<dots> \<le> 2 * (length (join '','' (map (json_value nt) xs)) + 1)"
    using join_length [of "map (json_value nt) xs"] by (cases xs) auto
  finally show ?case by (simp add: json_array_def)
next
  case (JObj ps)
  then have f: "filter (\<lambda>(k, v). v \<noteq> JUndef) ps = ps" by (auto simp: filter_id_conv list_all_iff)
  let ?m = "\<lambda>p. json_member (fst p, json_value nt (snd p))"
  have "sum_list (map (\<lambda>p. need (snd p) + 1) ps) \<le> sum_list (map (\<lambda>p. 2 * (length (?m p) + 1)) ps)"
    using JObj by (intro sum_list_mono) (fastforce simp: list_all_iff json_member_def)
  also have "\<dots> = 2 * sum_list (map (\<lambda>x. length x + 1) (map ?m ps))"
    by (rule double_sum)
  also have "\<dots> \<le> 2 * (length (join '','' (map ?m ps)) + 1)"
    using join_length [of "map ?m ps"] by (cases ps) auto
  finally show ?case using f by (simp add: json_object_def case_prod_unfold comp_def)
qed (simp_all add: json_bool_def json_string_def)

text \<open>\<open>JSON.parse\<close> reads back what \<open>JSON.stringify\<close> has written.\<close>

theorem json_parse_value:
  assumes "plain v"
  shows "json_parse (json_value nt v) = Some v"
proof -
  have "parse_value (2 * length (json_value nt v) + 1) (json_value nt v @ []) = Some (v, [])"
    using reads_plain [OF assms, of nt] need_length [OF assms, of nt] by (metis ends_simps(1) le_add1 order_trans)
  then show ?thesis by (simp add: json_parse_def skip_ws_def)
qed

end
