(* ===== verification/Authz_Cache.thy ===== *)
theory Authz_Cache
  imports Authz_Persistence Js_Parse
begin

text \<open>
  \<open>packages/platform-modules/authorization/src/redis-cache.ts\<close>: the Redis commands of the decision cache
  and the validation of what Redis returns. Redis is outside: an operation is the list of commands it
  sends as a function of the replies; \<open>sha256\<close> is the digest. The connection (\<open>connectRedisAuthorizationCache\<close>) is not modelled.
\<close>

fun parse_constraint :: "jval \<Rightarrow> scope_constraint option" where
  "parse_constraint c = (case (get c ''dimension'', get c ''values'') of
     (JStr d, JArr vs) \<Rightarrow>
       if is_record c \<and> rx_test IDENTIFIER d \<and> vs \<noteq> [] \<and> length vs \<le> 256 \<and>
          list_all (\<lambda>v. case str_of v of None \<Rightarrow> False | Some s \<Rightarrow> rx_test VALUE s) vs
       then Some \<lparr>dimension = d, scope_values = List.map_filter str_of vs\<rparr> else None
   | _ \<Rightarrow> None)"

fun sequence :: "'a option list \<Rightarrow> 'a list option" where
  "sequence [] = Some []"
| "sequence (None # xs) = None"
| "sequence (Some x # xs) = map_option (Cons x) (sequence xs)"

definition parse_term :: "jval \<Rightarrow> scope_term option" where
  "parse_term t =
     (if \<not> is_record t \<or> get t ''kind'' = JUndef then None
      else if get t ''kind'' = JStr ''all'' \<and> length (keys t) = 1 then Some All_records
      else if get t ''kind'' \<noteq> JStr ''match'' then None
      else (case get t ''constraints'' of
          JArr cs \<Rightarrow> if cs = [] \<or> 32 < length cs then None
            else map_option Match_constraints (sequence (map parse_constraint cs))
        | _ \<Rightarrow> None))"

definition parseScope :: "jval \<Rightarrow> data_scope option" where
  "parseScope v =
     (if \<not> is_record v \<or> get v ''version'' \<noteq> JNum (Num 1) then None
      else (case get v ''terms'' of
          JArr ts \<Rightarrow> if ts = [] \<or> 128 < length ts then None else sequence (map parse_term ts)
        | _ \<Rightarrow> None))"

definition reasons :: "decision_reason list" where
  "reasons = [Allowed, Unknown_permission, No_applicable_grant, Invalid_context, Resource_context_required,
     Scope_mismatch, Policy_unavailable, Policy_invalid]"

definition reason_of_text :: "string \<Rightarrow> decision_reason option" where
  "reason_of_text s = find (\<lambda>r. reason_text r = s) reasons"

definition parseEvaluation :: "jval \<Rightarrow> evaluation option" where
  "parseEvaluation v =
     (case (get v ''allowed'', get v ''policyVersion'', get v ''reason'') of
        (JBool allowed, JStr version, JStr reason) \<Rightarrow>
          if \<not> is_record v \<or> \<not> rx_test POLICY_VERSION version then None
          else (case reason_of_text reason of
              None \<Rightarrow> None
            | Some r \<Rightarrow>
                if allowed \<noteq> (r = Allowed) then None
                else if get v ''scope'' = JUndef then
                  Some \<lparr>eval_allowed = allowed, eval_policyVersion = version, eval_reason = r, eval_scope = None\<rparr>
                else map_option (\<lambda>sc. \<lparr>eval_allowed = allowed, eval_policyVersion = version, eval_reason = r,
                       eval_scope = Some sc\<rparr>) (parseScope (get v ''scope'')))
      | _ \<Rightarrow> None)"

section \<open>Commands\<close>

definition namespace_rx :: rx where
  "namespace_rx = Seq (Cls cls_lower) (rx_upto 2 63 (Cls (cls_lower @ cls_digit @ chars_of '':-'')))"

definition cache_key_rx :: rx where
  "cache_key_rx = rx_times 64 (Cls cls_hex)"

definition decisionKey :: "string \<Rightarrow> string \<Rightarrow> string" where
  "decisionKey ns key = ns @ '':decision:'' @ key"

definition versionKey :: "(string \<Rightarrow> string) \<Rightarrow> string \<Rightarrow> string \<Rightarrow> string" where
  "versionKey sha256 ns version = ns @ '':version:'' @ sha256 version"

text \<open>\<open>get\<close>: the command, and the value for a reply; \<open>None\<close> for an invalid key, which throws.\<close>

definition redis_get :: "string \<Rightarrow> string \<Rightarrow> string list option" where
  "redis_get ns key = (if rx_test cache_key_rx key then Some [''GET'', decisionKey ns key] else None)"

definition redis_get_reply :: "jval \<Rightarrow> evaluation option" where
  "redis_get_reply reply = (case reply of
     JStr raw \<Rightarrow> Option.bind (json_parse raw) parseEvaluation | _ \<Rightarrow> None)"

definition redis_set ::
    "(string \<Rightarrow> string) \<Rightarrow> string \<Rightarrow> string \<Rightarrow> evaluation \<Rightarrow> int \<Rightarrow> string \<Rightarrow> string list list option" where
  "redis_set sha256 ns key value ttl version =
     (if \<not> rx_test cache_key_rx key \<or> ttl < 1 \<or> 86400 < ttl then None
      else Some [[''SET'', decisionKey ns key, json_evaluation value, ''EX'', json_int ttl],
                 [''SADD'', versionKey sha256 ns version, decisionKey ns key],
                 [''EXPIRE'', versionKey sha256 ns version, json_int (min 86400 (ttl + 60))]])"

function chunks :: "'a list \<Rightarrow> 'a list list" where
  "chunks xs = (if xs = [] then [] else take 256 xs # chunks (drop 256 xs))"
  by pat_completeness auto
termination
  by (relation "measure length") auto

declare chunks.simps [simp del]

text \<open>The commands of \<open>invalidatePolicyVersion\<close> after the reply of \<open>SMEMBERS\<close>.\<close>

definition is_decision_key :: "string \<Rightarrow> jval \<Rightarrow> bool" where
  "is_decision_key ns m = (case m of JStr s \<Rightarrow> take (length ns + 10) s = ns @ '':decision:'' | _ \<Rightarrow> False)"

definition redis_invalidate :: "(string \<Rightarrow> string) \<Rightarrow> string \<Rightarrow> string \<Rightarrow> jval \<Rightarrow> string list list" where
  "redis_invalidate sha256 ns version reply =
     (case reply of
        JArr members \<Rightarrow>
          if members \<noteq> [] \<and> length members \<le> 10000 \<and> list_all (is_decision_key ns) members
          then map (\<lambda>c. ''DEL'' # c) (chunks (List.map_filter str_of members)) else []
      | _ \<Rightarrow> []) @ [[''DEL'', versionKey sha256 ns version]]"

section \<open>What the cache can hold\<close>

text \<open>The value whose text is stored: \<open>json_evaluation\<close> is its JSON text (\<open>json_evaluation_value\<close>).\<close>

definition evaluation_value :: "evaluation \<Rightarrow> jval" where
  "evaluation_value e = JObj ([(''allowed'', JBool (eval_allowed e)), (''policyVersion'', JStr (eval_policyVersion e)),
     (''reason'', JStr (reason_text (eval_reason e)))] @
     (case eval_scope e of None \<Rightarrow> [] | Some sc \<Rightarrow> [(''scope'', scope_value sc)]))"

lemma json_constraint_value: "json_constraint c = json_value nt (constraint_value c)"
  by (simp add: json_constraint_def constraint_value_def comp_def)

lemma json_term_value: "json_term t = json_value nt (term_value t)"
proof -
  have "json_constraint = (\<lambda>c. json_value nt (constraint_value c))" using json_constraint_value by blast
  then show ?thesis by (cases t) (simp_all add: comp_def)
qed

lemma json_one: "json_value nt (JNum (Num 1)) = ''1''"
proof -
  have "json_int 1 = ''1''" by code_simp
  then show ?thesis using int_val_Num_of_int [of 1] by (simp add: json_number_def is_finite_def)
qed

lemma json_scope_value: "json_scope sc = json_value nt (scope_value sc)"
proof -
  have "json_term = (\<lambda>t. json_value nt (term_value t))" using json_term_value by blast
  with json_one [of nt] show ?thesis by (simp add: json_scope_def scope_value_def comp_def)
qed

lemma json_evaluation_value: "json_evaluation e = json_value nt (evaluation_value e)"
proof (cases "eval_scope e")
  case (Some sc)
  moreover have "scope_value sc \<noteq> JUndef" by (simp add: scope_value_def)
  ultimately show ?thesis by (simp add: json_evaluation_def evaluation_value_def json_scope_value [of _ nt])
qed (simp add: json_evaluation_def evaluation_value_def)

lemma evaluation_plain: "plain (evaluation_value e)"
proof -
  have one: "int_val (Num 1) = Some 1" using int_val_Num_of_int [of 1] by simp
  have "plain (constraint_value c)" for c by (simp add: constraint_value_def list_all_iff)
  then have "plain (term_value t)" for t by (cases t) (simp_all add: list_all_iff)
  with one have "plain (scope_value sc)" for sc by (simp add: scope_value_def list_all_iff)
  then show ?thesis by (simp add: evaluation_value_def split: option.split)
qed

lemma stored_evaluation: "json_parse (json_evaluation e) = Some (evaluation_value e)"
  using json_parse_value [OF evaluation_plain, of "\<lambda>_. []" e] json_evaluation_value [of e "\<lambda>_. []"] by simp

lemma reason_of_text_inverse: "reason_of_text (reason_text r) = Some r"
  by (cases r) (simp_all add: reason_of_text_def reasons_def)

lemma sequence_map: "(\<And>x. x \<in> set xs \<Longrightarrow> f (g x) = Some x) \<Longrightarrow> sequence (map f (map g xs)) = Some xs"
  by (induction xs) auto

lemma map_filter_JStr: "List.map_filter str_of (map JStr vs) = vs"
  by (induction vs) (simp_all add: map_filter_simps)

lemma parse_constraint_value: "ok_constraint dims c \<Longrightarrow> parse_constraint (constraint_value c) = Some c"
  by (auto simp: constraint_value_def ok_constraint_def map_filter_JStr list_all_iff)

lemma parse_term_value: "ok_term dims t \<Longrightarrow> parse_term (term_value t) = Some t"
proof (cases t)
  case (Match_constraints cs)
  assume ok: "ok_term dims t"
  then have "sequence (map parse_constraint (map constraint_value cs)) = Some cs"
    using parse_constraint_value by (intro sequence_map) (auto simp: Match_constraints)
  with ok Match_constraints show ?thesis by (simp add: parse_term_def del: map_map)
qed (simp add: parse_term_def)

lemma parseScope_value:
  assumes "sc \<noteq> []" "\<forall>t \<in> set sc. ok_term dims t"
  shows "parseScope (scope_value sc) = (if length sc \<le> 128 then Some sc else None)"
proof -
  have "sequence (map parse_term (map term_value sc)) = Some sc"
    using assms(2) parse_term_value by (intro sequence_map) blast
  with assms(1) show ?thesis by (simp add: parseScope_def scope_value_def del: map_map)
qed

lemma granted_terms_ok:
  assumes "validatePolicySnapshot raw ver = Inr p" "map_of (policy_permissions p) code = Some d"
    "sc \<in> set (policy_scopes p s code t)"
  shows "sc \<noteq> [] \<and> (\<forall>tm \<in> set sc. ok_term (scopeDimensions d) tm)"
proof -
  have wf: "wf_policy p" using validated_snapshot_wf [OF assms(1)] by simp
  note ok = validated_ok_policy [OF assms(1)]
  have perms: "map_of (map (\<lambda>d. (perm_code d, d)) (map snd (policy_permissions p))) = map_of (policy_permissions p)"
    using ok by metis
  from assms(3) policy_scopes_iff [OF wf] obtain i role b where
    "map_of (policy_roles p) i = Some role" "b \<in> set (role_permissions role)" "permissionCode b = code" "binding_scope b = sc"
    by (fastforce simp: granted_scope_def)
  moreover from this(1) have "role \<in> set (map snd (policy_roles p))" by (force dest: map_of_SomeD)
  ultimately have "ok_binding (map_of (policy_permissions p)) b"
    using ok unfolding ok_policy_def perms by (auto simp: ok_role_def)
  with \<open>permissionCode b = code\<close> \<open>binding_scope b = sc\<close> assms(2) have "ok_scope (scopeDimensions d) sc"
    by (auto simp: ok_binding_def)
  then show ?thesis by (auto simp: ok_scope_def)
qed

lemma evaluated_scope_ok:
  assumes "validatePolicySnapshot raw ver = Inr p" "eval_scope (evaluatePolicy lc p s r t oper) = Some sc"
  shows "sc \<noteq> [] \<and> (\<exists>dims. \<forall>tm \<in> set sc. ok_term dims tm)"
proof -
  let ?code = "permission_code_of r"
  from assms(2) obtain d where d: "map_of (policy_permissions p) ?code = Some d" and
    ne: "policy_scopes p s ?code t \<noteq> []" and
    sc: "sc = normalizeCombinedScope lc (concat (policy_scopes p s ?code t))"
    by (auto simp: evaluatePolicy_def Let_def denied_def split: option.splits if_splits)
  have all: "\<forall>tm \<in> set (concat (policy_scopes p s ?code t)). ok_term (scopeDimensions d) tm"
    using granted_terms_ok [OF assms(1) d] by auto
  from ne obtain sc1 where sc1: "sc1 \<in> set (policy_scopes p s ?code t)" by (cases "policy_scopes p s ?code t") auto
  from granted_terms_ok [OF assms(1) d sc1] have "sc1 \<noteq> []" by simp
  with sc1 have "set (concat (policy_scopes p s ?code t)) \<noteq> {}" by auto
  then have "unique_terms (concat (policy_scopes p s ?code t)) \<noteq> []" by (metis set_empty set_unique_terms)
  with all show ?thesis by (auto simp: sc normalizeCombinedScope_def)
qed

lemma parse_stored:
  assumes "validatePolicySnapshot raw ver = Inr p"
  shows "parseEvaluation (evaluation_value (evaluatePolicy lc p s r t oper)) =
    (if opt_all (\<lambda>sc. length sc \<le> 128) (eval_scope (evaluatePolicy lc p s r t oper))
     then Some (evaluatePolicy lc p s r t oper) else None)"
proof -
  let ?e = "evaluatePolicy lc p s r t oper"
  have version: "rx_test POLICY_VERSION (eval_policyVersion ?e)"
    using validated_snapshot_wf [OF assms] by (simp add: eval_version)
  have reason: "eval_reason ?e = Allowed \<longleftrightarrow> eval_allowed ?e" by (rule eval_reason_allowed)
  show ?thesis
  proof (cases "eval_scope ?e")
    case None
    then show ?thesis
      using version reason by (simp add: parseEvaluation_def evaluation_value_def reason_of_text_inverse)
  next
    case (Some sc)
    from evaluated_scope_ok [OF assms Some] parseScope_value [of sc]
    have "parseScope (scope_value sc) = (if length sc \<le> 128 then Some sc else None)" by blast
    moreover have "scope_value sc \<noteq> JUndef" by (simp add: scope_value_def)
    ultimately show ?thesis
      using version reason Some by (simp add: parseEvaluation_def evaluation_value_def reason_of_text_inverse)
  qed
qed

text \<open>
  Property C24. What the engine stores in Redis is what it reads back: the commands that store an evaluation
  of a validated policy begin with a \<open>SET\<close> of the key that \<open>get\<close> asks for, and the stored text, parsed
  and validated by \<open>get\<close>, yields the same evaluation, except when the combined scope has more than 128
  terms (each role may bind up to 128): such an entry is written but never accepted, so the decision is
  computed again every time.
\<close>

theorem cached_evaluation_round_trip:
  assumes "validatePolicySnapshot raw ver = Inr p" and "e = evaluatePolicy lc p s r t oper"
    and "redis_set sha256 ns key e ttl version = Some commands"
  shows "\<exists>stored rest. commands = [''SET'', decisionKey ns key, stored, ''EX'', json_int ttl] # rest
    \<and> redis_get ns key = Some [''GET'', decisionKey ns key]
    \<and> redis_get_reply (JStr stored) = (if opt_all (\<lambda>sc. length sc \<le> 128) (eval_scope e) then Some e else None)"
proof -
  from assms(3) have "rx_test cache_key_rx key" and "\<exists>rest. commands =
      [''SET'', decisionKey ns key, json_evaluation e, ''EX'', json_int ttl] # rest"
    by (auto simp: redis_set_def split: if_splits)
  moreover have "redis_get_reply (JStr (json_evaluation e)) =
      (if opt_all (\<lambda>sc. length sc \<le> 128) (eval_scope e) then Some e else None)"
    using parse_stored [OF assms(1), of lc s r t oper] by (simp add: redis_get_reply_def stored_evaluation assms(2))
  ultimately show ?thesis by (auto simp: redis_get_def)
qed

lemma cached_evaluation_round_trip_witness:
  "\<exists>stored rest. the (redis_set (\<lambda>s. s) ''ns'' (replicate 64 CHR ''0'') witness_evaluation 60 ''v1'') =
      [''SET'', decisionKey ''ns'' (replicate 64 CHR ''0''), stored, ''EX'', ''60''] # rest
    \<and> redis_get_reply (JStr stored) = Some witness_evaluation"
proof -
  have key: "rx_test cache_key_rx (replicate 64 CHR ''0'')" and int: "json_int 60 = ''60''" by code_simp+
  then have set: "redis_set (\<lambda>s. s) ''ns'' (replicate 64 CHR ''0'') witness_evaluation 60 ''v1'' =
      Some (the (redis_set (\<lambda>s. s) ''ns'' (replicate 64 CHR ''0'') witness_evaluation 60 ''v1''))"
    by (simp add: redis_set_def)
  from cached_evaluation_round_trip [OF witness_snapshot_valid _ set, of "opt_localeCompare witness_engine_options"
      witness_subject_context witness_permission_request 1769904000000 Check_permission] int
  show ?thesis by (simp add: witness_evaluates) (auto simp: witness_evaluation_def)
qed

lemma chunks_concat: "concat (chunks xs) = xs"
  by (induction xs rule: chunks.induct) (subst chunks.simps, simp)

lemma chunks_length: "c \<in> set (chunks xs) \<Longrightarrow> c \<noteq> [] \<and> length c \<le> 256"
  by (induction xs rule: chunks.induct) (subst (asm) (2) chunks.simps, auto split: if_splits)

lemma is_decision_key_strings:
  "list_all (is_decision_key ns) ms \<Longrightarrow> map JStr (List.map_filter str_of ms) = ms"
  by (induction ms) (auto simp: map_filter_simps is_decision_key_def split: jval.splits)

text \<open>
  Invalidating a policy version deletes exactly the decision keys that the index lists, each in
  one \<open>DEL\<close> of at most 256 keys, and then the index itself; an index with anything else in it
  deletes nothing but itself.
\<close>

theorem invalidation_deletes_the_indexed_keys:
  "\<exists>batches. redis_invalidate sha256 ns version (JArr members) =
       map (\<lambda>c. ''DEL'' # c) batches @ [[''DEL'', versionKey sha256 ns version]] \<and>
     list_all (\<lambda>c. c \<noteq> [] \<and> length c \<le> 256) batches \<and>
     map JStr (concat batches) =
       (if length members \<le> 10000 \<and> list_all (is_decision_key ns) members then members else [])"
proof (cases "members \<noteq> [] \<and> length members \<le> 10000 \<and> list_all (is_decision_key ns) members")
  case True
  then have keys: "map JStr (List.map_filter str_of members) = members"
    using is_decision_key_strings by blast
  have "list_all (\<lambda>c. c \<noteq> [] \<and> length c \<le> 256) (chunks (List.map_filter str_of members))"
    using chunks_length by (auto simp: list_all_iff)
  with True keys show ?thesis
    by (intro exI [of _ "chunks (List.map_filter str_of members)"]) (simp add: redis_invalidate_def chunks_concat)
next
  case False
  then show ?thesis by (intro exI [of _ "[]"]) (auto simp: redis_invalidate_def)
qed

end
