(* ===== verification/Session_Security.thy ===== *)
theory Session_Security
  imports Js_Text Js_Value "HOL-Library.Word"
begin

text \<open>
  Browser sessions, first part: \<open>apps/api/src/auth/errors.ts\<close> and \<open>session-security.ts\<close>, the
  credentials, the encryption of the tokens, the check of browser mutations and the cookie.

  A \<open>Buffer\<close> is a list of bytes. \<open>Buffer.toString("base64url")\<close> and \<open>Buffer.from(s, "base64url")\<close>
  are \<open>b64_encode\<close> and \<open>b64_decode\<close>. The primitives of \<open>node:crypto\<close> and the reading and writing of
  a token set as JSON bytes are fields of \<open>crypto\<close>; \<open>randomBytes\<close> is an argument.
\<close>

type_synonym byte = "8 word"

datatype session_failure =
    Callback_invalid
  | Csrf_rejected
  | Dependency_unavailable
  | Refresh_in_progress
  | Refresh_rejected
  | Session_invalid

record crypto =
  hmac_sha256 :: "byte list \<Rightarrow> string \<Rightarrow> byte list"
  gcm_seal :: "byte list \<Rightarrow> byte list \<Rightarrow> string \<Rightarrow> byte list \<Rightarrow> byte list \<times> byte list"
  gcm_open :: "byte list \<Rightarrow> byte list \<Rightarrow> string \<Rightarrow> byte list \<Rightarrow> byte list \<Rightarrow> byte list option"
  json_bytes :: "jval \<Rightarrow> byte list"
  json_of_bytes :: "byte list \<Rightarrow> jval option"

section \<open>base64url\<close>

definition b64_char :: "nat \<Rightarrow> char" where
  "b64_char n = char_of (if n < 26 then n + 65 else if n < 52 then n + 71 else if n < 62 then n - 4
     else if n = 62 then 45 else 95)"

definition b64_val :: "char \<Rightarrow> nat" where
  "b64_val c = (let k = of_char c in
     if 97 \<le> k then k - 71 else if k = 95 then 63 else if 65 \<le> k then k - 65
     else if 48 \<le> k then k + 4 else 62)"

fun b64_encode :: "byte list \<Rightarrow> string" where
  "b64_encode [] = []"
| "b64_encode [a] = map b64_char [unat a div 4, unat a mod 4 * 16]"
| "b64_encode [a, b] = map b64_char [unat a div 4, unat a mod 4 * 16 + unat b div 16, unat b mod 16 * 4]"
| "b64_encode (a # b # c # rest) =
     map b64_char [unat a div 4, unat a mod 4 * 16 + unat b div 16, unat b mod 16 * 4 + unat c div 64, unat c mod 64]
     @ b64_encode rest"

fun b64_decode :: "string \<Rightarrow> byte list" where
  "b64_decode [] = []"
| "b64_decode [w] = []"
| "b64_decode [w, x] = [of_nat (b64_val w * 4 + b64_val x div 16)]"
| "b64_decode [w, x, y] = [of_nat (b64_val w * 4 + b64_val x div 16),
     of_nat (b64_val x mod 16 * 16 + b64_val y div 4)]"
| "b64_decode (w # x # y # z # rest) = of_nat (b64_val w * 4 + b64_val x div 16)
     # of_nat (b64_val x mod 16 * 16 + b64_val y div 4) # of_nat (b64_val y mod 4 * 64 + b64_val z)
     # b64_decode rest"

definition cls_b64 :: "(char \<times> char) list" where
  "cls_b64 = cls_alnum @ chars_of ''_-''"

lemma b64_val_char [simp]: "n < 64 \<Longrightarrow> b64_val (b64_char n) = n"
  by (auto simp: b64_val_def b64_char_def Let_def)

lemma b64_char_cls [simp]: "n < 64 \<Longrightarrow> in_cls cls_b64 (b64_char n)"
  by (auto simp: b64_char_def in_cls_def cls_b64_def cls_alnum_def cls_lower_def cls_upper_def
      cls_digit_def chars_of_def)

lemma unat_byte: "unat (a :: byte) < 256"
  using unsigned_less [of a] by simp

lemma byte_parts: "unat (a :: byte) div 4 < 64" "unat a div 16 < 16" "unat a div 64 < 4"
  using unat_byte [of a] by (simp_all add: div_less_iff_less_mult)

lemma byte_digits:
  "unat (a :: byte) mod 4 * 16 + unat (b :: byte) div 16 < 64"
  "unat b mod 16 * 4 + unat (c :: byte) div 64 < 64"
  "unat a mod 4 * 16 < 64" "unat b mod 16 * 4 < 64"
proof -
  have "unat a mod 4 \<le> 3" "unat b mod 16 \<le> 15"
    using mod_less_divisor [of 4 "unat a"] mod_less_divisor [of 16 "unat b"] by auto
  then show "unat a mod 4 * 16 + unat b div 16 < 64" "unat b mod 16 * 4 + unat c div 64 < 64"
    "unat a mod 4 * 16 < 64" "unat b mod 16 * 4 < 64"
    using byte_parts(2) [of b] byte_parts(3) [of c] by linarith+
qed

lemma two_digits:
  "k < m \<Longrightarrow> (q * m + k) div m = (q :: nat)" "k < m \<Longrightarrow> (q * m + k) mod m = k"
  by simp_all

lemma byte_rejoin:
  "unat (a :: byte) div 4 * 4 + (unat a mod 4 * 16 + unat (b :: byte) div 16) div 16 = unat a"
  "(unat a mod 4 * 16 + unat b div 16) mod 16 * 16 + (unat b mod 16 * 4 + unat (c :: byte) div 64) div 4 = unat b"
  "(unat b mod 16 * 4 + unat c div 64) mod 4 * 64 + unat c mod 64 = unat c"
  "unat a div 4 * 4 + unat a mod 4 * 16 div 16 = unat a"
  "(unat a mod 4 * 16 + unat b div 16) mod 16 * 16 + unat b mod 16 * 4 div 4 = unat b"
  by (simp_all only: two_digits [OF byte_parts(2)] two_digits [OF byte_parts(3)]
      nonzero_mult_div_cancel_right zero_neq_numeral [symmetric] not_False_eq_True div_mult_mod_eq)

lemma b64_round_trip: "b64_decode (b64_encode bs) = bs"
  by (induction bs rule: b64_encode.induct) (simp_all add: byte_parts byte_digits byte_rejoin del: of_nat_add of_nat_mult)

lemma length_b64_encode: "length (b64_encode bs) = (4 * length bs + 2) div 3"
  by (induction bs rule: b64_encode.induct) auto

lemma b64_encode_cls: "list_all (in_cls cls_b64) (b64_encode bs)"
  by (induction bs rule: b64_encode.induct) (simp_all add: byte_parts byte_digits)

lemma b64_encode_inj: "b64_encode bs = b64_encode cs \<longleftrightarrow> bs = cs"
  by (metis b64_round_trip)


section \<open>Credentials and tokens\<close>

record key_encryption_key =
  kek_id :: string
  kek_value :: "byte list"

record session_tokens =
  accessToken :: string
  refreshToken :: string
  idToken :: "string option"

text \<open>\<open>EncryptedSessionTokenSet\<close>; \<open>algorithm\<close> is always \<open>"A256GCM"\<close>.\<close>

record encrypted_tokens =
  et_ciphertext :: string
  et_initializationVector :: string
  et_keyId :: string
  et_tag :: string
  et_version :: nat

definition CREDENTIAL :: rx where
  "CREDENTIAL = rx_times 43 (Cls cls_b64)"

definition SAFE_KEY_ID :: rx where
  "SAFE_KEY_ID = Seq (Cls cls_alnum) (rx_upto 0 63 (Cls (cls_alnum @ chars_of ''._-'')))"

definition validateCredential :: "string \<Rightarrow> session_failure + unit" where
  "validateCredential v = check (rx_test CREDENTIAL v) Session_invalid"

definition valid_key :: "key_encryption_key \<Rightarrow> bool" where
  "valid_key k \<longleftrightarrow> rx_test SAFE_KEY_ID (kek_id k) \<and> length (kek_value k) = 32"

definition validateEncryptionKey :: "key_encryption_key \<Rightarrow> session_failure + unit" where
  "validateEncryptionKey k = check (valid_key k) Session_invalid"

definition validateToken :: "jval \<Rightarrow> bool" where
  "validateToken v = (case v of JStr s \<Rightarrow> s \<noteq> [] \<and> length s \<le> 16384 | _ \<Rightarrow> False)"

definition decodeBoundedBase64Url :: "jval \<Rightarrow> nat \<Rightarrow> session_failure + byte list" where
  "decodeBoundedBase64Url v maximum = (case v of
     JStr s \<Rightarrow> if s = [] \<or> maximum < length s \<or> \<not> rx_test (rx_plus (Cls cls_b64)) s then Inl Session_invalid
              else Inr (b64_decode s)
   | _ \<Rightarrow> Inl Session_invalid)"

definition text_bytes :: "string \<Rightarrow> byte list" where
  "text_bytes s = map (\<lambda>c. of_nat (of_char c)) s"

definition constantTimeEqual :: "crypto \<Rightarrow> string \<Rightarrow> string \<Rightarrow> bool" where
  "constantTimeEqual cr l r \<longleftrightarrow>
     hmac_sha256 cr (text_bytes ''ai-crm-constant-time-compare'') l =
     hmac_sha256 cr (text_bytes ''ai-crm-constant-time-compare'') r"

definition createOpaqueCredential :: "byte list \<Rightarrow> string" where
  "createOpaqueCredential random = b64_encode random"

definition createSessionIndex :: "crypto \<Rightarrow> string \<Rightarrow> byte list \<Rightarrow> session_failure + string" where
  "createSessionIndex cr credential indexingKey =
     bindR (validateCredential credential) (\<lambda>_.
     if length indexingKey < 32 then Inl Session_invalid
     else Inr (b64_encode (hmac_sha256 cr indexingKey credential)))"

text \<open>\<open>JSON.stringify(tokens)\<close> as a value: an \<open>idToken\<close> that is \<open>undefined\<close> is left out.\<close>

definition tokens_value :: "session_tokens \<Rightarrow> jval" where
  "tokens_value t = JObj ([(''accessToken'', JStr (accessToken t))] @
     (case idToken t of None \<Rightarrow> [] | Some i \<Rightarrow> [(''idToken'', JStr i)]) @ [(''refreshToken'', JStr (refreshToken t))])"

definition token_aad :: "nat \<Rightarrow> string \<Rightarrow> string \<Rightarrow> string" where
  "token_aad version keyId reference =
     (if version = 1 then ''ai-crm:bff-session:v1:'' @ keyId
      else ''ai-crm:bff-session:v2:'' @ keyId @ '':'' @ reference)"

definition encryptSessionTokens ::
    "crypto \<Rightarrow> byte list \<Rightarrow> session_tokens \<Rightarrow> key_encryption_key \<Rightarrow> string \<Rightarrow> session_failure + encrypted_tokens" where
  "encryptSessionTokens cr initializationVector tokens key sessionReference =
     bindR (validateEncryptionKey key) (\<lambda>_. bindR (validateCredential sessionReference) (\<lambda>_.
     if \<not> validateToken (JStr (accessToken tokens)) \<or> \<not> validateToken (JStr (refreshToken tokens)) \<or>
        \<not> opt_all (\<lambda>i. validateToken (JStr i)) (idToken tokens)
     then Inl Session_invalid
     else (let plaintext = json_bytes cr (tokens_value tokens) in
       if 32 * 1024 < length plaintext then Inl Session_invalid
       else (case gcm_seal cr (kek_value key) initializationVector
                    (token_aad 2 (kek_id key) sessionReference) plaintext of
         (ciphertext, tag) \<Rightarrow>
           Inr \<lparr>et_ciphertext = b64_encode ciphertext, et_initializationVector = b64_encode initializationVector,
             et_keyId = kek_id key, et_tag = b64_encode tag, et_version = 2\<rparr>))))"

definition MAX_ENCODED_TOKEN_PAYLOAD_LENGTH :: nat where
  "MAX_ENCODED_TOKEN_PAYLOAD_LENGTH = ((32 * 1024 + 2) div 3) * 4"

text \<open>The parsed plaintext; every failure inside the \<open>try\<close> block is \<open>Session_invalid\<close>.\<close>

definition parse_tokens :: "jval option \<Rightarrow> session_failure + session_tokens" where
  "parse_tokens parsed = (case parsed of
     None \<Rightarrow> Inl Session_invalid
   | Some v \<Rightarrow> (case (get v ''accessToken'', get v ''refreshToken'') of
       (JStr a, JStr r) \<Rightarrow>
         if \<not> validateToken (JStr a) \<or> \<not> validateToken (JStr r) then Inl Session_invalid
         else (case get v ''idToken'' of
             JUndef \<Rightarrow> Inr \<lparr>accessToken = a, refreshToken = r, idToken = None\<rparr>
           | JStr i \<Rightarrow> if validateToken (JStr i) then Inr \<lparr>accessToken = a, refreshToken = r, idToken = Some i\<rparr>
                      else Inl Session_invalid
           | _ \<Rightarrow> Inl Session_invalid)
     | _ \<Rightarrow> Inl Session_invalid))"

definition envelope_version :: "jval \<Rightarrow> nat option" where
  "envelope_version v = (if v = JNum (Num 1) then Some 1 else if v = JNum (Num 2) then Some 2 else None)"

definition decryptSessionTokens ::
    "crypto \<Rightarrow> jval \<Rightarrow> key_encryption_key list \<Rightarrow> string \<Rightarrow> session_failure + session_tokens" where
  "decryptSessionTokens cr envelope keyring sessionReference =
     bindR (validateCredential sessionReference) (\<lambda>_.
     case (envelope_version (get envelope ''version''), get envelope ''algorithm'', get envelope ''keyId'') of
       (Some version, JStr algorithm, JStr keyId) \<Rightarrow>
         if algorithm \<noteq> ''A256GCM'' then Inl Session_invalid
         else (case find (\<lambda>k. kek_id k = keyId) keyring of
             None \<Rightarrow> Inl Session_invalid
           | Some key \<Rightarrow>
               bindR (validateEncryptionKey key) (\<lambda>_.
               bindR (decodeBoundedBase64Url (get envelope ''initializationVector'') 32) (\<lambda>iv.
               bindR (decodeBoundedBase64Url (get envelope ''tag'') 32) (\<lambda>tag.
               bindR (decodeBoundedBase64Url (get envelope ''ciphertext'') MAX_ENCODED_TOKEN_PAYLOAD_LENGTH)
                 (\<lambda>ciphertext.
               if length iv \<noteq> 12 \<or> length tag \<noteq> 16 \<or> 32 * 1024 < length ciphertext then Inl Session_invalid
               else parse_tokens (Option.bind
                 (gcm_open cr (kek_value key) iv (token_aad version (kek_id key) sessionReference) ciphertext tag)
                 (json_of_bytes cr)))))))
     | _ \<Rightarrow> Inl Session_invalid)"

definition encrypted_value :: "encrypted_tokens \<Rightarrow> jval" where
  "encrypted_value e = JObj [(''algorithm'', JStr ''A256GCM''), (''ciphertext'', JStr (et_ciphertext e)),
     (''initializationVector'', JStr (et_initializationVector e)), (''keyId'', JStr (et_keyId e)),
     (''tag'', JStr (et_tag e)), (''version'', JNum (Num (of_nat (et_version e))))]"

section \<open>Browser mutations and the cookie\<close>

text \<open>\<open>new URL(value)\<close> is the argument \<open>new_url\<close>; \<open>None\<close> when it throws.\<close>

record url =
  url_protocol :: string
  url_username :: string
  url_password :: string
  url_origin :: string

record browser_evidence =
  allowedOrigins :: "string list"
  csrfHeader :: "string option"
  csrfSessionValue :: string
  ev_origin :: "string option"
  ev_referer :: "string option"

definition normalizeOrigin :: "(string \<Rightarrow> url option) \<Rightarrow> string \<Rightarrow> string option" where
  "normalizeOrigin new_url v = (case new_url v of
     None \<Rightarrow> None
   | Some u \<Rightarrow> if (url_protocol u \<noteq> ''http:'' \<and> url_protocol u \<noteq> ''https:'') \<or>
                url_username u \<noteq> [] \<or> url_password u \<noteq> [] then None
              else Some (url_origin u))"

definition requestOrigin :: "(string \<Rightarrow> url option) \<Rightarrow> browser_evidence \<Rightarrow> string option" where
  "requestOrigin new_url ev = (case ev_origin ev of
     Some origin \<Rightarrow> normalizeOrigin new_url origin
   | None \<Rightarrow> Option.bind (ev_referer ev) (normalizeOrigin new_url))"

definition validateBrowserMutation ::
    "crypto \<Rightarrow> (string \<Rightarrow> url option) \<Rightarrow> browser_evidence \<Rightarrow> session_failure + unit" where
  "validateBrowserMutation cr new_url ev =
     (let origin_allowed = (case requestOrigin new_url ev of
            None \<Rightarrow> False
          | Some origin \<Rightarrow> list_ex (\<lambda>candidate. case normalizeOrigin new_url candidate of
              None \<Rightarrow> False | Some normalized \<Rightarrow> constantTimeEqual cr normalized origin) (allowedOrigins ev));
          csrfValid = (case csrfHeader ev of
            None \<Rightarrow> False | Some h \<Rightarrow> constantTimeEqual cr h (csrfSessionValue ev))
      in check (origin_allowed \<and> csrfValid) Csrf_rejected)"

definition serializePcSessionCookie :: "string \<Rightarrow> jnum \<Rightarrow> session_failure + string" where
  "serializePcSessionCookie credential maxAgeSeconds =
     bindR (validateCredential credential) (\<lambda>_. case safe_int maxAgeSeconds of
       Some n \<Rightarrow> if n \<le> 0 \<or> 31536000 < n then Inl Session_invalid
         else Inr (''__Host-ai_crm_pc_session='' @ credential @ ''; Path=/; Max-Age='' @ decimal (nat n) @
           ''; HttpOnly; Secure; SameSite=Lax'')
     | None \<Rightarrow> Inl Session_invalid)"

definition clearPcSessionCookie :: string where
  "clearPcSessionCookie = ''__Host-ai_crm_pc_session=; Path=/; Max-Age=0; HttpOnly; Secure; SameSite=Lax''"


section \<open>Facts about credentials and tokens\<close>

lemma credential_iff: "rx_test CREDENTIAL v \<longleftrightarrow> length v = 43 \<and> list_all (in_cls cls_b64) v"
  by (auto simp: CREDENTIAL_def rx_test_Rep_Cls)

lemma fresh_credential_valid: "length bs = 32 \<Longrightarrow> rx_test CREDENTIAL (createOpaqueCredential bs)"
  by (simp add: createOpaqueCredential_def credential_iff length_b64_encode b64_encode_cls)

lemma b64_encode_Nil [simp]: "b64_encode bs = [] \<longleftrightarrow> bs = []"
  by (cases bs rule: b64_encode.cases) auto

lemma decode_encoded:
  "bs \<noteq> [] \<Longrightarrow> (4 * length bs + 2) div 3 \<le> n \<Longrightarrow> decodeBoundedBase64Url (JStr (b64_encode bs)) n = Inr bs"
  by (auto simp: decodeBoundedBase64Url_def b64_round_trip rx_test_Rep_Cls b64_encode_cls length_b64_encode Suc_le_eq div_greater_zero_iff)

lemma parse_tokens_value:
  assumes "validateToken (JStr (accessToken t))" "validateToken (JStr (refreshToken t))"
    "opt_all (\<lambda>i. validateToken (JStr i)) (idToken t)"
  shows "parse_tokens (Some (tokens_value t)) = Inr t"
  using assms by (cases "idToken t") (auto simp: parse_tokens_def tokens_value_def)

text \<open>The documented behaviour of AES-256-GCM: opening what was sealed gives it back.\<close>

definition gcm_law :: "crypto \<Rightarrow> bool" where
  "gcm_law cr \<longleftrightarrow> (\<forall>k iv aad pt. length (fst (gcm_seal cr k iv aad pt)) = length pt \<and>
     length (snd (gcm_seal cr k iv aad pt)) = 16 \<and>
     gcm_open cr k iv aad (fst (gcm_seal cr k iv aad pt)) (snd (gcm_seal cr k iv aad pt)) = Some pt)"

lemma find_unique_key:
  "key \<in> set keyring \<Longrightarrow> distinct (map kek_id keyring) \<Longrightarrow> find (\<lambda>k. kek_id k = kek_id key) keyring = Some key"
  by (induction keyring) auto

lemma encrypted_get [simp]:
  "get (encrypted_value e) ''algorithm'' = JStr ''A256GCM''" "get (encrypted_value e) ''ciphertext'' = JStr (et_ciphertext e)"
  "get (encrypted_value e) ''initializationVector'' = JStr (et_initializationVector e)"
  "get (encrypted_value e) ''keyId'' = JStr (et_keyId e)" "get (encrypted_value e) ''tag'' = JStr (et_tag e)"
  "get (encrypted_value e) ''version'' = JNum (Num (of_nat (et_version e)))"
  by (simp_all add: encrypted_value_def)

lemma encryptSessionTokens_ok:
  assumes "encryptSessionTokens cr iv t key ref = Inr e"
  shows "valid_key key" "rx_test CREDENTIAL ref" "parse_tokens (Some (tokens_value t)) = Inr t"
    "length (json_bytes cr (tokens_value t)) \<le> 32 * 1024"
    "e = \<lparr>et_ciphertext = b64_encode (fst (gcm_seal cr (kek_value key) iv (token_aad 2 (kek_id key) ref) (json_bytes cr (tokens_value t)))),
       et_initializationVector = b64_encode iv, et_keyId = kek_id key,
       et_tag = b64_encode (snd (gcm_seal cr (kek_value key) iv (token_aad 2 (kek_id key) ref) (json_bytes cr (tokens_value t)))),
       et_version = 2\<rparr>"
  using assms parse_tokens_value [of t]
  by (auto simp: encryptSessionTokens_def result_simps validateEncryptionKey_def validateCredential_def Let_def
      split: if_splits prod.splits)

lemma decrypt_own_envelope:
  assumes "encryptSessionTokens cr iv t key ref = Inr e" "length iv = 12" "gcm_law cr"
    and "json_bytes cr (tokens_value t) \<noteq> []"
    and "key \<in> set keyring" "distinct (map kek_id keyring)" "rx_test CREDENTIAL ref'"
  shows "decryptSessionTokens cr (encrypted_value e) keyring ref' = parse_tokens (Option.bind
     (gcm_open cr (kek_value key) iv (token_aad 2 (kek_id key) ref')
        (fst (gcm_seal cr (kek_value key) iv (token_aad 2 (kek_id key) ref) (json_bytes cr (tokens_value t))))
        (snd (gcm_seal cr (kek_value key) iv (token_aad 2 (kek_id key) ref) (json_bytes cr (tokens_value t)))))
     (json_of_bytes cr))"
proof -
  let ?s = "gcm_seal cr (kek_value key) iv (token_aad 2 (kek_id key) ref) (json_bytes cr (tokens_value t))"
  note ok = encryptSessionTokens_ok [OF assms(1)]
  have len: "length (fst ?s) = length (json_bytes cr (tokens_value t))" "length (snd ?s) = 16"
    using assms(3) by (simp_all add: gcm_law_def)
  have iv: "decodeBoundedBase64Url (JStr (b64_encode iv)) 32 = Inr iv"
    using assms(2) by (intro decode_encoded) auto
  have tag: "decodeBoundedBase64Url (JStr (b64_encode (snd ?s))) 32 = Inr (snd ?s)"
    using len(2) by (intro decode_encoded) auto
  have ct: "decodeBoundedBase64Url (JStr (b64_encode (fst ?s))) MAX_ENCODED_TOKEN_PAYLOAD_LENGTH = Inr (fst ?s)"
    using len(1) ok(4) assms(4) by (intro decode_encoded) (auto simp: MAX_ENCODED_TOKEN_PAYLOAD_LENGTH_def)
  show ?thesis
    using ok(1,4) iv tag ct len assms(2,7) find_unique_key [OF assms(5,6)]
    by (simp add: decryptSessionTokens_def validateCredential_def validateEncryptionKey_def envelope_version_def ok(5))
qed

text \<open>
  A session's tokens survive storage and are bound to their session: what was encrypted for a
  session reference decrypts, with any key ring that holds the key, to the same tokens, and under any
  other reference it is refused (given that AES-GCM opens what it sealed and rejects other
  associated data).
\<close>

theorem session_tokens_round_trip:
  assumes "encryptSessionTokens cr iv t key ref = Inr e" "length iv = 12" "gcm_law cr"
    and "json_bytes cr (tokens_value t) \<noteq> []"
    and "json_of_bytes cr (json_bytes cr (tokens_value t)) = Some (tokens_value t)"
    and "key \<in> set keyring" "distinct (map kek_id keyring)"
    and "\<And>aad. aad \<noteq> token_aad 2 (kek_id key) ref \<Longrightarrow> aad = token_aad 2 (kek_id key) ref' \<Longrightarrow>
       gcm_open cr (kek_value key) iv aad
        (fst (gcm_seal cr (kek_value key) iv (token_aad 2 (kek_id key) ref) (json_bytes cr (tokens_value t))))
        (snd (gcm_seal cr (kek_value key) iv (token_aad 2 (kek_id key) ref) (json_bytes cr (tokens_value t)))) = None"
  shows "decryptSessionTokens cr (encrypted_value e) keyring ref = Inr t \<and>
    (ref' \<noteq> ref \<longrightarrow> decryptSessionTokens cr (encrypted_value e) keyring ref' = Inl Session_invalid)"
proof (intro conjI impI)
  note ok = encryptSessionTokens_ok [OF assms(1)]
  have "gcm_open cr (kek_value key) iv (token_aad 2 (kek_id key) ref)
        (fst (gcm_seal cr (kek_value key) iv (token_aad 2 (kek_id key) ref) (json_bytes cr (tokens_value t))))
        (snd (gcm_seal cr (kek_value key) iv (token_aad 2 (kek_id key) ref) (json_bytes cr (tokens_value t)))) =
        Some (json_bytes cr (tokens_value t))"
    using assms(3) by (simp add: gcm_law_def)
  then show "decryptSessionTokens cr (encrypted_value e) keyring ref = Inr t"
    using decrypt_own_envelope [OF assms(1-4,6,7) ok(2)] assms(5) ok(3) by simp
  assume "ref' \<noteq> ref"
  then have "token_aad 2 (kek_id key) ref' \<noteq> token_aad 2 (kek_id key) ref" by (simp add: token_aad_def)
  then have "decryptSessionTokens cr (encrypted_value e) keyring ref' = Inl Session_invalid" if "rx_test CREDENTIAL ref'"
    using decrypt_own_envelope [OF assms(1-4,6,7) that] assms(8) by (simp add: parse_tokens_def)
  then show "decryptSessionTokens cr (encrypted_value e) keyring ref' = Inl Session_invalid"
    by (cases "rx_test CREDENTIAL ref'") (auto simp: decryptSessionTokens_def validateCredential_def)
qed

text \<open>The strings that \<open>validateBrowserMutation\<close> compares through their HMAC.\<close>

definition compared_strings :: "(string \<Rightarrow> url option) \<Rightarrow> browser_evidence \<Rightarrow> string set" where
  "compared_strings new_url ev = insert (csrfSessionValue ev) (set_option (csrfHeader ev)) \<union>
     set_option (requestOrigin new_url ev) \<union> (\<Union>c \<in> set (allowedOrigins ev). set_option (normalizeOrigin new_url c))"

definition http_origin :: "(string \<Rightarrow> url option) \<Rightarrow> string \<Rightarrow> string \<Rightarrow> bool" where
  "http_origin new_url s origin \<longleftrightarrow> (\<exists>u. new_url s = Some u \<and> url_protocol u \<in> {''http:'', ''https:''} \<and>
     url_username u = [] \<and> url_password u = [] \<and> origin = url_origin u)"

lemma normalizeOrigin_iff: "normalizeOrigin new_url s = Some origin \<longleftrightarrow> http_origin new_url s origin"
  by (auto simp: normalizeOrigin_def http_origin_def split: option.splits)

lemma requestOrigin_iff:
  "requestOrigin new_url ev = Some origin \<longleftrightarrow> (\<exists>source. (ev_origin ev = Some source \<or>
     ev_origin ev = None \<and> ev_referer ev = Some source) \<and> http_origin new_url source origin)"
  by (auto simp: requestOrigin_def normalizeOrigin_iff split: option.splits bind_splits)

text \<open>
  A browser mutation passes exactly when its origin (of the \<open>Origin\<close> header, or of the referer
  only when there is no \<open>Origin\<close> header) is an HTTP origin without credentials that equals an allowed
  one, and its CSRF header equals the session's token, provided that the HMAC used for the comparison
  in constant time does not collide on the compared strings.
\<close>

theorem browser_mutation_is_checked:
  assumes "inj_on (hmac_sha256 cr (text_bytes ''ai-crm-constant-time-compare'')) (compared_strings new_url ev)"
  shows "validateBrowserMutation cr new_url ev = Inr () \<longleftrightarrow> csrfHeader ev = Some (csrfSessionValue ev) \<and>
    (\<exists>source origin. (ev_origin ev = Some source \<or> ev_origin ev = None \<and> ev_referer ev = Some source) \<and>
       http_origin new_url source origin \<and> (\<exists>c \<in> set (allowedOrigins ev). http_origin new_url c origin))"
proof -
  have eq: "constantTimeEqual cr l r \<longleftrightarrow> l = r"
    if "l \<in> compared_strings new_url ev" "r \<in> compared_strings new_url ev" for l r
    using assms that by (auto simp: constantTimeEqual_def dest: inj_onD)
  have csrf: "(case csrfHeader ev of None \<Rightarrow> False | Some h \<Rightarrow> constantTimeEqual cr h (csrfSessionValue ev)) \<longleftrightarrow>
      csrfHeader ev = Some (csrfSessionValue ev)"
    by (cases "csrfHeader ev") (auto simp: eq compared_strings_def)
  have candidate: "(case normalizeOrigin new_url c of None \<Rightarrow> False | Some n \<Rightarrow> constantTimeEqual cr n origin) \<longleftrightarrow>
      normalizeOrigin new_url c = Some origin"
    if "requestOrigin new_url ev = Some origin" "c \<in> set (allowedOrigins ev)" for c origin
  proof (cases "normalizeOrigin new_url c")
    case (Some n)
    then have "n \<in> compared_strings new_url ev" "origin \<in> compared_strings new_url ev"
      using that by (auto simp: compared_strings_def)
    with Some show ?thesis by (simp add: eq)
  qed simp
  have "(case requestOrigin new_url ev of None \<Rightarrow> False
      | Some origin \<Rightarrow> list_ex (\<lambda>c. case normalizeOrigin new_url c of
          None \<Rightarrow> False | Some n \<Rightarrow> constantTimeEqual cr n origin) (allowedOrigins ev)) \<longleftrightarrow>
      (\<exists>origin. requestOrigin new_url ev = Some origin \<and> (\<exists>c \<in> set (allowedOrigins ev). http_origin new_url c origin))"
    by (cases "requestOrigin new_url ev") (auto simp: list_ex_iff candidate normalizeOrigin_iff [symmetric])
  with csrf show ?thesis
    by (simp add: validateBrowserMutation_def Let_def check_eq_Inr requestOrigin_iff) blast
qed

definition witness_crypto :: crypto where
  "witness_crypto = \<lparr>hmac_sha256 = (\<lambda>k s. take 32 (text_bytes s @ replicate 32 0)),
     gcm_seal = (\<lambda>k iv aad pt. (pt, take 16 (rev (text_bytes aad) @ replicate 16 0))),
     gcm_open = (\<lambda>k iv aad ct tag. if tag = take 16 (rev (text_bytes aad) @ replicate 16 0) then Some ct else None),
     json_bytes = (\<lambda>v. case (get v ''accessToken'', get v ''refreshToken'') of
        (JStr a, JStr r) \<Rightarrow> text_bytes (a @ '' '' @ r) | _ \<Rightarrow> []),
     json_of_bytes = (\<lambda>bs. let s = map (\<lambda>b. char_of (unat b)) bs in
        Some (tokens_value \<lparr>accessToken = takeWhile (\<lambda>c. c \<noteq> CHR '' '') s,
          refreshToken = drop 1 (dropWhile (\<lambda>c. c \<noteq> CHR '' '') s), idToken = None\<rparr>))\<rparr>"

definition witness_url :: "string \<Rightarrow> url option" where
  "witness_url s = Some \<lparr>url_protocol = ''https:'', url_username = [], url_password = [], url_origin = s\<rparr>"

definition witness_evidence :: browser_evidence where
  "witness_evidence = \<lparr>allowedOrigins = [''https://crm''], csrfHeader = Some ''token'', csrfSessionValue = ''token'',
     ev_origin = Some ''https://crm'', ev_referer = None\<rparr>"

theorem browser_mutation_is_checked_witness:
  "validateBrowserMutation witness_crypto witness_url witness_evidence = Inr ()"
proof -
  have "inj_on (hmac_sha256 witness_crypto (text_bytes ''ai-crm-constant-time-compare''))
      (compared_strings witness_url witness_evidence)"
    by (simp add: compared_strings_def witness_evidence_def witness_url_def requestOrigin_def normalizeOrigin_def
        witness_crypto_def inj_on_def text_bytes_def)
  then show ?thesis
    by (subst browser_mutation_is_checked) (auto simp: witness_evidence_def witness_url_def http_origin_def)
qed

definition witness_tokens :: session_tokens where
  "witness_tokens = \<lparr>accessToken = ''a'', refreshToken = ''r'', idToken = None\<rparr>"

definition witness_key :: key_encryption_key where
  "witness_key = \<lparr>kek_id = ''k1'', kek_value = replicate 32 7\<rparr>"

definition witness_reference :: string where
  "witness_reference = replicate 43 CHR ''A''"

definition other_reference :: string where
  "other_reference = replicate 43 CHR ''B''"

lemma witness_reference_valid: "rx_test CREDENTIAL witness_reference"
  by (simp add: credential_iff witness_reference_def list_all_length in_cls_def cls_b64_def cls_alnum_def
      cls_upper_def cls_lower_def cls_digit_def chars_of_def)

lemma witness_key_valid: "valid_key witness_key"
  by (simp add: valid_key_def witness_key_def) code_simp

theorem session_tokens_round_trip_witness:
  "\<exists>e. encryptSessionTokens witness_crypto (replicate 12 0) witness_tokens witness_key witness_reference = Inr e \<and>
     decryptSessionTokens witness_crypto (encrypted_value e) [witness_key] witness_reference = Inr witness_tokens \<and>
     decryptSessionTokens witness_crypto (encrypted_value e) [witness_key] other_reference = Inl Session_invalid"
proof -
  have js: "json_bytes witness_crypto (tokens_value witness_tokens) = text_bytes ''a r''"
    by (simp add: witness_crypto_def witness_tokens_def tokens_value_def)
  obtain e where e: "encryptSessionTokens witness_crypto (replicate 12 0) witness_tokens witness_key witness_reference = Inr e"
    using js by (simp add: encryptSessionTokens_def validateEncryptionKey_def validateCredential_def witness_key_valid
        witness_reference_valid validateToken_def witness_tokens_def text_bytes_def case_prod_beta Let_def)
  have "gcm_law witness_crypto" by (auto simp: gcm_law_def witness_crypto_def min_def)
  moreover have "char_of (97 :: nat) = CHR ''a''" "char_of (114 :: nat) = CHR ''r''" "char_of (32 :: nat) = CHR '' ''"
    by (simp_all add: char_of_def bit_0)
  then have "json_of_bytes witness_crypto (text_bytes ''a r'') = Some (tokens_value witness_tokens)"
    by (simp add: witness_crypto_def text_bytes_def witness_tokens_def)
  moreover have "take 16 (rev (text_bytes (token_aad 2 ''k1'' other_reference)) @ replicate 16 0) \<noteq>
      take 16 (rev (text_bytes (token_aad 2 ''k1'' witness_reference)) @ replicate 16 (0 :: byte))"
    by (simp add: token_aad_def other_reference_def witness_reference_def text_bytes_def)
  then have "gcm_open witness_crypto (kek_value witness_key) iv (token_aad 2 (kek_id witness_key) other_reference) ct
      (snd (gcm_seal witness_crypto k iv' (token_aad 2 (kek_id witness_key) witness_reference) pt)) = None" for iv ct k iv' pt
    by (simp add: witness_crypto_def witness_key_def)
  ultimately show ?thesis
    using session_tokens_round_trip [OF e, of "[witness_key]" other_reference] e js
    by (simp add: text_bytes_def other_reference_def witness_reference_def)
qed

end
