(* ===== verification/Oidc.thy ===== *)
theory Oidc
  imports Session_Security
begin

text \<open>
  \<open>apps/api/src/auth/oidc.ts\<close>: what the OpenID Connect client does around the library \<open>openid-client\<close>:
  the validation of the return address, the normalisation of a token response, the classification
  of failures, and the callback's guards. The library and the network are arguments: a call returns
  a response or the error it throws.
\<close>

record login_transaction =
  codeVerifier :: string
  lt_nonce :: string
  returnTo :: string
  lt_state :: string

record token_result =
  tr_authenticatedAtMs :: int
  tr_expiresInSeconds :: int
  tr_tokens :: session_tokens

text \<open>
  A thrown value, with the properties the classification reads: its class, the code of a
  \<open>BrowserSessionFailure\<close>, a numeric \<open>status\<close> and its \<open>cause\<close>.
\<close>

datatype thrown_error =
    Session_failure session_failure "thrown_error option"
  | Type_error "thrown_error option"
  | Other_error "rat option" "thrown_error option"
  | Not_an_object

fun cause :: "thrown_error \<Rightarrow> thrown_error option" where
  "cause (Session_failure f c) = c"
| "cause (Type_error c) = c"
| "cause (Other_error s c) = c"
| "cause Not_an_object = None"

definition validateReturnTo :: "string \<Rightarrow> session_failure + string" where
  "validateReturnTo v =
     (if v = [] \<or> 512 < length v \<or> take 1 v \<noteq> ''/'' \<or> take 2 v = ''//'' \<or>
         list_ex (\<lambda>c. c = CHR 0x00 \<or> c = CHR 0x0D \<or> c = CHR 0x0A \<or> c = CHR 0x5C) v
      then Inl Callback_invalid else Inr v)"

text \<open>
  \<open>normalizeTokenResult\<close>: \<open>response\<close> is the library's response, \<open>claims\<close> what its \<open>claims()\<close>
  returns (\<open>JUndef\<close> without one), \<open>current\<close> is \<open>Date.now()\<close>.
\<close>

definition coalesce :: "jval \<Rightarrow> string option \<Rightarrow> jval" where
  "coalesce v previous = (case v of
     JUndef \<Rightarrow> (case previous of Some s \<Rightarrow> JStr s | None \<Rightarrow> JUndef)
   | JNull \<Rightarrow> (case previous of Some s \<Rightarrow> JStr s | None \<Rightarrow> JUndef)
   | _ \<Rightarrow> v)"

definition has_property :: "jval \<Rightarrow> string \<Rightarrow> bool" where
  "has_property v k \<longleftrightarrow> is_record v \<and> k \<in> set (keys v)"

definition issued_at :: "jval \<Rightarrow> jval" where
  "issued_at claims =
     (if has_property claims ''auth_time'' then get claims ''auth_time''
      else if has_property claims ''iat'' then get claims ''iat'' else JUndef)"

definition normalizeTokenResult ::
    "int \<Rightarrow> jval \<Rightarrow> jval \<Rightarrow> session_tokens option \<Rightarrow> session_failure + token_result" where
  "normalizeTokenResult current response claims previous =
     (let access = get response ''access_token'';
          refresh = coalesce (get response ''refresh_token'') (map_option refreshToken previous);
          ident = coalesce (get response ''id_token'') (Option.bind previous idToken)
      in case (access, refresh, get response ''expires_in'') of
        (JStr a, JStr r, JNum n) \<Rightarrow>
          if \<not> validateToken access \<or> \<not> validateToken refresh \<or> (ident \<noteq> JUndef \<and> \<not> validateToken ident)
          then Inl Dependency_unavailable
          else (case safe_int n of
              None \<Rightarrow> Inl Dependency_unavailable
            | Some seconds \<Rightarrow> if seconds \<le> 0 then Inl Dependency_unavailable
                else Inr \<lparr>tr_authenticatedAtMs = (case Option.bind (num_of (issued_at claims)) safe_int of
                        Some i \<Rightarrow> i * 1000 | None \<Rightarrow> current),
                      tr_expiresInSeconds = seconds,
                      tr_tokens = \<lparr>accessToken = a, refreshToken = r, idToken = str_of ident\<rparr>\<rparr>)
      | _ \<Rightarrow> Inl Dependency_unavailable)"

text \<open>
  \<open>dependencyFailure\<close> follows at most four causes. A chain of causes that revisits an object is not
  representable here; the code's \<open>seen\<close> set only stops such a chain.
\<close>

fun dependency_failure_upto :: "nat \<Rightarrow> thrown_error option \<Rightarrow> bool" where
  "dependency_failure_upto 0 current = False"
| "dependency_failure_upto (Suc depth) None = False"
| "dependency_failure_upto (Suc depth) (Some e) = (case e of
     Type_error _ \<Rightarrow> True
   | Session_failure f c \<Rightarrow> f = Dependency_unavailable \<or> dependency_failure_upto depth c
   | Other_error status c \<Rightarrow> (case status of Some s \<Rightarrow> s = 429 \<or> 500 \<le> s | None \<Rightarrow> False) \<or> dependency_failure_upto depth c
   | Not_an_object \<Rightarrow> False)"

definition dependencyFailure :: "thrown_error \<Rightarrow> bool" where
  "dependencyFailure e = dependency_failure_upto 4 (Some e)"

definition callbackFailure :: "thrown_error \<Rightarrow> session_failure" where
  "callbackFailure e = (if dependencyFailure e then Dependency_unavailable
     else case e of Session_failure f _ \<Rightarrow> f | _ \<Rightarrow> Callback_invalid)"

definition refreshFailure :: "thrown_error \<Rightarrow> session_failure" where
  "refreshFailure e = (if dependencyFailure e then Dependency_unavailable
     else case e of Session_failure f _ \<Rightarrow> f | _ \<Rightarrow> Refresh_rejected)"

text \<open>The guarded \<open>fetch\<close>: overload and server errors are failures of the dependency.\<close>

definition guardedFetch :: "int \<Rightarrow> session_failure + int" where
  "guardedFetch status = (if status = 429 \<or> 500 \<le> status then Inl Dependency_unavailable else Inr status)"

record callback_url =
  cu_origin :: string
  cu_pathname :: string
  cu_username :: string
  cu_password :: string
  cu_hash :: string

text \<open>\<open>exchangeCallback\<close>: \<open>grant\<close> is \<open>authorizationCodeGrant\<close>, given the nonce, state and verifier to expect.\<close>

definition exchangeCallback ::
    "int \<Rightarrow> callback_url option \<Rightarrow> callback_url
     \<Rightarrow> (string \<Rightarrow> string \<Rightarrow> string \<Rightarrow> thrown_error + jval \<times> jval) \<Rightarrow> login_transaction \<Rightarrow> session_failure + token_result" where
  "exchangeCallback current currentUrl redirectUri grant tx = (case currentUrl of
     None \<Rightarrow> Inl Callback_invalid
   | Some u \<Rightarrow>
       if cu_origin u \<noteq> cu_origin redirectUri \<or> cu_pathname u \<noteq> cu_pathname redirectUri \<or>
          cu_username u \<noteq> [] \<or> cu_password u \<noteq> [] \<or> cu_hash u \<noteq> []
       then Inl (callbackFailure (Session_failure Callback_invalid None))
       else (case grant (lt_nonce tx) (lt_state tx) (codeVerifier tx) of
           Inl e \<Rightarrow> Inl (callbackFailure e)
         | Inr (response, claims) \<Rightarrow> (case normalizeTokenResult current response claims None of
               Inl f \<Rightarrow> Inl (callbackFailure (Session_failure f None))
             | Inr t \<Rightarrow> Inr t)))"

definition oidc_refresh ::
    "int \<Rightarrow> (string \<Rightarrow> thrown_error + jval \<times> jval) \<Rightarrow> session_tokens \<Rightarrow> session_failure + token_result" where
  "oidc_refresh current grant tokens = (case grant (refreshToken tokens) of
     Inl e \<Rightarrow> Inl (refreshFailure e)
   | Inr (response, claims) \<Rightarrow> (case normalizeTokenResult current response claims (Some tokens) of
       Inl f \<Rightarrow> Inl (refreshFailure (Session_failure f None))
     | Inr t \<Rightarrow> Inr t))"

text \<open>\<open>beginLogin\<close>: the random values and the library's URL are arguments.\<close>

definition oidc_beginLogin :: "string \<Rightarrow> string \<Rightarrow> string \<Rightarrow> string \<Rightarrow> string \<Rightarrow> session_failure + string \<times> login_transaction" where
  "oidc_beginLogin verifier nonce state authorizationUrl target =
     bindR (validateReturnTo target) (\<lambda>checked.
       Inr (authorizationUrl, \<lparr>codeVerifier = verifier, lt_nonce = nonce, returnTo = checked, lt_state = state\<rparr>))"

section \<open>Where a return address leads\<close>

text \<open>
  A browser resolves the \<open>Location\<close> header by the basic URL parser of the URL standard, against an address
  of the site. It strips control characters and spaces at both ends and removes every tab and newline.
  What is left names another host when it has a scheme or begins with two slashes, and for the schemes of
  the web a backslash counts as a slash.
\<close>

definition tab :: char where
  "tab = CHR 0x09"

definition control_or_space :: "char \<Rightarrow> bool" where
  "control_or_space c \<longleftrightarrow> (of_char c :: nat) \<le> 32"

definition url_input :: "string \<Rightarrow> string" where
  "url_input v = filter (\<lambda>c. c \<noteq> tab \<and> c \<noteq> CHR 0x0A \<and> c \<noteq> CHR 0x0D)
     (rev (dropWhile control_or_space (rev (dropWhile control_or_space v))))"

definition url_slash :: "char \<Rightarrow> bool" where
  "url_slash c \<longleftrightarrow> c = CHR ''/'' \<or> c = CHR 0x5C"

definition has_scheme :: "string \<Rightarrow> bool" where
  "has_scheme s \<longleftrightarrow> s \<noteq> [] \<and> in_cls (cls_lower @ cls_upper) (hd s) \<and>
     (let r = dropWhile (in_cls (cls_alnum @ chars_of ''+-.'')) s in r \<noteq> [] \<and> hd r = CHR '':'')"

definition leaves_site :: "string \<Rightarrow> bool" where
  "leaves_site v \<longleftrightarrow> has_scheme (url_input v) \<or>
     (case url_input v of a # b # _ \<Rightarrow> url_slash a \<and> url_slash b | _ \<Rightarrow> False)"

lemma leaves_site_examples:
  "leaves_site ''//evil.example''" "leaves_site [CHR ''/'', CHR 0x5C, CHR ''e'']" "leaves_site ''https://evil.example''"
  "leaves_site ('' '' @ [CHR ''/'', tab, CHR ''/'', CHR ''e''])" "\<not> leaves_site ''/home''" "\<not> leaves_site ''home''"
  by (simp_all add: leaves_site_def url_input_def control_or_space_def url_slash_def has_scheme_def tab_def
      in_cls_def cls_lower_def cls_upper_def cls_digit_def cls_alnum_def chars_of_def)

text \<open>Trailing control characters and spaces do not matter to the first character that is neither.\<close>

lemma strip_end: "\<not> control_or_space x \<Longrightarrow>
    rev (dropWhile control_or_space (rev (xs @ x # ys))) = xs @ x # rev (dropWhile control_or_space (rev ys))"
  by (induction ys rule: rev_induct) auto

lemma url_input_slash:
  assumes "list_all (\<lambda>c. c \<noteq> CHR 0x0A \<and> c \<noteq> CHR 0x0D) r"
  shows "url_input (CHR ''/'' # r) = CHR ''/'' # filter (\<lambda>c. c \<noteq> tab) (rev (dropWhile control_or_space (rev r)))"
proof -
  let ?P = "\<lambda>c. c \<noteq> tab \<and> c \<noteq> CHR 0x0A \<and> c \<noteq> CHR 0x0D"
  have slash: "\<not> control_or_space CHR ''/''" by (simp add: control_or_space_def)
  have keep: "?P CHR ''/''" by (simp add: tab_def)
  have "\<forall>c \<in> set (rev (dropWhile control_or_space (rev r))). c \<noteq> CHR 0x0A \<and> c \<noteq> CHR 0x0D"
    using assms unfolding list_all_iff by (metis set_dropWhileD set_rev)
  then have rest: "filter ?P (rev (dropWhile control_or_space (rev r))) = filter (\<lambda>c. c \<noteq> tab) (rev (dropWhile control_or_space (rev r)))"
    by (intro filter_cong) auto
  have "dropWhile control_or_space (CHR ''/'' # r) = [] @ CHR ''/'' # r" using slash by simp
  then have "url_input (CHR ''/'' # r) = filter ?P ([] @ CHR ''/'' # rev (dropWhile control_or_space (rev r)))"
    unfolding url_input_def by (simp only: strip_end [OF slash])
  then show ?thesis using keep rest by (simp only: append_Nil filter.simps if_True simp_thms)
qed

lemma strip_starts:
  assumes "\<not> control_or_space x"
  shows "(\<exists>k rest. rev (dropWhile control_or_space (rev r)) = replicate k tab @ x # rest)
    \<longleftrightarrow> (\<exists>k rest. r = replicate k tab @ x # rest)"
proof
  assume "\<exists>k rest. rev (dropWhile control_or_space (rev r)) = replicate k tab @ x # rest"
  then obtain k rest where "rev (dropWhile control_or_space (rev r)) = replicate k tab @ x # rest" by blast
  moreover have "r = rev (dropWhile control_or_space (rev r)) @ rev (takeWhile control_or_space (rev r))"
    by (metis rev_append rev_rev_ident takeWhile_dropWhile_id)
  ultimately have "r = replicate k tab @ x # (rest @ rev (takeWhile control_or_space (rev r)))" by simp
  then show "\<exists>k rest. r = replicate k tab @ x # rest" by blast
next
  assume "\<exists>k rest. r = replicate k tab @ x # rest"
  then obtain k rest where "r = replicate k tab @ x # rest" by blast
  with strip_end [OF assms, of "replicate k tab" rest]
  show "\<exists>k rest. rev (dropWhile control_or_space (rev r)) = replicate k tab @ x # rest" by auto
qed

lemma starts_after_tabs:
  "take (Suc 0) (filter (\<lambda>c. c \<noteq> tab) r) = [x] \<and> x \<noteq> tab \<longleftrightarrow> x \<noteq> tab \<and> (\<exists>k rest. r = replicate k tab @ x # rest)"
proof (induction r)
  case (Cons c r)
  show ?case
  proof (cases "c = tab")
    case True
    have "(\<exists>k rest. tab # r = replicate k tab @ x # rest) \<longleftrightarrow> (\<exists>k rest. r = replicate k tab @ x # rest)" if "x \<noteq> tab"
    proof
      assume "\<exists>k rest. tab # r = replicate k tab @ x # rest"
      then obtain k rest where "tab # r = replicate k tab @ x # rest" by blast
      with that show "\<exists>k rest. r = replicate k tab @ x # rest" by (cases k) auto
    next
      assume "\<exists>k rest. r = replicate k tab @ x # rest"
      then obtain k rest where "tab # r = replicate (Suc k) tab @ x # rest" by auto
      then show "\<exists>k rest. tab # r = replicate k tab @ x # rest" by blast
    qed
    with True Cons.IH show ?thesis by auto
  next
    case False
    have "(\<exists>k rest. c # r = replicate k tab @ x # rest) \<longleftrightarrow> c = x"
    proof
      assume "\<exists>k rest. c # r = replicate k tab @ x # rest"
      then obtain k rest where "c # r = replicate k tab @ x # rest" by blast
      with False show "c = x" by (cases k) auto
    next
      assume "c = x"
      then have "c # r = replicate 0 tab @ x # r" by simp
      then show "\<exists>k rest. c # r = replicate k tab @ x # rest" by blast
    qed
    with False show ?thesis by auto
  qed
qed simp

text \<open>
  Property C31. A validated return address is the address given, and it leads away from the site exactly when
  tabs separate its first slash from a second one. \<open>validateReturnTo\<close> means to allow only addresses on
  the site (it refuses two slashes, backslashes and line breaks), but it lets tabs pass, so such an
  address redirects to another host after login.
\<close>

theorem return_address_leaves_the_site_only_by_tabs:
  assumes "validateReturnTo v = Inr u"
  shows "u = v \<and> (leaves_site v \<longleftrightarrow> (\<exists>k rest. v = ''/'' @ replicate (Suc k) tab @ ''/'' @ rest))"
proof -
  have u: "u = v" "take 1 v = ''/''" "take 2 v \<noteq> ''//''"
    and no: "list_all (\<lambda>c. c \<noteq> CHR 0x0A \<and> c \<noteq> CHR 0x0D) v" "CHR 0x5C \<notin> set v"
    using assms by (auto simp: validateReturnTo_def list_ex_iff list_all_iff split: if_splits)
  from u(2) obtain r where r: "v = CHR ''/'' # r" by (cases v) auto
  define s where "s = rev (dropWhile control_or_space (rev r))"
  have "set s \<subseteq> set r" by (auto simp: s_def dest: set_dropWhileD)
  with no(2) r have s: "CHR 0x5C \<notin> set s" by auto
  have input: "url_input v = CHR ''/'' # filter (\<lambda>c. c \<noteq> tab) s"
    using url_input_slash [of r] no(1) by (simp add: r s_def)
  have "\<not> in_cls (cls_lower @ cls_upper) CHR ''/''" by (simp add: in_cls_def cls_lower_def cls_upper_def)
  then have "\<not> has_scheme (url_input v)" by (simp add: input has_scheme_def)
  then have "leaves_site v \<longleftrightarrow> take (Suc 0) (filter (\<lambda>c. c \<noteq> tab) s) = [CHR ''/'']"
    using s by (auto simp: leaves_site_def input url_slash_def filter_eq_Cons_iff split: list.splits)
  also have "\<dots> \<longleftrightarrow> (\<exists>k rest. s = replicate k tab @ CHR ''/'' # rest)"
    using starts_after_tabs [of s "CHR ''/''"] by (simp add: tab_def)
  also have "\<dots> \<longleftrightarrow> (\<exists>k rest. r = replicate k tab @ CHR ''/'' # rest)"
    unfolding s_def by (rule strip_starts) (simp add: control_or_space_def)
  also have "\<dots> \<longleftrightarrow> (\<exists>k rest. v = ''/'' @ replicate (Suc k) tab @ ''/'' @ rest)"
  proof
    assume "\<exists>k rest. r = replicate k tab @ CHR ''/'' # rest"
    then obtain k rest where k: "r = replicate k tab @ CHR ''/'' # rest" by blast
    then show "\<exists>k rest. v = ''/'' @ replicate (Suc k) tab @ ''/'' @ rest"
      using u(3) by (cases k) (auto simp: r numeral_2_eq_2)
  next
    assume "\<exists>k rest. v = ''/'' @ replicate (Suc k) tab @ ''/'' @ rest"
    then obtain k rest where "r = replicate (Suc k) tab @ CHR ''/'' # rest" by (auto simp: r)
    then show "\<exists>k rest. r = replicate k tab @ CHR ''/'' # rest" by blast
  qed
  finally show ?thesis using u(1) by simp
qed

theorem return_address_leaves_the_site_only_by_tabs_witness:
  "validateReturnTo (''/'' @ [tab] @ ''/evil.example'') = Inr (''/'' @ [tab] @ ''/evil.example'') \<and>
   leaves_site (''/'' @ [tab] @ ''/evil.example'')"
proof -
  have ok: "validateReturnTo (''/'' @ [tab] @ ''/evil.example'') = Inr (''/'' @ [tab] @ ''/evil.example'')"
    by (simp add: validateReturnTo_def tab_def numeral_2_eq_2)
  have "''/'' @ [tab] @ ''/evil.example'' = ''/'' @ replicate (Suc 0) tab @ ''/'' @ ''evil.example''" by simp
  then show ?thesis using ok return_address_leaves_the_site_only_by_tabs [OF ok] by blast
qed

end
