(* ===== verification/Session_Store.thy ===== *)
theory Session_Store
  imports Oidc
begin

text \<open>
  \<open>apps/api/src/auth/session-store.ts\<close>: login transactions, sessions and refresh leases in Redis.

  Redis is a map from keys to values with an expiry instant (every key written here has one), and a
  command or Lua script is a function on it at an instant of the server's clock: Redis runs each
  atomically, and a key is gone from its expiry on. A value is a plain text or the JSON text of a
  value, which stands for the text that \<open>JSON.stringify\<close> wrote and that \<open>JSON.parse\<close> and
  \<open>cjson.decode\<close> read back; \<open>bytes\<close> gives its length in bytes.

  \<open>link\<close> is what happens to a command on the way: it may be refused, or executed with its reply lost;
  both are \<open>Dependency_unavailable\<close> for the caller, as are error replies.
  The connection (\<open>connectRedisSessionStore\<close>) is represented by that.
\<close>

datatype redis_value = Text string | Json jval

record redis_entry =
  entry_value :: redis_value
  entry_expires :: int

type_synonym redis_db = "string \<rightharpoonup> redis_entry"

datatype reply = Nil_reply | Int_reply int | Ok_reply | Bulk redis_value | Error_reply

datatype link = Up | Refused | Reply_lost

definition live :: "int \<Rightarrow> redis_db \<Rightarrow> redis_db" where
  "live now db = (\<lambda>k. case db k of Some e \<Rightarrow> if now < entry_expires e then Some e else None | None \<Rightarrow> None)"

definition r_get :: "redis_db \<Rightarrow> string \<Rightarrow> redis_value option" where
  "r_get db k = map_option entry_value (db k)"

definition r_set :: "int \<Rightarrow> string \<Rightarrow> redis_value \<Rightarrow> int \<Rightarrow> redis_db \<Rightarrow> redis_db" where
  "r_set now k v ttl db = db(k \<mapsto> \<lparr>entry_value = v, entry_expires = now + ttl\<rparr>)"

definition r_del :: "string \<Rightarrow> redis_db \<Rightarrow> redis_db" where
  "r_del k db = db(k := None)"

definition r_pexpire :: "int \<Rightarrow> string \<Rightarrow> int \<Rightarrow> redis_db \<Rightarrow> redis_db" where
  "r_pexpire now k ttl db = (case db k of None \<Rightarrow> db
     | Some e \<Rightarrow> if ttl \<le> 0 then r_del k db else db(k \<mapsto> e\<lparr>entry_expires := now + ttl\<rparr>))"

section \<open>Keys\<close>

definition session_key :: "string \<Rightarrow> string" where
  "session_key i = ''ai-crm:auth:pc:session:'' @ i"

definition login_key :: "string \<Rightarrow> string" where
  "login_key i = ''ai-crm:auth:pc:login:'' @ i"

definition family_key :: "string \<Rightarrow> string" where
  "family_key i = ''ai-crm:auth:pc:family:'' @ i"

definition lease_key :: "string \<Rightarrow> string" where
  "lease_key i = ''ai-crm:auth:pc:refresh:'' @ i"

definition checked :: "(string \<Rightarrow> string) \<Rightarrow> string \<Rightarrow> session_failure + string" where
  "checked mk i = bindR (check (rx_test CREDENTIAL i) Session_invalid) (\<lambda>_. Inr (mk i))"

definition positiveMilliseconds :: "int \<Rightarrow> session_failure + int" where
  "positiveMilliseconds v = (if v \<le> 0 \<or> 31536000000 < v then Inl Session_invalid else Inr v)"

section \<open>Scripts\<close>

text \<open>
  What a script reads of a decoded record: \<open>record.id\<close> as part of a key (an error unless it is a
  string) and numbers through \<open>tonumber\<close>. Records are written by this store alone, with the types of
  \<open>StoredBrowserSession\<close>; the coercions of Lua between numbers and strings are not modelled.
\<close>

definition decoded :: "redis_value \<Rightarrow> jval option" where
  "decoded v = (case v of Json j \<Rightarrow> Some j | Text _ \<Rightarrow> None)"

definition lua_number :: "jval \<Rightarrow> rat option" where
  "lua_number v = (case v of JNum (Num q) \<Rightarrow> Some q | _ \<Rightarrow> None)"

definition record_id :: "redis_value \<Rightarrow> string option" where
  "record_id v = Option.bind (decoded v) (\<lambda>j. str_of (get j ''id''))"

definition touch_script :: "string \<Rightarrow> int \<Rightarrow> int \<Rightarrow> string \<Rightarrow> int \<Rightarrow> redis_db \<Rightarrow> reply \<times> redis_db" where
  "touch_script key1 idleTtl nowMs idx now db = (case r_get db key1 of
     None \<Rightarrow> (Nil_reply, db)
   | Some v \<Rightarrow> (case (record_id v, Option.bind (decoded v) (\<lambda>j. lua_number (get j ''absoluteExpiresAtMs''))) of
       (Some i, Some absolute) \<Rightarrow>
         (let remaining = absolute - of_int nowMs in
          if remaining \<le> 0 then
            (Nil_reply, (let db1 = r_del key1 db in
               if r_get db1 (family_key i) = Some (Text idx) then r_del (family_key i) db1 else db1))
          else if r_get db (family_key i) \<noteq> Some (Text idx) then (Nil_reply, db)
          else (case int_val (Num (min (of_int idleTtl) remaining)) of
              None \<Rightarrow> (Error_reply, db)
            | Some ttl \<Rightarrow> (Bulk v, r_pexpire now (family_key i) ttl (r_pexpire now key1 ttl db))))
     | _ \<Rightarrow> (Error_reply, db)))"

definition create_script :: "string \<Rightarrow> string \<Rightarrow> redis_value \<Rightarrow> string \<Rightarrow> int \<Rightarrow> int \<Rightarrow> redis_db \<Rightarrow> reply \<times> redis_db" where
  "create_script key1 key2 arg1 arg2 ttl now db =
     (if db key1 \<noteq> None \<or> db key2 \<noteq> None then (Int_reply 0, db)
      else (Int_reply 1, r_set now key2 (Text arg2) ttl (r_set now key1 arg1 ttl db)))"

definition delete_script :: "string \<Rightarrow> string \<Rightarrow> redis_db \<Rightarrow> reply \<times> redis_db" where
  "delete_script key1 idx db = (case r_get db key1 of
     None \<Rightarrow> (Nil_reply, db)
   | Some v \<Rightarrow> (case record_id v of
       None \<Rightarrow> (Error_reply, db)
     | Some i \<Rightarrow> (Bulk v, r_del key1
         (if r_get db (family_key i) = Some (Text idx) then r_del (family_key i) db else db))))"

definition rotate_script ::
    "string \<Rightarrow> string \<Rightarrow> int \<Rightarrow> redis_value \<Rightarrow> int \<Rightarrow> string \<Rightarrow> string \<Rightarrow> int \<Rightarrow> redis_db \<Rightarrow> reply \<times> redis_db" where
  "rotate_script key1 key2 expectedRevision nextValue ttl previousIndex nextIndex now db =
     (if db key2 \<noteq> None then (Int_reply 0, db)
      else (case r_get db key1 of
          None \<Rightarrow> (Int_reply 0, db)
        | Some v \<Rightarrow> (case (decoded v, decoded nextValue) of
            (Some j, Some j') \<Rightarrow>
              if lua_number (get j ''revision'') \<noteq> Some (of_int expectedRevision) then (Int_reply 0, db)
              else if get j' ''id'' \<noteq> get j ''id'' then (Int_reply 0, db)
              else (case record_id v of
                  None \<Rightarrow> (Error_reply, db)
                | Some i \<Rightarrow>
                    if r_get db (family_key i) \<noteq> Some (Text previousIndex) then (Int_reply 0, db)
                    else (Int_reply 1, r_set now (family_key i) (Text nextIndex) ttl
                      (r_set now key2 nextValue ttl (r_del key1 db))))
          | _ \<Rightarrow> (Error_reply, db))))"

definition revoke_script :: "string \<Rightarrow> string \<Rightarrow> redis_db \<Rightarrow> reply \<times> redis_db" where
  "revoke_script key2 sessionId db = (case r_get db key2 of
     None \<Rightarrow> (Nil_reply, db)
   | Some (Json _) \<Rightarrow> (Error_reply, db)
   | Some (Text currentIndex) \<Rightarrow>
       (let currentKey = session_key currentIndex in
        case r_get db currentKey of
          None \<Rightarrow> (Nil_reply, r_del key2 db)
        | Some v \<Rightarrow> (case decoded v of
            None \<Rightarrow> (Error_reply, db)
          | Some j \<Rightarrow> if get j ''id'' \<noteq> JStr sessionId then (Nil_reply, db)
                     else (Bulk v, r_del key2 (r_del currentKey db)))))"

definition release_lease_script :: "string \<Rightarrow> string \<Rightarrow> redis_db \<Rightarrow> reply \<times> redis_db" where
  "release_lease_script key1 owner db =
     (if r_get db key1 = Some (Text owner) then (Int_reply 1, r_del key1 db) else (Int_reply 0, db))"

definition set_nx :: "string \<Rightarrow> redis_value \<Rightarrow> int \<Rightarrow> int \<Rightarrow> redis_db \<Rightarrow> reply \<times> redis_db" where
  "set_nx k v ttl now db = (if db k \<noteq> None then (Nil_reply, db) else (Ok_reply, r_set now k v ttl db))"

definition getdel :: "string \<Rightarrow> redis_db \<Rightarrow> reply \<times> redis_db" where
  "getdel k db = (case r_get db k of None \<Rightarrow> (Nil_reply, db) | Some v \<Rightarrow> (Bulk v, r_del k db))"

text \<open>\<open>executor.sendCommand\<close>: a command at the server's instant \<open>now\<close>.\<close>

fun send :: "link \<Rightarrow> int \<Rightarrow> (int \<Rightarrow> redis_db \<Rightarrow> reply \<times> redis_db) \<Rightarrow> redis_db \<Rightarrow> (session_failure + reply) \<times> redis_db" where
  "send Refused now command db = (Inl Dependency_unavailable, db)"
| "send Reply_lost now command db = (Inl Dependency_unavailable, snd (command now (live now db)))"
| "send Up now command db = (case command now (live now db) of
     (Error_reply, db') \<Rightarrow> (Inl Dependency_unavailable, db')
   | (reply, db') \<Rightarrow> (Inr reply, db'))"

section \<open>Records\<close>

record stored_session =
  ss_absoluteExpiresAtMs :: int
  ss_authenticatedAtMs :: int
  ss_createdAtMs :: int
  ss_csrfToken :: string
  ss_id :: string
  ss_revision :: int
  ss_tokens :: encrypted_tokens

definition js_int :: "int \<Rightarrow> jval" where
  "js_int i = JNum (Num (of_int i))"

definition session_value :: "stored_session \<Rightarrow> jval" where
  "session_value s = JObj [(''absoluteExpiresAtMs'', js_int (ss_absoluteExpiresAtMs s)),
     (''authenticatedAtMs'', js_int (ss_authenticatedAtMs s)), (''createdAtMs'', js_int (ss_createdAtMs s)),
     (''csrfToken'', JStr (ss_csrfToken s)), (''id'', JStr (ss_id s)), (''revision'', js_int (ss_revision s)),
     (''tokens'', encrypted_value (ss_tokens s))]"

definition login_value :: "login_transaction \<Rightarrow> jval" where
  "login_value t = JObj [(''codeVerifier'', JStr (codeVerifier t)), (''nonce'', JStr (lt_nonce t)),
     (''returnTo'', JStr (returnTo t)), (''state'', JStr (lt_state t))]"

definition parseJson :: "(jval \<Rightarrow> nat) \<Rightarrow> redis_value \<Rightarrow> session_failure + jval" where
  "parseJson bytes v = (case v of
     Json j \<Rightarrow> if 65536 < bytes j then Inl Session_invalid else Inr j
   | Text _ \<Rightarrow> Inl Session_invalid)"

definition parseLoginTransaction :: "(jval \<Rightarrow> nat) \<Rightarrow> redis_value \<Rightarrow> session_failure + login_transaction" where
  "parseLoginTransaction bytes v = bindR (parseJson bytes v) (\<lambda>j.
     case (get j ''codeVerifier'', get j ''nonce'', get j ''returnTo'', get j ''state'') of
       (JStr c, JStr n, JStr r, JStr s) \<Rightarrow>
         if \<not> rx_test CREDENTIAL s \<or> 128 < length c \<or> 128 < length n \<or> 512 < length r then Inl Session_invalid
         else Inr \<lparr>codeVerifier = c, lt_nonce = n, returnTo = r, lt_state = s\<rparr>
     | _ \<Rightarrow> Inl Session_invalid)"

definition safeInteger :: "jval \<Rightarrow> int option" where
  "safeInteger v = (case v of
     JNum n \<Rightarrow> (case safe_int n of Some i \<Rightarrow> if 0 \<le> i then Some i else None | None \<Rightarrow> None)
   | _ \<Rightarrow> None)"

definition parse_encrypted :: "jval \<Rightarrow> encrypted_tokens option" where
  "parse_encrypted tokens = (case (get tokens ''ciphertext'', get tokens ''initializationVector'', get tokens ''keyId'',
       get tokens ''tag'', envelope_version (get tokens ''version'')) of
     (JStr c, JStr iv, JStr k, JStr tag, Some version) \<Rightarrow>
       if get tokens ''algorithm'' \<noteq> JStr ''A256GCM'' then None
       else Some \<lparr>et_ciphertext = c, et_initializationVector = iv, et_keyId = k, et_tag = tag, et_version = version\<rparr>
   | _ \<Rightarrow> None)"

definition parseStoredSession :: "(jval \<Rightarrow> nat) \<Rightarrow> redis_value \<Rightarrow> session_failure + stored_session" where
  "parseStoredSession bytes v = bindR (parseJson bytes v) (\<lambda>j.
     case (safeInteger (get j ''absoluteExpiresAtMs''), safeInteger (get j ''authenticatedAtMs''),
           safeInteger (get j ''createdAtMs''), get j ''csrfToken'', get j ''id'',
           safeInteger (get j ''revision''), parse_encrypted (get j ''tokens'')) of
       (Some absolute, Some authenticated, Some created, JStr csrf, JStr i, Some revision, Some tokens) \<Rightarrow>
         if \<not> rx_test CREDENTIAL csrf \<or> \<not> rx_test CREDENTIAL i then Inl Session_invalid
         else Inr \<lparr>ss_absoluteExpiresAtMs = absolute, ss_authenticatedAtMs = authenticated,
           ss_createdAtMs = created, ss_csrfToken = csrf, ss_id = i, ss_revision = revision, ss_tokens = tokens\<rparr>
     | _ \<Rightarrow> Inl Session_invalid)"

section \<open>The store's operations\<close>

datatype store_call =
    Acquire string string int
  | Consume_login string
  | Create string stored_session int
  | Delete string
  | Get string int int
  | Release string string
  | Revoke string string
  | Rotate string string int stored_session int
  | Store_login string login_transaction int

text \<open>The command a call sends, after the checks on its arguments.\<close>

fun command_of :: "store_call \<Rightarrow> session_failure + (int \<Rightarrow> redis_db \<Rightarrow> reply \<times> redis_db)" where
  "command_of (Acquire sessionId owner ttlMs) =
     bindR (check (rx_test CREDENTIAL owner) Session_invalid) (\<lambda>_.
     bindR (checked lease_key sessionId) (\<lambda>k. bindR (positiveMilliseconds ttlMs) (\<lambda>ttl.
     Inr (set_nx k (Text owner) ttl))))"
| "command_of (Consume_login stateIndex) = bindR (checked login_key stateIndex) (\<lambda>k. Inr (\<lambda>now. getdel k))"
| "command_of (Create sessionIndex session ttlMs) =
     bindR (checked session_key sessionIndex) (\<lambda>k1. bindR (checked family_key (ss_id session)) (\<lambda>k2.
     bindR (positiveMilliseconds ttlMs) (\<lambda>ttl.
     Inr (create_script k1 k2 (Json (session_value session)) sessionIndex ttl))))"
| "command_of (Delete sessionIndex) =
     bindR (checked session_key sessionIndex) (\<lambda>k. Inr (\<lambda>now. delete_script k sessionIndex))"
| "command_of (Get sessionIndex idleTtlMs nowMs) =
     bindR (check (0 \<le> nowMs \<and> nowMs \<le> max_safe) Session_invalid) (\<lambda>_.
     bindR (checked session_key sessionIndex) (\<lambda>k. bindR (positiveMilliseconds idleTtlMs) (\<lambda>ttl.
     Inr (touch_script k ttl nowMs sessionIndex))))"
| "command_of (Release sessionId owner) =
     bindR (check (rx_test CREDENTIAL owner) Session_invalid) (\<lambda>_.
     bindR (checked lease_key sessionId) (\<lambda>k. Inr (\<lambda>now. release_lease_script k owner)))"
| "command_of (Revoke sessionIndex sessionId) =
     bindR (checked session_key sessionIndex) (\<lambda>_. bindR (checked family_key sessionId) (\<lambda>k2.
     Inr (\<lambda>now. revoke_script k2 sessionId)))"
| "command_of (Rotate previousIndex nextIndex expectedRevision session ttlMs) =
     bindR (check (0 \<le> expectedRevision \<and> expectedRevision \<le> max_safe) Session_invalid) (\<lambda>_.
     bindR (checked session_key previousIndex) (\<lambda>k1. bindR (checked session_key nextIndex) (\<lambda>k2.
     bindR (positiveMilliseconds ttlMs) (\<lambda>ttl.
     Inr (rotate_script k1 k2 expectedRevision (Json (session_value session)) ttl previousIndex nextIndex)))))"
| "command_of (Store_login stateIndex transaction ttlMs) =
     bindR (checked login_key stateIndex) (\<lambda>k. bindR (positiveMilliseconds ttlMs) (\<lambda>ttl.
     Inr (set_nx k (Json (login_value transaction)) ttl)))"

definition exec :: "store_call \<Rightarrow> link \<Rightarrow> int \<Rightarrow> redis_db \<Rightarrow> (session_failure + reply) \<times> redis_db" where
  "exec call link now db = (case command_of call of
     Inl e \<Rightarrow> (Inl e, db) | Inr command \<Rightarrow> send link now command db)"

definition reading :: "(reply \<Rightarrow> session_failure + 'a) \<Rightarrow> (session_failure + reply) \<times> redis_db \<Rightarrow> (session_failure + 'a) \<times> redis_db" where
  "reading read outcome = (bindR (fst outcome) read, snd outcome)"

definition stringResult :: "reply \<Rightarrow> session_failure + redis_value option" where
  "stringResult r = (case r of
     Nil_reply \<Rightarrow> Inr None | Bulk v \<Rightarrow> Inr (Some v) | Ok_reply \<Rightarrow> Inr (Some (Text ''OK''))
   | _ \<Rightarrow> Inl Dependency_unavailable)"

definition optional_record :: "(redis_value \<Rightarrow> session_failure + 'a) \<Rightarrow> reply \<Rightarrow> session_failure + 'a option" where
  "optional_record parse r = bindR (stringResult r) (\<lambda>v. case v of
     None \<Rightarrow> Inr None | Some x \<Rightarrow> bindR (parse x) (\<lambda>s. Inr (Some s)))"

definition commandSucceeded :: "reply \<Rightarrow> bool" where
  "commandSucceeded r \<longleftrightarrow> r = Ok_reply \<or> r = Int_reply 1"

definition acquireRefreshLease :: "string \<Rightarrow> string \<Rightarrow> int \<Rightarrow> link \<Rightarrow> int \<Rightarrow> redis_db \<Rightarrow> (session_failure + bool) \<times> redis_db" where
  "acquireRefreshLease sessionId owner ttlMs link now db =
     reading (\<lambda>r. Inr (r = Ok_reply)) (exec (Acquire sessionId owner ttlMs) link now db)"

definition consumeLoginTransaction ::
    "(jval \<Rightarrow> nat) \<Rightarrow> string \<Rightarrow> link \<Rightarrow> int \<Rightarrow> redis_db \<Rightarrow> (session_failure + login_transaction option) \<times> redis_db" where
  "consumeLoginTransaction bytes stateIndex link now db =
     reading (optional_record (parseLoginTransaction bytes)) (exec (Consume_login stateIndex) link now db)"

definition createSession :: "string \<Rightarrow> stored_session \<Rightarrow> int \<Rightarrow> link \<Rightarrow> int \<Rightarrow> redis_db \<Rightarrow> (session_failure + unit) \<times> redis_db" where
  "createSession sessionIndex session ttlMs link now db =
     reading (\<lambda>r. check (commandSucceeded r) Session_invalid) (exec (Create sessionIndex session ttlMs) link now db)"

definition deleteSession ::
    "(jval \<Rightarrow> nat) \<Rightarrow> string \<Rightarrow> link \<Rightarrow> int \<Rightarrow> redis_db \<Rightarrow> (session_failure + stored_session option) \<times> redis_db" where
  "deleteSession bytes sessionIndex link now db =
     reading (optional_record (parseStoredSession bytes)) (exec (Delete sessionIndex) link now db)"

definition getSession ::
    "(jval \<Rightarrow> nat) \<Rightarrow> string \<Rightarrow> int \<Rightarrow> int \<Rightarrow> link \<Rightarrow> int \<Rightarrow> redis_db \<Rightarrow> (session_failure + stored_session option) \<times> redis_db" where
  "getSession bytes sessionIndex idleTtlMs nowMs link now db =
     reading (optional_record (parseStoredSession bytes)) (exec (Get sessionIndex idleTtlMs nowMs) link now db)"

definition releaseRefreshLease :: "string \<Rightarrow> string \<Rightarrow> link \<Rightarrow> int \<Rightarrow> redis_db \<Rightarrow> (session_failure + unit) \<times> redis_db" where
  "releaseRefreshLease sessionId owner link now db =
     (if \<not> rx_test CREDENTIAL owner then (Inr (), db)
      else reading (\<lambda>_. Inr ()) (exec (Release sessionId owner) link now db))"

definition revokeSession ::
    "(jval \<Rightarrow> nat) \<Rightarrow> string \<Rightarrow> string \<Rightarrow> link \<Rightarrow> int \<Rightarrow> redis_db \<Rightarrow> (session_failure + stored_session option) \<times> redis_db" where
  "revokeSession bytes sessionIndex sessionId link now db =
     reading (optional_record (parseStoredSession bytes)) (exec (Revoke sessionIndex sessionId) link now db)"

definition rotateSession ::
    "string \<Rightarrow> string \<Rightarrow> int \<Rightarrow> stored_session \<Rightarrow> int \<Rightarrow> link \<Rightarrow> int \<Rightarrow> redis_db \<Rightarrow> (session_failure + bool) \<times> redis_db" where
  "rotateSession previousIndex nextIndex expectedRevision session ttlMs link now db =
     reading (\<lambda>r. Inr (r = Int_reply 1)) (exec (Rotate previousIndex nextIndex expectedRevision session ttlMs) link now db)"

definition storeLoginTransaction :: "string \<Rightarrow> login_transaction \<Rightarrow> int \<Rightarrow> link \<Rightarrow> int \<Rightarrow> redis_db \<Rightarrow> (session_failure + unit) \<times> redis_db" where
  "storeLoginTransaction stateIndex transaction ttlMs link now db =
     reading (\<lambda>r. check (commandSucceeded r) Session_invalid) (exec (Store_login stateIndex transaction ttlMs) link now db)"

end
