(* ===== verification/Session_Registry.thy ===== *)
theory Session_Registry
  imports Session_Store
begin

text \<open>
  What the session store promises. A \<open>registry\<close> maps each session index (the keyed hash of a credential)
  to its session and expiry; \<open>registry_step\<close> says what each call does to it. The Redis keys and Lua
  scripts, with their second key per session family, are shown to implement it; on the registry it is
  easy to see that a session has one credential at a time, that a revoked session never comes back and
  that a revision is rotated once, for every interleaving of calls, lost replies and expiries.
\<close>

type_synonym registry = "string \<rightharpoonup> stored_session \<times> int"

definition registry_live :: "int \<Rightarrow> registry \<Rightarrow> registry" where
  "registry_live now R = (\<lambda>i. case R i of Some (s, x) \<Rightarrow> if now < x then Some (s, x) else None | None \<Rightarrow> None)"

definition holder_of :: "registry \<Rightarrow> string \<Rightarrow> bool" where
  "holder_of R sessionId \<longleftrightarrow> (\<exists>i s x. R i = Some (s, x) \<and> ss_id s = sessionId)"

text \<open>\<open>registry_step\<close>: the reply of a call on the registry of live entries, and the registry after it.\<close>

fun registry_step :: "store_call \<Rightarrow> int \<Rightarrow> registry \<Rightarrow> reply \<times> registry" where
  "registry_step (Create i s ttl) now R =
     (if R i \<noteq> None \<or> holder_of R (ss_id s) then (Int_reply 0, R) else (Int_reply 1, R(i \<mapsto> (s, now + ttl))))"
| "registry_step (Get i idle nowMs) now R = (case R i of
     None \<Rightarrow> (Nil_reply, R)
   | Some (s, x) \<Rightarrow>
       if ss_absoluteExpiresAtMs s \<le> nowMs then (Nil_reply, R(i := None))
       else (Bulk (Json (session_value s)), R(i \<mapsto> (s, now + min idle (ss_absoluteExpiresAtMs s - nowMs)))))"
| "registry_step (Delete i) now R = (case R i of
     None \<Rightarrow> (Nil_reply, R) | Some (s, x) \<Rightarrow> (Bulk (Json (session_value s)), R(i := None)))"
| "registry_step (Rotate p n revision s ttl) now R = (if R n \<noteq> None then (Int_reply 0, R) else case R p of
     None \<Rightarrow> (Int_reply 0, R)
   | Some (s', x) \<Rightarrow> if ss_revision s' \<noteq> revision \<or> ss_id s \<noteq> ss_id s' then (Int_reply 0, R)
                    else (Int_reply 1, R(p := None, n \<mapsto> (s, now + ttl))))"
| "registry_step (Revoke i sessionId) now R =
     (if holder_of R sessionId then (Ok_reply, \<lambda>j. case R j of
        Some (s, x) \<Rightarrow> if ss_id s = sessionId then None else R j | None \<Rightarrow> None)
      else (Nil_reply, R))"
| "registry_step _ now R = (Ok_reply, R)"

text \<open>The calls whose replies are about sessions and given by the registry; \<open>Revoke\<close> answers with the record.\<close>

fun answered_by_registry :: "store_call \<Rightarrow> bool" where
  "answered_by_registry (Create i s ttl) = True"
| "answered_by_registry (Get i idle nowMs) = True"
| "answered_by_registry (Delete i) = True"
| "answered_by_registry (Rotate p n revision s ttl) = True"
| "answered_by_registry _ = False"

definition registry_exec :: "store_call \<Rightarrow> link \<Rightarrow> int \<Rightarrow> registry \<Rightarrow> registry" where
  "registry_exec call link now R = (case command_of call of
     Inl e \<Rightarrow> R | Inr command \<Rightarrow> if link = Refused then R else snd (registry_step call now (registry_live now R)))"

definition represents :: "redis_db \<Rightarrow> registry \<Rightarrow> bool" where
  "represents db R \<longleftrightarrow>
     (\<forall>i. db (session_key i) = map_option (\<lambda>(s, x). \<lparr>entry_value = Json (session_value s), entry_expires = x\<rparr>) (R i)) \<and>
     (\<forall>f e. db (family_key f) = Some e \<longleftrightarrow>
        (\<exists>i s x. R i = Some (s, x) \<and> ss_id s = f \<and> e = \<lparr>entry_value = Text i, entry_expires = x\<rparr>))"

lemma key_simps [simp]:
  "session_key i = session_key j \<longleftrightarrow> i = j" "family_key i = family_key j \<longleftrightarrow> i = j"
  "session_key i \<noteq> family_key j" "family_key j \<noteq> session_key i"
  "session_key i \<noteq> login_key j" "login_key j \<noteq> session_key i" "family_key i \<noteq> login_key j" "login_key j \<noteq> family_key i"
  "session_key i \<noteq> lease_key j" "lease_key j \<noteq> session_key i" "family_key i \<noteq> lease_key j" "lease_key j \<noteq> family_key i"
  "login_key i = login_key j \<longleftrightarrow> i = j" "login_key i \<noteq> lease_key j" "lease_key j \<noteq> login_key i"
  by (simp_all add: session_key_def family_key_def login_key_def lease_key_def)

lemma session_value_get [simp]:
  "get (session_value s) ''id'' = JStr (ss_id s)"
  "get (session_value s) ''revision'' = js_int (ss_revision s)"
  "get (session_value s) ''absoluteExpiresAtMs'' = js_int (ss_absoluteExpiresAtMs s)"
  by (simp_all add: session_value_def)

lemma script_reads [simp]:
  "decoded (Json j) = Some j" "record_id (Json (session_value s)) = Some (ss_id s)"
  "lua_number (js_int i) = Some (of_int i)"
  by (simp_all add: decoded_def record_id_def lua_number_def js_int_def)

lemma represents_session:
  "represents db R \<Longrightarrow> db (session_key i) = map_option (\<lambda>(s, x). \<lparr>entry_value = Json (session_value s), entry_expires = x\<rparr>) (R i)"
  by (simp add: represents_def)

lemma represents_family:
  "represents db R \<Longrightarrow> R i = Some (s, x) \<Longrightarrow> db (family_key (ss_id s)) = Some \<lparr>entry_value = Text i, entry_expires = x\<rparr>"
  by (auto simp: represents_def)

lemma represents_family_None:
  "represents db R \<Longrightarrow> db (family_key f) = None \<longleftrightarrow> \<not> holder_of R f"
  unfolding represents_def holder_of_def by (metis not_None_eq)

text \<open>A session has at most one index.\<close>

lemma represents_unique:
  "represents db R \<Longrightarrow> R i = Some (s, x) \<Longrightarrow> R j = Some (s', x') \<Longrightarrow> ss_id s' = ss_id s \<Longrightarrow> j = i"
  using represents_family [of db R i s x] represents_family [of db R j s' x'] by simp

lemma registry_live_Some: "registry_live now R i = Some (s, x) \<longleftrightarrow> R i = Some (s, x) \<and> now < x"
  by (auto simp: registry_live_def split: option.splits)

lemma represents_holder:
  "represents db R \<Longrightarrow> R i = Some (s, x) \<Longrightarrow> R j = Some (s', x') \<Longrightarrow> j = i \<longleftrightarrow> ss_id s' = ss_id s"
  using represents_unique [of db R i s x j s' x'] by auto

lemma represents_live:
  assumes "represents db R"
  shows "represents (live now db) (registry_live now R)"
  unfolding represents_def
proof (intro conjI allI)
  fix i f e
  show "live now db (session_key i) =
      map_option (\<lambda>(s, x). \<lparr>entry_value = Json (session_value s), entry_expires = x\<rparr>) (registry_live now R i)"
    by (cases "R i") (auto simp: live_def registry_live_def represents_session [OF assms])
  show "live now db (family_key f) = Some e \<longleftrightarrow> (\<exists>i s x. registry_live now R i = Some (s, x) \<and> ss_id s = f \<and>
      e = \<lparr>entry_value = Text i, entry_expires = x\<rparr>)" (is "?l \<longleftrightarrow> ?r")
  proof -
    have "?l \<longleftrightarrow> db (family_key f) = Some e \<and> now < entry_expires e"
      by (auto simp: live_def split: option.splits)
    also have "\<dots> \<longleftrightarrow> (\<exists>i s x. R i = Some (s, x) \<and> ss_id s = f \<and> e = \<lparr>entry_value = Text i, entry_expires = x\<rparr> \<and> now < x)"
      using assms by (auto simp: represents_def)
    also have "\<dots> \<longleftrightarrow> ?r"
      by (auto simp: registry_live_Some)
    finally show ?thesis .
  qed
qed

lemma represents_other:
  assumes "represents db R" "\<And>i. k \<noteq> session_key i" "\<And>f. k \<noteq> family_key f"
  shows "represents (db(k := e)) R"
  using assms(1) assms(2,3) [symmetric] by (simp add: represents_def)

text \<open>Writing both keys of a session, and deleting both.\<close>

lemma represents_put:
  assumes "represents db R"
    and "\<And>j s' x'. R j = Some (s', x') \<Longrightarrow> j = i \<longleftrightarrow> ss_id s' = ss_id s"
  shows "represents (db(session_key i \<mapsto> \<lparr>entry_value = Json (session_value s), entry_expires = x\<rparr>,
      family_key (ss_id s) \<mapsto> \<lparr>entry_value = Text i, entry_expires = x\<rparr>)) (R(i \<mapsto> (s, x)))"
  unfolding represents_def
proof (intro conjI allI)
  fix j f e
  show "(db(session_key i \<mapsto> \<lparr>entry_value = Json (session_value s), entry_expires = x\<rparr>,
      family_key (ss_id s) \<mapsto> \<lparr>entry_value = Text i, entry_expires = x\<rparr>)) (session_key j) =
      map_option (\<lambda>(s, x). \<lparr>entry_value = Json (session_value s), entry_expires = x\<rparr>) ((R(i \<mapsto> (s, x))) j)"
    by (simp add: represents_session [OF assms(1)])
  have family: "db (family_key f) = Some e \<longleftrightarrow>
      (\<exists>i s x. R i = Some (s, x) \<and> ss_id s = f \<and> e = \<lparr>entry_value = Text i, entry_expires = x\<rparr>)"
    using assms(1) by (simp add: represents_def)
  show "(db(session_key i \<mapsto> \<lparr>entry_value = Json (session_value s), entry_expires = x\<rparr>,
      family_key (ss_id s) \<mapsto> \<lparr>entry_value = Text i, entry_expires = x\<rparr>)) (family_key f) = Some e \<longleftrightarrow>
      (\<exists>j s' x'. (R(i \<mapsto> (s, x))) j = Some (s', x') \<and> ss_id s' = f \<and> e = \<lparr>entry_value = Text j, entry_expires = x'\<rparr>)"
  proof (cases "f = ss_id s")
    case True
    then show ?thesis using assms(2) by auto
  next
    case False
    then show ?thesis using assms(2) family by (auto split: if_splits)
  qed
qed

lemma represents_remove:
  assumes "represents db R" "R i = Some (s, x)"
  shows "represents (db(session_key i := None, family_key (ss_id s) := None)) (R(i := None))"
  unfolding represents_def
proof (intro conjI allI)
  fix j f e
  show "(db(session_key i := None, family_key (ss_id s) := None)) (session_key j) =
      map_option (\<lambda>(s, x). \<lparr>entry_value = Json (session_value s), entry_expires = x\<rparr>) ((R(i := None)) j)"
    by (simp add: represents_session [OF assms(1)])
  have family: "db (family_key f) = Some e \<longleftrightarrow>
      (\<exists>i s x. R i = Some (s, x) \<and> ss_id s = f \<and> e = \<lparr>entry_value = Text i, entry_expires = x\<rparr>)"
    using assms(1) by (simp add: represents_def)
  show "(db(session_key i := None, family_key (ss_id s) := None)) (family_key f) = Some e \<longleftrightarrow>
      (\<exists>j s x. (R(i := None)) j = Some (s, x) \<and> ss_id s = f \<and> e = \<lparr>entry_value = Text j, entry_expires = x\<rparr>)"
  proof (cases "f = ss_id s")
    case True
    then show ?thesis using represents_unique [OF assms] by auto
  next
    case False
    then have "(\<exists>j s x. (R(i := None)) j = Some (s, x) \<and> ss_id s = f \<and> e = \<lparr>entry_value = Text j, entry_expires = x\<rparr>) \<longleftrightarrow>
        (\<exists>j s x. R j = Some (s, x) \<and> ss_id s = f \<and> e = \<lparr>entry_value = Text j, entry_expires = x\<rparr>)"
      using assms(2) by (metis fun_upd_apply option.distinct(1) option.inject prod.inject)
    with False family show ?thesis by simp
  qed
qed

section \<open>The scripts implement the registry\<close>

lemma r_get_session:
  "represents db R \<Longrightarrow> r_get db (session_key i) = map_option (\<lambda>m. Json (session_value (fst m))) (R i)"
  by (cases "R i") (auto simp: r_get_def represents_session)

lemma r_get_family:
  "represents db R \<Longrightarrow> R i = Some (s, x) \<Longrightarrow> r_get db (family_key (ss_id s)) = Some (Text i)"
  by (simp add: r_get_def represents_family)

lemma r_pexpire_pos:
  "0 < ttl \<Longrightarrow> db k = Some e \<Longrightarrow> r_pexpire now k ttl db = db(k \<mapsto> e\<lparr>entry_expires := now + ttl\<rparr>)"
  by (simp add: r_pexpire_def)

lemma touch_refines:
  assumes "represents db R" "0 < idle"
  shows "fst (touch_script (session_key i) idle nowMs i now db) = fst (registry_step (Get i idle nowMs) now R) \<and>
    represents (snd (touch_script (session_key i) idle nowMs i now db)) (snd (registry_step (Get i idle nowMs) now R))"
proof (cases "R i")
  case None
  then show ?thesis using assms(1) by (simp add: touch_script_def r_get_session)
next
  case (Some m)
  obtain s x where m: "m = (s, x)" by (cases m)
  note R = Some [unfolded m]
  note fam = r_get_family [OF assms(1) R]
  have s1: "r_get db (session_key i) = Some (Json (session_value s))"
    using r_get_session [OF assms(1), of i] R by simp
  have fam': "r_get (r_del (session_key i) db) (family_key (ss_id s)) = Some (Text i)"
    using fam by (simp add: r_get_def r_del_def)
  show ?thesis
  proof (cases "ss_absoluteExpiresAtMs s \<le> nowMs")
    case True
    have "touch_script (session_key i) idle nowMs i now db =
        (Nil_reply, r_del (family_key (ss_id s)) (r_del (session_key i) db))"
      unfolding touch_script_def s1 option.case using True fam' by simp
    moreover have "represents (r_del (family_key (ss_id s)) (r_del (session_key i) db)) (R(i := None))"
      using represents_remove [OF assms(1) R] by (simp add: r_del_def)
    moreover have "registry_step (Get i idle nowMs) now R = (Nil_reply, R(i := None))" using True R by simp
    ultimately show ?thesis by (simp only: fst_conv snd_conv)
  next
    case False
    let ?ttl = "min idle (ss_absoluteExpiresAtMs s - nowMs)"
    have pos: "0 < ?ttl" using False assms(2) by simp
    have "min (rat_of_int idle) (rat_of_int (ss_absoluteExpiresAtMs s) - rat_of_int nowMs) = of_int ?ttl"
      by (simp add: min_def)
    then have ttl: "int_val (Num (min (rat_of_int idle) (rat_of_int (ss_absoluteExpiresAtMs s) - rat_of_int nowMs))) = Some ?ttl"
      by (simp only: int_val_Num_of_int)
    have "represents (db(session_key i \<mapsto> \<lparr>entry_value = Json (session_value s), entry_expires = now + ?ttl\<rparr>,
        family_key (ss_id s) \<mapsto> \<lparr>entry_value = Text i, entry_expires = now + ?ttl\<rparr>)) (R(i \<mapsto> (s, now + ?ttl)))"
      by (rule represents_put [OF assms(1)]) (rule represents_holder [OF assms(1) R])
    moreover have "r_pexpire now (family_key (ss_id s)) ?ttl (r_pexpire now (session_key i) ?ttl db) =
        db(session_key i \<mapsto> \<lparr>entry_value = Json (session_value s), entry_expires = now + ?ttl\<rparr>,
          family_key (ss_id s) \<mapsto> \<lparr>entry_value = Text i, entry_expires = now + ?ttl\<rparr>)"
      using represents_session [OF assms(1), of i] represents_family [OF assms(1) R] R
      by (simp add: r_pexpire_pos [OF pos])
    moreover have "touch_script (session_key i) idle nowMs i now db = (Bulk (Json (session_value s)),
        r_pexpire now (family_key (ss_id s)) ?ttl (r_pexpire now (session_key i) ?ttl db))"
      unfolding touch_script_def s1 option.case using False fam ttl by simp
    moreover have "registry_step (Get i idle nowMs) now R = (Bulk (Json (session_value s)), R(i \<mapsto> (s, now + ?ttl)))"
      using False R by simp
    ultimately show ?thesis by (simp only: fst_conv snd_conv)
  qed
qed

lemma create_refines:
  assumes "represents db R"
  shows "fst (create_script (session_key i) (family_key (ss_id s)) (Json (session_value s)) i ttl now db) =
      fst (registry_step (Create i s ttl) now R) \<and>
    represents (snd (create_script (session_key i) (family_key (ss_id s)) (Json (session_value s)) i ttl now db))
      (snd (registry_step (Create i s ttl) now R))"
proof (cases "R i \<noteq> None \<or> holder_of R (ss_id s)")
  case True
  then have "db (session_key i) \<noteq> None \<or> db (family_key (ss_id s)) \<noteq> None"
    using represents_session [OF assms] represents_family_None [OF assms] by auto
  with True show ?thesis using assms by (simp add: create_script_def)
next
  case False
  then have none: "db (session_key i) = None" "db (family_key (ss_id s)) = None"
    using represents_session [OF assms, of i] represents_family_None [OF assms] by (cases "R i", auto)
  have "represents (db(session_key i \<mapsto> \<lparr>entry_value = Json (session_value s), entry_expires = now + ttl\<rparr>,
      family_key (ss_id s) \<mapsto> \<lparr>entry_value = Text i, entry_expires = now + ttl\<rparr>)) (R(i \<mapsto> (s, now + ttl)))"
    using False unfolding holder_of_def by (intro represents_put [OF assms]) (metis option.distinct(1))
  with none False show ?thesis by (simp add: create_script_def r_set_def)
qed

lemma delete_refines:
  assumes "represents db R"
  shows "fst (delete_script (session_key i) i db) = fst (registry_step (Delete i) now R) \<and>
    represents (snd (delete_script (session_key i) i db)) (snd (registry_step (Delete i) now R))"
proof (cases "R i")
  case None
  then show ?thesis using assms by (simp add: delete_script_def r_get_session)
next
  case (Some m)
  obtain s x where m: "m = (s, x)" by (cases m)
  note R = Some [unfolded m]
  have "represents (r_del (session_key i) (r_del (family_key (ss_id s)) db)) (R(i := None))"
    using represents_remove [OF assms R] by (simp add: r_del_def fun_upd_twist)
  then show ?thesis
    using R r_get_session [OF assms, of i] r_get_family [OF assms R] by (simp add: delete_script_def)
qed

lemma rotate_refines:
  assumes "represents db R"
  shows "fst (rotate_script (session_key p) (session_key n) revision (Json (session_value s)) ttl p n now db) =
      fst (registry_step (Rotate p n revision s ttl) now R) \<and>
    represents (snd (rotate_script (session_key p) (session_key n) revision (Json (session_value s)) ttl p n now db))
      (snd (registry_step (Rotate p n revision s ttl) now R))"
proof (cases "R n")
  case (Some m)
  then have "db (session_key n) \<noteq> None" by (simp add: represents_session [OF assms])
  with Some assms show ?thesis by (simp add: rotate_script_def)
next
  case None
  then have n: "db (session_key n) = None" by (simp add: represents_session [OF assms])
  show ?thesis
  proof (cases "R p")
    case None
    with n \<open>R n = None\<close> assms show ?thesis by (simp add: rotate_script_def r_get_session)
  next
    case (Some m)
    obtain s' x where m: "m = (s', x)" by (cases m)
    note R = Some [unfolded m]
    have put: "represents (r_set now (family_key (ss_id s')) (Text n) ttl
        (r_set now (session_key n) (Json (session_value s)) ttl (r_del (session_key p) db)))
        (R(p := None, n \<mapsto> (s, now + ttl)))" if "ss_id s = ss_id s'"
    proof -
      have "represents (db(session_key p := None, family_key (ss_id s') := None)) (R(p := None))"
        by (rule represents_remove [OF assms R])
      then have "represents (db(session_key p := None, family_key (ss_id s') := None,
          session_key n \<mapsto> \<lparr>entry_value = Json (session_value s), entry_expires = now + ttl\<rparr>,
          family_key (ss_id s) \<mapsto> \<lparr>entry_value = Text n, entry_expires = now + ttl\<rparr>)) (R(p := None, n \<mapsto> (s, now + ttl)))"
        using represents_unique [OF assms R] that \<open>R n = None\<close> by (intro represents_put) (auto split: if_splits)
      moreover have "db(session_key p := None, family_key (ss_id s') := None,
          session_key n \<mapsto> e1, family_key (ss_id s) \<mapsto> e2) =
        db(session_key p := None, session_key n \<mapsto> e1, family_key (ss_id s') \<mapsto> e2)" for e1 e2
        using that by (auto simp: fun_eq_iff)
      ultimately show ?thesis by (simp add: r_set_def r_del_def)
    qed
    have rev: "lua_number (get (session_value s') ''revision'') = Some (of_int revision) \<longleftrightarrow> ss_revision s' = revision"
      by simp
    show ?thesis
      using n \<open>R n = None\<close> R r_get_session [OF assms, of p] r_get_family [OF assms R] put assms
      by (auto simp: rotate_script_def rev)
  qed
qed

lemma revoke_refines:
  assumes "represents db R"
  shows "represents (snd (revoke_script (family_key f) f db)) (snd (registry_step (Revoke j f) now R)) \<and>
    (fst (revoke_script (family_key f) f db) = Nil_reply \<longleftrightarrow> \<not> holder_of R f) \<and>
    fst (revoke_script (family_key f) f db) \<noteq> Error_reply"
proof (cases "holder_of R f")
  case False
  then have "db (family_key f) = None" by (simp add: represents_family_None [OF assms])
  with False assms show ?thesis by (simp add: revoke_script_def r_get_def)
next
  case True
  then obtain i s x where R: "R i = Some (s, x)" and f: "f = ss_id s" by (auto simp: holder_of_def)
  have gets: "r_get db (family_key (ss_id s)) = Some (Text i)"
      "r_get db (session_key i) = Some (Json (session_value s))"
    using R r_get_session [OF assms, of i] r_get_family [OF assms R] by simp_all
  then have script: "revoke_script (family_key f) f db =
      (Bulk (Json (session_value s)), r_del (family_key f) (r_del (session_key i) db))"
    unfolding revoke_script_def f gets option.case by (simp add: gets)
  have "represents (r_del (family_key f) (r_del (session_key i) db)) (R(i := None))"
    using represents_remove [OF assms R] by (simp add: r_del_def f)
  moreover have "R(i := None) = (\<lambda>j. case R j of Some (s, x) \<Rightarrow> if ss_id s = f then None else R j | None \<Rightarrow> None)"
  proof
    fix j
    show "(R(i := None)) j = (case R j of Some (s, x) \<Rightarrow> if ss_id s = f then None else R j | None \<Rightarrow> None)"
    proof (cases "R j")
      case (Some m)
      then show ?thesis using represents_holder [OF assms R, of j "fst m" "snd m"] f by (cases m) simp
    qed simp
  qed
  moreover have "registry_step (Revoke j f) now R = (Ok_reply, \<lambda>j. case R j of
      Some (s, x) \<Rightarrow> if ss_id s = f then None else R j | None \<Rightarrow> None)"
    using True by simp
  ultimately show ?thesis using True by (simp only: script fst_conv snd_conv) simp
qed

lemma other_scripts:
  assumes "represents db R" "\<And>i. k \<noteq> session_key i" "\<And>f. k \<noteq> family_key f"
  shows "represents (snd (set_nx k v ttl now db)) R" "represents (snd (getdel k db)) R"
    "represents (snd (release_lease_script k owner db)) R"
  using assms represents_other [OF assms]
  by (auto simp: set_nx_def getdel_def release_lease_script_def r_set_def r_del_def split: option.splits)

definition implements :: "store_call \<Rightarrow> (int \<Rightarrow> redis_db \<Rightarrow> reply \<times> redis_db) \<Rightarrow> bool" where
  "implements call command \<longleftrightarrow> (\<forall>now db R. represents db R \<longrightarrow>
     represents (snd (command now db)) (snd (registry_step call now R)) \<and>
     (answered_by_registry call \<longrightarrow> fst (command now db) = fst (registry_step call now R)))"

lemma command_implements:
  assumes "command_of call = Inr command"
  shows "implements call command"
proof (cases call)
  case (Get i idle nowMs)
  with assms have "0 < idle" "command = touch_script (session_key i) idle nowMs i"
    by (auto simp: result_simps checked_def positiveMilliseconds_def split: if_splits)
  with Get show ?thesis using touch_refines by (simp add: implements_def)
next
  case (Create i s ttl)
  with assms have "command = create_script (session_key i) (family_key (ss_id s)) (Json (session_value s)) i ttl"
    by (auto simp: result_simps checked_def positiveMilliseconds_def split: if_splits)
  with Create show ?thesis using create_refines by (simp add: implements_def)
next
  case (Delete i)
  with assms have "command = (\<lambda>now. delete_script (session_key i) i)"
    by (auto simp: result_simps checked_def)
  with Delete show ?thesis using delete_refines by (simp add: implements_def)
next
  case (Rotate p n revision s ttl)
  with assms have "command = rotate_script (session_key p) (session_key n) revision (Json (session_value s)) ttl p n"
    by (auto simp: result_simps checked_def positiveMilliseconds_def split: if_splits)
  with Rotate show ?thesis using rotate_refines by (simp add: implements_def)
next
  case (Revoke i f)
  with assms have "command = (\<lambda>now. revoke_script (family_key f) f)"
    by (auto simp: result_simps checked_def)
  with Revoke show ?thesis using revoke_refines by (simp add: implements_def del: registry_step.simps)
qed (use assms in \<open>auto simp: implements_def result_simps checked_def positiveMilliseconds_def
    intro!: other_scripts split: if_splits\<close>)

lemma registry_reply: "fst (registry_step call now R) \<noteq> Error_reply"
  by (cases call) (auto split: option.splits)

lemma snd_send: "snd (send link now command db) = (if link = Refused then db else snd (command now (live now db)))"
  by (cases link) (auto split: prod.splits reply.splits)

lemma exec_represents:
  assumes "represents db R"
  shows "represents (snd (exec call link now db)) (registry_exec call link now R)"
proof (cases "command_of call")
  case (Inl e)
  then show ?thesis using assms by (simp add: exec_def registry_exec_def)
next
  case (Inr command)
  have "represents (snd (command now (live now db))) (snd (registry_step call now (registry_live now R)))"
    using command_implements [OF Inr] represents_live [OF assms] by (simp add: implements_def)
  then show ?thesis using assms Inr by (simp add: exec_def registry_exec_def snd_send)
qed

lemma exec_reply:
  assumes "represents db R" "command_of call = Inr command" "answered_by_registry call"
  shows "fst (exec call Up now db) = Inr (fst (registry_step call now (registry_live now R)))"
proof -
  have "fst (command now (live now db)) = fst (registry_step call now (registry_live now R))"
    using command_implements [OF assms(2)] represents_live [OF assms(1)] assms(3) by (simp add: implements_def)
  then show ?thesis using registry_reply [of call now "registry_live now R"] assms(2)
    by (cases "command now (live now db)") (auto simp: exec_def split: reply.splits)
qed

lemma exec_fst: "fst (exec call link now db) = Inr r \<Longrightarrow> link = Up \<and> (\<exists>command. command_of call = Inr command)"
  by (cases link) (auto simp: exec_def split: sum.splits)

text \<open>
  Property C25. The Redis store implements the registry of sessions: for every call, whatever happens to it
  on the way, the keys and Lua scripts change the stored records as the call's entry of
  \<open>registry_step\<close> says, at the instant the server runs it, and an answered_by_registry call about a session
  gets exactly the reply that the registry gives.
\<close>

theorem store_implements_registry:
  assumes "represents db R"
  shows "represents (snd (exec call link now db)) (registry_exec call link now R) \<and>
    (answered_by_registry call \<longrightarrow> fst (exec call link now db) = (case command_of call of
       Inl e \<Rightarrow> Inl e
     | Inr _ \<Rightarrow> if link = Up then Inr (fst (registry_step call now (registry_live now R))) else Inl Dependency_unavailable))"
  using exec_represents [OF assms] exec_reply [OF assms]
  by (cases link) (auto simp: exec_def split: sum.splits)

section \<open>Every interleaving\<close>

type_synonym store_event = "store_call \<times> link \<times> int"

fun run :: "store_event list \<Rightarrow> redis_db \<Rightarrow> redis_db" where
  "run [] db = db"
| "run ((call, link, now) # es) db = run es (snd (exec call link now db))"

fun registry_run :: "store_event list \<Rightarrow> registry \<Rightarrow> registry" where
  "registry_run [] R = R"
| "registry_run ((call, link, now) # es) R = registry_run es (registry_exec call link now R)"

lemma represents_empty: "represents Map.empty Map.empty"
  by (simp add: represents_def)

lemma run_represents: "represents db R \<Longrightarrow> represents (run es db) (registry_run es R)"
  by (induction es db arbitrary: R rule: run.induct) (auto intro: exec_represents)

lemma registry_run_invariant:
  assumes "P R" "\<And>R call link now. (call, link, now) \<in> set es \<Longrightarrow> P R \<Longrightarrow> P (registry_exec call link now R)"
  shows "P (registry_run es R)"
  using assms by (induction es R rule: registry_run.induct) auto

lemma safeInteger_js_int: "safeInteger (js_int i) = Some j \<Longrightarrow> j = i"
  by (auto simp: safeInteger_def js_int_def safe_int_Some split: option.splits if_splits)

lemma parse_encrypted_value: "parse_encrypted (encrypted_value e) = Some e' \<Longrightarrow> e' = e"
  by (auto simp: parse_encrypted_def envelope_version_def split: option.splits if_splits)

lemma parse_session_value:
  assumes "parseStoredSession bytes (Json (session_value s)) = Inr s'"
  shows "s' = s"
proof -
  have "get (session_value s) ''authenticatedAtMs'' = js_int (ss_authenticatedAtMs s)"
    "get (session_value s) ''createdAtMs'' = js_int (ss_createdAtMs s)"
    "get (session_value s) ''csrfToken'' = JStr (ss_csrfToken s)"
    "get (session_value s) ''tokens'' = encrypted_value (ss_tokens s)"
    by (simp_all add: session_value_def)
  moreover have "parseJson bytes (Json (session_value s)) = Inr (session_value s)"
    using assms by (auto simp: parseStoredSession_def parseJson_def split: if_splits)
  ultimately show ?thesis
    using assms by (auto simp: parseStoredSession_def
        dest!: safeInteger_js_int parse_encrypted_value split: option.splits if_splits)
qed

lemma getSession_registry:
  assumes "represents db R" "fst (getSession bytes i idle nowMs link now db) = Inr (Some s)"
  shows "\<exists>x. R i = Some (s, x) \<and> now < x \<and> nowMs < ss_absoluteExpiresAtMs s"
proof -
  from assms(2) obtain r where r: "fst (exec (Get i idle nowMs) link now db) = Inr r"
    and opt: "optional_record (parseStoredSession bytes) r = Inr (Some s)"
    by (auto simp: getSession_def reading_def result_simps)
  from exec_fst [OF r] obtain c where c: "link = Up" "command_of (Get i idle nowMs) = Inr c" by blast
  have reply: "r = fst (registry_step (Get i idle nowMs) now (registry_live now R))"
    using exec_reply [OF assms(1) c(2), of now] r c(1) by simp
  show ?thesis
  proof (cases "registry_live now R i")
    case None
    with reply opt show ?thesis by (simp add: optional_record_def stringResult_def)
  next
    case (Some m)
    obtain s' x where m: "m = (s', x)" by (cases m)
    show ?thesis
    proof (cases "ss_absoluteExpiresAtMs s' \<le> nowMs")
      case True
      with reply opt Some m show ?thesis by (simp add: optional_record_def stringResult_def)
    next
      case False
      with reply Some m have "r = Bulk (Json (session_value s'))" by simp
      with opt have "parseStoredSession bytes (Json (session_value s')) = Inr s"
        by (auto simp: optional_record_def stringResult_def result_simps)
      then have "s = s'" by (rule parse_session_value)
      with Some m False show ?thesis by (auto simp: registry_live_Some)
    qed
  qed
qed

text \<open>
  Property C26. A session has one credential: at any moment of any interleaving of the store's calls (with
  lost replies and expiries), two indexes that both yield a session with the same id are the same
  index, and what they yield is the stored session, before its absolute expiry.
\<close>

theorem a_session_has_one_credential:
  assumes "fst (getSession bytes i idle nowMs link now (run es Map.empty)) = Inr (Some s)"
    and "fst (getSession bytes i' idle' nowMs' link' now' (run es Map.empty)) = Inr (Some s')"
    and "ss_id s = ss_id s'"
  shows "i = i' \<and> s = s' \<and> max nowMs nowMs' < ss_absoluteExpiresAtMs s"
proof -
  have rep: "represents (run es Map.empty) (registry_run es Map.empty)"
    by (rule run_represents [OF represents_empty])
  from getSession_registry [OF rep assms(1)] getSession_registry [OF rep assms(2)]
  obtain x x' where R: "registry_run es Map.empty i = Some (s, x)" "registry_run es Map.empty i' = Some (s', x')"
    and "nowMs < ss_absoluteExpiresAtMs s" "nowMs' < ss_absoluteExpiresAtMs s'" by blast
  moreover have "i = i'" using represents_unique [OF rep R(2,1)] assms(3) by simp
  ultimately show ?thesis by simp
qed

text \<open>Only \<open>Create\<close> brings a session id into the registry.\<close>

definition creates :: "string \<Rightarrow> store_call \<Rightarrow> bool" where
  "creates f call = (case call of Create i s ttl \<Rightarrow> ss_id s = f | _ \<Rightarrow> False)"

text \<open>Where an entry comes from: it was there, or the call created it or rotated to it.\<close>

lemma registry_step_entry:
  assumes "snd (registry_step call now R) i = Some (s, x)"
  shows "(\<exists>j y. R j = Some (s, y)) \<or> (\<exists>ttl. call = Create i s ttl) \<or>
    (\<exists>p ttl s' y. call = Rotate p i (ss_revision s') s ttl \<and> R p = Some (s', y) \<and> ss_id s = ss_id s')"
proof (cases call)
  case (Get k idle nowMs)
  with assms show ?thesis
    by (cases "R k") (auto split: if_splits prod.splits)
next
  case (Rotate p n revision s' ttl)
  with assms show ?thesis by (auto split: if_splits option.splits prod.splits)
next
  case (Create k s' ttl)
  with assms show ?thesis by (auto split: if_splits)
next
  case (Delete k)
  with assms show ?thesis by (cases "R k") (auto split: if_splits prod.splits)
next
  case (Revoke k g)
  with assms show ?thesis by (auto split: if_splits option.splits) blast+
qed (use assms in auto)

lemma registry_exec_entry:
  assumes "registry_exec call link now R i = Some (s, x)"
  shows "(\<exists>j y. R j = Some (s, y)) \<or> (\<exists>ttl. call = Create i s ttl) \<or>
    (\<exists>p ttl s' y. call = Rotate p i (ss_revision s') s ttl \<and> R p = Some (s', y) \<and> ss_id s = ss_id s')"
proof (cases "registry_exec call link now R = R")
  case False
  then have "snd (registry_step call now (registry_live now R)) i = Some (s, x)"
    using assms by (auto simp: registry_exec_def split: sum.splits if_splits)
  from registry_step_entry [OF this] show ?thesis by (auto simp: registry_live_Some)
qed (use assms in auto)

lemma registry_exec_holder:
  assumes "\<not> creates f call" "\<not> holder_of R f"
  shows "\<not> holder_of (registry_exec call link now R) f"
proof
  assume "holder_of (registry_exec call link now R) f"
  then obtain i s x where "registry_exec call link now R i = Some (s, x)" "ss_id s = f" by (auto simp: holder_of_def)
  with registry_exec_entry [OF this(1)] assms show False
    unfolding holder_of_def creates_def by (auto split: store_call.splits) blast
qed

lemma holder_free_run:
  "\<forall>e \<in> set es. \<not> creates f (fst e) \<Longrightarrow> \<not> holder_of R f \<Longrightarrow> \<not> holder_of (registry_run es R) f"
  by (rule registry_run_invariant, assumption, rule registry_exec_holder) force+

lemma registry_revoke_exec:
  assumes "command_of (Revoke j f) = Inr command" "link \<noteq> Refused"
  shows "\<not> holder_of (registry_exec (Revoke j f) link now R) f"
proof -
  have "registry_exec (Revoke j f) link now R = snd (registry_step (Revoke j f) now (registry_live now R))"
    using assms by (simp add: registry_exec_def del: command_of.simps registry_step.simps)
  moreover have "\<not> holder_of (snd (registry_step (Revoke j f) now R')) f" for R'
    by (auto simp: holder_of_def split: option.splits)
  ultimately show ?thesis by metis
qed

text \<open>
  Property C27. A revoked session stays revoked. Once a valid revocation has reached the server, even if its
  reply was lost, no index yields that session again, whatever calls are still under way (a refresh
  that rotates late included), unless a session with the same random id is created.
\<close>

theorem revoked_session_stays_revoked:
  assumes "command_of (Revoke j f) = Inr command" "link \<noteq> Refused"
    and "\<forall>e \<in> set es'. \<not> creates f (fst e)"
    and "fst (getSession bytes i idle nowMs link' now' (run es' (snd (exec (Revoke j f) link now (run es Map.empty))))) = Inr (Some s)"
  shows "ss_id s \<noteq> f"
proof -
  let ?R = "registry_run es' (registry_exec (Revoke j f) link now (registry_run es Map.empty))"
  have "represents (run es' (snd (exec (Revoke j f) link now (run es Map.empty)))) ?R"
    by (intro run_represents exec_represents represents_empty)
  from getSession_registry [OF this assms(4)] have "holder_of ?R (ss_id s)" by (auto simp: holder_of_def)
  moreover have "\<not> holder_of ?R f"
    using assms(3) registry_revoke_exec [OF assms(1,2)] by (rule holder_free_run)
  ultimately show ?thesis by auto
qed

text \<open>The revisions of a session in the registry; a rotation is forward when it writes a later one.\<close>

definition revisions_above :: "int \<Rightarrow> string \<Rightarrow> registry \<Rightarrow> bool" where
  "revisions_above r f R \<longleftrightarrow> (\<forall>i s x. R i = Some (s, x) \<longrightarrow> ss_id s = f \<longrightarrow> r < ss_revision s)"

definition forward :: "store_call \<Rightarrow> bool" where
  "forward call = (case call of Rotate p n revision s ttl \<Rightarrow> revision < ss_revision s | _ \<Rightarrow> True)"

lemma registry_exec_revisions:
  assumes "\<not> creates f call" "forward call" "revisions_above r f R"
  shows "revisions_above r f (registry_exec call link now R)"
  unfolding revisions_above_def
proof (intro allI impI)
  fix i s x
  assume "registry_exec call link now R i = Some (s, x)" "ss_id s = f"
  with registry_exec_entry [OF this(1)] assms show "r < ss_revision s"
    unfolding revisions_above_def creates_def forward_def by (auto split: store_call.splits) fastforce
qed

lemma rotate_reply:
  assumes "represents db R" "fst (exec (Rotate p n revision s ttl) link now db) = Inr (Int_reply 1)"
  shows "\<exists>s' x. R p = Some (s', x) \<and> now < x \<and> ss_revision s' = revision \<and> ss_id s = ss_id s' \<and> p \<noteq> n \<and>
    registry_exec (Rotate p n revision s ttl) link now R = (registry_live now R)(p := None, n \<mapsto> (s, now + ttl))"
proof -
  from exec_fst [OF assms(2)] obtain c where c: "link = Up" "command_of (Rotate p n revision s ttl) = Inr c" by blast
  have "fst (registry_step (Rotate p n revision s ttl) now (registry_live now R)) = Int_reply 1"
    using exec_reply [OF assms(1) c(2), of now] assms(2) c(1) by simp
  then show ?thesis
    using c by (auto simp: registry_exec_def registry_live_Some split: option.splits if_splits)
qed

text \<open>
  Property C28. A revision of a session is rotated at most once: after a rotation of a session from a
  revision has succeeded, no other rotation of that session from that revision succeeds, however
  calls interleave, provided that every rotation writes a later revision (the service writes the next)
  and the session's random id is not created again.
\<close>

theorem a_revision_is_rotated_once:
  assumes "fst (exec (Rotate p n revision s ttl) link now (run es Map.empty)) = Inr (Int_reply 1)"
    and "revision < ss_revision s"
    and "\<forall>e \<in> set es'. \<not> creates (ss_id s) (fst e) \<and> forward (fst e)"
    and "ss_id s' = ss_id s"
  shows "fst (exec (Rotate p' n' revision s' ttl') link' now'
    (run es' (snd (exec (Rotate p n revision s ttl) link now (run es Map.empty))))) \<noteq> Inr (Int_reply 1)"
proof
  let ?S = "registry_run es Map.empty"
  let ?R = "registry_exec (Rotate p n revision s ttl) link now ?S"
  have rep0: "represents (run es Map.empty) ?S" by (rule run_represents [OF represents_empty])
  from rotate_reply [OF rep0 assms(1)] obtain s0 x where s0: "?S p = Some (s0, x)" "ss_id s = ss_id s0"
    and R: "?R = (registry_live now ?S)(p := None, n \<mapsto> (s, now + ttl))" by blast
  have "revisions_above revision (ss_id s) ?R"
    unfolding revisions_above_def
  proof (intro allI impI)
    fix i s1 x1
    assume e: "?R i = Some (s1, x1)" "ss_id s1 = ss_id s"
    show "revision < ss_revision s1"
    proof (cases "i = n")
      case True
      with e(1) R assms(2) show ?thesis by simp
    next
      case False
      with e(1) R have "i \<noteq> p" "registry_live now ?S i = Some (s1, x1)"
        by (simp_all only: fun_upd_apply if_False split: if_splits) auto
      then have "?S i = Some (s1, x1)" by (simp add: registry_live_Some)
      from represents_unique [OF rep0 s0(1) this] e(2) s0(2) \<open>i \<noteq> p\<close> show ?thesis by simp
    qed
  qed
  then have above: "revisions_above revision (ss_id s) (registry_run es' ?R)"
  proof (rule registry_run_invariant)
    fix R' call link' now'
    assume "(call, link', now') \<in> set es'" "revisions_above revision (ss_id s) R'"
    then show "revisions_above revision (ss_id s) (registry_exec call link' now' R')"
      using assms(3) registry_exec_revisions by force
  qed
  assume again: "fst (exec (Rotate p' n' revision s' ttl') link' now'
    (run es' (snd (exec (Rotate p n revision s ttl) link now (run es Map.empty))))) = Inr (Int_reply 1)"
  have "represents (run es' (snd (exec (Rotate p n revision s ttl) link now (run es Map.empty)))) (registry_run es' ?R)"
    by (rule run_represents [OF exec_represents [OF rep0]])
  from rotate_reply [OF this again] obtain s1 x1
    where "registry_run es' ?R p' = Some (s1, x1)" "ss_revision s1 = revision" "ss_id s' = ss_id s1" by blast
  with above assms(4) show False unfolding revisions_above_def by (metis order_less_irrefl)
qed

section \<open>A concrete history\<close>

definition witness_index :: string where
  "witness_index = replicate 43 CHR ''i''"

definition next_index :: string where
  "next_index = replicate 43 CHR ''n''"

definition witness_session :: stored_session where
  "witness_session = \<lparr>ss_absoluteExpiresAtMs = 5000, ss_authenticatedAtMs = 0, ss_createdAtMs = 0,
     ss_csrfToken = witness_reference, ss_id = witness_reference, ss_revision = 0,
     ss_tokens = \<lparr>et_ciphertext = ''c'', et_initializationVector = ''v'', et_keyId = ''k1'', et_tag = ''t'', et_version = 2\<rparr>\<rparr>"

definition witness_created :: "store_event list" where
  "witness_created = [(Create witness_index witness_session 1000, Up, 0)]"

lemma witness_credentials [simp]:
  "rx_test CREDENTIAL witness_index" "rx_test CREDENTIAL next_index" "rx_test CREDENTIAL witness_reference"
  "rx_test CREDENTIAL (ss_id witness_session)" "rx_test CREDENTIAL (ss_csrfToken witness_session)"
  using witness_reference_valid
  by (simp_all add: credential_iff witness_index_def next_index_def witness_session_def list_all_length in_cls_def
      cls_b64_def cls_alnum_def cls_upper_def cls_lower_def cls_digit_def chars_of_def)

lemma next_index_differs [simp]: "next_index \<noteq> witness_index" "witness_index \<noteq> next_index"
  by (simp_all add: next_index_def witness_index_def)

lemma parse_witness_session:
  "bytes (session_value witness_session) \<le> 65536 \<Longrightarrow> parseStoredSession bytes (Json (session_value witness_session)) = Inr witness_session"
  using witness_credentials(3)
  by (simp add: parseStoredSession_def parseJson_def session_value_def witness_session_def safeInteger_def js_int_def
      safe_int_def int_val_def max_safe_def parse_encrypted_def encrypted_value_def envelope_version_def)

lemma registry_created:
  "registry_run witness_created Map.empty = [witness_index \<mapsto> (witness_session, 1000)]"
  by (simp add: witness_created_def registry_exec_def checked_def positiveMilliseconds_def registry_live_def holder_of_def)

lemma represents_created:
  "represents (run witness_created Map.empty) [witness_index \<mapsto> (witness_session, 1000)]"
  using run_represents [OF represents_empty, of witness_created] by (simp only: registry_created)

lemma witness_get:
  "fst (getSession (\<lambda>_. 0) witness_index 500 10 Up 10 (run witness_created Map.empty)) = Inr (Some witness_session)"
proof -
  have "registry_live 10 [witness_index \<mapsto> (witness_session, 1000)] = [witness_index \<mapsto> (witness_session, 1000)]"
    by (auto simp: registry_live_def)
  moreover have "\<exists>c. command_of (Get witness_index 500 10) = Inr c"
    by (simp add: checked_def positiveMilliseconds_def max_safe_def)
  ultimately have "fst (exec (Get witness_index 500 10) Up 10 (run witness_created Map.empty)) = Inr (Bulk (Json (session_value witness_session)))"
    using exec_reply [OF represents_created, of "Get witness_index 500 10"] by (auto simp: witness_session_def)
  then show ?thesis
    using parse_witness_session [of "\<lambda>_. 0"] by (simp add: getSession_def reading_def optional_record_def stringResult_def)
qed

theorem store_implements_registry_witness:
  "represents (run witness_created Map.empty) (registry_run witness_created Map.empty)"
proof -
  have "represents (snd (exec (Create witness_index witness_session 1000) Up 0 Map.empty))
      (registry_exec (Create witness_index witness_session 1000) Up 0 Map.empty)"
    using store_implements_registry [OF represents_empty, of "Create witness_index witness_session 1000" Up 0] by blast
  then show ?thesis by (simp add: witness_created_def)
qed

theorem a_session_has_one_credential_witness:
  "fst (getSession (\<lambda>_. 0) witness_index 500 10 Up 10 (run witness_created Map.empty)) = Inr (Some witness_session) \<and>
   (10 :: int) < ss_absoluteExpiresAtMs witness_session"
  using witness_get a_session_has_one_credential [OF witness_get witness_get] by simp

theorem revoked_session_stays_revoked_witness:
  "\<exists>command. command_of (Revoke witness_index witness_reference) = Inr command \<and>
   fst (getSession (\<lambda>_. 0) witness_index 500 20 Up 20
     (run [(Rotate witness_index next_index 0 (witness_session\<lparr>ss_revision := 1\<rparr>) 500, Up, 15)]
       (snd (exec (Revoke witness_index witness_reference) Reply_lost 10 (run witness_created Map.empty))))) \<noteq> Inr (Some witness_session)"
proof -
  obtain command where c: "command_of (Revoke witness_index witness_reference) = Inr command"
    by (simp add: checked_def)
  have "ss_id witness_session = witness_reference" by (simp add: witness_session_def)
  with c revoked_session_stays_revoked [OF c, of Reply_lost
      "[(Rotate witness_index next_index 0 (witness_session\<lparr>ss_revision := 1\<rparr>) 500, Up, 15)]"
      "\<lambda>_. 0" witness_index 500 20 Up 20 10 witness_created witness_session]
  show ?thesis by (auto simp: creates_def)
qed

theorem a_revision_is_rotated_once_witness:
  "fst (exec (Rotate witness_index next_index 0 (witness_session\<lparr>ss_revision := 1\<rparr>) 500) Up 10 (run witness_created Map.empty)) = Inr (Int_reply 1) \<and>
   fst (exec (Rotate witness_index (replicate 43 CHR ''m'') 0 (witness_session\<lparr>ss_revision := 1\<rparr>) 500) Up 11
     (run [] (snd (exec (Rotate witness_index next_index 0 (witness_session\<lparr>ss_revision := 1\<rparr>) 500) Up 10
       (run witness_created Map.empty))))) \<noteq> Inr (Int_reply 1)"
proof -
  have "registry_live 10 [witness_index \<mapsto> (witness_session, 1000)] = [witness_index \<mapsto> (witness_session, 1000)]"
    by (auto simp: registry_live_def)
  moreover have "\<exists>c. command_of (Rotate witness_index next_index 0 (witness_session\<lparr>ss_revision := 1\<rparr>) 500) = Inr c"
    by (simp add: checked_def positiveMilliseconds_def max_safe_def)
  ultimately have first: "fst (exec (Rotate witness_index next_index 0 (witness_session\<lparr>ss_revision := 1\<rparr>) 500) Up 10
      (run witness_created Map.empty)) = Inr (Int_reply 1)"
    using exec_reply [OF represents_created, of "Rotate witness_index next_index 0 (witness_session\<lparr>ss_revision := 1\<rparr>) 500"]
    by (auto simp: witness_session_def)
  then show ?thesis using a_revision_is_rotated_once [OF first, of "[]"] by simp
qed

end
