(* ===== verification/Session_Service.thy ===== *)
theory Session_Service
  imports Session_Registry Js_Json "HOL-Library.Sublist"
begin

text \<open>
  \<open>apps/api/src/auth/session-service.ts\<close>: the browser session service over the store, the identity provider,
  the token verifier and the audit port.

  A handler threads a \<open>world\<close>: the Redis database, the trace of store calls that changed it (its own and
  those of other requests, which run \<open>env_others n\<close> just before the handler's \<open>n\<close>th store call)
  and the audit events it sent. The store, the clock, the random bytes, the identity provider and the
  audit port answer through \<open>session_env\<close>, so a theorem about all environments is about every
  interleaving and every failure. Instants shown to the browser are within the range of \<open>Date\<close>.
\<close>

datatype audit_action = Login_started | Login_completed | Session_refreshed | Session_logout_requested

record session_audit =
  sau_action :: audit_action
  sau_operationId :: string
  sau_sessionReference :: "string option"
  sau_traceId :: string

datatype verify_error = Identity_provider_unavailable | Token_rejected

record session_env =
  env_crypto :: crypto
  env_sha256 :: "string \<Rightarrow> byte list"
  env_bytes :: "jval \<Rightarrow> nat"
  env_link :: "nat \<Rightarrow> link"
  env_redis_now :: "nat \<Rightarrow> int"
  env_others :: "nat \<Rightarrow> store_event list"
  env_clock :: "nat \<Rightarrow> int"
  env_random :: "nat \<Rightarrow> byte list"
  env_verify :: "string \<Rightarrow> verify_error + string"
  env_accepts :: "session_audit \<Rightarrow> bool"
  env_beginLogin :: "string \<Rightarrow> session_failure + string \<times> login_transaction"
  env_callbackState :: "string \<Rightarrow> string option"
  env_exchange :: "string \<Rightarrow> login_transaction \<Rightarrow> session_failure + token_result"
  env_refresh :: "session_tokens \<Rightarrow> session_failure + token_result"
  env_endSessionUrl :: "string option"
  env_trace :: string

record world =
  w_db :: redis_db
  w_trace :: "store_event list"
  w_audits :: "session_audit list"

section \<open>Configuration\<close>

record keyring =
  kr_decryptionKeys :: "key_encryption_key list"
  kr_encryptionKey :: key_encryption_key
  kr_indexingKey :: "byte list"

definition same_key :: "key_encryption_key \<Rightarrow> key_encryption_key \<Rightarrow> bool" where
  "same_key a b \<longleftrightarrow> kek_id a = kek_id b \<and> kek_value a = kek_value b"

definition snapshotKeyring ::
    "key_encryption_key list \<Rightarrow> key_encryption_key \<Rightarrow> byte list \<Rightarrow> session_failure + keyring" where
  "snapshotKeyring ks encryptionKey indexingKey =
     (if \<not> valid_key encryptionKey \<or> ks = [] \<or> 2 < length ks \<or> list_ex (\<lambda>k. \<not> valid_key k) ks \<or> length indexingKey < 32
      then Inl Session_invalid
      else (let currentMatches = filter (\<lambda>k. same_key k encryptionKey) ks;
                uniqueIds = remdups (map kek_id ks);
                uniqueValues = distinct (map kek_value ks);
                indexingKeyReused = list_ex (\<lambda>k. length indexingKey = length (kek_value k) \<and> indexingKey = kek_value k) ks
            in if length currentMatches \<noteq> 1 \<or> length uniqueIds \<noteq> length ks \<or> \<not> uniqueValues \<or> indexingKeyReused
               then Inl Session_invalid
               else (case find (\<lambda>k. same_key k encryptionKey) ks of
                   None \<Rightarrow> Inl Session_invalid
                 | Some key \<Rightarrow> Inr \<lparr>kr_decryptionKeys = ks, kr_encryptionKey = key, kr_indexingKey = indexingKey\<rparr>)))"

definition secondsToMilliseconds :: "jnum \<Rightarrow> session_failure + int" where
  "secondsToMilliseconds v = (case safe_int v of
     Some n \<Rightarrow> if n \<le> 0 \<or> 31536000 < n then Inl Session_invalid else Inr (n * 1000)
   | None \<Rightarrow> Inl Session_invalid)"

record session_options =
  so_decryptionKeys :: "key_encryption_key list"
  so_encryptionKey :: key_encryption_key
  so_indexingKey :: "byte list"
  so_loginTransactionTtlSeconds :: jnum
  so_sessionIdleTtlSeconds :: jnum
  so_sessionAbsoluteTtlSeconds :: jnum
  so_refreshLeaseTtlMs :: int

record session_service =
  sv_keys :: keyring
  loginTtlMs :: int
  idleTtlMs :: int
  absoluteTtlMs :: int
  refreshLeaseTtlMs :: int

definition createPcBffSessionService :: "session_options \<Rightarrow> session_failure + session_service" where
  "createPcBffSessionService opts =
     bindR (snapshotKeyring (so_decryptionKeys opts) (so_encryptionKey opts) (so_indexingKey opts)) (\<lambda>keys.
     bindR (secondsToMilliseconds (so_loginTransactionTtlSeconds opts)) (\<lambda>login.
     bindR (secondsToMilliseconds (so_sessionIdleTtlSeconds opts)) (\<lambda>idle.
     bindR (secondsToMilliseconds (so_sessionAbsoluteTtlSeconds opts)) (\<lambda>absolute.
     if absolute < idle \<or> so_refreshLeaseTtlMs opts \<le> 0 then Inl Session_invalid
     else Inr \<lparr>sv_keys = keys, loginTtlMs = login, idleTtlMs = idle, absoluteTtlMs = absolute,
       refreshLeaseTtlMs = so_refreshLeaseTtlMs opts\<rparr>))))"

section \<open>Handlers\<close>

type_synonym 'a handler = "world \<Rightarrow> (session_failure + 'a) \<times> world"

definition ret :: "'a \<Rightarrow> 'a handler" where
  "ret x w = (Inr x, w)"

definition throw :: "session_failure \<Rightarrow> 'a handler" where
  "throw e w = (Inl e, w)"

definition lift :: "session_failure + 'a \<Rightarrow> 'a handler" where
  "lift r w = (r, w)"

definition bindH :: "'a handler \<Rightarrow> ('a \<Rightarrow> 'b handler) \<Rightarrow> 'b handler" where
  "bindH m f w = (case m w of (Inl e, w') \<Rightarrow> (Inl e, w') | (Inr x, w') \<Rightarrow> f x w')"

definition catchH :: "'a handler \<Rightarrow> (session_failure \<Rightarrow> 'a handler) \<Rightarrow> 'a handler" where
  "catchH m h w = (case m w of (Inl e, w') \<Rightarrow> h e w' | (Inr x, w') \<Rightarrow> (Inr x, w'))"

text \<open>\<open>try { m } finally { await f.catch(() => undefined) }\<close>\<close>

definition finallyH :: "'a handler \<Rightarrow> 'b handler \<Rightarrow> 'a handler" where
  "finallyH m f w = (case m w of (r, w') \<Rightarrow> (r, snd (f w')))"

text \<open>The \<open>n\<close>th store call of a handler, after what other requests did.\<close>

definition store ::
    "session_env \<Rightarrow> nat \<Rightarrow> store_call \<Rightarrow> (link \<Rightarrow> int \<Rightarrow> redis_db \<Rightarrow> (session_failure + 'a) \<times> redis_db) \<Rightarrow> 'a handler" where
  "store env n call operation w =
     (case operation (env_link env n) (env_redis_now env n) (run (env_others env n) (w_db w)) of
        (r, db) \<Rightarrow> (r, w\<lparr>w_db := db, w_trace := w_trace w @ env_others env n @ [(call, env_link env n, env_redis_now env n)]\<rparr>))"

definition st_acquire :: "session_env \<Rightarrow> nat \<Rightarrow> string \<Rightarrow> string \<Rightarrow> int \<Rightarrow> bool handler" where
  "st_acquire env n i owner ttl = store env n (Acquire i owner ttl) (acquireRefreshLease i owner ttl)"

definition st_consume :: "session_env \<Rightarrow> nat \<Rightarrow> string \<Rightarrow> login_transaction option handler" where
  "st_consume env n i = store env n (Consume_login i) (consumeLoginTransaction (env_bytes env) i)"

definition st_create :: "session_env \<Rightarrow> nat \<Rightarrow> string \<Rightarrow> stored_session \<Rightarrow> int \<Rightarrow> unit handler" where
  "st_create env n i s ttl = store env n (Create i s ttl) (createSession i s ttl)"

definition st_delete :: "session_env \<Rightarrow> nat \<Rightarrow> string \<Rightarrow> stored_session option handler" where
  "st_delete env n i = store env n (Delete i) (deleteSession (env_bytes env) i)"

definition st_get :: "session_env \<Rightarrow> nat \<Rightarrow> string \<Rightarrow> int \<Rightarrow> int \<Rightarrow> stored_session option handler" where
  "st_get env n i idle now = store env n (Get i idle now) (getSession (env_bytes env) i idle now)"

definition st_release :: "session_env \<Rightarrow> nat \<Rightarrow> string \<Rightarrow> string \<Rightarrow> unit handler" where
  "st_release env n i owner = store env n (Release i owner) (releaseRefreshLease i owner)"

definition st_revoke :: "session_env \<Rightarrow> nat \<Rightarrow> string \<Rightarrow> string \<Rightarrow> stored_session option handler" where
  "st_revoke env n i sid = store env n (Revoke i sid) (revokeSession (env_bytes env) i sid)"

definition st_rotate :: "session_env \<Rightarrow> nat \<Rightarrow> string \<Rightarrow> string \<Rightarrow> int \<Rightarrow> stored_session \<Rightarrow> int \<Rightarrow> bool handler" where
  "st_rotate env n p i revision s ttl = store env n (Rotate p i revision s ttl) (rotateSession p i revision s ttl)"

definition st_login :: "session_env \<Rightarrow> nat \<Rightarrow> string \<Rightarrow> login_transaction \<Rightarrow> int \<Rightarrow> unit handler" where
  "st_login env n i tx ttl = store env n (Store_login i tx ttl) (storeLoginTransaction i tx ttl)"

text \<open>Audit events.\<close>

fun action_text :: "audit_action \<Rightarrow> string" where
  "action_text Login_started = ''login_started''"
| "action_text Login_completed = ''login_completed''"
| "action_text Session_refreshed = ''session_refreshed''"
| "action_text Session_logout_requested = ''session_logout_requested''"

definition byte_hex :: "byte \<Rightarrow> string" where
  "byte_hex b = [hex_digit (unat b div 16), hex_digit (unat b mod 16)]"

definition auditOperationId :: "session_env \<Rightarrow> audit_action \<Rightarrow> string \<Rightarrow> string" where
  "auditOperationId env action logicalReference =
     (let digest = take 16 (env_sha256 env (''ai-crm:pc-bff:authentication-audit:v1'' @ [CHR 0x00] @
            action_text action @ [CHR 0x00] @ logicalReference));
          bytes6 = digest[6 := or (and (digest ! 6) 0x0f) 0x50];
          bytes8 = bytes6[8 := or (and (bytes6 ! 8) 0x3f) 0x80];
          hex = concat (map byte_hex bytes8)
      in take 8 hex @ ''-'' @ take 4 (drop 8 hex) @ ''-'' @ take 4 (drop 12 hex) @ ''-'' @
         take 4 (drop 16 hex) @ ''-'' @ drop 20 hex)"

definition authenticationAuditEvent ::
    "session_env \<Rightarrow> audit_action \<Rightarrow> string \<Rightarrow> string option \<Rightarrow> session_audit" where
  "authenticationAuditEvent env action logicalReference sessionReference =
     \<lparr>sau_action = action, sau_operationId = auditOperationId env action logicalReference,
      sau_sessionReference = sessionReference, sau_traceId = env_trace env\<rparr>"

definition auditOrFail :: "session_env \<Rightarrow> session_audit \<Rightarrow> unit handler" where
  "auditOrFail env event w = (if env_accepts env event then Inr () else Inl Dependency_unavailable,
     w\<lparr>w_audits := w_audits w @ [event]\<rparr>)"

section \<open>Operations\<close>

record session_view =
  view_authenticatedAt :: string
  view_csrfToken :: string
  view_expiresAt :: string

definition sessionView :: "stored_session \<Rightarrow> session_view" where
  "sessionView s = \<lparr>view_authenticatedAt = to_iso (ss_authenticatedAtMs s), view_csrfToken = ss_csrfToken s,
     view_expiresAt = to_iso (ss_absoluteExpiresAtMs s)\<rparr>"

definition stateFromCallback :: "session_env \<Rightarrow> string \<Rightarrow> session_failure + string" where
  "stateFromCallback env callbackUrl = (case env_callbackState env callbackUrl of
     None \<Rightarrow> Inl Callback_invalid
   | Some s \<Rightarrow> if s = [] then Inl Callback_invalid else Inr s)"

definition remainingSessionTtl :: "stored_session \<Rightarrow> int \<Rightarrow> int \<Rightarrow> session_failure + int" where
  "remainingSessionTtl s nowMs idle =
     (let remaining = ss_absoluteExpiresAtMs s - nowMs
      in if remaining \<le> 0 then Inl Session_invalid else Inr (min remaining idle))"

definition verifyIssuedAccessToken :: "session_env \<Rightarrow> string \<Rightarrow> session_failure + unit" where
  "verifyIssuedAccessToken env token = (case env_verify env token of
     Inr _ \<Rightarrow> Inr ()
   | Inl Identity_provider_unavailable \<Rightarrow> Inl Dependency_unavailable
   | Inl Token_rejected \<Rightarrow> Inl Session_invalid)"

definition index_of :: "session_env \<Rightarrow> session_service \<Rightarrow> string \<Rightarrow> session_failure + string" where
  "index_of env sv credential = createSessionIndex (env_crypto env) credential (kr_indexingKey (sv_keys sv))"

definition random_credential :: "session_env \<Rightarrow> nat \<Rightarrow> string" where
  "random_credential env n = createOpaqueCredential (env_random env n)"

definition loadStoredSession :: "session_env \<Rightarrow> session_service \<Rightarrow> string \<Rightarrow> (string \<times> stored_session) handler" where
  "loadStoredSession env sv credential =
     bindH (lift (index_of env sv credential)) (\<lambda>sessionIndex.
     bindH (st_get env 0 sessionIndex (idleTtlMs sv) (env_clock env 0)) (\<lambda>found. case found of
       None \<Rightarrow> throw Session_invalid
     | Some s \<Rightarrow> if ss_absoluteExpiresAtMs s \<le> env_clock env 0 then throw Session_invalid
                 else ret (sessionIndex, s)))"

text \<open>
  \<open>loadVerifiedSession\<close>: the tokens are decrypted and the access token is verified; a session that fails
  is deleted, unless the identity provider could not be asked.
\<close>

definition loadVerifiedSession :: "session_env \<Rightarrow> session_service \<Rightarrow> string \<Rightarrow> (string \<times> stored_session) handler" where
  "loadVerifiedSession env sv credential =
     bindH (loadStoredSession env sv credential) (\<lambda>(sessionIndex, s).
     (let rejected = bindH (st_delete env 1 sessionIndex) (\<lambda>_. throw Session_invalid) in
      case decryptSessionTokens (env_crypto env) (encrypted_value (ss_tokens s)) (kr_decryptionKeys (sv_keys sv)) (ss_id s) of
        Inl _ \<Rightarrow> rejected
      | Inr tokens \<Rightarrow> (case env_verify env (accessToken tokens) of
            Inl Identity_provider_unavailable \<Rightarrow> throw Dependency_unavailable
          | Inl Token_rejected \<Rightarrow> rejected
          | Inr who \<Rightarrow> ret (who, s))))"

definition beginLogin :: "session_env \<Rightarrow> session_service \<Rightarrow> string \<Rightarrow> string handler" where
  "beginLogin env sv target =
     bindH (lift (env_beginLogin env target)) (\<lambda>(authorizationUrl, transaction).
     bindH (lift (index_of env sv (lt_state transaction))) (\<lambda>stateIndex.
     bindH (st_login env 0 stateIndex transaction (loginTtlMs sv)) (\<lambda>_.
     bindH (catchH (auditOrFail env (authenticationAuditEvent env Login_started stateIndex None))
       (\<lambda>e. bindH (st_consume env 1 stateIndex) (\<lambda>_. throw e))) (\<lambda>_.
     ret authorizationUrl))))"

definition new_session :: "session_env \<Rightarrow> session_service \<Rightarrow> token_result \<Rightarrow> encrypted_tokens \<Rightarrow> stored_session" where
  "new_session env sv result tokens = \<lparr>ss_absoluteExpiresAtMs = env_clock env 0 + absoluteTtlMs sv,
     ss_authenticatedAtMs = tr_authenticatedAtMs result, ss_createdAtMs = env_clock env 0,
     ss_csrfToken = random_credential env 2, ss_id = random_credential env 1, ss_revision = 0, ss_tokens = tokens\<rparr>"

text \<open>The rest of \<open>completeLogin\<close> once the transaction has been consumed.\<close>

definition after_consume ::
    "session_env \<Rightarrow> session_service \<Rightarrow> string \<Rightarrow> login_transaction option \<Rightarrow> (string \<times> string \<times> session_view) handler" where
  "after_consume env sv callbackUrl found = (case found of
       None \<Rightarrow> throw Callback_invalid
     | Some transaction \<Rightarrow>
         bindH (lift (env_exchange env callbackUrl transaction)) (\<lambda>result.
         bindH (lift (verifyIssuedAccessToken env (accessToken (tr_tokens result)))) (\<lambda>_.
         bindH (lift (index_of env sv (random_credential env 0))) (\<lambda>sessionIndex.
         bindH (lift (encryptSessionTokens (env_crypto env) (env_random env 3) (tr_tokens result)
           (kr_encryptionKey (sv_keys sv)) (random_credential env 1))) (\<lambda>tokens.
         (let session = new_session env sv result tokens in
          bindH (st_create env 1 sessionIndex session (idleTtlMs sv)) (\<lambda>_.
          bindH (catchH (auditOrFail env (authenticationAuditEvent env Login_completed (ss_id session) (Some (ss_id session))))
            (\<lambda>e. bindH (st_delete env 2 sessionIndex) (\<lambda>_. throw e))) (\<lambda>_.
          ret (random_credential env 0, returnTo transaction, sessionView session)))))))))"

definition completeLogin :: "session_env \<Rightarrow> session_service \<Rightarrow> string \<Rightarrow> (string \<times> string \<times> session_view) handler" where
  "completeLogin env sv callbackUrl =
     bindH (lift (stateFromCallback env callbackUrl)) (\<lambda>state.
     bindH (case index_of env sv state of Inl _ \<Rightarrow> throw Callback_invalid | Inr i \<Rightarrow> ret i) (\<lambda>stateIndex.
     bindH (st_consume env 0 stateIndex) (after_consume env sv callbackUrl)))"

definition currentSession :: "session_env \<Rightarrow> session_service \<Rightarrow> string \<Rightarrow> session_view handler" where
  "currentSession env sv credential =
     bindH (loadVerifiedSession env sv credential) (\<lambda>(who, s). ret (sessionView s))"

definition resolvePrincipal :: "session_env \<Rightarrow> session_service \<Rightarrow> string \<Rightarrow> string handler" where
  "resolvePrincipal env sv credential =
     bindH (loadVerifiedSession env sv credential) (\<lambda>(who, s). ret who)"

definition sessionForMutation :: "session_env \<Rightarrow> session_service \<Rightarrow> string \<Rightarrow> (session_view \<times> string) handler" where
  "sessionForMutation env sv credential =
     bindH (loadStoredSession env sv credential) (\<lambda>(sessionIndex, s). ret (sessionView s, ss_id s))"

definition logout :: "session_env \<Rightarrow> session_service \<Rightarrow> string option \<Rightarrow> string option \<Rightarrow> string option handler" where
  "logout env sv credential expectedSessionReference = (case credential of
     None \<Rightarrow> ret None
   | Some c \<Rightarrow>
       bindH (lift (index_of env sv c)) (\<lambda>sessionIndex.
       bindH (case expectedSessionReference of
           Some reference \<Rightarrow> ret (Some reference)
         | None \<Rightarrow> bindH (st_get env 0 sessionIndex (idleTtlMs sv) (env_clock env 0)) (\<lambda>found. ret (map_option ss_id found)))
         (\<lambda>sessionReference. case sessionReference of
           None \<Rightarrow> ret None
         | Some reference \<Rightarrow>
             bindH (auditOrFail env (authenticationAuditEvent env Session_logout_requested reference (Some reference))) (\<lambda>_.
             bindH (st_revoke env 1 sessionIndex reference) (\<lambda>session. case session of
               None \<Rightarrow> ret None | Some _ \<Rightarrow> ret (env_endSessionUrl env))))))"

text \<open>The part of \<open>refresh\<close> that runs under the lease.\<close>

definition next_session :: "stored_session \<Rightarrow> encrypted_tokens \<Rightarrow> stored_session" where
  "next_session current tokens = current\<lparr>ss_revision := ss_revision current + 1, ss_tokens := tokens\<rparr>"

definition refresh_under_lease ::
    "session_env \<Rightarrow> session_service \<Rightarrow> string \<Rightarrow> stored_session \<Rightarrow> (string \<times> session_view) handler" where
  "refresh_under_lease env sv previousIndex initial =
     bindH (st_get env 2 previousIndex (idleTtlMs sv) (env_clock env 1)) (\<lambda>found. case found of
       None \<Rightarrow> throw Session_invalid
     | Some current \<Rightarrow>
         if ss_id current \<noteq> ss_id initial \<or> ss_revision current \<noteq> ss_revision initial then throw Session_invalid
         else
           bindH (lift (decryptSessionTokens (env_crypto env) (encrypted_value (ss_tokens current))
             (kr_decryptionKeys (sv_keys sv)) (ss_id current))) (\<lambda>tokens.
           bindH (lift (env_refresh env tokens)) (\<lambda>refreshed.
           bindH (lift (verifyIssuedAccessToken env (accessToken (tr_tokens refreshed)))) (\<lambda>_.
           bindH (lift (index_of env sv (random_credential env 1))) (\<lambda>nextIndex.
           bindH (lift (encryptSessionTokens (env_crypto env) (env_random env 2) (tr_tokens refreshed)
             (kr_encryptionKey (sv_keys sv)) (ss_id current))) (\<lambda>encrypted.
           (let nextSession = next_session current encrypted in
            bindH (lift (remainingSessionTtl nextSession (env_clock env 1) (idleTtlMs sv))) (\<lambda>ttl.
            bindH (st_rotate env 3 previousIndex nextIndex (ss_revision current) nextSession ttl) (\<lambda>rotated.
            if \<not> rotated then throw Session_invalid
            else
              bindH (catchH (auditOrFail env (authenticationAuditEvent env Session_refreshed
                  (ss_id current @ '':'' @ decimal (nat (ss_revision nextSession))) (Some (ss_id current))))
                (\<lambda>e. bindH (st_delete env 4 nextIndex) (\<lambda>_. throw e))) (\<lambda>_.
              ret (random_credential env 1, sessionView nextSession)))))))))))"

definition refresh :: "session_env \<Rightarrow> session_service \<Rightarrow> string \<Rightarrow> (string \<times> session_view) handler" where
  "refresh env sv credential =
     bindH (lift (index_of env sv credential)) (\<lambda>previousIndex.
     bindH (st_get env 0 previousIndex (idleTtlMs sv) (env_clock env 0)) (\<lambda>found. case found of
       None \<Rightarrow> throw Session_invalid
     | Some initial \<Rightarrow>
         bindH (st_acquire env 1 (ss_id initial) (random_credential env 0) (refreshLeaseTtlMs sv)) (\<lambda>acquired.
         if \<not> acquired then throw Refresh_in_progress
         else finallyH (refresh_under_lease env sv previousIndex initial)
                (st_release env 5 (ss_id initial) (random_credential env 0)))))"

section \<open>Rules for handlers\<close>

text \<open>
  \<open>quiet\<close>: no other request interferes and every command reaches Redis. \<open>hoare P m Q E\<close>: started in a
  database that represents a registry satisfying \<open>P\<close>, the handler ends in one that satisfies \<open>Q x\<close> when it
  returns \<open>x\<close> and \<open>E\<close> when it throws. The audit events sent so far are the second argument.
\<close>

definition quiet :: "session_env \<Rightarrow> bool" where
  "quiet env \<longleftrightarrow> (\<forall>n. env_others env n = [] \<and> env_link env n = Up)"

type_synonym assertion = "registry \<Rightarrow> session_audit list \<Rightarrow> bool"

definition hoare :: "assertion \<Rightarrow> 'a handler \<Rightarrow> ('a \<Rightarrow> assertion) \<Rightarrow> assertion \<Rightarrow> bool" where
  "hoare P m Q E \<longleftrightarrow> (\<forall>w R. represents (w_db w) R \<longrightarrow> P R (w_audits w) \<longrightarrow>
     (\<exists>R'. represents (w_db (snd (m w))) R' \<and> (case fst (m w) of
        Inr x \<Rightarrow> Q x R' (w_audits (snd (m w))) | Inl e \<Rightarrow> E R' (w_audits (snd (m w))))))"

lemma h_ret: "(\<And>R a. P R a \<Longrightarrow> Q x R a) \<Longrightarrow> hoare P (ret x) Q E"
  by (auto simp: hoare_def ret_def)

lemma h_throw: "(\<And>R a. P R a \<Longrightarrow> E R a) \<Longrightarrow> hoare P (throw e) Q E"
  by (auto simp: hoare_def throw_def)

lemma h_lift:
  "(\<And>x R a. r = Inr x \<Longrightarrow> P R a \<Longrightarrow> Q x R a) \<Longrightarrow> (\<And>R a. P R a \<Longrightarrow> E R a) \<Longrightarrow> hoare P (lift r) Q E"
  by (cases r) (auto simp: hoare_def lift_def)

lemma h_bind: "hoare P m Q E \<Longrightarrow> (\<And>x. hoare (Q x) (f x) Q' E) \<Longrightarrow> hoare P (bindH m f) Q' E"
  unfolding hoare_def bindH_def
  by (fastforce split: prod.splits sum.splits)

lemma h_catch: "hoare P m Q F \<Longrightarrow> (\<And>e. hoare F (h e) Q E) \<Longrightarrow> hoare P (catchH m h) Q E"
  unfolding hoare_def catchH_def
  by (fastforce split: prod.splits sum.splits)

lemma h_weaken:
  assumes "hoare P m Q E" "\<And>R a. P' R a \<Longrightarrow> P R a" "\<And>x R a. Q x R a \<Longrightarrow> Q' x R a" "\<And>R a. E R a \<Longrightarrow> E' R a"
  shows "hoare P' m Q' E'"
  unfolding hoare_def
proof (intro allI impI)
  fix w :: world and R
  assume "represents (w_db w) R" "P' R (w_audits w)"
  then obtain R' where "represents (w_db (snd (m w))) R'"
    and "case fst (m w) of Inr x \<Rightarrow> Q x R' (w_audits (snd (m w))) | Inl e \<Rightarrow> E R' (w_audits (snd (m w)))"
    using assms(1,2) unfolding hoare_def by blast
  then show "\<exists>R'. represents (w_db (snd (m w))) R' \<and> (case fst (m w) of
      Inr x \<Rightarrow> Q' x R' (w_audits (snd (m w))) | Inl e \<Rightarrow> E' R' (w_audits (snd (m w))))"
    using assms(3,4) by (intro exI [of _ R'] conjI) (auto split: sum.splits)
qed

lemma h_finally:
  assumes "hoare P m Q E" "\<And>x. hoare (Q x) f (\<lambda>_. Q' x) (Q' x)" "hoare E f (\<lambda>_. E') E'"
  shows "hoare P (finallyH m f) Q' E'"
  unfolding hoare_def
proof (intro allI impI)
  fix w :: world and R
  assume "represents (w_db w) R" "P R (w_audits w)"
  then obtain R1 where R1: "represents (w_db (snd (m w))) R1"
    and post: "case fst (m w) of Inr x \<Rightarrow> Q x R1 (w_audits (snd (m w))) | Inl e \<Rightarrow> E R1 (w_audits (snd (m w)))"
    using assms(1) unfolding hoare_def by blast
  have fin: "finallyH m f w = (fst (m w), snd (f (snd (m w))))" by (simp add: finallyH_def case_prod_beta)
  show "\<exists>R'. represents (w_db (snd (finallyH m f w))) R' \<and> (case fst (finallyH m f w) of
      Inr x \<Rightarrow> Q' x R' (w_audits (snd (finallyH m f w))) | Inl e \<Rightarrow> E' R' (w_audits (snd (finallyH m f w))))"
  proof (cases "fst (m w)")
    case (Inl e)
    with post R1 assms(3) fin show ?thesis unfolding hoare_def by (fastforce split: sum.splits)
  next
    case (Inr x)
    with post R1 assms(2) [of x] fin show ?thesis unfolding hoare_def by (fastforce split: sum.splits)
  qed
qed

lemma h_audit:
  "hoare P (auditOrFail env ev) (\<lambda>_ R a. \<exists>b. P R b \<and> a = b @ [ev] \<and> env_accepts env ev) (\<lambda>R a. \<exists>b. P R b \<and> a = b @ [ev])"
  by (auto simp: hoare_def auditOrFail_def)

text \<open>A store call changes the registry as \<open>registry_exec\<close> says.\<close>

lemma h_store:
  assumes "quiet env"
    and "\<And>l t db. snd (operation l t db) = snd (exec call l t db)"
    and "\<And>t db R x a. represents db R \<Longrightarrow> P R a \<Longrightarrow> fst (operation Up t db) = Inr x \<Longrightarrow> t = env_redis_now env n \<Longrightarrow> Q x (registry_exec call Up t R) a"
    and "\<And>t db R e a. represents db R \<Longrightarrow> P R a \<Longrightarrow> fst (operation Up t db) = Inl e \<Longrightarrow> t = env_redis_now env n \<Longrightarrow> E (registry_exec call Up t R) a"
  shows "hoare P (store env n call operation) Q E"
  unfolding hoare_def
proof (intro allI impI)
  fix w :: world and R
  assume w: "represents (w_db w) R" "P R (w_audits w)"
  let ?t = "env_redis_now env n" and ?r = "operation Up (env_redis_now env n) (w_db w)"
  have store: "store env n call operation w = (fst ?r, w\<lparr>w_db := snd (exec call Up ?t (w_db w)),
      w_trace := w_trace w @ env_others env n @ [(call, env_link env n, ?t)]\<rparr>)"
    using assms(1,2) by (simp add: store_def quiet_def case_prod_beta)
  show "\<exists>R'. represents (w_db (snd (store env n call operation w))) R' \<and> (case fst (store env n call operation w) of
      Inr x \<Rightarrow> Q x R' (w_audits (snd (store env n call operation w)))
    | Inl e \<Rightarrow> E R' (w_audits (snd (store env n call operation w))))"
  proof (intro exI conjI)
    show "represents (w_db (snd (store env n call operation w))) (registry_exec call Up ?t R)"
      using exec_represents [OF w(1)] by (simp add: store)
    show "case fst (store env n call operation w) of
        Inr x \<Rightarrow> Q x (registry_exec call Up ?t R) (w_audits (snd (store env n call operation w)))
      | Inl e \<Rightarrow> E (registry_exec call Up ?t R) (w_audits (snd (store env n call operation w)))"
      using assms(3,4) [OF w _ refl] by (cases "fst ?r") (auto simp: store)
  qed
qed

lemma snd_operations:
  "snd (acquireRefreshLease i o' ttl l t db) = snd (exec (Acquire i o' ttl) l t db)"
  "snd (consumeLoginTransaction bytes i l t db) = snd (exec (Consume_login i) l t db)"
  "snd (createSession i s ttl l t db) = snd (exec (Create i s ttl) l t db)"
  "snd (deleteSession bytes i l t db) = snd (exec (Delete i) l t db)"
  "snd (getSession bytes i idle nowMs l t db) = snd (exec (Get i idle nowMs) l t db)"
  "snd (releaseRefreshLease i o' l t db) = snd (exec (Release i o') l t db)"
  "snd (revokeSession bytes i f l t db) = snd (exec (Revoke i f) l t db)"
  "snd (rotateSession p i r s ttl l t db) = snd (exec (Rotate p i r s ttl) l t db)"
  "snd (storeLoginTransaction i tx ttl l t db) = snd (exec (Store_login i tx ttl) l t db)"
  by (simp_all add: acquireRefreshLease_def consumeLoginTransaction_def createSession_def deleteSession_def
      getSession_def releaseRefreshLease_def revokeSession_def rotateSession_def storeLoginTransaction_def reading_def
      exec_def split: sum.splits)

text \<open>\<open>subregistry R0 R\<close>: every session of \<open>R\<close> is a session of \<open>R0\<close> at the same index (with any expiry).\<close>

definition subregistry :: "registry \<Rightarrow> registry \<Rightarrow> bool" where
  "subregistry R0 R \<longleftrightarrow> (\<forall>i s x. R i = Some (s, x) \<longrightarrow> (\<exists>y. R0 i = Some (s, y)))"

lemma subregistry_refl [simp]: "subregistry R R"
  by (auto simp: subregistry_def)

lemma subregistry_trans: "subregistry R0 R1 \<Longrightarrow> subregistry R1 R2 \<Longrightarrow> subregistry R0 R2"
  unfolding subregistry_def by blast

lemma subregistry_live: "subregistry R (registry_live now R)"
  by (auto simp: subregistry_def registry_live_Some)

fun shrinking :: "store_call \<Rightarrow> bool" where
  "shrinking (Create i s ttl) = False"
| "shrinking (Rotate p n r s ttl) = False"
| "shrinking _ = True"

lemma subregistry_remove: "subregistry R (R(i := None))"
  by (simp add: subregistry_def)

lemma subregistry_touch: "R i = Some (s, x) \<Longrightarrow> subregistry R (R(i \<mapsto> (s, y)))"
  by (simp add: subregistry_def)

lemma subregistry_filter:
  "subregistry R (\<lambda>j. case R j of Some (s, x) \<Rightarrow> if P s then None else R j | None \<Rightarrow> None)"
  by (auto simp: subregistry_def split: option.splits)

lemma registry_step_shrinking:
  assumes "shrinking call"
  shows "subregistry R (snd (registry_step call now R))"
proof (cases call)
  case (Get i idle nowMs)
  show ?thesis
  proof (cases "R i")
    case (Some m)
    obtain s x where "m = (s, x)" by (cases m)
    with Some Get show ?thesis
      by (cases "ss_absoluteExpiresAtMs s \<le> nowMs") (simp_all add: subregistry_remove subregistry_touch)
  qed (use Get in simp)
next
  case (Delete i)
  then show ?thesis by (cases "R i") (simp_all add: subregistry_remove case_prod_beta)
next
  case (Revoke i f)
  then show ?thesis by (simp add: subregistry_filter)
qed (use assms in simp_all)

lemma shrinking_subregistry:
  assumes "shrinking call"
  shows "subregistry R (registry_exec call link now R)"
proof -
  show ?thesis
    using subregistry_trans [OF subregistry_live registry_step_shrinking [OF assms]]
    by (simp add: registry_exec_def split: sum.splits)
qed

abbreviation sub :: "registry \<Rightarrow> assertion" where
  "sub R0 \<equiv> (\<lambda>R a. subregistry R0 R)"

lemma h_shrink:
  assumes "quiet env" "shrinking call" "\<And>l t db. snd (operation l t db) = snd (exec call l t db)"
  shows "hoare (sub R0) (store env n call operation) (\<lambda>_. sub R0) (sub R0)"
  using assms by (intro h_store) (auto intro: subregistry_trans shrinking_subregistry)

lemma h_get:
  assumes "quiet env"
  shows "hoare (sub R0) (st_get env n i idle nowMs)
    (\<lambda>found R a. subregistry R0 R \<and> (\<forall>s. found = Some s \<longrightarrow> (\<exists>x. R0 i = Some (s, x)) \<and> nowMs < ss_absoluteExpiresAtMs s)) (sub R0)"
  unfolding st_get_def
proof (rule h_store [OF assms snd_operations(5)])
  fix t :: int and db R found a
  assume R: "represents db R" "subregistry R0 R"
    and "fst (getSession (env_bytes env) i idle nowMs Up t db) = Inr found" "t = env_redis_now env n"
  then have "\<exists>x. R i = Some (s, x) \<and> t < x \<and> nowMs < ss_absoluteExpiresAtMs s" if "found = Some s" for s
    using getSession_registry [OF R(1)] that by simp
  then show "subregistry R0 (registry_exec (Get i idle nowMs) Up t R) \<and>
      (\<forall>s. found = Some s \<longrightarrow> (\<exists>x. R0 i = Some (s, x)) \<and> nowMs < ss_absoluteExpiresAtMs s)"
    using R(2) subregistry_trans [OF R(2) shrinking_subregistry [of "Get i idle nowMs" R Up t]]
    by (auto simp: subregistry_def)
qed (rule subregistry_trans, assumption, rule shrinking_subregistry, simp)

text \<open>The only session that is not in \<open>R0\<close> is \<open>s\<close>, at the (valid) index \<open>n\<close>.\<close>

definition only_new :: "registry \<Rightarrow> string \<Rightarrow> stored_session \<Rightarrow> registry \<Rightarrow> bool" where
  "only_new R0 n s R \<longleftrightarrow> rx_test CREDENTIAL n \<and>
     (\<forall>i s' x. R i = Some (s', x) \<longrightarrow> i = n \<and> s' = s \<or> (\<exists>y. R0 i = Some (s', y)))"

text \<open>What a successful rotation leaves: the session at its next index only, everything else as before.\<close>

definition rotated :: "session_env \<Rightarrow> registry \<Rightarrow> string \<Rightarrow> string \<Rightarrow> stored_session \<Rightarrow> registry \<Rightarrow> bool" where
  "rotated env R0 p n s R \<longleftrightarrow> R p = None \<and> p \<noteq> n \<and> only_new R0 n s R \<and>
     (\<forall>t. (\<forall>k. env_redis_now env k = t) \<longrightarrow> (\<exists>ttl > 0. R n = Some (s, t + ttl)))"

lemma h_rotate:
  assumes "quiet env"
  shows "hoare (sub R0) (st_rotate env k p n revision s ttl)
    (\<lambda>ok R a. if ok then rotated env R0 p n s R else subregistry R0 R) (sub R0)"
  unfolding st_rotate_def
proof (rule h_store [OF assms snd_operations(8)])
  fix t :: int and db R ok a
  assume R: "represents db R" "subregistry R0 R" and t: "t = env_redis_now env k"
    and ok: "fst (rotateSession p n revision s ttl Up t db) = Inr ok"
  show "if ok then rotated env R0 p n s (registry_exec (Rotate p n revision s ttl) Up t R)
      else subregistry R0 (registry_exec (Rotate p n revision s ttl) Up t R)"
  proof (cases ok)
    case True
    with ok have reply: "fst (exec (Rotate p n revision s ttl) Up t db) = Inr (Int_reply 1)"
      by (auto simp: rotateSession_def reading_def result_simps)
    from exec_fst [OF reply] have "0 < ttl" "rx_test CREDENTIAL n"
      by (auto simp: result_simps checked_def positiveMilliseconds_def split: if_splits)
    moreover from rotate_reply [OF R(1) reply]
    have "registry_exec (Rotate p n revision s ttl) Up t R = (registry_live t R)(p := None, n \<mapsto> (s, t + ttl))" "p \<noteq> n"
      by blast+
    ultimately show ?thesis
      using True R(2) t by (auto simp: rotated_def only_new_def registry_live_Some subregistry_def)
  next
    case False
    from ok obtain r where r: "fst (exec (Rotate p n revision s ttl) Up t db) = Inr r" "r \<noteq> Int_reply 1"
      using False by (auto simp: rotateSession_def reading_def result_simps)
    from exec_fst [OF r(1)] obtain c where c: "command_of (Rotate p n revision s ttl) = Inr c" by blast
    have "fst (registry_step (Rotate p n revision s ttl) t (registry_live t R)) \<noteq> Int_reply 1"
      using exec_reply [OF R(1) c, of t] r by simp
    then have "snd (registry_step (Rotate p n revision s ttl) t (registry_live t R)) = registry_live t R"
      by (auto split: option.splits if_splits)
    then have "registry_exec (Rotate p n revision s ttl) Up t R = registry_live t R"
      using c by (simp add: registry_exec_def del: command_of.simps registry_step.simps)
    then show ?thesis using False subregistry_trans [OF R(2) subregistry_live] by simp
  qed
next
  fix t :: int and db R e and a :: "session_audit list"
  assume R: "represents db R" "subregistry R0 R"
    and e: "fst (rotateSession p n revision s ttl Up t db) = Inl e"
  have "registry_exec (Rotate p n revision s ttl) Up t R = R"
  proof (cases "command_of (Rotate p n revision s ttl)")
    case (Inr c)
    then show ?thesis using e exec_reply [OF R(1) Inr, of t] by (simp add: rotateSession_def reading_def)
  qed (simp add: registry_exec_def)
  with R(2) show "subregistry R0 (registry_exec (Rotate p n revision s ttl) Up t R)" by simp
qed

lemma bindH_lift [simp]: "bindH (lift (Inr x)) f = f x" "bindH (lift (Inl e)) f = throw e"
  by (rule ext, simp add: bindH_def lift_def throw_def)+

lemma h_lift_bind:
  "(\<And>x. r = Inr x \<Longrightarrow> hoare P (f x) Q E) \<Longrightarrow> (\<And>R a. P R a \<Longrightarrow> E R a) \<Longrightarrow> hoare P (bindH (lift r) f) Q E"
  by (cases r) (simp_all add: h_throw)

lemma h_pure: "(F \<Longrightarrow> hoare P m Q E) \<Longrightarrow> hoare (\<lambda>R a. P R a \<and> F) m Q E"
  by (auto simp: hoare_def)

lemma h_if:
  "(b \<Longrightarrow> hoare P m Q E) \<Longrightarrow> (\<not> b \<Longrightarrow> hoare P m' Q E) \<Longrightarrow> hoare P (if b then m else m') Q E"
  by simp

lemma h_get_bind:
  assumes "quiet env" "hoare (sub R0) (f None) Q E" "\<And>R a. sub R0 R a \<Longrightarrow> E R a"
    and "\<And>s x. R0 i = Some (s, x) \<Longrightarrow> nowMs < ss_absoluteExpiresAtMs s \<Longrightarrow> hoare (sub R0) (f (Some s)) Q E"
  shows "hoare (sub R0) (bindH (st_get env n i idle nowMs) f) Q E"
proof (rule h_bind)
  show "hoare (sub R0) (st_get env n i idle nowMs) (\<lambda>found R a. subregistry R0 R \<and>
      (\<forall>s. found = Some s \<longrightarrow> (\<exists>x. R0 i = Some (s, x)) \<and> nowMs < ss_absoluteExpiresAtMs s)) E"
    by (rule h_weaken [OF h_get [OF assms(1)]]) (use assms(3) in simp_all)
  show "hoare (\<lambda>R a. subregistry R0 R \<and> (\<forall>s. found = Some s \<longrightarrow> (\<exists>x. R0 i = Some (s, x)) \<and>
      nowMs < ss_absoluteExpiresAtMs s)) (f found) Q E" for found
    using assms(2,4) by (intro h_pure) (cases found, auto)
qed

lemma rotated_release:
  assumes "rotated env R0 p n s R"
  shows "rotated env R0 p n s (registry_exec (Release i owner) Up (env_redis_now env k) R)"
proof -
  let ?t = "env_redis_now env k"
  have "registry_exec (Release i owner) Up ?t R = R \<or> registry_exec (Release i owner) Up ?t R = registry_live ?t R"
    by (auto simp: registry_exec_def split: sum.splits)
  moreover have "rotated env R0 p n s (registry_live ?t R)"
    using assms by (force simp: rotated_def only_new_def registry_live_def split: option.splits if_splits)
  ultimately show ?thesis using assms by auto
qed

lemma h_new_delete:
  assumes "quiet env"
  shows "hoare (\<lambda>R a. only_new R0 n s R) (st_delete env k n) (\<lambda>_. sub R0) (sub R0)"
proof -
  have "subregistry R0 (registry_exec (Delete n) Up t R)" if "only_new R0 n s R" for R t
  proof -
    have "command_of (Delete n) = Inr (\<lambda>now. delete_script (session_key n) n)"
      using that by (simp add: only_new_def checked_def)
    then have "registry_exec (Delete n) Up t R = snd (registry_step (Delete n) t (registry_live t R))"
      by (simp add: registry_exec_def)
    moreover have "snd (registry_step (Delete n) t R') n = None" for R'
      by (simp split: option.splits)
    moreover have "subregistry R (snd (registry_step (Delete n) t (registry_live t R)))"
      by (rule subregistry_trans [OF subregistry_live registry_step_shrinking]) simp
    ultimately show ?thesis
      using that unfolding only_new_def subregistry_def by (metis option.distinct(1))
  qed
  then show ?thesis
    unfolding st_delete_def by (intro h_store [OF assms snd_operations(4)]) auto
qed

text \<open>What a refresh that returns \<open>(credential, view)\<close> has done.\<close>

definition refreshed_to ::
    "session_env \<Rightarrow> session_service \<Rightarrow> registry \<Rightarrow> string \<Rightarrow> string \<times> session_view \<Rightarrow> assertion" where
  "refreshed_to env sv R0 p result R a \<longleftrightarrow> (\<exists>n s x tokens.
     index_of env sv (fst result) = Inr n \<and> R0 p = Some (s, x) \<and> env_clock env 1 < ss_absoluteExpiresAtMs s \<and>
     rotated env R0 p n (next_session s tokens) R \<and> snd result = sessionView (next_session s tokens) \<and>
     (\<exists>ev \<in> set a. env_accepts env ev \<and> sau_action ev = Session_refreshed \<and> sau_sessionReference ev = Some (ss_id s)))"

lemma h_refresh_under_lease:
  assumes "quiet env"
  shows "hoare (sub R0) (refresh_under_lease env sv p initial) (\<lambda>r R a. refreshed_to env sv R0 p r R a) (sub R0)"
  unfolding refresh_under_lease_def
proof (rule h_get_bind [OF assms], goal_cases)
  case 1
  then show ?case by (simp add: h_throw)
next
  case (2 R a)
  then show ?case .
next
  case (3 s x)
  have tail: "hoare (\<lambda>R a. if ok then rotated env R0 p n (next_session s enc) R else subregistry R0 R)
      (if \<not> ok then throw Session_invalid
       else bindH (catchH (auditOrFail env ev) (\<lambda>e. bindH (st_delete env 4 n) (\<lambda>_. throw e)))
         (\<lambda>_. ret (c, sessionView (next_session s enc)))) (\<lambda>r R a. refreshed_to env sv R0 p r R a) (sub R0)"
    if "index_of env sv c = Inr n" "sau_action ev = Session_refreshed" "sau_sessionReference ev = Some (ss_id s)" for ok n c enc ev
  proof (cases ok)
    case False
    then show ?thesis by (simp add: h_throw)
  next
    case True
    have "hoare (\<lambda>R a. rotated env R0 p n (next_session s enc) R)
        (catchH (auditOrFail env ev) (\<lambda>e. bindH (st_delete env 4 n) (\<lambda>_. throw e)))
        (\<lambda>_ R a. rotated env R0 p n (next_session s enc) R \<and> (\<exists>b. a = b @ [ev]) \<and> env_accepts env ev) (sub R0)"
    proof (rule h_catch)
      show "hoare (\<lambda>R a. rotated env R0 p n (next_session s enc) R) (auditOrFail env ev)
          (\<lambda>_ R a. rotated env R0 p n (next_session s enc) R \<and> (\<exists>b. a = b @ [ev]) \<and> env_accepts env ev)
          (\<lambda>R a. rotated env R0 p n (next_session s enc) R)"
        by (rule h_weaken [OF h_audit [where P = "\<lambda>R a. rotated env R0 p n (next_session s enc) R"]]) auto
      show "hoare (\<lambda>R a. rotated env R0 p n (next_session s enc) R) (bindH (st_delete env 4 n) (\<lambda>_. throw e))
          (\<lambda>_ R a. rotated env R0 p n (next_session s enc) R \<and> (\<exists>b. a = b @ [ev]) \<and> env_accepts env ev) (sub R0)" for e
        by (rule h_bind [OF h_weaken [OF h_new_delete [OF assms, of R0 n "next_session s enc" 4],
            where Q' = "\<lambda>_. sub R0" and E' = "sub R0"]]) (auto simp: rotated_def intro!: h_throw)
    qed
    then show ?thesis
      using True that 3
      by (auto simp: refreshed_to_def intro!: h_bind h_ret)
  qed
  show ?case
    unfolding option.case Let_def
    by (intro h_if h_throw h_lift_bind h_bind [OF h_rotate [OF assms]] tail) (simp_all add: authenticationAuditEvent_def)
qed

lemma h_refresh:
  assumes "quiet env"
  shows "hoare (sub R0) (refresh env sv c)
    (\<lambda>r R a. \<exists>p. index_of env sv c = Inr p \<and> refreshed_to env sv R0 p r R a) (sub R0)"
proof -
  have body: "hoare (sub R0) (finallyH (refresh_under_lease env sv p initial) (st_release env 5 i owner))
      (\<lambda>r R a. refreshed_to env sv R0 p r R a) (sub R0)" for p initial i owner
  proof (rule h_finally [OF h_refresh_under_lease [OF assms]])
    show "hoare (sub R0) (st_release env 5 i owner) (\<lambda>_. sub R0) (sub R0)"
      unfolding st_release_def by (rule h_shrink [OF assms _ snd_operations(6)]) simp
    have "refreshed_to env sv R0 p x (registry_exec (Release i owner) Up (env_redis_now env 5) R) a"
      if "refreshed_to env sv R0 p x R a" for x R a
      using that rotated_release [of env] unfolding refreshed_to_def by blast
    then show "hoare (\<lambda>R a. refreshed_to env sv R0 p x R a) (st_release env 5 i owner)
        (\<lambda>_ R a. refreshed_to env sv R0 p x R a) (\<lambda>R a. refreshed_to env sv R0 p x R a)" for x
      unfolding st_release_def by (intro h_store [OF assms snd_operations(6)]) auto
  qed
  have acquire: "hoare (sub R0) (st_acquire env 1 i owner ttl) (\<lambda>_. sub R0) (sub R0)" for i owner ttl
    unfolding st_acquire_def by (rule h_shrink [OF assms _ snd_operations(1)]) simp
  have main: "hoare (sub R0) (bindH (st_get env 0 p (idleTtlMs sv) (env_clock env 0)) (\<lambda>found. case found of
       None \<Rightarrow> throw Session_invalid
     | Some initial \<Rightarrow>
         bindH (st_acquire env 1 (ss_id initial) (random_credential env 0) (refreshLeaseTtlMs sv)) (\<lambda>acquired.
         if \<not> acquired then throw Refresh_in_progress
         else finallyH (refresh_under_lease env sv p initial)
                (st_release env 5 (ss_id initial) (random_credential env 0))))) (\<lambda>r R a. refreshed_to env sv R0 p r R a) (sub R0)" for p
  proof (rule h_get_bind [OF assms], goal_cases)
    case 1
    show ?case by (simp add: h_throw)
  next
    case (2 R a)
    then show ?case .
  next
    case (3 s x)
    show ?case unfolding option.case by (intro h_bind [OF acquire] h_if h_throw body)
  qed
  show ?thesis
    unfolding refresh_def
  proof (rule h_lift_bind, goal_cases)
    case (1 p)
    show ?case by (rule h_weaken [OF main]) (simp_all add: 1)
  qed
qed


section \<open>Login\<close>

definition stores_login :: "string \<Rightarrow> store_call \<Rightarrow> bool" where
  "stores_login i call \<longleftrightarrow> (\<exists>tx ttl. call = Store_login i tx ttl)"

lemma login_key_scripts:
  assumes "db (login_key i) = None"
  shows "snd (touch_script (session_key j) idle nowMs k now db) (login_key i) = None"
    "snd (create_script (session_key j) (family_key f) v k ttl now db) (login_key i) = None"
    "snd (delete_script (session_key j) k db) (login_key i) = None"
    "snd (rotate_script (session_key j) (session_key j') revision v ttl k k' now db) (login_key i) = None"
    "snd (revoke_script (family_key f) sid db) (login_key i) = None"
    "snd (release_lease_script (lease_key f) owner db) (login_key i) = None"
    "snd (set_nx (lease_key f) v ttl now db) (login_key i) = None"
    "snd (getdel k' db) (login_key i) = None"
    "j \<noteq> i \<Longrightarrow> snd (set_nx (login_key j) v ttl now db) (login_key i) = None"
  using assms
  by (auto simp: touch_script_def create_script_def delete_script_def rotate_script_def revoke_script_def
      release_lease_script_def set_nx_def getdel_def r_del_def r_set_def r_pexpire_def Let_def key_simps
      split: option.splits redis_value.splits if_splits)

lemma exec_keeps_gone:
  assumes "\<not> stores_login i call" "db (login_key i) = None"
  shows "snd (exec call link now db) (login_key i) = None"
proof (cases "command_of call")
  case (Inl e)
  then show ?thesis using assms(2) by (simp add: exec_def)
next
  case (Inr command)
  have "snd (command now db') (login_key i) = None" if "db' (login_key i) = None" for db'
    using Inr assms(1) that login_key_scripts [of db' i]
    by (cases call) (auto simp: result_simps checked_def stores_login_def)
  moreover have "live now db' (login_key i) = None" if "db' (login_key i) = None" for db'
    using that by (simp add: live_def)
  ultimately show ?thesis
    using assms(2) Inr by (simp add: exec_def snd_send)
qed

lemma run_keeps_gone:
  "\<forall>e \<in> set es. \<not> stores_login i (fst e) \<Longrightarrow> db (login_key i) = None \<Longrightarrow> run es db (login_key i) = None"
  by (induction es db rule: run.induct) (simp_all add: exec_keeps_gone)

text \<open>\<open>GETDEL\<close> leaves the key absent.\<close>

lemma consume_gone:
  assumes "st_consume env n i w = (Inr (Some tx), w')"
  shows "w_db w' (login_key i) = None"
proof -
  let ?db = "run (env_others env n) (w_db w)"
  have w': "w_db w' = snd (exec (Consume_login i) (env_link env n) (env_redis_now env n) ?db)"
    and r: "fst (consumeLoginTransaction (env_bytes env) i (env_link env n) (env_redis_now env n) ?db) = Inr (Some tx)"
    using assms snd_operations(2) [of "env_bytes env" i "env_link env n" "env_redis_now env n" ?db]
    by (auto simp: st_consume_def store_def split: prod.splits)
  from r obtain reply where "fst (exec (Consume_login i) (env_link env n) (env_redis_now env n) ?db) = Inr reply"
    by (auto simp: consumeLoginTransaction_def reading_def result_simps)
  from exec_fst [OF this] obtain c where "env_link env n = Up" "command_of (Consume_login i) = Inr c" by blast
  then have "w_db w' = snd (send Up (env_redis_now env n) (\<lambda>now. getdel (login_key i)) ?db)"
    using w' by (auto simp: exec_def result_simps checked_def)
  also have "\<dots> = snd (getdel (login_key i) (live (env_redis_now env n) ?db))"
    by (subst snd_send) simp
  finally show ?thesis by (auto simp: getdel_def r_get_def r_del_def split: option.splits)
qed

lemma run_append: "run (xs @ ys) db = run ys (run xs db)"
  by (induction xs db rule: run.induct) simp_all

lemma consume_found_present:
  assumes "st_consume env n i w = (Inr (Some tx), w')"
  shows "run (env_others env n) (w_db w) (login_key i) \<noteq> None"
proof
  let ?db = "run (env_others env n) (w_db w)"
  assume "?db (login_key i) = None"
  then have gone: "live (env_redis_now env n) ?db (login_key i) = None" by (simp add: live_def)
  from assms have "fst (consumeLoginTransaction (env_bytes env) i (env_link env n) (env_redis_now env n) ?db) = Inr (Some tx)"
    by (auto simp: st_consume_def store_def split: prod.splits)
  then obtain reply where r: "fst (exec (Consume_login i) (env_link env n) (env_redis_now env n) ?db) = Inr reply"
    and f: "optional_record (parseLoginTransaction (env_bytes env)) reply = Inr (Some tx)"
    by (auto simp: consumeLoginTransaction_def reading_def result_simps)
  from exec_fst [OF r] obtain c where "env_link env n = Up" "command_of (Consume_login i) = Inr c" by blast
  then have "reply = Nil_reply"
    using r gone by (auto simp: exec_def result_simps checked_def getdel_def r_get_def)
  with f show False by (simp add: optional_record_def stringResult_def)
qed

lemma bindH_Inr:
  "fst (bindH m f w) = Inr y \<Longrightarrow> \<exists>x w1. m w = (Inr x, w1) \<and> bindH m f w = f x w1 \<and> fst (f x w1) = Inr y"
  by (auto simp: bindH_def split: prod.splits sum.splits)

lemma completeLogin_ok:
  assumes "fst (completeLogin env sv url w) = Inr r" "env_callbackState env url = Some state"
  shows "\<exists>i tx w1. index_of env sv state = Inr i \<and> st_consume env 0 i w = (Inr (Some tx), w1) \<and>
    completeLogin env sv url w = after_consume env sv url (Some tx) w1"
proof -
  have state: "stateFromCallback env url = Inr state"
    using assms by (auto simp: completeLogin_def stateFromCallback_def throw_def split: if_splits)
  obtain i where i: "index_of env sv state = Inr i"
    using assms(1) state by (cases "index_of env sv state") (auto simp: completeLogin_def bindH_def throw_def)
  have "bindH (ret i) f = f i" for f :: "string \<Rightarrow> (string \<times> string \<times> session_view) handler"
    by (rule ext) (simp add: bindH_def ret_def)
  then have steps: "completeLogin env sv url = bindH (st_consume env 0 i) (after_consume env sv url)"
    by (simp add: completeLogin_def state i)
  from bindH_Inr [OF assms(1) [unfolded steps]] obtain found w1
    where c: "st_consume env 0 i w = (Inr found, w1)" "completeLogin env sv url w = after_consume env sv url found w1"
      "fst (after_consume env sv url found w1) = Inr r"
    unfolding steps by blast
  then show ?thesis using i by (cases found) (auto simp: after_consume_def throw_def)
qed

text \<open>\<open>adds P m\<close>: a handler only adds to the trace, and only events that satisfy \<open>P\<close>.\<close>

definition adds :: "(store_event \<Rightarrow> bool) \<Rightarrow> 'a handler \<Rightarrow> bool" where
  "adds P m \<longleftrightarrow> (\<forall>w. \<exists>es. w_trace (snd (m w)) = w_trace w @ es \<and> list_all P es)"

lemma ad_ret: "adds P (ret x)" and ad_throw: "adds P (throw e)" and ad_lift: "adds P (lift r)"
  and ad_audit: "adds P (auditOrFail env ev)"
  by (simp_all add: adds_def ret_def throw_def lift_def auditOrFail_def)

lemma ad_store:
  "list_all P (env_others env n) \<Longrightarrow> P (call, env_link env n, env_redis_now env n) \<Longrightarrow> adds P (store env n call operation)"
  by (auto simp: adds_def store_def case_prod_beta)

lemma ad_bind:
  assumes "adds P m" "\<And>x. adds P (f x)"
  shows "adds P (bindH m f)"
  unfolding adds_def
proof
  fix w
  obtain r w1 where m: "m w = (r, w1)" by fastforce
  then obtain es where es: "w_trace w1 = w_trace w @ es" "list_all P es" using assms(1) unfolding adds_def by (metis snd_conv)
  show "\<exists>es. w_trace (snd (bindH m f w)) = w_trace w @ es \<and> list_all P es"
  proof (cases r)
    case (Inr v)
    obtain es' where "w_trace (snd (f v w1)) = w_trace w1 @ es'" "list_all P es'"
      using assms(2) [of v] unfolding adds_def by blast
    with es m Inr show ?thesis by (intro exI [of _ "es @ es'"]) (simp add: bindH_def)
  next
    case (Inl v)
    with es m show ?thesis by (intro exI [of _ es]) (simp add: bindH_def)
  qed
qed

lemma ad_catch:
  assumes "adds P m" "\<And>e. adds P (h e)"
  shows "adds P (catchH m h)"
  unfolding adds_def
proof
  fix w
  obtain r w1 where m: "m w = (r, w1)" by fastforce
  then obtain es where es: "w_trace w1 = w_trace w @ es" "list_all P es" using assms(1) unfolding adds_def by (metis snd_conv)
  show "\<exists>es. w_trace (snd (catchH m h w)) = w_trace w @ es \<and> list_all P es"
  proof (cases r)
    case (Inl v)
    obtain es' where "w_trace (snd (h v w1)) = w_trace w1 @ es'" "list_all P es'"
      using assms(2) [of v] unfolding adds_def by blast
    with es m Inl show ?thesis by (intro exI [of _ "es @ es'"]) (simp add: catchH_def)
  next
    case (Inr v)
    with es m show ?thesis by (intro exI [of _ es]) (simp add: catchH_def)
  qed
qed

lemma ad_after_consume:
  assumes "\<And>n. list_all P (env_others env n)" "\<And>call n. \<not> stores_login i call \<Longrightarrow> P (call, env_link env n, env_redis_now env n)"
  shows "adds P (after_consume env sv callbackUrl found)"
proof -
  have create: "adds P (st_create env k j s ttl)" for k j s ttl
    unfolding st_create_def using assms by (intro ad_store) (auto simp: stores_login_def)
  have delete: "adds P (st_delete env k j)" for k j
    unfolding st_delete_def using assms by (intro ad_store) (auto simp: stores_login_def)
  show ?thesis
    unfolding after_consume_def Let_def
    by (cases found) (simp_all only: option.case, auto intro!: ad_bind ad_lift ad_throw ad_ret ad_catch ad_audit create delete)
qed

text \<open>The database and the trace at the moment of the \<open>GETDEL\<close> of a callback that completes.\<close>

lemma completed_consume:
  assumes "completeLogin env sv url w = (Inr r, w')" "env_callbackState env url = Some state"
    "index_of env sv state = Inr i" "w_trace w = []" "prefix (w_trace w') T"
  shows "\<exists>link now. prefix (env_others env 0 @ [(Consume_login i, link, now)]) T
    \<and> run (env_others env 0 @ [(Consume_login i, link, now)]) (w_db w) (login_key i) = None
    \<and> \<not> (run (env_others env 0) (w_db w) (login_key i) = None)"
proof -
  from completeLogin_ok [of env sv url w r state] assms(1-3) obtain tx w1 where
    c: "st_consume env 0 i w = (Inr (Some tx), w1)" and rest: "after_consume env sv url (Some tx) w1 = (Inr r, w')"
    by auto
  define e where "e = (Consume_login i, env_link env 0, env_redis_now env 0)"
  from c have w1: "w_trace w1 = env_others env 0 @ [e]" "w_db w1 = run (env_others env 0 @ [e]) (w_db w)"
    using assms(4) snd_operations(2) [of "env_bytes env" i "env_link env 0" "env_redis_now env 0" "run (env_others env 0) (w_db w)"]
    by (auto simp: st_consume_def store_def e_def run_append split: prod.splits)
  have "adds (\<lambda>_. True) (after_consume env sv url (Some tx))"
    by (rule ad_after_consume) (simp_all add: list_all_iff)
  with rest have "prefix (w_trace w1) (w_trace w')" unfolding adds_def by (metis prefixI snd_conv)
  then have "prefix (env_others env 0 @ [e]) T" using w1(1) assms(5) prefix_order.trans by metis
  moreover have "run (env_others env 0 @ [e]) (w_db w) (login_key i) = None"
    using consume_gone [OF c] w1(2) by simp
  moreover have "run (env_others env 0) (w_db w) (login_key i) \<noteq> None"
    using consume_found_present [OF c] .
  ultimately show ?thesis unfolding e_def by blast
qed

lemma earlier_consume_excludes:
  assumes "\<forall>e \<in> set T. \<not> stores_login i (fst e)" "length xs < length ys"
    and "prefix (xs @ [e]) T" "run (xs @ [e]) db (login_key i) = None"
    and "prefix (ys @ [e']) T" "run ys db (login_key i) \<noteq> None"
  shows False
proof -
  have "prefix ys T" using assms(5) by (meson append_prefixD)
  with assms(2,3) obtain zs where ys: "ys = (xs @ [e]) @ zs"
    by (metis prefix_length_prefix prefixE length_append_singleton Suc_leI)
  have "set zs \<subseteq> set T" using set_mono_prefix [OF \<open>prefix ys T\<close>] by (auto simp: ys)
  then have "run zs (run (xs @ [e]) db) (login_key i) = None"
    using assms(1) by (intro run_keeps_gone [where es = zs and db = "run (xs @ [e]) db", OF _ assms(4)]) auto
  moreover have "run ys db = run zs (run (xs @ [e]) db)" unfolding ys by (rule run_append)
  ultimately show False using assms(6) by simp
qed

text \<open>
  Property C30. A login completes at most once, also when callbacks overlap: take two calls of
  \<open>completeLogin\<close> for one state that both complete, interleaved with each other and with anything else
  in one sequence \<open>T\<close> of store calls that does not store that random state again. Then their reads of the
  transaction are at one position of the sequence: they are the same call.
\<close>

theorem a_login_completes_once:
  assumes "completeLogin env sv url w = (Inr r, w1)" and "completeLogin env' sv url' w = (Inr r', w2)"
    and "w_trace w = []" and "prefix (w_trace w1) T" and "prefix (w_trace w2) T"
    and "env_callbackState env url = Some state" and "env_callbackState env' url' = Some state"
    and "env_crypto env' = env_crypto env" and "index_of env sv state = Inr i"
    and "\<forall>e \<in> set T. \<not> stores_login i (fst e)"
  shows "length (env_others env 0) = length (env_others env' 0)"
proof -
  have "index_of env' sv state = Inr i" using assms(8,9) by (simp add: index_of_def)
  from completed_consume [OF assms(2,7) this assms(3,5)] obtain l' t' where
    b: "prefix (env_others env' 0 @ [(Consume_login i, l', t')]) T"
      "run (env_others env' 0 @ [(Consume_login i, l', t')]) (w_db w) (login_key i) = None"
      "run (env_others env' 0) (w_db w) (login_key i) \<noteq> None" by blast
  from completed_consume [OF assms(1,6,9,3,4)] obtain l t where
    a: "prefix (env_others env 0 @ [(Consume_login i, l, t)]) T"
      "run (env_others env 0 @ [(Consume_login i, l, t)]) (w_db w) (login_key i) = None"
      "run (env_others env 0) (w_db w) (login_key i) \<noteq> None" by blast
  show ?thesis
    using earlier_consume_excludes [OF assms(10) _ a(1,2) b(1,3)] earlier_consume_excludes [OF assms(10) _ b(1,2) a(1,3)]
    by (meson linorder_neqE_nat)
qed

lemma h_create:
  assumes "quiet env"
  shows "hoare (sub R0) (st_create env k n s ttl) (\<lambda>_ R a. only_new R0 n s R) (sub R0)"
  unfolding st_create_def
proof (rule h_store [OF assms snd_operations(3)])
  fix t :: int and db R u and a :: "session_audit list"
  assume R: "subregistry R0 R" and ok: "fst (createSession n s ttl Up t db) = Inr u"
  from ok obtain reply where "fst (exec (Create n s ttl) Up t db) = Inr reply"
    by (auto simp: createSession_def reading_def result_simps)
  from exec_fst [OF this] have n: "rx_test CREDENTIAL n" by (auto simp: result_simps checked_def)
  have "\<exists>y. R0 i = Some (s', y)" if "registry_exec (Create n s ttl) Up t R i = Some (s', x)" "i \<noteq> n" for i s' x
    using that R by (auto simp: registry_exec_def subregistry_def registry_live_Some split: sum.splits if_splits)
  moreover have "s' = s \<or> (\<exists>y. R0 n = Some (s', y))" if "registry_exec (Create n s ttl) Up t R n = Some (s', x)" for s' x
    using that R by (auto simp: registry_exec_def subregistry_def registry_live_Some split: sum.splits if_splits)
  ultimately show "only_new R0 n s (registry_exec (Create n s ttl) Up t R)"
    using n unfolding only_new_def by metis
next
  fix t :: int and db R e and a :: "session_audit list"
  assume R: "represents db R" "subregistry R0 R" and e: "fst (createSession n s ttl Up t db) = Inl e"
  have "registry_exec (Create n s ttl) Up t R = R \<or> registry_exec (Create n s ttl) Up t R = registry_live t R"
  proof (cases "command_of (Create n s ttl)")
    case (Inr c)
    define reply where "reply = fst (registry_step (Create n s ttl) t (registry_live t R))"
    have "fst (exec (Create n s ttl) Up t db) = Inr reply"
      using exec_reply [OF R(1) Inr, of t] unfolding reply_def by (simp del: registry_step.simps command_of.simps)
    with e have "reply \<noteq> Int_reply 1"
      by (auto simp: createSession_def reading_def commandSucceeded_def)
    then have "snd (registry_step (Create n s ttl) t (registry_live t R)) = registry_live t R"
      unfolding reply_def by (auto split: if_splits)
    then show ?thesis using Inr by (simp add: registry_exec_def del: command_of.simps registry_step.simps)
  qed (simp add: registry_exec_def)
  then show "subregistry R0 (registry_exec (Create n s ttl) Up t R)"
    using R(2) subregistry_trans [OF R(2) subregistry_live] by auto
qed

text \<open>What a completed login that returns \<open>(credential, target, view)\<close> has done.\<close>

definition logged_in :: "session_env \<Rightarrow> session_service \<Rightarrow> registry \<Rightarrow> string \<times> string \<times> session_view \<Rightarrow> assertion" where
  "logged_in env sv R0 result R a \<longleftrightarrow> (\<exists>n s. index_of env sv (fst result) = Inr n \<and> only_new R0 n s R \<and>
     ss_revision s = 0 \<and> ss_absoluteExpiresAtMs s = env_clock env 0 + absoluteTtlMs sv \<and>
     snd (snd result) = sessionView s \<and>
     (\<exists>ev \<in> set a. env_accepts env ev \<and> sau_action ev = Login_completed \<and> sau_sessionReference ev = Some (ss_id s)))"

lemma h_after_consume:
  assumes "quiet env"
  shows "hoare (sub R0) (after_consume env sv url found) (\<lambda>r R a. logged_in env sv R0 r R a) (sub R0)"
proof (cases found)
  case (Some tx)
  have audit: "hoare (\<lambda>R a. only_new R0 n s R)
      (catchH (auditOrFail env ev) (\<lambda>e. bindH (st_delete env k n) (\<lambda>_. throw e)))
      (\<lambda>_ R a. only_new R0 n s R \<and> (\<exists>b. a = b @ [ev]) \<and> env_accepts env ev) (sub R0)" for n s ev k
  proof (rule h_catch)
    show "hoare (\<lambda>R a. only_new R0 n s R) (auditOrFail env ev)
        (\<lambda>_ R a. only_new R0 n s R \<and> (\<exists>b. a = b @ [ev]) \<and> env_accepts env ev) (\<lambda>R a. only_new R0 n s R)"
      by (rule h_weaken [OF h_audit [where P = "\<lambda>R a. only_new R0 n s R"]]) auto
    show "hoare (\<lambda>R a. only_new R0 n s R) (bindH (st_delete env k n) (\<lambda>_. throw e))
        (\<lambda>_ R a. only_new R0 n s R \<and> (\<exists>b. a = b @ [ev]) \<and> env_accepts env ev) (sub R0)" for e
      by (rule h_bind [OF h_new_delete [OF assms]]) (simp add: h_throw)
  qed
  have tail: "hoare (\<lambda>R a. only_new R0 n s R)
      (bindH (catchH (auditOrFail env ev) (\<lambda>e. bindH (st_delete env k n) (\<lambda>_. throw e))) (\<lambda>_. ret (c, target, sessionView s)))
      (\<lambda>r R a. logged_in env sv R0 r R a) (sub R0)"
    if "index_of env sv c = Inr n" "ss_revision s = 0" "ss_absoluteExpiresAtMs s = env_clock env 0 + absoluteTtlMs sv"
      "sau_action ev = Login_completed" "sau_sessionReference ev = Some (ss_id s)" for n s ev k c target
  proof (rule h_bind [OF audit], rule h_ret)
    fix R a
    assume "only_new R0 n s R \<and> (\<exists>b. a = b @ [ev]) \<and> env_accepts env ev"
    then have "only_new R0 n s R" "ev \<in> set a" "env_accepts env ev" by auto
    with that show "logged_in env sv R0 (c, target, sessionView s) R a"
      unfolding logged_in_def fst_conv snd_conv by blast
  qed
  show ?thesis
    unfolding after_consume_def Some option.case Let_def
    by (intro h_lift_bind h_bind [OF h_create [OF assms]] tail) (simp_all add: authenticationAuditEvent_def new_session_def)
qed (simp add: after_consume_def h_throw)

text \<open>
  A login is audited or undone. Without interference, a completed login adds one session, with
  revision 0 and the absolute lifetime, under the credential it returns, after an audit event of that
  session was accepted; a login that fails, also because of the audit, adds no session.
\<close>

theorem login_is_audited_or_undone:
  assumes "quiet env" "represents (w_db w) R" "completeLogin env sv url w = (r, w')"
  shows "\<exists>R'. represents (w_db w') R' \<and> (case r of
     Inr result \<Rightarrow> logged_in env sv R result R' (w_audits w') | Inl e \<Rightarrow> subregistry R R')"
proof -
  have consume: "hoare (sub R) (st_consume env 0 i) (\<lambda>_. sub R) (sub R)" for i
    unfolding st_consume_def by (rule h_shrink [OF assms(1) _ snd_operations(2)]) simp
  have index: "hoare (sub R) (case x of Inl _ \<Rightarrow> throw Callback_invalid | Inr i \<Rightarrow> ret i) (\<lambda>_. sub R) (sub R)" for x :: "session_failure + string"
    by (cases x) (simp_all add: h_throw h_ret)
  have "hoare (sub R) (completeLogin env sv url) (\<lambda>r R' a. logged_in env sv R r R' a) (sub R)"
    unfolding completeLogin_def
    by (intro h_lift_bind h_bind [OF index] h_bind [OF consume] h_after_consume assms(1)) simp_all
  then show ?thesis
    using assms(2,3) unfolding hoare_def by (fastforce split: sum.splits)
qed

section \<open>A concrete service\<close>

definition witness_transaction :: login_transaction where
  "witness_transaction = \<lparr>codeVerifier = ''v'', lt_nonce = ''n'', returnTo = ''/home'', lt_state = witness_reference\<rparr>"

definition session_witness_env :: session_env where
  "session_witness_env = \<lparr>env_crypto = witness_crypto, env_sha256 = (\<lambda>_. replicate 32 0), env_bytes = (\<lambda>_. 0),
     env_link = (\<lambda>_. Up), env_redis_now = (\<lambda>_. 10), env_others = (\<lambda>_. []), env_clock = (\<lambda>_. 10),
     env_random = (\<lambda>n. if n = 3 then replicate 12 0 else replicate 32 (of_nat n)), env_verify = (\<lambda>_. Inr ''user''),
     env_accepts = (\<lambda>_. True), env_beginLogin = (\<lambda>_. Inr (''url'', witness_transaction)),
     env_callbackState = (\<lambda>_. Some witness_reference),
     env_exchange = (\<lambda>_ _. Inr \<lparr>tr_authenticatedAtMs = 0, tr_expiresInSeconds = 60, tr_tokens = witness_tokens\<rparr>),
     env_refresh = (\<lambda>_. Inr \<lparr>tr_authenticatedAtMs = 0, tr_expiresInSeconds = 60, tr_tokens = witness_tokens\<rparr>),
     env_endSessionUrl = None, env_trace = []\<rparr>"

definition witness_service :: session_service where
  "witness_service = \<lparr>sv_keys = \<lparr>kr_decryptionKeys = [witness_key], kr_encryptionKey = witness_key,
       kr_indexingKey = replicate 32 9\<rparr>, loginTtlMs = 1000, idleTtlMs = 1000, absoluteTtlMs = 5000, refreshLeaseTtlMs = 1000\<rparr>"

definition witness_world :: world where
  "witness_world = \<lparr>w_db = run witness_created Map.empty, w_trace = [], w_audits = []\<rparr>"

definition witness_state_index :: string where
  "witness_state_index = b64_encode (take 32 (text_bytes witness_reference @ replicate 32 0))"

definition login_world :: world where
  "login_world = \<lparr>w_db = [login_key witness_state_index \<mapsto> \<lparr>entry_value = Json (login_value witness_transaction), entry_expires = 100\<rparr>],
     w_trace = [], w_audits = []\<rparr>"

lemma witness_quiet: "quiet session_witness_env"
  by (simp add: quiet_def session_witness_env_def)

lemma witness_represents: "represents (w_db witness_world) [witness_index \<mapsto> (witness_session, 1000)]"
  using represents_created by (simp add: witness_world_def)

theorem login_is_audited_or_undone_witness:
  "\<exists>R'. represents (w_db (snd (completeLogin session_witness_env witness_service [] witness_world))) R' \<and>
    (case fst (completeLogin session_witness_env witness_service [] witness_world) of
       Inr result \<Rightarrow> logged_in session_witness_env witness_service [witness_index \<mapsto> (witness_session, 1000)] result R'
         (w_audits (snd (completeLogin session_witness_env witness_service [] witness_world)))
     | Inl e \<Rightarrow> subregistry [witness_index \<mapsto> (witness_session, 1000)] R')"
  by (rule login_is_audited_or_undone [OF witness_quiet witness_represents]) simp

lemma hmac_length: "length (take 32 (text_bytes s @ replicate 32 (0 :: byte))) = 32"
  by (simp add: min_def)

lemma witness_index_of:
  "rx_test CREDENTIAL c \<Longrightarrow> \<exists>i. index_of session_witness_env witness_service c = Inr i \<and> rx_test CREDENTIAL i"
  using fresh_credential_valid [OF hmac_length, of c]
  by (simp add: index_of_def createSessionIndex_def validateCredential_def session_witness_env_def witness_service_def
      witness_crypto_def createOpaqueCredential_def)

lemma witness_random: "n \<noteq> 3 \<Longrightarrow> rx_test CREDENTIAL (random_credential session_witness_env n)"
  by (simp add: random_credential_def fresh_credential_valid session_witness_env_def)

lemma witness_state: "index_of session_witness_env witness_service witness_reference = Inr witness_state_index"
    "rx_test CREDENTIAL witness_state_index"
  using fresh_credential_valid [OF hmac_length, of witness_reference]
  by (simp_all add: index_of_def createSessionIndex_def validateCredential_def session_witness_env_def witness_service_def
      witness_crypto_def createOpaqueCredential_def witness_state_index_def)

lemma witness_consumed:
  "\<exists>w1. st_consume session_witness_env 0 witness_state_index login_world = (Inr (Some witness_transaction), w1) \<and> w_db w1 = Map.empty"
proof -
  have "live 10 (w_db login_world) = w_db login_world"
    by (auto simp: live_def login_world_def)
  moreover have "parseLoginTransaction (\<lambda>_. 0) (Json (login_value witness_transaction)) = Inr witness_transaction"
    by (simp add: parseLoginTransaction_def parseJson_def login_value_def witness_transaction_def)
  moreover have "getdel (login_key witness_state_index) (w_db login_world) =
      (Bulk (Json (login_value witness_transaction)), Map.empty)"
    by (simp add: getdel_def r_get_def r_del_def login_world_def)
  ultimately show ?thesis
    using witness_state(2)
    by (simp add: st_consume_def store_def consumeLoginTransaction_def reading_def exec_def checked_def
        optional_record_def stringResult_def session_witness_env_def)
qed

lemma witness_login: "\<exists>r. fst (completeLogin session_witness_env witness_service [] login_world) = Inr r"
proof -
  obtain w1 where c: "st_consume session_witness_env 0 witness_state_index login_world = (Inr (Some witness_transaction), w1)"
    and w1: "w_db w1 = Map.empty" using witness_consumed by blast
  obtain n where n: "index_of session_witness_env witness_service (random_credential session_witness_env 0) = Inr n" "rx_test CREDENTIAL n"
    using witness_index_of [OF witness_random [of 0]] by auto
  obtain enc where enc: "encryptSessionTokens witness_crypto (env_random session_witness_env 3) witness_tokens witness_key
      (random_credential session_witness_env 1) = Inr enc"
    using witness_random [of 1]
    by (simp add: encryptSessionTokens_def validateEncryptionKey_def validateCredential_def witness_key_valid
        validateToken_def witness_tokens_def witness_crypto_def tokens_value_def text_bytes_def Let_def)
  have "fst (st_create session_witness_env 1 n s 1000 w1) = Inr ()" if "rx_test CREDENTIAL (ss_id s)" for s
    using that n(2) w1
    by (simp add: st_create_def store_def createSession_def reading_def exec_def checked_def positiveMilliseconds_def
        create_script_def live_def commandSucceeded_def session_witness_env_def)
  note created = this
  define s where "s = new_session session_witness_env witness_service
      \<lparr>tr_authenticatedAtMs = 0, tr_expiresInSeconds = 60, tr_tokens = witness_tokens\<rparr> enc"
  have "rx_test CREDENTIAL (ss_id s)" using witness_random [of 1] by (simp add: s_def new_session_def)
  from created [OF this] obtain w2 where w2: "st_create session_witness_env 1 n s 1000 w1 = (Inr (), w2)"
    by (cases "st_create session_witness_env 1 n s 1000 w1") auto
  have "fst (after_consume session_witness_env witness_service [] (Some witness_transaction) w1) =
      Inr (random_credential session_witness_env 0, returnTo witness_transaction, sessionView s)"
    using enc n(1) w2 unfolding s_def
    by (simp add: after_consume_def bindH_def lift_def ret_def verifyIssuedAccessToken_def catchH_def auditOrFail_def
        Let_def session_witness_env_def witness_service_def)
  moreover have "stateFromCallback session_witness_env [] = Inr witness_reference"
    by (simp add: stateFromCallback_def session_witness_env_def witness_reference_def)
  ultimately show ?thesis
    using c witness_state(1) by (simp add: completeLogin_def bindH_def ret_def)
qed

text \<open>A session whose tokens decrypt, held at the index of its credential with \<open>l\<close> as the lease.\<close>

definition refresh_tokens :: encrypted_tokens where
  "refresh_tokens = (case encryptSessionTokens witness_crypto (replicate 12 0) witness_tokens witness_key witness_reference of
     Inr e \<Rightarrow> e)"

definition refresh_session :: stored_session where
  "refresh_session = witness_session\<lparr>ss_tokens := refresh_tokens\<rparr>"

definition held :: "int \<Rightarrow> redis_entry option \<Rightarrow> redis_db" where
  "held x l = (\<lambda>k. if k = session_key witness_state_index
       then Some \<lparr>entry_value = Json (session_value refresh_session), entry_expires = x\<rparr>
     else if k = family_key witness_reference then Some \<lparr>entry_value = Text witness_state_index, entry_expires = x\<rparr>
     else if k = lease_key witness_reference then l else None)"

lemma refresh_session_simps [simp]:
  "ss_id refresh_session = witness_reference" "ss_revision refresh_session = 0" "ss_absoluteExpiresAtMs refresh_session = 5000"
  "ss_csrfToken refresh_session = witness_reference" "ss_tokens refresh_session = refresh_tokens"
  by (simp_all add: refresh_session_def witness_session_def)

lemma refresh_tokens_open:
  "decryptSessionTokens witness_crypto (encrypted_value refresh_tokens) [witness_key] witness_reference = Inr witness_tokens"
  using session_tokens_round_trip_witness by (auto simp: refresh_tokens_def)

lemma refresh_tokens_version: "et_version refresh_tokens = 2"
proof -
  obtain e where e: "encryptSessionTokens witness_crypto (replicate 12 0) witness_tokens witness_key witness_reference = Inr e"
    using session_tokens_round_trip_witness by blast
  then have "et_version e = 2"
    by (auto simp: encryptSessionTokens_def Let_def result_simps split: if_splits prod.splits)
  with e show ?thesis by (simp add: refresh_tokens_def)
qed

lemma parse_refresh_session:
  "parseStoredSession (\<lambda>_. 0) (Json (session_value refresh_session)) = Inr refresh_session"
proof -
  have "parse_encrypted (encrypted_value refresh_tokens) = Some refresh_tokens"
    by (simp add: parse_encrypted_def encrypted_value_def envelope_version_def refresh_tokens_version)
  then show ?thesis
    by (simp add: parseStoredSession_def parseJson_def session_value_def refresh_session_def witness_session_def
        safeInteger_def js_int_def safe_int_def int_val_def max_safe_def)
qed

lemma held_live: "10 < x \<Longrightarrow> opt_all (\<lambda>e. 10 < entry_expires e) l \<Longrightarrow> live 10 (held x l) = held x l"
  by (rule ext) (auto simp: live_def held_def split: option.splits)

lemma held_simps [simp]:
  "held x l (session_key i) = (if i = witness_state_index
     then Some \<lparr>entry_value = Json (session_value refresh_session), entry_expires = x\<rparr> else None)"
  "held x l (family_key f) = (if f = witness_reference
     then Some \<lparr>entry_value = Text witness_state_index, entry_expires = x\<rparr> else None)"
  "held x l (lease_key f) = (if f = witness_reference then l else None)"
  by (simp_all add: held_def) (simp add: lease_key_def)

lemma witness_env_simps [simp]:
  "env_link session_witness_env n = Up" "env_redis_now session_witness_env n = 10" "env_others session_witness_env n = []"
  "env_bytes session_witness_env = (\<lambda>_. 0)" "env_clock session_witness_env n = 10"
  by (simp_all add: session_witness_env_def)

lemma get_step:
  assumes "w_db w = held x l" "10 < x" "opt_all (\<lambda>e. 10 < entry_expires e) l"
  shows "\<exists>w'. st_get session_witness_env n witness_state_index 1000 10 w = (Inr (Some refresh_session), w') \<and> w_db w' = held 1010 l"
proof -
  have "(r_pexpire 10 (family_key witness_reference) 1000 (r_pexpire 10 (session_key witness_state_index) 1000 (held x l))) = held 1010 l"
    by (rule ext) (auto simp: r_pexpire_def held_def)
  moreover have "int_val (Num (min (of_int 1000) (of_int 5000 - of_int 10))) = Some 1000"
    using int_val_Num_of_int [of 1000] by simp
  ultimately show ?thesis
    using held_live [OF assms(2,3)] witness_state(2) parse_refresh_session
    by (simp add: st_get_def store_def getSession_def reading_def exec_def checked_def positiveMilliseconds_def max_safe_def
        touch_script_def r_get_def assms(1) optional_record_def stringResult_def Let_def)
qed

lemma acquire_step:
  assumes "w_db w = held 1010 None" "rx_test CREDENTIAL owner"
  shows "\<exists>w'. st_acquire session_witness_env n witness_reference owner 1000 w = (Inr True, w')
    \<and> w_db w' = held 1010 (Some \<lparr>entry_value = Text owner, entry_expires = 1010\<rparr>)"
proof -
  have "(held 1010 None)(lease_key witness_reference \<mapsto> \<lparr>entry_value = Text owner, entry_expires = 1010\<rparr>)
      = held 1010 (Some \<lparr>entry_value = Text owner, entry_expires = 1010\<rparr>)"
    by (rule ext) (auto simp: held_def)
  then show ?thesis
    using held_live [of 1010 None] assms witness_credentials(3)
    by (simp add: st_acquire_def store_def acquireRefreshLease_def reading_def exec_def checked_def positiveMilliseconds_def
        set_nx_def r_set_def)
qed

lemma rotate_step:
  assumes "w_db w = held 1010 l" "opt_all (\<lambda>e. 10 < entry_expires e) l" "rx_test CREDENTIAL i" "i \<noteq> witness_state_index"
  shows "\<exists>w'. st_rotate session_witness_env n witness_state_index i 0 (next_session refresh_session enc) 1000 w = (Inr True, w')"
  using held_live [of 1010 l] assms witness_state(2)
  by (simp add: st_rotate_def store_def rotateSession_def reading_def exec_def checked_def positiveMilliseconds_def
      max_safe_def rotate_script_def r_get_def next_session_def)

definition refresh_world :: world where
  "refresh_world = \<lparr>w_db = held 1000 None, w_trace = [], w_audits = []\<rparr>"

lemma refresh_represents: "represents (w_db refresh_world) [witness_state_index \<mapsto> (refresh_session, 1000)]"
  by (auto simp: represents_def refresh_world_def)

lemma witness_refresh: "\<exists>r. fst (refresh session_witness_env witness_service witness_reference refresh_world) = Inr r"
proof -
  let ?env = session_witness_env and ?s = refresh_session
  obtain w1 where w1: "st_get ?env 0 witness_state_index 1000 10 refresh_world = (Inr (Some ?s), w1)" "w_db w1 = held 1010 None"
    using get_step [of refresh_world 1000 None 0] by (auto simp: refresh_world_def)
  obtain w2 where w2: "st_acquire ?env 1 witness_reference (random_credential ?env 0) 1000 w1 = (Inr True, w2)"
    "w_db w2 = held 1010 (Some \<lparr>entry_value = Text (random_credential ?env 0), entry_expires = 1010\<rparr>)"
    using acquire_step [OF w1(2) witness_random [of 0], of 1] by auto
  obtain w3 where w3: "st_get ?env 2 witness_state_index 1000 10 w2 = (Inr (Some ?s), w3)"
    "w_db w3 = held 1010 (Some \<lparr>entry_value = Text (random_credential ?env 0), entry_expires = 1010\<rparr>)"
    using get_step [OF w2(2), of 2] by auto
  obtain n where n: "index_of ?env witness_service (random_credential ?env 1) = Inr n" "rx_test CREDENTIAL n"
    using witness_index_of [OF witness_random [of 1]] by auto
  obtain enc where enc: "encryptSessionTokens witness_crypto (env_random ?env 2) witness_tokens witness_key witness_reference = Inr enc"
    using witness_credentials(3)
    by (simp add: encryptSessionTokens_def validateEncryptionKey_def validateCredential_def witness_key_valid
        validateToken_def witness_tokens_def witness_crypto_def tokens_value_def text_bytes_def Let_def)
  have "index_of ?env witness_service (random_credential ?env 1) \<noteq> Inr witness_state_index" by code_simp
  with n(1) have "n \<noteq> witness_state_index" by simp
  then obtain w4 where w4: "st_rotate ?env 3 witness_state_index n 0 (next_session ?s enc) 1000 w3 = (Inr True, w4)"
    using rotate_step [OF w3(2) _ n(2), of 3 enc] by auto
  have body: "fst (refresh_under_lease ?env witness_service witness_state_index ?s w2) =
      Inr (random_credential ?env 1, sessionView (next_session ?s enc))"
    using w3(1) refresh_tokens_open n(1) enc w4
    by (simp add: refresh_under_lease_def bindH_def lift_def ret_def verifyIssuedAccessToken_def catchH_def auditOrFail_def
        remainingSessionTtl_def next_session_def Let_def session_witness_env_def witness_service_def)
  show ?thesis
    using w1(1) w2(1) body witness_state(1)
    by (simp add: refresh_def bindH_def lift_def finallyH_def case_prod_beta witness_service_def)
qed


text \<open>A callback that overlaps the first one and asks for the transaction after it does not complete.\<close>

definition overlapping_env :: "store_event list \<Rightarrow> session_env" where
  "overlapping_env es = session_witness_env\<lparr>env_others := (\<lambda>n. if n = 0 then es else [])\<rparr>"

lemma overlapping_login:
  "fst (completeLogin (overlapping_env [(Consume_login witness_state_index, Up, 10)]) witness_service url login_world)
     = Inl Callback_invalid"
proof -
  let ?env = "overlapping_env [(Consume_login witness_state_index, Up, 10)]"
  have index: "index_of ?env witness_service c = index_of session_witness_env witness_service c" for c
    by (simp add: index_of_def overlapping_env_def)
  have state: "stateFromCallback ?env url = Inr witness_reference"
    by (simp add: stateFromCallback_def overlapping_env_def session_witness_env_def witness_reference_def)
  obtain w0 where w0: "st_consume session_witness_env 0 witness_state_index login_world = (Inr (Some witness_transaction), w0)"
    using witness_consumed by blast
  have "run (env_others ?env 0) (w_db login_world) (login_key witness_state_index) = None"
    using consume_gone [OF w0] w0 snd_operations(2) [of "\<lambda>_. 0" witness_state_index Up 10 "w_db login_world"]
    by (auto simp: overlapping_env_def st_consume_def store_def split: prod.splits)
  then have gone: "getdel (login_key witness_state_index) (live 10 (run (env_others ?env 0) (w_db login_world)))
      = (Nil_reply, live 10 (run (env_others ?env 0) (w_db login_world)))"
    by (simp add: live_def getdel_def r_get_def)
  have env: "env_link ?env 0 = Up" "env_redis_now ?env 0 = 10" "env_bytes ?env = (\<lambda>_. 0)"
    by (simp_all add: overlapping_env_def)
  have "fst (st_consume ?env 0 witness_state_index login_world) = Inr None"
    using witness_state(2)
    by (simp add: st_consume_def store_def consumeLoginTransaction_def reading_def exec_def checked_def gone env
        optional_record_def stringResult_def)
  then show ?thesis
    using witness_state(1)
    by (cases "st_consume ?env 0 witness_state_index login_world")
      (simp add: completeLogin_def state index bindH_def lift_def ret_def after_consume_def throw_def)
qed

theorem a_login_completes_once_witness:
  "\<exists>r w1. completeLogin session_witness_env witness_service [] login_world = (Inr r, w1)
    \<and> length (env_others session_witness_env 0) = length (env_others session_witness_env 0)
    \<and> fst (completeLogin (overlapping_env (take 1 (w_trace w1))) witness_service ''again'' login_world) = Inl Callback_invalid"
proof -
  let ?env = session_witness_env
  obtain r w1 where r: "completeLogin ?env witness_service [] login_world = (Inr r, w1)"
    using witness_login by (metis prod.collapse)
  have state: "env_callbackState ?env [] = Some witness_reference" by (simp add: session_witness_env_def)
  obtain w0 where w0: "st_consume ?env 0 witness_state_index login_world = (Inr (Some witness_transaction), w0)"
    using witness_consumed by blast
  with completeLogin_ok [of ?env witness_service "[]" login_world r witness_reference] r state witness_state(1)
  have rest: "after_consume ?env witness_service [] (Some witness_transaction) w0 = (Inr r, w1)" by auto
  have w0t: "w_trace w0 = [(Consume_login witness_state_index, Up, 10)]"
    using w0 by (auto simp: st_consume_def store_def login_world_def split: prod.splits)
  have "adds (\<lambda>e. \<not> stores_login witness_state_index (fst e)) (after_consume ?env witness_service [] (Some witness_transaction))"
    by (rule ad_after_consume) simp_all
  with rest w0t obtain es where t: "w_trace w1 = (Consume_login witness_state_index, Up, 10) # es"
    "list_all (\<lambda>e. \<not> stores_login witness_state_index (fst e)) es"
    unfolding adds_def by (metis append_Cons append_Nil snd_conv)
  then have "\<forall>e \<in> set (w_trace w1). \<not> stores_login witness_state_index (fst e)"
    by (auto simp: list_all_iff stores_login_def)
  from a_login_completes_once [OF r r _ _ _ state state refl witness_state(1) this]
  have "length (env_others ?env 0) = length (env_others ?env 0)" by (simp add: login_world_def)
  moreover have "take 1 (w_trace w1) = [(Consume_login witness_state_index, Up, 10)]" using t(1) by simp
  ultimately show ?thesis
    using r overlapping_login [of "''again''"] by (intro exI [of _ r] exI [of _ w1] conjI) simp_all
qed

end
