(* ===== verification/Session_Http.thy ===== *)
theory Session_Http
  imports Session_Service
begin

text \<open>
  \<open>apps/api/src/auth/http-adapter.ts\<close>: the session service behind HTTP. An operation yields a response and
  the world after it; \<open>logout\<close> and \<open>refresh\<close> make two service calls, each with its own environment, and
  check the browser's evidence in between.
\<close>

record auth_response =
  http_status :: nat
  http_headers :: "(string \<times> string) list"
  http_body :: "jval option"

record browser_context =
  bc_cookie :: "string option"
  bc_csrfToken :: "string option"
  bc_origin :: "string option"
  bc_referer :: "string option"

record http_options =
  ho_allowedOrigins :: "string list"
  ho_cookieMaxAgeSeconds :: jnum

text \<open>\<open>errorMappings\<close>: the contract's code and the status of a failure.\<close>

fun error_mapping :: "session_failure \<Rightarrow> string \<times> nat" where
  "error_mapping Callback_invalid = (''authentication_callback_invalid'', 400)"
| "error_mapping Csrf_rejected = (''authentication_csrf_rejected'', 403)"
| "error_mapping Dependency_unavailable = (''authentication_dependency_unavailable'', 503)"
| "error_mapping Refresh_in_progress = (''authentication_refresh_in_progress'', 409)"
| "error_mapping Refresh_rejected = (''authentication_required'', 401)"
| "error_mapping Session_invalid = (''authentication_required'', 401)"

definition safe_messages :: "(string \<times> string) list" where
  "safe_messages =
     [(''authentication_callback_invalid'', ''The authentication callback is invalid or expired.''),
      (''authentication_csrf_rejected'', ''The browser request failed security validation.''),
      (''authentication_dependency_unavailable'', ''Authentication is temporarily unavailable.''),
      (''authentication_refresh_in_progress'', ''The authentication session is already being refreshed.''),
      (''authentication_required'', ''Authentication is required.'')]"

definition noStoreHeaders :: "(string \<times> string) list \<Rightarrow> (string \<times> string) list" where
  "noStoreHeaders additional = [(''Cache-Control'', ''no-store''), (''Referrer-Policy'', ''no-referrer'')] @ additional"

definition errorResponse :: "session_failure \<Rightarrow> auth_response" where
  "errorResponse e = (case error_mapping e of (code, status) \<Rightarrow>
     \<lparr>http_status = status, http_headers = noStoreHeaders [],
      http_body = Some (JObj [(''code'', JStr code),
        (''message'', JStr (case map_of safe_messages code of Some m \<Rightarrow> m | None \<Rightarrow> ''Authentication failed.''))])\<rparr>)"

definition sessionBody :: "session_view \<Rightarrow> jval" where
  "sessionBody v = JObj [(''authenticatedAt'', JStr (view_authenticatedAt v)), (''client'', JStr ''pc-web''),
     (''csrfToken'', JStr (view_csrfToken v)), (''expiresAt'', JStr (view_expiresAt v))]"

text \<open>\<open>cookieHeader.split(";")\<close>\<close>

fun split_semicolon :: "string \<Rightarrow> string list" where
  "split_semicolon [] = [[]]"
| "split_semicolon (c # cs) =
     (if c = CHR '';'' then [] # split_semicolon cs
      else case split_semicolon cs of (p # ps) \<Rightarrow> (c # p) # ps | [] \<Rightarrow> [[c]])"

definition session_cookie_value :: "string \<Rightarrow> string option" where
  "session_cookie_value part =
     (let name = takeWhile (\<lambda>c. c \<noteq> CHR ''='') part
      in if name \<noteq> ''__Host-ai_crm_pc_session'' \<or> name = part then None
         else Some (drop (length name + 1) part))"

definition parsePcSessionCredential :: "string option \<Rightarrow> session_failure + string option" where
  "parsePcSessionCredential cookieHeader = (case cookieHeader of
     None \<Rightarrow> Inr None
   | Some h \<Rightarrow>
       if 4096 < length h \<or> list_ex (\<lambda>c. c = CHR 0x00 \<or> c = CHR 0x0D \<or> c = CHR 0x0A) h then Inl Session_invalid
       else (case List.map_filter session_cookie_value (map trim (split_semicolon h)) of
           [] \<Rightarrow> Inr None
         | [v] \<Rightarrow> if rx_test CREDENTIAL v then Inr (Some v) else Inl Session_invalid
         | _ \<Rightarrow> Inl Session_invalid))"

definition requiredCredential :: "string option \<Rightarrow> session_failure + string" where
  "requiredCredential cookieHeader = bindR (parsePcSessionCredential cookieHeader) (\<lambda>c. case c of
     None \<Rightarrow> Inl Session_invalid | Some x \<Rightarrow> Inr x)"

text \<open>\<open>try { ... } catch (error) { return errorResponse(error); }\<close>\<close>

definition responding :: "auth_response handler \<Rightarrow> world \<Rightarrow> auth_response \<times> world" where
  "responding m w = (case m w of (Inl e, w') \<Rightarrow> (errorResponse e, w') | (Inr r, w') \<Rightarrow> (r, w'))"

definition redirect :: "(string \<times> string) list \<Rightarrow> auth_response" where
  "redirect hs = \<lparr>http_status = 302, http_headers = noStoreHeaders hs, http_body = None\<rparr>"

definition no_content :: "(string \<times> string) list \<Rightarrow> auth_response" where
  "no_content hs = \<lparr>http_status = 204, http_headers = noStoreHeaders hs, http_body = None\<rparr>"

definition http_beginLogin :: "session_env \<Rightarrow> session_service \<Rightarrow> string option \<Rightarrow> world \<Rightarrow> auth_response \<times> world" where
  "http_beginLogin env sv target = responding
     (bindH (beginLogin env sv (case target of Some t \<Rightarrow> t | None \<Rightarrow> ''/'')) (\<lambda>url. ret (redirect [(''Location'', url)])))"

definition http_completeLogin :: "http_options \<Rightarrow> session_env \<Rightarrow> session_service \<Rightarrow> string \<Rightarrow> world \<Rightarrow> auth_response \<times> world" where
  "http_completeLogin opts env sv callbackUrl = responding
     (bindH (completeLogin env sv callbackUrl) (\<lambda>(credential, target, view).
      bindH (lift (serializePcSessionCookie credential (ho_cookieMaxAgeSeconds opts))) (\<lambda>cookie.
      ret (redirect [(''Location'', target), (''Set-Cookie'', cookie)]))))"

definition http_currentSession :: "session_env \<Rightarrow> session_service \<Rightarrow> string option \<Rightarrow> world \<Rightarrow> auth_response \<times> world" where
  "http_currentSession env sv cookieHeader = responding
     (bindH (lift (requiredCredential cookieHeader)) (\<lambda>credential.
      bindH (currentSession env sv credential) (\<lambda>view.
      ret \<lparr>http_status = 200, http_headers = noStoreHeaders [], http_body = Some (sessionBody view)\<rparr>)))"

definition evidence_of :: "http_options \<Rightarrow> browser_context \<Rightarrow> string option \<Rightarrow> string \<Rightarrow> browser_evidence" where
  "evidence_of opts ctx header value = \<lparr>allowedOrigins = ho_allowedOrigins opts, csrfHeader = header,
     csrfSessionValue = value, ev_origin = bc_origin ctx, ev_referer = bc_referer ctx\<rparr>"

definition http_logout ::
    "(string \<Rightarrow> url option) \<Rightarrow> http_options \<Rightarrow> session_env \<Rightarrow> session_env \<Rightarrow> session_service \<Rightarrow> browser_context
     \<Rightarrow> world \<Rightarrow> auth_response \<times> world" where
  "http_logout new_url opts env1 env2 sv ctx = responding
     (bindH (lift (parsePcSessionCredential (bc_cookie ctx))) (\<lambda>parsed. case parsed of
        Some credential \<Rightarrow>
          bindH (sessionForMutation env1 sv credential) (\<lambda>(view, reference).
          bindH (lift (validateBrowserMutation (env_crypto env1) new_url
            (evidence_of opts ctx (bc_csrfToken ctx) (view_csrfToken view)))) (\<lambda>_.
          bindH (logout env2 sv (Some credential) (Some reference)) (\<lambda>endSessionUrl.
          ret (case endSessionUrl of
             None \<Rightarrow> no_content [(''Set-Cookie'', clearPcSessionCookie)]
           | Some u \<Rightarrow> redirect [(''Location'', u), (''Set-Cookie'', clearPcSessionCookie)]))))
      | None \<Rightarrow>
          bindH (lift (validateBrowserMutation (env_crypto env1) new_url
            (evidence_of opts ctx (Some ''anonymous-logout'') ''anonymous-logout''))) (\<lambda>_.
          ret (no_content [(''Set-Cookie'', clearPcSessionCookie)]))))"

definition http_refresh ::
    "(string \<Rightarrow> url option) \<Rightarrow> http_options \<Rightarrow> session_env \<Rightarrow> session_env \<Rightarrow> session_service \<Rightarrow> browser_context
     \<Rightarrow> world \<Rightarrow> auth_response \<times> world" where
  "http_refresh new_url opts env1 env2 sv ctx = responding
     (bindH (lift (requiredCredential (bc_cookie ctx))) (\<lambda>credential.
      bindH (sessionForMutation env1 sv credential) (\<lambda>(view, reference).
      bindH (lift (validateBrowserMutation (env_crypto env1) new_url
        (evidence_of opts ctx (bc_csrfToken ctx) (view_csrfToken view)))) (\<lambda>_.
      bindH (refresh env2 sv credential) (\<lambda>(next, view').
      bindH (lift (serializePcSessionCookie next (ho_cookieMaxAgeSeconds opts))) (\<lambda>cookie.
      ret (no_content [(''Set-Cookie'', cookie)])))))))"

section \<open>What a mutation needs\<close>

text \<open>The store calls a world has seen beyond those of another.\<close>

definition new_calls :: "world \<Rightarrow> world \<Rightarrow> store_call set" where
  "new_calls w w' = fst ` set (drop (length (w_trace w)) (w_trace w'))"

text \<open>A call that only reads and touches the session at hand.\<close>

fun only_reads :: "store_call \<Rightarrow> bool" where
  "only_reads (Get i idle now) = True"
| "only_reads _ = False"

lemma sessionForMutation_reads:
  assumes "\<forall>n. env_others env n = []"
  shows "\<forall>call \<in> new_calls w (snd (sessionForMutation env sv c w)). only_reads call"
  using assms
  by (auto simp: sessionForMutation_def loadStoredSession_def bindH_def lift_def throw_def ret_def st_get_def store_def
      new_calls_def split: sum.splits prod.splits option.splits)

lemma error_status: "http_status (errorResponse e) \<ge> 400"
  by (cases e) (simp_all add: errorResponse_def)

text \<open>
  Property C32. A refresh or a logout over HTTP needs the browser checks: for a cookie with one well-formed
  credential whose session the store has, a request whose origin or CSRF token does not pass against
  that session is answered 403, and nothing but the reading of the session has happened in the store.
\<close>

theorem http_mutations_are_checked:
  assumes "\<forall>n. env_others env1 n = []"
    and "requiredCredential (bc_cookie ctx) = Inr credential"
    and "sessionForMutation env1 sv credential w = (Inr (view, reference), w1)"
    and "validateBrowserMutation (env_crypto env1) new_url (evidence_of opts ctx (bc_csrfToken ctx) (view_csrfToken view)) \<noteq> Inr ()"
  shows "http_status (fst (http_refresh new_url opts env1 env2 sv ctx w)) = 403 \<and>
    http_status (fst (http_logout new_url opts env1 env2 sv ctx w)) = 403 \<and>
    (\<forall>call \<in> new_calls w (snd (http_refresh new_url opts env1 env2 sv ctx w)) \<union>
       new_calls w (snd (http_logout new_url opts env1 env2 sv ctx w)). only_reads call)"
proof -
  have csrf: "validateBrowserMutation (env_crypto env1) new_url
      (evidence_of opts ctx (bc_csrfToken ctx) (view_csrfToken view)) = Inl Csrf_rejected"
    using assms(4) by (auto simp: validateBrowserMutation_def check_def Let_def split: if_splits)
  have parsed: "parsePcSessionCredential (bc_cookie ctx) = Inr (Some credential)"
    using assms(2) by (auto simp: requiredCredential_def result_simps split: option.splits)
  have "http_refresh new_url opts env1 env2 sv ctx w = (errorResponse Csrf_rejected, w1)"
    using assms(2,3) csrf by (simp add: http_refresh_def responding_def bindH_def [of "sessionForMutation _ _ _"] throw_def)
  moreover have "http_logout new_url opts env1 env2 sv ctx w = (errorResponse Csrf_rejected, w1)"
    using parsed assms(3) csrf by (simp add: http_logout_def responding_def bindH_def [of "sessionForMutation _ _ _"] throw_def)
  moreover have "\<forall>call \<in> new_calls w w1. only_reads call"
    using sessionForMutation_reads [OF assms(1), of w sv credential] assms(3) by simp
  ultimately show ?thesis by (simp add: errorResponse_def)
qed

definition http_world :: world where
  "http_world = \<lparr>w_db = run [(Create witness_state_index witness_session 1000, Up, 0)] Map.empty, w_trace = [], w_audits = []\<rparr>"

definition http_witness_context :: browser_context where
  "http_witness_context = \<lparr>bc_cookie = Some (''a=b; __Host-ai_crm_pc_session='' @ witness_reference), bc_csrfToken = None,
     bc_origin = Some ''https://crm'', bc_referer = None\<rparr>"

definition witness_http_options :: http_options where
  "witness_http_options = \<lparr>ho_allowedOrigins = [''https://crm''], ho_cookieMaxAgeSeconds = Num 3600\<rparr>"

lemma witness_cookie: "requiredCredential (bc_cookie http_witness_context) = Inr witness_reference"
proof -
  have "parsePcSessionCredential (Some (''a=b; __Host-ai_crm_pc_session='' @ witness_reference)) = Inr (Some witness_reference)"
    using witness_reference_valid
    by (simp add: parsePcSessionCredential_def witness_reference_def session_cookie_value_def Let_def trim_def is_space_def
        map_filter_simps eval_nat_numeral)
  then show ?thesis by (simp add: requiredCredential_def http_witness_context_def)
qed

lemma witness_mutation_session:
  "\<exists>w1. sessionForMutation session_witness_env witness_service witness_reference http_world =
     (Inr (sessionView witness_session, witness_reference), w1)"
proof -
  let ?R = "[witness_state_index \<mapsto> (witness_session, 1000)]"
  have "registry_run [(Create witness_state_index witness_session 1000, Up, 0)] Map.empty = ?R"
    using witness_state(2) by (simp add: registry_exec_def checked_def positiveMilliseconds_def registry_live_def holder_of_def)
  then have rep: "represents (w_db http_world) ?R"
    using run_represents [OF represents_empty, of "[(Create witness_state_index witness_session 1000, Up, 0)]"]
    by (simp only: http_world_def world.select_convs)
  have live: "registry_live 10 ?R = ?R" by (auto simp: registry_live_def)
  obtain command where "command_of (Get witness_state_index 1000 10) = Inr command"
    using witness_state(2) by (simp add: checked_def positiveMilliseconds_def max_safe_def)
  from exec_reply [OF rep this, of 10]
  have "fst (exec (Get witness_state_index 1000 10) Up 10 (w_db http_world)) = Inr (Bulk (Json (session_value witness_session)))"
    by (simp add: live) (simp add: witness_session_def)
  then have "fst (getSession (\<lambda>_. 0) witness_state_index 1000 10 Up 10 (w_db http_world)) = Inr (Some witness_session)"
    using parse_witness_session [of "\<lambda>_. 0"] by (simp add: getSession_def reading_def optional_record_def stringResult_def)
  then have "fst (st_get session_witness_env 0 witness_state_index (idleTtlMs witness_service) (env_clock session_witness_env 0) http_world) =
      Inr (Some witness_session)"
    by (simp add: st_get_def store_def session_witness_env_def witness_service_def case_prod_beta)
  then show ?thesis
    using witness_state(1)
    by (cases "st_get session_witness_env 0 witness_state_index (idleTtlMs witness_service) (env_clock session_witness_env 0) http_world")
      (simp add: sessionForMutation_def loadStoredSession_def bindH_def ret_def lift_def session_witness_env_def witness_session_def)
qed

theorem http_mutations_are_checked_witness:
  "http_status (fst (http_refresh witness_url witness_http_options session_witness_env session_witness_env witness_service
     http_witness_context http_world)) = 403"
proof -
  obtain w1 where w1: "sessionForMutation session_witness_env witness_service witness_reference http_world =
      (Inr (sessionView witness_session, witness_reference), w1)"
    using witness_mutation_session by blast
  have "\<forall>n. env_others session_witness_env n = []" by (simp add: session_witness_env_def)
  moreover have "validateBrowserMutation (env_crypto session_witness_env) witness_url (evidence_of witness_http_options http_witness_context
      (bc_csrfToken http_witness_context) (view_csrfToken (sessionView witness_session))) \<noteq> Inr ()"
    by (simp add: validateBrowserMutation_def evidence_of_def http_witness_context_def check_def Let_def)
  ultimately show ?thesis
    using http_mutations_are_checked [OF _ witness_cookie w1] by blast
qed

end
