(* ===== verification/Event_Messages.thy ===== *)
theory Event_Messages
  imports Js_Text Js_Json "HOL-Library.Multiset"
begin

text \<open>
  \<open>packages/platform-modules/eventing-outbox/src/\<close>: \<open>errors.ts\<close>, \<open>types.ts\<close> and \<open>validation.ts\<close>. Events and jobs
  are values of type \<open>unknown\<close> (\<^typ>\<open>jval\<close>) until an envelope has been validated; a validated message
  carries the canonical text of its envelope and the digest of that text, which producers,
  the outbox and consumers compare. A \<open>Date\<close> is its number of milliseconds.

  Outside the sources are the collation of \<open>String.prototype.localeCompare\<close>, the text of a number that
  is not an integer, and SHA-256: the fields of \<open>codec\<close>.
\<close>

section \<open>Errors\<close>

datatype eventing_code =
    Eventing_conflict
  | Eventing_invalid_input
  | Eventing_handler_timeout
  | Eventing_not_found
  | Eventing_operation_denied
  | Eventing_storage_unavailable

text \<open>What asynchronous code may reject with: the module's own error or one of another party.\<close>

datatype failure = EventingError eventing_code (retryable: bool) | Foreign_error string

abbreviation invalid :: "failure + 'a" where
  "invalid \<equiv> Inl (EventingError Eventing_invalid_input False)"

abbreviation valid_if :: "bool \<Rightarrow> failure + unit" where
  "valid_if b \<equiv> check b (EventingError Eventing_invalid_input False)"

section \<open>Types\<close>

record event_envelope =
  ev_id :: string
  ev_source :: string
  ev_type :: string
  ev_time :: string
  ev_dataschema :: string
  ev_correlationid :: string
  ev_data :: jval
  ev_subject :: "string option"
  ev_causationid :: "string option"
  ev_traceparent :: "string option"
  ev_tracestate :: "string option"

record job_policy =
  maxAttempts :: int
  backoffSeconds :: "int list"
  timeoutMs :: int

record job_envelope =
  jb_jobId :: string
  jb_jobType :: string
  jb_jobVersion :: int
  jb_source :: string
  idempotencyKey :: string
  requestedAt :: string
  notBefore :: "string option"
  jb_correlationId :: string
  jb_causationId :: "string option"
  jb_traceparent :: "string option"
  jb_tracestate :: "string option"
  jb_policy :: job_policy
  jb_payload :: jval

datatype message_envelope = Event_message event_envelope | Job_message job_envelope

datatype message_kind = Event_kind | Job_kind

record validated_message =
  envelope :: message_envelope
  messageId :: string
  messageKind :: message_kind
  messageType :: string
  messageVersion :: jnum
  producer :: string
  occurredAt :: int
  availableAt :: int
  correlationId :: string
  causationId :: "string option"
  traceparent :: "string option"
  tracestate :: "string option"
  serialized :: string
  payloadSha256 :: string

record codec =
  localeCompare :: "string \<Rightarrow> string \<Rightarrow> int"
  number_text :: "jnum \<Rightarrow> string"
  sha256 :: "string \<Rightarrow> string"

section \<open>Patterns\<close>

definition dotted_part :: rx where
  "dotted_part = Seq (Cls cls_lower) (rx_star (Cls (cls_lower @ cls_digit @ chars_of ''-'')))"

definition IDENTIFIER :: rx where
  "IDENTIFIER = Seq dotted_part (rx_plus (Seq (lit ''.'') dotted_part))"

definition version_digits :: rx where
  "version_digits = Seq (Cls [(CHR ''1'', CHR ''9'')]) (rx_star (Cls cls_digit))"

definition MESSAGE_TYPE :: rx where
  "MESSAGE_TYPE = Seq IDENTIFIER (Seq (lit ''.v'') version_digits)"

definition SOURCE :: rx where
  "SOURCE = Seq (lit ''urn:ai-crm:'') (Seq (Cls cls_lower) (rx_star (Cls (cls_lower @ cls_digit @ chars_of ''.-''))))"

definition TRACEPARENT :: rx where
  "TRACEPARENT = Seq (lit ''00-'') (Seq (rx_times 32 (Cls cls_hex)) (Seq (lit ''-'')
     (Seq (rx_times 16 (Cls cls_hex)) (Seq (lit ''-'') (rx_times 2 (Cls cls_hex))))))"

definition TRACESTATE :: rx where
  "TRACESTATE = rx_plus (Cls [(CHR 0x20, CHR 0x7E)])"

definition TIMESTAMP :: rx where
  "TIMESTAMP = (let d = (\<lambda>n. rx_times n (Cls cls_digit)) in
     Seq (d 4) (Seq (lit ''-'') (Seq (d 2) (Seq (lit ''-'') (Seq (d 2) (Seq (lit ''T'') (Seq (d 2)
     (Seq (lit '':'') (Seq (d 2) (Seq (lit '':'') (Seq (d 2) (Seq (lit ''.'') (Seq (d 3) (lit ''Z''))))))))))))))"

definition DATASCHEMA :: rx where
  "DATASCHEMA = Seq (lit ''urn:ai-crm:'') (Seq (Alt (lit ''events'') (lit ''models'')) (Seq (lit '':'')
     (Seq (rx_plus (Cls (cls_lower @ cls_digit @ chars_of '':-''))) (Seq (lit '':v'') version_digits))))"

definition SUBJECT :: rx where
  "SUBJECT = Seq (Cls cls_alnum) (rx_upto 0 254 (Cls (cls_alnum @ chars_of ''._:@/-'')))"

definition IDEMPOTENCY_KEY :: rx where
  "IDEMPOTENCY_KEY = Seq (Cls cls_alnum) (rx_upto 7 127 (Cls (cls_alnum @ chars_of ''._:@/-'')))"

definition REASON :: rx where
  "REASON = Seq (Cls cls_alnum) (rx_upto 7 511 (Cls (cls_alnum @ chars_of '' ._:@/()-'')))"

section \<open>Readers\<close>

definition read_record :: "jval \<Rightarrow> failure + jval" where
  "read_record v = (if is_record v then Inr v else invalid)"

definition read_text :: "rx \<Rightarrow> nat \<Rightarrow> jval \<Rightarrow> failure + string" where
  "read_text pattern maximum v = (case v of
     JStr s \<Rightarrow> if length s \<le> maximum \<and> rx_test pattern s then Inr s else invalid
   | _ \<Rightarrow> invalid)"

definition read_optional :: "rx \<Rightarrow> nat \<Rightarrow> jval \<Rightarrow> failure + string option" where
  "read_optional pattern maximum v = (if v = JUndef then Inr None
     else bindR (read_text pattern maximum v) (\<lambda>s. Inr (Some s)))"

definition exact :: "jval \<Rightarrow> string list \<Rightarrow> string list \<Rightarrow> failure + unit" where
  "exact v required optionalKeys =
     valid_if (list_all (\<lambda>k. k \<in> set (keys v)) required
       \<and> \<not> list_ex (\<lambda>k. k \<notin> set required \<and> k \<notin> set optionalKeys) (keys v))"

definition read_time :: "jval \<Rightarrow> failure + string \<times> int" where
  "read_time v = bindR (read_text TIMESTAMP 24 v) (\<lambda>raw.
     case iso_instant raw of None \<Rightarrow> invalid | Some t \<Rightarrow> Inr (raw, t))"

section \<open>Data\<close>

text \<open>
  The order of the own properties of an object: array indices in ascending order, then the
  other names as they were added. \<open>Object.fromEntries\<close> builds its result so.
\<close>

definition array_index :: "string \<Rightarrow> nat option" where
  "array_index k = (case digits_val 0 k of
     None \<Rightarrow> None
   | Some v \<Rightarrow> if decimal (nat v) = k \<and> v < 4294967295 then Some (nat v) else None)"

definition own_order :: "(string \<times> 'a) list \<Rightarrow> (string \<times> 'a) list" where
  "own_order ps =
     sort_le (\<lambda>p q. the (array_index (fst p)) \<le> the (array_index (fst q)))
       (filter (\<lambda>p. array_index (fst p) \<noteq> None) ps)
     @ filter (\<lambda>p. array_index (fst p) = None) ps"

definition by_key :: "codec \<Rightarrow> string \<times> 'a \<Rightarrow> string \<times> 'a \<Rightarrow> bool" where
  "by_key cx p q \<longleftrightarrow> localeCompare cx (fst p) (fst q) \<le> 0"

function json :: "codec \<Rightarrow> nat \<Rightarrow> jval \<Rightarrow> failure + jval" where
  "json cx depth v =
     (if 16 < depth then invalid
      else case v of
        JUndef \<Rightarrow> invalid
      | JNull \<Rightarrow> Inr JNull
      | JBool b \<Rightarrow> Inr (JBool b)
      | JStr s \<Rightarrow> Inr (JStr s)
      | JNum n \<Rightarrow> if is_finite n then Inr (JNum n) else invalid
      | JArr xs \<Rightarrow> bindR (mapR (json cx (Suc depth)) xs) (\<lambda>ys. Inr (JArr ys))
      | JObj ps \<Rightarrow>
          if 256 < length ps then invalid
          else bindR (mapR (\<lambda>p. if length (fst p) < 1 \<or> 128 < length (fst p) then invalid
                                else bindR (json cx (Suc depth) (snd p)) (\<lambda>w. Inr (fst p, w)))
                       (sort_le (by_key cx) ps)) (\<lambda>qs. Inr (JObj (own_order qs))))"
  by pat_completeness auto
termination
  by (relation "measure (\<lambda>(_, depth, _). 17 - depth)") auto

declare json.simps [simp del]

section \<open>Envelopes as values\<close>

definition member_if :: "string \<Rightarrow> string option \<Rightarrow> (string \<times> jval) list" where
  "member_if k v = (case v of None \<Rightarrow> [] | Some s \<Rightarrow> [(k, JStr s)])"

definition event_value :: "event_envelope \<Rightarrow> jval" where
  "event_value e = JObj (
     [(''specversion'', JStr ''1.0''), (''id'', JStr (ev_id e)), (''source'', JStr (ev_source e)),
      (''type'', JStr (ev_type e)), (''time'', JStr (ev_time e)),
      (''datacontenttype'', JStr ''application/json''), (''dataschema'', JStr (ev_dataschema e)),
      (''correlationid'', JStr (ev_correlationid e)), (''data'', ev_data e)]
     @ member_if ''subject'' (ev_subject e) @ member_if ''causationid'' (ev_causationid e)
     @ member_if ''traceparent'' (ev_traceparent e) @ member_if ''tracestate'' (ev_tracestate e))"

definition job_value :: "job_envelope \<Rightarrow> jval" where
  "job_value j = JObj (
     [(''jobId'', JStr (jb_jobId j)), (''jobType'', JStr (jb_jobType j)),
      (''jobVersion'', JNum (Num (of_int (jb_jobVersion j)))), (''source'', JStr (jb_source j)),
      (''idempotencyKey'', JStr (idempotencyKey j)), (''requestedAt'', JStr (requestedAt j))]
     @ member_if ''notBefore'' (notBefore j) @ [(''correlationId'', JStr (jb_correlationId j))]
     @ member_if ''causationId'' (jb_causationId j) @ member_if ''traceparent'' (jb_traceparent j)
     @ member_if ''tracestate'' (jb_tracestate j)
     @ [(''policy'', JObj [(''maxAttempts'', JNum (Num (of_int (maxAttempts (jb_policy j))))),
          (''backoffSeconds'', JArr (map (\<lambda>s. JNum (Num (of_int s))) (backoffSeconds (jb_policy j)))),
          (''timeoutMs'', JNum (Num (of_int (timeoutMs (jb_policy j))))),
          (''failureDisposition'', JStr ''isolate'')]),
        (''payload'', jb_payload j)])"

fun envelope_value :: "message_envelope \<Rightarrow> jval" where
  "envelope_value (Event_message e) = event_value e"
| "envelope_value (Job_message j) = job_value j"

text \<open>\<open>Buffer.byteLength(s, "utf8")\<close>: code units below 128 take one byte, those up to 255 two.\<close>

definition utf8_length :: "string \<Rightarrow> nat" where
  "utf8_length s = sum_list (map (\<lambda>c. if (of_char c :: nat) < 128 then 1 else 2) s)"

definition finish :: "codec \<Rightarrow> validated_message \<Rightarrow> failure + validated_message" where
  "finish cx m = (let text = json_value (number_text cx) (envelope_value (envelope m)) in
     bindR (valid_if (utf8_length text \<le> 262144)) (\<lambda>_.
       Inr (m\<lparr>serialized := text, payloadSha256 := sha256 cx text\<rparr>)))"

section \<open>Events\<close>

text \<open>\<open>Number(match[2])\<close>: the digits after the last \<open>.v\<close>, rounded to a double.\<close>

definition type_version :: "string \<Rightarrow> jnum" where
  "type_version s = (case digits_val 0 (tl (rev (takeWhile (\<lambda>c. c \<noteq> CHR ''.'') (rev s)))) of
     None \<Rightarrow> NaN | Some n \<Rightarrow> Num (fl (of_int n)))"

definition event_keys :: "string list" where
  "event_keys = [''specversion'', ''id'', ''source'', ''type'', ''time'', ''datacontenttype'', ''dataschema'',
     ''correlationid'', ''data'']"

definition event_optional_keys :: "string list" where
  "event_optional_keys = [''subject'', ''causationid'', ''traceparent'', ''tracestate'']"

definition event_message :: "event_envelope \<Rightarrow> int \<Rightarrow> validated_message" where
  "event_message e t = \<lparr>envelope = Event_message e, messageId = ev_id e, messageKind = Event_kind,
     messageType = ev_type e, messageVersion = type_version (ev_type e), producer = ev_source e,
     occurredAt = t, availableAt = t, correlationId = ev_correlationid e, causationId = ev_causationid e,
     traceparent = ev_traceparent e, tracestate = ev_tracestate e, serialized = [], payloadSha256 = []\<rparr>"

definition validateEventEnvelope :: "codec \<Rightarrow> jval \<Rightarrow> failure + validated_message" where
  "validateEventEnvelope cx input =
     bindR (read_record input) (\<lambda>v.
     bindR (exact v event_keys event_optional_keys) (\<lambda>_.
     bindR (valid_if (get v ''specversion'' = JStr ''1.0'' \<and> get v ''datacontenttype'' = JStr ''application/json'')) (\<lambda>_.
     bindR (read_text UUID 36 (get v ''id'')) (\<lambda>i.
     bindR (read_text MESSAGE_TYPE 160 (get v ''type'')) (\<lambda>typed.
     bindR (read_time (get v ''time'')) (\<lambda>(raw, t).
     bindR (read_text UUID 36 (get v ''correlationid'')) (\<lambda>correlation.
     bindR (read_optional UUID 36 (get v ''causationid'')) (\<lambda>causation.
     bindR (read_optional TRACEPARENT 55 (get v ''traceparent'')) (\<lambda>parent.
     bindR (read_optional TRACESTATE 512 (get v ''tracestate'')) (\<lambda>state.
     bindR (read_text SOURCE 256 (get v ''source'')) (\<lambda>source.
     bindR (read_text DATASCHEMA 512 (get v ''dataschema'')) (\<lambda>dataschema.
     bindR (json cx 0 (get v ''data'')) (\<lambda>data.
     bindR (read_optional SUBJECT 255 (get v ''subject'')) (\<lambda>subject.
       finish cx (event_message \<lparr>ev_id = i, ev_source = source, ev_type = typed, ev_time = raw,
         ev_dataschema = dataschema, ev_correlationid = correlation, ev_data = data, ev_subject = subject,
         ev_causationid = causation, ev_traceparent = parent, ev_tracestate = state\<rparr> t)))))))))))))))"

section \<open>Jobs\<close>

definition job_keys :: "string list" where
  "job_keys = [''jobId'', ''jobType'', ''jobVersion'', ''source'', ''idempotencyKey'', ''requestedAt'',
     ''correlationId'', ''policy'', ''payload'']"

definition job_optional_keys :: "string list" where
  "job_optional_keys = [''notBefore'', ''causationId'', ''traceparent'', ''tracestate'']"

text \<open>\<open>Number.isInteger(v) && lo <= v && v <= hi\<close>\<close>

definition int_between :: "int \<Rightarrow> int \<Rightarrow> jval \<Rightarrow> int option" where
  "int_between lo hi v = (case v of
     JNum n \<Rightarrow> (case int_val n of Some i \<Rightarrow> if lo \<le> i \<and> i \<le> hi then Some i else None | None \<Rightarrow> None)
   | _ \<Rightarrow> None)"

definition read_int :: "int \<Rightarrow> int \<Rightarrow> jval \<Rightarrow> failure + int" where
  "read_int lo hi v = (case int_between lo hi v of Some i \<Rightarrow> Inr i | None \<Rightarrow> invalid)"

definition read_policy :: "jval \<Rightarrow> failure + job_policy" where
  "read_policy policy =
     bindR (exact policy [''maxAttempts'', ''backoffSeconds'', ''timeoutMs'', ''failureDisposition''] []) (\<lambda>_.
     bindR (read_int 1 16 (get policy ''maxAttempts'')) (\<lambda>attempts.
     case get policy ''backoffSeconds'' of
       JArr items \<Rightarrow>
         bindR (valid_if (int (length items) = attempts - 1)) (\<lambda>_.
         bindR (mapR (read_int 1 86400) items) (\<lambda>backoff.
         bindR (read_int 100 900000 (get policy ''timeoutMs'')) (\<lambda>timeout.
         bindR (valid_if (get policy ''failureDisposition'' = JStr ''isolate'')) (\<lambda>_.
           Inr \<lparr>maxAttempts = attempts, backoffSeconds = backoff, timeoutMs = timeout\<rparr>))))
     | _ \<Rightarrow> invalid))"

definition job_message :: "job_envelope \<Rightarrow> int \<Rightarrow> int \<Rightarrow> validated_message" where
  "job_message j requested available = \<lparr>envelope = Job_message j, messageId = jb_jobId j, messageKind = Job_kind,
     messageType = jb_jobType j, messageVersion = Num (of_int (jb_jobVersion j)), producer = jb_source j,
     occurredAt = requested, availableAt = available, correlationId = jb_correlationId j,
     causationId = jb_causationId j, traceparent = jb_traceparent j, tracestate = jb_tracestate j,
     serialized = [], payloadSha256 = []\<rparr>"

definition validateJobEnvelope :: "codec \<Rightarrow> jval \<Rightarrow> failure + validated_message" where
  "validateJobEnvelope cx input =
     bindR (read_record input) (\<lambda>v.
     bindR (exact v job_keys job_optional_keys) (\<lambda>_.
     bindR (read_time (get v ''requestedAt'')) (\<lambda>(raw, requested).
     bindR (if get v ''notBefore'' = JUndef then Inr (None, requested)
            else bindR (read_time (get v ''notBefore'')) (\<lambda>(s, t). Inr (Some s, t))) (\<lambda>(not_before, available).
     bindR (valid_if (\<not> available < requested)) (\<lambda>_.
     bindR (read_record (get v ''policy'')) (\<lambda>p.
     bindR (read_int 1 1000 (get v ''jobVersion'')) (\<lambda>version.
     bindR (read_policy p) (\<lambda>policy.
     bindR (read_text UUID 36 (get v ''jobId'')) (\<lambda>i.
     bindR (read_text UUID 36 (get v ''correlationId'')) (\<lambda>correlation.
     bindR (read_optional UUID 36 (get v ''causationId'')) (\<lambda>causation.
     bindR (read_optional TRACEPARENT 55 (get v ''traceparent'')) (\<lambda>parent.
     bindR (read_optional TRACESTATE 512 (get v ''tracestate'')) (\<lambda>state.
     bindR (read_text IDENTIFIER 128 (get v ''jobType'')) (\<lambda>typed.
     bindR (read_text SOURCE 256 (get v ''source'')) (\<lambda>source.
     bindR (read_text IDEMPOTENCY_KEY 128 (get v ''idempotencyKey'')) (\<lambda>key.
     bindR (json cx 0 (get v ''payload'')) (\<lambda>payload.
       finish cx (job_message \<lparr>jb_jobId = i, jb_jobType = typed, jb_jobVersion = version, jb_source = source,
         idempotencyKey = key, requestedAt = raw, notBefore = not_before, jb_correlationId = correlation,
         jb_causationId = causation, jb_traceparent = parent, jb_tracestate = state, jb_policy = policy,
         jb_payload = payload\<rparr> requested available))))))))))))))))))"

definition validateMessageEnvelope :: "codec \<Rightarrow> jval \<Rightarrow> failure + validated_message" where
  "validateMessageEnvelope cx input =
     (if ''specversion'' \<in> set (keys input) then validateEventEnvelope cx input else validateJobEnvelope cx input)"

definition validateConsumerName :: "jval \<Rightarrow> failure + string" where
  "validateConsumerName v = read_text IDENTIFIER 128 v"

definition validateReason :: "jval \<Rightarrow> failure + string" where
  "validateReason v = read_text REASON 512 v"

definition validateUuid :: "jval \<Rightarrow> failure + string" where
  "validateUuid v = read_text UUID 36 v"

section \<open>Sorting and the order of members\<close>

lemma sort_unique:
  assumes "set xs = set ys" "distinct xs" "distinct ys" "sorted_wrt le xs" "sorted_wrt le ys"
    and "\<And>x y. x \<in> set xs \<Longrightarrow> y \<in> set xs \<Longrightarrow> le x y \<Longrightarrow> le y x \<Longrightarrow> x = y"
  shows "xs = ys"
  using assms
proof (induction xs arbitrary: ys)
  case Nil
  then show ?case by simp
next
  case (Cons x xs)
  then obtain y ys' where ys: "ys = y # ys'" by (cases ys) auto
  have "x = y"
  proof (rule ccontr)
    assume "x \<noteq> y"
    have "x \<in> set (y # ys')" "y \<in> set (x # xs)" using Cons.prems(1) ys by auto
    with \<open>x \<noteq> y\<close> have "x \<in> set ys'" "y \<in> set xs" by auto
    with Cons.prems ys have "le x y" "le y x" by auto
    with Cons.prems(6) [of x y] \<open>y \<in> set xs\<close> \<open>x \<noteq> y\<close> show False by simp
  qed
  with Cons.prems ys have "set xs = set ys'" by (auto simp: insert_eq_iff)
  with Cons.IH [of ys'] Cons.prems ys \<open>x = y\<close> show ?case by auto
qed

lemma filter_insert_le:
  assumes "sorted_wrt le xs" "\<And>a b c. le a b \<Longrightarrow> le b c \<Longrightarrow> le a c"
  shows "filter P (insert_le le x xs) = (if P x then insert_le le x (filter P xs) else filter P xs)"
  using assms
proof (induction xs)
  case (Cons y ys)
  show ?case
  proof (cases "le x y")
    case True
    with Cons.prems have "\<forall>z \<in> set (filter P (y # ys)). le x z" by auto
    then have "insert_le le x (filter P (y # ys)) = x # filter P (y # ys)"
      by (cases "filter P (y # ys)") auto
    with True show ?thesis by simp
  next
    case False
    with Cons show ?thesis by simp
  qed
qed simp

lemma filter_sort_le:
  assumes "\<And>x y. le x y \<or> le y x" "\<And>x y z. le x y \<Longrightarrow> le y z \<Longrightarrow> le x z"
  shows "filter P (sort_le le xs) = sort_le le (filter P xs)"
  by (induction xs) (simp_all add: filter_insert_le [OF sorted_sort_le [OF assms] assms(2)])

abbreviation is_index :: "string \<times> 'a \<Rightarrow> bool" where
  "is_index p \<equiv> array_index (fst p) \<noteq> None"

abbreviation by_index :: "string \<times> 'a \<Rightarrow> string \<times> 'a \<Rightarrow> bool" where
  "by_index p q \<equiv> the (array_index (fst p)) \<le> the (array_index (fst q))"

lemma array_index_inj: "array_index k = Some n \<Longrightarrow> array_index k' = Some n \<Longrightarrow> k = k'"
  by (auto simp: array_index_def split: option.splits if_splits)

lemma set_own_order [simp]: "set (own_order ps) = set ps"
  by (auto simp: own_order_def)

lemma mset_sort_le [simp]: "mset (sort_le le xs) = mset xs"
proof (induction xs)
  case (Cons x xs)
  have "mset (insert_le le x ys) = add_mset x (mset ys)" for ys by (induction ys) auto
  with Cons show ?case by simp
qed simp

lemma mset_own_order [simp]: "mset (own_order ps) = mset ps"
  using multiset_partition [of "mset ps" is_index] by (simp add: own_order_def)

lemma distinct_keys_own_order [simp]: "distinct (map fst (own_order ps)) \<longleftrightarrow> distinct (map fst ps)"
  by (intro mset_eq_imp_distinct_iff) simp

lemma length_own_order [simp]: "length (own_order ps) = length ps"
  by (metis mset_own_order size_mset)

lemma sort_by_index_unique:
  assumes "mset ps = mset qs" "distinct (map fst ps)" "\<forall>p \<in> set ps. is_index p"
  shows "sort_le by_index ps = sort_le by_index qs"
proof (rule sort_unique [where le = by_index])
  have q: "set qs = set ps" "distinct qs"
    using assms(1,2) by (metis mset_eq_setD, metis distinct_map mset_eq_imp_distinct_iff)
  show "set (sort_le by_index ps) = set (sort_le by_index qs)" using q by simp
  show "distinct (sort_le by_index ps)" "distinct (sort_le by_index qs)"
    using assms(2) q by (simp_all add: distinct_map)
  show "sorted_wrt by_index (sort_le by_index xs)" for xs by (rule sorted_sort_le) auto
  then show "sorted_wrt by_index (sort_le by_index qs)" .
  show "x = y" if "x \<in> set (sort_le by_index ps)" "y \<in> set (sort_le by_index ps)" "by_index x y" "by_index y x" for x y
  proof -
    have mem: "x \<in> set ps" "y \<in> set ps" using that(1,2) by simp_all
    then obtain m n where mn: "array_index (fst x) = Some m" "array_index (fst y) = Some n"
      using assms(3) by (meson not_None_eq)
    with that(3,4) have "m = n" by simp
    with mn have "fst x = fst y" using array_index_inj by blast
    with mem assms(2) show ?thesis by (metis distinct_map inj_onD)
  qed
qed

text \<open>Sorting the members of a canonical object again leaves it as it is.\<close>

lemma own_order_again:
  assumes "\<And>x y. le x y \<or> le y x" "\<And>x y z. le x y \<Longrightarrow> le y z \<Longrightarrow> le x z"
    and "sorted_wrt le qs" "distinct (map fst qs)"
  shows "own_order (sort_le le (own_order qs)) = own_order qs"
proof -
  let ?S = "sort_le le (own_order qs)"
  have none: "filter (\<lambda>p. \<not> is_index p) (own_order qs) = filter (\<lambda>p. \<not> is_index p) qs"
    by (simp add: own_order_def filter_empty_conv)
  have "filter (\<lambda>p. \<not> is_index p) ?S = filter (\<lambda>p. \<not> is_index p) qs"
    by (simp only: filter_sort_le [OF assms(1,2)] none sort_le_sorted sorted_wrt_filter assms(3))
  moreover have "sort_le by_index (filter is_index ?S) = sort_le by_index (filter is_index qs)"
  proof (rule sort_by_index_unique)
    show "mset (filter is_index ?S) = mset (filter is_index qs)" unfolding mset_filter by simp
    have "distinct (map fst ?S)" using assms(4) by simp
    then show "distinct (map fst (filter is_index ?S))" by (rule distinct_map_filter)
  qed simp
  ultimately show ?thesis by (simp add: own_order_def)
qed

section \<open>Canonical data\<close>

text \<open>
  What is documented of \<open>localeCompare\<close>: it orders the strings, up to strings that it does not
  tell apart.
\<close>

definition collation :: "codec \<Rightarrow> bool" where
  "collation cx \<longleftrightarrow> (\<forall>a b. localeCompare cx a b \<le> 0 \<or> localeCompare cx b a \<le> 0)
     \<and> (\<forall>a b c. localeCompare cx a b \<le> 0 \<longrightarrow> localeCompare cx b c \<le> 0 \<longrightarrow> localeCompare cx a c \<le> 0)"

definition told_apart :: "codec \<Rightarrow> string set \<Rightarrow> bool" where
  "told_apart cx K \<longleftrightarrow> (\<forall>a \<in> K. \<forall>b \<in> K. localeCompare cx a b \<le> 0 \<longrightarrow> localeCompare cx b a \<le> 0 \<longrightarrow> a = b)"

text \<open>Objects whose own properties are distinct; objects whose keys the collation tells apart.\<close>

fun proper :: "jval \<Rightarrow> bool" where
  "proper (JArr xs) = (\<forall>x \<in> set xs. proper x)"
| "proper (JObj ps) = (distinct (map fst ps) \<and> (\<forall>p \<in> set ps. proper (snd p)))"
| "proper _ = True"

fun separated :: "codec \<Rightarrow> jval \<Rightarrow> bool" where
  "separated cx (JArr xs) = (\<forall>x \<in> set xs. separated cx x)"
| "separated cx (JObj ps) = (told_apart cx (fst ` set ps) \<and> (\<forall>p \<in> set ps. separated cx (snd p)))"
| "separated cx _ = True"

text \<open>Equal up to the order of the members of objects.\<close>

inductive same_value :: "jval \<Rightarrow> jval \<Rightarrow> bool" where
  same_refl: "same_value v v"
| same_arr: "list_all2 same_value xs ys \<Longrightarrow> same_value (JArr xs) (JArr ys)"
| same_obj: "distinct (map fst ps) \<Longrightarrow> distinct (map fst qs) \<Longrightarrow>
    (\<And>k. rel_option same_value (map_of ps k) (map_of qs k)) \<Longrightarrow> same_value (JObj ps) (JObj qs)"
  monos list_all2_mono option.rel_mono

lemma by_key_order:
  assumes "collation cx"
  shows "by_key cx x y \<or> by_key cx y x" "by_key cx x y \<Longrightarrow> by_key cx y z \<Longrightarrow> by_key cx x z"
  using assms unfolding collation_def by_key_def by blast+

lemma sorted_by_key: "collation cx \<Longrightarrow> sorted_wrt (by_key cx) (sort_le (by_key cx) xs)"
  by (rule sorted_sort_le) (use by_key_order in blast)+

lemma sorted_keys:
  "collation cx \<Longrightarrow> sorted_wrt (\<lambda>a b. localeCompare cx a b \<le> 0) (map fst (sort_le (by_key cx) xs))"
  using sorted_by_key [of cx xs] by (simp add: sorted_wrt_map by_key_def [abs_def])

lemma mapR_eq_pairs: "list_all2 (\<lambda>x y. f x = f y) xs ys \<Longrightarrow> mapR f xs = mapR f ys"
  by (induction xs ys rule: list_all2_induct) auto

lemma json_simps:
  assumes "\<not> 16 < depth"
  shows "json cx depth (JArr xs) = bindR (mapR (json cx (Suc depth)) xs) (\<lambda>ys. Inr (JArr ys))"
    and "json cx depth (JObj ps) = (if 256 < length ps then invalid
      else bindR (mapR (\<lambda>p. if length (fst p) < 1 \<or> 128 < length (fst p) then invalid
                            else bindR (json cx (Suc depth) (snd p)) (\<lambda>w. Inr (fst p, w)))
                   (sort_le (by_key cx) ps)) (\<lambda>qs. Inr (JObj (own_order qs))))"
  using assms by (simp_all add: json.simps [of cx depth])

lemma json_atoms:
  assumes "\<not> 16 < depth"
  shows "json cx depth JUndef = invalid" "json cx depth JNull = Inr JNull" "json cx depth (JBool b) = Inr (JBool b)"
    "json cx depth (JStr s) = Inr (JStr s)" "json cx depth (JNum n) = (if is_finite n then Inr (JNum n) else invalid)"
  using assms by (simp_all add: json.simps [of cx depth])

lemma json_deep: "16 < depth \<Longrightarrow> json cx depth v = invalid"
  by (simp add: json.simps)

text \<open>Sorting by a collation that tells the keys apart lists related members side by side.\<close>

lemma sorted_members_agree:
  assumes "collation cx" "told_apart cx (fst ` set ps)" "distinct (map fst ps)" "distinct (map fst qs)"
    and rel: "\<And>k. rel_option R (map_of ps k) (map_of qs k)"
  shows "list_all2 (\<lambda>p q. fst p = fst q \<and> R (snd p) (snd q)) (sort_le (by_key cx) ps) (sort_le (by_key cx) qs)"
    (is "list_all2 _ ?S ?T")
proof -
  have dom: "fst ` set ps = fst ` set qs"
  proof -
    have "map_of ps k = None \<longleftrightarrow> map_of qs k = None" for k using rel [of k] by (auto simp: option.rel_sel)
    then show ?thesis unfolding map_of_eq_None_iff by blast
  qed
  have keys: "map fst ?S = map fst ?T"
  proof (rule sort_unique [where le = "\<lambda>a b. localeCompare cx a b \<le> 0"])
    show "sorted_wrt (\<lambda>a b. localeCompare cx a b \<le> 0) (map fst ?S)"
      "sorted_wrt (\<lambda>a b. localeCompare cx a b \<le> 0) (map fst ?T)" by (rule sorted_keys [OF assms(1)])+
    show "set (map fst ?S) = set (map fst ?T)" using dom by simp
    show "distinct (map fst ?S)" "distinct (map fst ?T)" using assms(3,4) by simp_all
    show "a = b" if "a \<in> set (map fst ?S)" "b \<in> set (map fst ?S)" "localeCompare cx a b \<le> 0"
      "localeCompare cx b a \<le> 0" for a b
    proof -
      from that(1,2) have "a \<in> fst ` set ps" "b \<in> fst ` set ps" by simp_all
      with that(3,4) assms(2) show ?thesis unfolding told_apart_def by blast
    qed
  qed
  show ?thesis
  proof (rule list_all2_all_nthI)
    show "length ?S = length ?T" using keys by (metis length_map)
    fix i assume i: "i < length ?S"
    with keys have fst: "fst (?S ! i) = fst (?T ! i)" by (metis \<open>length ?S = length ?T\<close> nth_map)
    have "?S ! i \<in> set ?S" using i by (rule nth_mem)
    moreover have "?T ! i \<in> set ?T" using i unfolding \<open>length ?S = length ?T\<close> by (rule nth_mem)
    ultimately have "?S ! i \<in> set ps" "?T ! i \<in> set qs" by simp_all
    then have "map_of ps (fst (?S ! i)) = Some (snd (?S ! i))" "map_of qs (fst (?T ! i)) = Some (snd (?T ! i))"
      using assms(3,4) by (simp_all add: map_of_eq_Some_iff)
    with rel [of "fst (?S ! i)"] have "R (snd (?S ! i)) (snd (?T ! i))" unfolding fst by simp
    with fst show "fst (?S ! i) = fst (?T ! i) \<and> R (snd (?S ! i)) (snd (?T ! i))" by (rule conjI)
  qed
qed

lemma json_canonical:
  assumes "same_value v w" "collation cx" "separated cx v"
  shows "json cx depth v = json cx depth w"
  using assms(1,3)
proof (induction arbitrary: depth rule: same_value.induct)
  case (same_arr xs ys)
  show ?case
  proof (cases "16 < depth")
    case False
    have "list_all2 (\<lambda>x y. json cx (Suc depth) x = json cx (Suc depth) y) xs ys"
      using same_arr by (auto simp: list_all2_conv_all_nth)
    from mapR_eq_pairs [OF this] show ?thesis by (simp add: json_simps [OF False])
  qed (simp add: json_deep)
next
  case (same_obj ps qs)
  show ?case
  proof (cases "16 < depth")
    case False
    let ?R = "\<lambda>x y. json cx (Suc depth) x = json cx (Suc depth) y"
    let ?f = "\<lambda>p. if length (fst p) < 1 \<or> 128 < length (fst p) then invalid
      else bindR (json cx (Suc depth) (snd p)) (\<lambda>w. Inr (fst p, w))"
    have rel: "rel_option ?R (map_of ps k) (map_of qs k)" for k
    proof (cases "map_of ps k")
      case None
      with same_obj.IH [of k] show ?thesis by (auto simp: option.rel_sel)
    next
      case (Some x)
      then have "(k, x) \<in> set ps" by (rule map_of_SomeD)
      with same_obj.prems have "separated cx x" by fastforce
      with same_obj.IH [of k] Some show ?thesis by (auto simp: option_rel_Some1)
    qed
    have "list_all2 (\<lambda>p q. fst p = fst q \<and> ?R (snd p) (snd q)) (sort_le (by_key cx) ps) (sort_le (by_key cx) qs)"
      using same_obj.prems by (intro sorted_members_agree assms(2) same_obj.hyps rel) simp
    note pairs = this
    from list_all2_lengthD [OF pairs] have "length ps = length qs" by simp
    moreover have "mapR ?f (sort_le (by_key cx) ps) = mapR ?f (sort_le (by_key cx) qs)"
      by (rule mapR_eq_pairs, rule list_all2_mono [OF pairs]) simp
    ultimately show ?thesis by (simp only: json_simps [OF False])
  qed (simp add: json_deep)
qed simp

text \<open>What is left of accepted data is accepted again, unchanged.\<close>

lemma json_shallow: "json cx depth v = Inr w \<Longrightarrow> \<not> 16 < depth"
  using json_deep [of depth cx v] by auto

lemma mapR_fixed: "(\<And>x. x \<in> set xs \<Longrightarrow> f x = Inr x) \<Longrightarrow> mapR f xs = Inr xs"
  by (induction xs) auto

lemma map_fst_eq: "list_all2 (\<lambda>p q. fst p = fst q) xs ys \<Longrightarrow> map fst xs = map fst ys"
  by (induction rule: list_all2_induct) auto

lemma json_again:
  assumes "collation cx"
  shows "json cx depth v = Inr w \<Longrightarrow> proper v \<Longrightarrow> json cx depth w = Inr w \<and> proper w"
proof (induction v arbitrary: depth w)
  case (JArr xs)
  note deep = json_shallow [OF JArr.prems(1)]
  from deep JArr.prems(1) obtain ys where ys: "mapR (json cx (Suc depth)) xs = Inr ys" "w = JArr ys"
    by (auto simp: json_simps [OF deep] result_simps)
  have "json cx (Suc depth) y = Inr y \<and> proper y" if "y \<in> set ys" for y
  proof -
    from mapR_set [OF ys(1) that] obtain x where x: "x \<in> set xs" "json cx (Suc depth) x = Inr y" by blast
    with JArr.prems(2) have "proper x" by simp
    with x show ?thesis by (rule JArr.IH)
  qed
  moreover from this have "mapR (json cx (Suc depth)) ys = Inr ys" by (intro mapR_fixed) simp
  ultimately show ?case using ys(2) by (simp add: json_simps [OF deep])
next
  case (JObj ps)
  note deep = json_shallow [OF JObj.prems(1)]
  let ?f = "\<lambda>p. if length (fst p) < 1 \<or> 128 < length (fst p) then invalid
    else bindR (json cx (Suc depth) (snd p)) (\<lambda>w. Inr (fst p, w))"
  from deep JObj.prems(1) obtain qs where size: "\<not> 256 < length ps"
    and qs: "mapR ?f (sort_le (by_key cx) ps) = Inr qs" and w: "w = JObj (own_order qs)"
    by (auto simp: json_simps [OF deep] result_simps split: if_splits)
  have pairs: "list_all2 (\<lambda>p q. ?f p = Inr q) (sort_le (by_key cx) ps) qs" using qs by (simp add: mapR_eq_Inr)
  then have "list_all2 (\<lambda>p q. fst p = fst q) (sort_le (by_key cx) ps) qs"
    by (rule list_all2_mono) (auto simp: result_simps split: if_splits)
  then have fst: "map fst (sort_le (by_key cx) ps) = map fst qs" by (rule map_fst_eq)
  have q: "?f q = Inr q \<and> proper (snd q)" if "q \<in> set qs" for q
  proof -
    from mapR_set [OF qs that] obtain p where p: "p \<in> set ps" "?f p = Inr q" by auto
    then have "json cx (Suc depth) (snd p) = Inr (snd q)" "fst p = fst q" "\<not> (length (fst p) < 1 \<or> 128 < length (fst p))"
      by (auto simp: result_simps split: if_splits)
    moreover have "proper (snd p)" using JObj.prems(2) p(1) by simp
    ultimately have "json cx (Suc depth) (snd q) = Inr (snd q) \<and> proper (snd q)"
      by (intro JObj.IH [OF p(1)]) (simp_all add: snds.simps)
    with \<open>fst p = fst q\<close> \<open>\<not> (length (fst p) < 1 \<or> 128 < length (fst p))\<close> show ?thesis by simp
  qed
  have "sorted_wrt (by_key cx) qs"
    using sorted_keys [OF assms, of ps] unfolding fst by (simp add: sorted_wrt_map by_key_def [abs_def])
  moreover have "distinct (map fst qs)" using JObj.prems(2) fst [symmetric] by simp
  ultimately have "own_order (sort_le (by_key cx) (own_order qs)) = own_order qs"
    by (intro own_order_again) (use by_key_order [OF assms] in blast)+
  moreover have "mapR ?f (sort_le (by_key cx) (own_order qs)) = Inr (sort_le (by_key cx) (own_order qs))"
    by (intro mapR_fixed conjunct1 [OF q]) simp
  moreover have "length qs = length ps" using list_all2_lengthD [OF pairs] by simp
  ultimately show ?case using size q \<open>distinct (map fst qs)\<close>
    unfolding w by (simp add: json_simps [OF deep])
next
  case (JNum n)
  note deep = json_shallow [OF JNum.prems(1)]
  with JNum show ?case by (auto simp: json_atoms split: if_splits)
qed (use json_shallow in \<open>fastforce simp: json_atoms\<close>)+

section \<open>What the readers accept\<close>

definition text_ok :: "rx \<Rightarrow> nat \<Rightarrow> string \<Rightarrow> bool" where
  "text_ok pattern maximum s \<longleftrightarrow> length s \<le> maximum \<and> rx_test pattern s"

definition optional_text :: "string option \<Rightarrow> jval" where
  "optional_text r = (case r of None \<Rightarrow> JUndef | Some s \<Rightarrow> JStr s)"

named_theorems reader_simps "when a reader accepts a value"

lemma read_text_eq [reader_simps]: "read_text p n v = Inr s \<longleftrightarrow> v = JStr s \<and> text_ok p n s"
  by (auto simp: read_text_def text_ok_def split: jval.splits)

lemma read_optional_eq [reader_simps]:
  "read_optional p n v = Inr r \<longleftrightarrow> v = optional_text r \<and> opt_all (text_ok p n) r"
  by (cases r) (auto simp: read_optional_def optional_text_def result_simps reader_simps)

lemma read_time_eq [reader_simps]:
  "read_time v = Inr (raw, t) \<longleftrightarrow> v = JStr raw \<and> text_ok TIMESTAMP 24 raw \<and> iso_instant raw = Some t"
  by (auto simp: read_time_def result_simps reader_simps split: option.splits)

lemma read_int_eq [reader_simps]:
  "read_int lo hi v = Inr i \<longleftrightarrow> v = JNum (Num (of_int i)) \<and> lo \<le> i \<and> i \<le> hi"
  by (auto simp: read_int_def int_between_def int_val_Some split: jval.splits option.splits if_splits)

lemma read_record_eq [reader_simps]: "read_record v = Inr w \<longleftrightarrow> is_record v \<and> w = v"
  by (auto simp: read_record_def)

lemma exact_eq [reader_simps]:
  "exact v ks os = Inr u \<longleftrightarrow> set ks \<subseteq> set (keys v) \<and> set (keys v) \<subseteq> set ks \<union> set os"
  by (auto simp: exact_def result_simps list_all_iff list_ex_iff)

definition policy_ok :: "job_policy \<Rightarrow> bool" where
  "policy_ok p \<longleftrightarrow> 1 \<le> maxAttempts p \<and> maxAttempts p \<le> 16
     \<and> int (length (backoffSeconds p)) = maxAttempts p - 1
     \<and> (\<forall>s \<in> set (backoffSeconds p). 1 \<le> s \<and> s \<le> 86400)
     \<and> 100 \<le> timeoutMs p \<and> timeoutMs p \<le> 900000"

lemma read_ints_eq:
  "mapR (read_int lo hi) xs = Inr is \<longleftrightarrow> xs = map (\<lambda>i. JNum (Num (of_int i))) is \<and> (\<forall>i \<in> set is. lo \<le> i \<and> i \<le> hi)"
proof (induction xs arbitrary: "is")
  case (Cons x xs)
  then show ?case by (cases "is") (auto simp: result_simps reader_simps)
qed auto

lemma read_policy_eq [reader_simps]:
  "read_policy v = Inr p \<longleftrightarrow>
     set (keys v) = {''maxAttempts'', ''backoffSeconds'', ''timeoutMs'', ''failureDisposition''}
     \<and> get v ''maxAttempts'' = JNum (Num (of_int (maxAttempts p)))
     \<and> get v ''backoffSeconds'' = JArr (map (\<lambda>i. JNum (Num (of_int i))) (backoffSeconds p))
     \<and> get v ''timeoutMs'' = JNum (Num (of_int (timeoutMs p)))
     \<and> get v ''failureDisposition'' = JStr ''isolate'' \<and> policy_ok p"
    (is "_ \<longleftrightarrow> ?accepted")
proof
  assume r: "read_policy v = Inr p"
  then obtain xs where xs: "get v ''backoffSeconds'' = JArr xs"
    by (cases "get v ''backoffSeconds''") (simp_all add: read_policy_def result_simps)
  from r show ?accepted
    unfolding read_policy_def xs jval.case result_simps reader_simps read_ints_eq policy_ok_def
    by auto
next
  assume a: ?accepted
  then have xs: "get v ''backoffSeconds'' = JArr (map (\<lambda>i. JNum (Num (of_int i))) (backoffSeconds p))" by blast
  have "p = \<lparr>maxAttempts = maxAttempts p, backoffSeconds = backoffSeconds p, timeoutMs = timeoutMs p\<rparr>" by simp
  with a show "read_policy v = Inr p"
    unfolding read_policy_def xs jval.case result_simps reader_simps read_ints_eq policy_ok_def
    by fastforce
qed

definition event_fields :: "jval \<Rightarrow> event_envelope \<Rightarrow> bool" where
  "event_fields v e \<longleftrightarrow> get v ''specversion'' = JStr ''1.0'' \<and> get v ''datacontenttype'' = JStr ''application/json''
     \<and> get v ''id'' = JStr (ev_id e) \<and> get v ''source'' = JStr (ev_source e) \<and> get v ''type'' = JStr (ev_type e)
     \<and> get v ''time'' = JStr (ev_time e) \<and> get v ''dataschema'' = JStr (ev_dataschema e)
     \<and> get v ''correlationid'' = JStr (ev_correlationid e) \<and> get v ''subject'' = optional_text (ev_subject e)
     \<and> get v ''causationid'' = optional_text (ev_causationid e)
     \<and> get v ''traceparent'' = optional_text (ev_traceparent e) \<and> get v ''tracestate'' = optional_text (ev_tracestate e)"

definition event_ok :: "event_envelope \<Rightarrow> int \<Rightarrow> bool" where
  "event_ok e t \<longleftrightarrow> text_ok UUID 36 (ev_id e) \<and> text_ok SOURCE 256 (ev_source e)
     \<and> text_ok MESSAGE_TYPE 160 (ev_type e) \<and> text_ok TIMESTAMP 24 (ev_time e) \<and> iso_instant (ev_time e) = Some t
     \<and> text_ok DATASCHEMA 512 (ev_dataschema e) \<and> text_ok UUID 36 (ev_correlationid e)
     \<and> opt_all (text_ok SUBJECT 255) (ev_subject e) \<and> opt_all (text_ok UUID 36) (ev_causationid e)
     \<and> opt_all (text_ok TRACEPARENT 55) (ev_traceparent e) \<and> opt_all (text_ok TRACESTATE 512) (ev_tracestate e)"

definition event_accepted :: "codec \<Rightarrow> jval \<Rightarrow> event_envelope \<Rightarrow> int \<Rightarrow> bool" where
  "event_accepted cx v e t \<longleftrightarrow> is_record v \<and> set event_keys \<subseteq> set (keys v)
     \<and> set (keys v) \<subseteq> set event_keys \<union> set event_optional_keys
     \<and> event_fields v e \<and> event_ok e t \<and> json cx 0 (get v ''data'') = Inr (ev_data e)"

lemma validate_event_eq:
  "validateEventEnvelope cx v = Inr m \<longleftrightarrow> (\<exists>e t. event_accepted cx v e t \<and> finish cx (event_message e t) = Inr m)"
proof
  assume "validateEventEnvelope cx v = Inr m"
  then show "\<exists>e t. event_accepted cx v e t \<and> finish cx (event_message e t) = Inr m"
    unfolding validateEventEnvelope_def result_simps reader_simps split_paired_Ex prod.case
    apply (elim exE conjE)
    subgoal premises p
      by (rule exI, rule exI, rule conjI [rotated], rule p)
        (use p in \<open>simp add: event_accepted_def event_fields_def event_ok_def\<close>)
    done
next
  assume "\<exists>e t. event_accepted cx v e t \<and> finish cx (event_message e t) = Inr m"
  then obtain e t where a: "event_accepted cx v e t" and f: "finish cx (event_message e t) = Inr m" by blast
  from a have "read_record v = Inr v" "exact v event_keys event_optional_keys = Inr ()"
    "read_text UUID 36 (get v ''id'') = Inr (ev_id e)" "read_text MESSAGE_TYPE 160 (get v ''type'') = Inr (ev_type e)"
    "read_time (get v ''time'') = Inr (ev_time e, t)" "read_text UUID 36 (get v ''correlationid'') = Inr (ev_correlationid e)"
    "read_optional UUID 36 (get v ''causationid'') = Inr (ev_causationid e)"
    "read_optional TRACEPARENT 55 (get v ''traceparent'') = Inr (ev_traceparent e)"
    "read_optional TRACESTATE 512 (get v ''tracestate'') = Inr (ev_tracestate e)"
    "read_text SOURCE 256 (get v ''source'') = Inr (ev_source e)"
    "read_text DATASCHEMA 512 (get v ''dataschema'') = Inr (ev_dataschema e)"
    "json cx 0 (get v ''data'') = Inr (ev_data e)" "read_optional SUBJECT 255 (get v ''subject'') = Inr (ev_subject e)"
    "get v ''specversion'' = JStr ''1.0'' \<and> get v ''datacontenttype'' = JStr ''application/json''"
    unfolding reader_simps event_accepted_def event_fields_def event_ok_def by blast+
  with f show "validateEventEnvelope cx v = Inr m" by (cases e) (simp add: validateEventEnvelope_def)
qed

definition job_fields :: "jval \<Rightarrow> job_envelope \<Rightarrow> bool" where
  "job_fields v j \<longleftrightarrow> get v ''jobId'' = JStr (jb_jobId j) \<and> get v ''jobType'' = JStr (jb_jobType j)
     \<and> get v ''jobVersion'' = JNum (Num (of_int (jb_jobVersion j))) \<and> get v ''source'' = JStr (jb_source j)
     \<and> get v ''idempotencyKey'' = JStr (idempotencyKey j) \<and> get v ''requestedAt'' = JStr (requestedAt j)
     \<and> get v ''notBefore'' = optional_text (notBefore j) \<and> get v ''correlationId'' = JStr (jb_correlationId j)
     \<and> get v ''causationId'' = optional_text (jb_causationId j)
     \<and> get v ''traceparent'' = optional_text (jb_traceparent j) \<and> get v ''tracestate'' = optional_text (jb_tracestate j)"

definition job_ok :: "job_envelope \<Rightarrow> int \<Rightarrow> int \<Rightarrow> bool" where
  "job_ok j requested available \<longleftrightarrow> text_ok UUID 36 (jb_jobId j) \<and> text_ok IDENTIFIER 128 (jb_jobType j)
     \<and> 1 \<le> jb_jobVersion j \<and> jb_jobVersion j \<le> 1000 \<and> text_ok SOURCE 256 (jb_source j)
     \<and> text_ok IDEMPOTENCY_KEY 128 (idempotencyKey j) \<and> text_ok TIMESTAMP 24 (requestedAt j)
     \<and> iso_instant (requestedAt j) = Some requested
     \<and> (case notBefore j of None \<Rightarrow> available = requested
        | Some s \<Rightarrow> text_ok TIMESTAMP 24 s \<and> iso_instant s = Some available)
     \<and> requested \<le> available \<and> text_ok UUID 36 (jb_correlationId j) \<and> opt_all (text_ok UUID 36) (jb_causationId j)
     \<and> opt_all (text_ok TRACEPARENT 55) (jb_traceparent j) \<and> opt_all (text_ok TRACESTATE 512) (jb_tracestate j)
     \<and> policy_ok (jb_policy j)"

definition job_accepted :: "codec \<Rightarrow> jval \<Rightarrow> job_envelope \<Rightarrow> int \<Rightarrow> int \<Rightarrow> bool" where
  "job_accepted cx v j requested available \<longleftrightarrow> is_record v \<and> set job_keys \<subseteq> set (keys v)
     \<and> set (keys v) \<subseteq> set job_keys \<union> set job_optional_keys
     \<and> job_fields v j \<and> is_record (get v ''policy'') \<and> read_policy (get v ''policy'') = Inr (jb_policy j)
     \<and> job_ok j requested available \<and> json cx 0 (get v ''payload'') = Inr (jb_payload j)"

text \<open>The optional instant of a job.\<close>

lemma not_before_eq:
  "(if v = JUndef then Inr (None, requested) else bindR (read_time v) (\<lambda>(s, t). Inr (Some s, t))) = Inr (nb, available)
   \<longleftrightarrow> v = optional_text nb \<and> (case nb of None \<Rightarrow> available = requested
        | Some s \<Rightarrow> text_ok TIMESTAMP 24 s \<and> iso_instant s = Some available)"
proof (cases nb)
  case None
  then show ?thesis by (auto simp: optional_text_def result_simps split: prod.splits)
next
  case (Some s)
  then show ?thesis by (auto simp: optional_text_def result_simps reader_simps split: prod.splits)
qed

lemma validate_job_eq:
  "validateJobEnvelope cx v = Inr m \<longleftrightarrow>
     (\<exists>j requested available. job_accepted cx v j requested available \<and> finish cx (job_message j requested available) = Inr m)"
proof
  assume "validateJobEnvelope cx v = Inr m"
  then show "\<exists>j requested available. job_accepted cx v j requested available \<and> finish cx (job_message j requested available) = Inr m"
    unfolding validateJobEnvelope_def result_simps read_record_eq read_text_eq read_optional_eq read_time_eq read_int_eq
      exact_eq not_before_eq split_paired_Ex prod.case
    apply (elim exE conjE)
    subgoal premises p
      by (rule exI, rule exI, rule exI, rule conjI [rotated], rule p)
        (use p in \<open>simp add: job_accepted_def job_fields_def job_ok_def read_policy_eq\<close>)
    done
next
  assume "\<exists>j requested available. job_accepted cx v j requested available \<and> finish cx (job_message j requested available) = Inr m"
  then obtain j r a where acc: "job_accepted cx v j r a" and f: "finish cx (job_message j r a) = Inr m" by blast
  from acc have "read_record v = Inr v" "exact v job_keys job_optional_keys = Inr ()"
    "read_time (get v ''requestedAt'') = Inr (requestedAt j, r)" "\<not> a < r"
    "(if get v ''notBefore'' = JUndef then Inr (None, r)
      else bindR (read_time (get v ''notBefore'')) (\<lambda>(s, t). Inr (Some s, t))) = Inr (notBefore j, a)"
    "read_record (get v ''policy'') = Inr (get v ''policy'')" "read_int 1 1000 (get v ''jobVersion'') = Inr (jb_jobVersion j)"
    "read_policy (get v ''policy'') = Inr (jb_policy j)" "read_text UUID 36 (get v ''jobId'') = Inr (jb_jobId j)"
    "read_text UUID 36 (get v ''correlationId'') = Inr (jb_correlationId j)"
    "read_optional UUID 36 (get v ''causationId'') = Inr (jb_causationId j)"
    "read_optional TRACEPARENT 55 (get v ''traceparent'') = Inr (jb_traceparent j)"
    "read_optional TRACESTATE 512 (get v ''tracestate'') = Inr (jb_tracestate j)"
    "read_text IDENTIFIER 128 (get v ''jobType'') = Inr (jb_jobType j)" "read_text SOURCE 256 (get v ''source'') = Inr (jb_source j)"
    "read_text IDEMPOTENCY_KEY 128 (get v ''idempotencyKey'') = Inr (idempotencyKey j)"
    "json cx 0 (get v ''payload'') = Inr (jb_payload j)"
    unfolding not_before_eq read_record_eq read_text_eq read_optional_eq read_time_eq read_int_eq exact_eq
      job_accepted_def job_fields_def job_ok_def not_less by blast+
  with f show "validateJobEnvelope cx v = Inr m" by (cases j) (simp add: validateJobEnvelope_def)
qed

section \<open>The order of members does not matter\<close>

inductive_simps same_str: "same_value v (JStr s)"
inductive_simps same_undef: "same_value v JUndef"
inductive_simps same_num: "same_value v (JNum n)"
inductive_simps same_obj_iff: "same_value (JObj ps) w"
inductive_cases same_value_cases: "same_value v w"

lemma same_is_record: "same_value v w \<Longrightarrow> is_record v = is_record w"
  by (erule same_value_cases) auto

lemma same_keys: "same_value v w \<Longrightarrow> set (keys v) = set (keys w)"
proof (erule same_value_cases)
  fix ps qs
  assume *: "v = JObj ps" "w = JObj qs" "\<And>k. rel_option same_value (map_of ps k) (map_of qs k)"
  have "map_of ps k = None \<longleftrightarrow> map_of qs k = None" for k using *(3) [of k] by (auto simp: option.rel_sel)
  then show ?thesis unfolding map_of_eq_None_iff *(1,2) by (simp, blast)
qed auto

lemma same_get: "same_value v w \<Longrightarrow> same_value (get v k) (get w k)"
proof (erule same_value_cases)
  fix ps qs
  assume *: "v = JObj ps" "w = JObj qs" "\<And>k. rel_option same_value (map_of ps k) (map_of qs k)"
  show ?thesis using *(3) [of k] unfolding *(1,2) by (cases "map_of ps k"; cases "map_of qs k") (auto intro: same_refl)
qed (auto intro: same_refl)

lemma same_readers:
  assumes "same_value v w"
  shows "read_text p n v = read_text p n w" "read_optional p n v = read_optional p n w" "read_int lo hi v = read_int lo hi w"
    "read_time v = read_time w" "v = JStr s \<longleftrightarrow> w = JStr s" "v = JUndef \<longleftrightarrow> w = JUndef"
  using assms
  by (cases; simp add: read_text_def read_optional_def read_int_def int_between_def read_time_def)+

lemma same_exact: "same_value v w \<Longrightarrow> exact v ks os = exact w ks os"
  using same_keys [of v w] by (simp add: exact_def list_all_iff list_ex_iff)

lemma same_policy:
  assumes "same_value v w"
  shows "read_policy v = read_policy w"
proof -
  note rewrite = same_readers [OF same_get [OF assms]] same_exact [OF assms]
  show ?thesis using same_get [OF assms, of "''backoffSeconds''"]
  proof (rule same_value_cases)
    fix xs ys
    assume eq: "get v ''backoffSeconds'' = JArr xs" "get w ''backoffSeconds'' = JArr ys"
      and items: "list_all2 same_value xs ys"
    have "mapR (read_int lo hi) xs = mapR (read_int lo hi) ys" for lo hi
      by (rule mapR_eq_pairs, rule list_all2_mono [OF items], rule same_readers)
    then show ?thesis unfolding read_policy_def eq jval.case rewrite list_all2_lengthD [OF items] by simp
  next
    assume eq: "get w ''backoffSeconds'' = get v ''backoffSeconds''"
    show ?thesis unfolding read_policy_def rewrite eq ..
  next
    fix ps qs assume eq: "get v ''backoffSeconds'' = JObj ps" "get w ''backoffSeconds'' = JObj qs"
    show ?thesis unfolding read_policy_def rewrite eq jval.case ..
  qed
qed

lemma separated_get: "separated cx v \<Longrightarrow> separated cx (get v k)"
proof (cases v)
  case (JObj ps)
  then show "separated cx v \<Longrightarrow> ?thesis"
    by (cases "map_of ps k") (force dest: map_of_SomeD)+
qed simp_all


section \<open>A validated envelope is validated again, unchanged\<close>

lemma member_if_simps [simp]: "member_if k None = []" "member_if k (Some s) = [(k, JStr s)]"
  by (simp_all add: member_if_def)

lemma optional_text_simps [simp]: "optional_text None = JUndef" "optional_text (Some s) = JStr s"
  by (simp_all add: optional_text_def)

lemma map_of_member_if [simp]:
  "map_of (member_if k r @ ps) k' = (if k' = k \<and> r \<noteq> None then map_option JStr r else map_of ps k')"
  by (cases r) auto

lemma map_of_member_if_end [simp]:
  "map_of (member_if k r) k' = (if k' = k \<and> r \<noteq> None then map_option JStr r else None)"
  by (cases r) auto

lemma event_value_fields:
  "is_record (event_value e)" "event_fields (event_value e) e" "get (event_value e) ''data'' = ev_data e"
  by (cases "ev_subject e"; cases "ev_causationid e"; cases "ev_traceparent e"; cases "ev_tracestate e";
      simp add: event_value_def event_fields_def)+

lemma event_value_keys:
  "set event_keys \<subseteq> set (keys (event_value e))" "set (keys (event_value e)) \<subseteq> set event_keys \<union> set event_optional_keys"
  by (auto simp: event_value_def event_keys_def event_optional_keys_def member_if_def split: option.splits)

lemma job_value_fields:
  "is_record (job_value j)" "job_fields (job_value j) j" "get (job_value j) ''payload'' = jb_payload j"
  by (cases "notBefore j"; cases "jb_causationId j"; cases "jb_traceparent j"; cases "jb_tracestate j";
      simp add: job_value_def job_fields_def)+

lemma job_value_keys:
  "set job_keys \<subseteq> set (keys (job_value j))" "set (keys (job_value j)) \<subseteq> set job_keys \<union> set job_optional_keys"
  by (auto simp: job_value_def job_keys_def job_optional_keys_def member_if_def split: option.splits)

lemma job_value_policy:
  "policy_ok (jb_policy j) \<Longrightarrow>
     is_record (get (job_value j) ''policy'') \<and> read_policy (get (job_value j) ''policy'') = Inr (jb_policy j)"
  by (cases "notBefore j"; cases "jb_causationId j"; cases "jb_traceparent j"; cases "jb_tracestate j";
      auto simp: job_value_def read_policy_eq)

lemma finish_envelope: "finish cx m0 = Inr m \<Longrightarrow> envelope m = envelope m0"
  by (auto simp: finish_def Let_def result_simps)

lemma proper_get: "proper v \<Longrightarrow> proper (get v k)"
proof (cases v)
  case (JObj ps)
  then show "proper v \<Longrightarrow> ?thesis" by (cases "map_of ps k") (force dest: map_of_SomeD)+
qed simp_all

text \<open>
  Property C40. The canonical envelope of a validated message is itself valid, and validating it again gives the same
  message: the same identifiers, canonical text and digest.
\<close>

theorem validation_is_stable:
  assumes "validateMessageEnvelope cx v = Inr m" "proper v" "collation cx"
  shows "validateMessageEnvelope cx (envelope_value (envelope m)) = Inr m"
proof (cases "''specversion'' \<in> set (keys v)")
  case True
  with assms(1) obtain e t where a: "event_accepted cx v e t" and f: "finish cx (event_message e t) = Inr m"
    by (auto simp: validateMessageEnvelope_def validate_event_eq)
  have "json cx 0 (ev_data e) = Inr (ev_data e)"
    using a json_again [OF assms(3)] proper_get [OF assms(2)] unfolding event_accepted_def by blast
  then have "event_accepted cx (event_value e) e t"
    using a event_value_fields event_value_keys unfolding event_accepted_def by simp
  moreover have "envelope m = Event_message e" using finish_envelope [OF f] by (simp add: event_message_def)
  moreover have "''specversion'' \<in> set (keys (event_value e))" by (simp add: event_value_def)
  ultimately show ?thesis using f by (auto simp: validateMessageEnvelope_def validate_event_eq)
next
  case False
  with assms(1) obtain j r s where a: "job_accepted cx v j r s" and f: "finish cx (job_message j r s) = Inr m"
    by (auto simp: validateMessageEnvelope_def validate_job_eq)
  have "json cx 0 (jb_payload j) = Inr (jb_payload j)"
    using a json_again [OF assms(3)] proper_get [OF assms(2)] unfolding job_accepted_def by blast
  moreover have "policy_ok (jb_policy j)" using a by (simp add: job_accepted_def job_ok_def)
  ultimately have "job_accepted cx (job_value j) j r s"
    using a job_value_fields job_value_keys job_value_policy unfolding job_accepted_def by simp
  moreover have "envelope m = Job_message j" using finish_envelope [OF f] by (simp add: job_message_def)
  moreover have "''specversion'' \<notin> set (keys (job_value j))"
    by (auto simp: job_value_def member_if_def split: option.splits)
  ultimately show ?thesis using f by (auto simp: validateMessageEnvelope_def validate_job_eq)
qed

text \<open>Accepted data: finite numbers, at most 16 levels, objects of at most 256 members with short keys.\<close>

fun data_ok :: "nat \<Rightarrow> jval \<Rightarrow> bool" where
  "data_ok n JUndef = False"
| "data_ok n (JNum x) = is_finite x"
| "data_ok n (JArr xs) = (\<forall>x \<in> set xs. 0 < n \<and> data_ok (n - 1) x)"
| "data_ok n (JObj ps) = (length ps \<le> 256
     \<and> (\<forall>p \<in> set ps. 1 \<le> length (fst p) \<and> length (fst p) \<le> 128 \<and> 0 < n \<and> data_ok (n - 1) (snd p)))"
| "data_ok n _ = True"

lemma json_data_ok: "json cx depth v = Inr w \<Longrightarrow> data_ok (16 - depth) w"
proof (induction v arbitrary: depth w)
  case (JArr xs)
  note deep = json_shallow [OF JArr.prems]
  from deep JArr.prems obtain ys where ys: "mapR (json cx (Suc depth)) xs = Inr ys" "w = JArr ys"
    by (auto simp: json_simps [OF deep] result_simps)
  have "0 < 16 - depth \<and> data_ok (16 - depth - 1) y" if "y \<in> set ys" for y
  proof -
    from mapR_set [OF ys(1) that] obtain x where x: "x \<in> set xs" "json cx (Suc depth) x = Inr y" by blast
    from JArr.IH [OF this] json_shallow [OF x(2)] show ?thesis by simp
  qed
  with ys(2) show ?case by simp
next
  case (JObj ps)
  note deep = json_shallow [OF JObj.prems]
  let ?f = "\<lambda>p. if length (fst p) < 1 \<or> 128 < length (fst p) then invalid
    else bindR (json cx (Suc depth) (snd p)) (\<lambda>w. Inr (fst p, w))"
  from deep JObj.prems obtain qs where len: "\<not> 256 < length ps"
    and qs: "mapR ?f (sort_le (by_key cx) ps) = Inr qs" and w: "w = JObj (own_order qs)"
    by (auto simp: json_simps [OF deep] result_simps split: if_splits)
  have "1 \<le> length (fst q) \<and> length (fst q) \<le> 128 \<and> 0 < 16 - depth \<and> data_ok (16 - depth - 1) (snd q)"
    if "q \<in> set qs" for q
  proof -
    from mapR_set [OF qs that] obtain p where p: "p \<in> set ps" "?f p = Inr q" by auto
    then have *: "json cx (Suc depth) (snd p) = Inr (snd q)" "fst p = fst q" "\<not> (length (fst p) < 1 \<or> 128 < length (fst p))"
      by (auto simp: result_simps split: if_splits)
    have "data_ok (16 - Suc depth) (snd q)" using *(1) by (intro JObj.IH [OF p(1)]) (simp_all add: snds.simps)
    with json_shallow [OF *(1)] *(2,3) show ?thesis by (simp add: Suc_le_eq)
  qed
  with len mapR_length [OF qs] w show ?case by simp
next
  case (JNum n)
  then show ?case by (auto simp: json_atoms [OF json_shallow [OF JNum]] split: if_splits)
qed (use json_shallow in \<open>fastforce simp: json_atoms\<close>)+

lemma validated_shape:
  assumes "validateMessageEnvelope cx v = Inr m"
  shows "(case envelope m of
      Event_message e \<Rightarrow> messageKind m = Event_kind \<and> messageId m = ev_id e \<and> messageType m = ev_type e
        \<and> producer m = ev_source e \<and> correlationId m = ev_correlationid e
        \<and> event_ok e (occurredAt m) \<and> availableAt m = occurredAt m \<and> data_ok 16 (ev_data e)
    | Job_message j \<Rightarrow> messageKind m = Job_kind \<and> messageId m = jb_jobId j \<and> messageType m = jb_jobType j
        \<and> producer m = jb_source j \<and> correlationId m = jb_correlationId j
        \<and> job_ok j (occurredAt m) (availableAt m) \<and> data_ok 16 (jb_payload j))
    \<and> serialized m = json_value (number_text cx) (envelope_value (envelope m))
    \<and> utf8_length (serialized m) \<le> 262144 \<and> payloadSha256 m = sha256 cx (serialized m)"
proof -
  have built: "serialized m = json_value (number_text cx) (envelope_value (envelope m0)) \<and> utf8_length (serialized m) \<le> 262144
      \<and> payloadSha256 m = sha256 cx (serialized m) \<and> (\<exists>s d. m = m0\<lparr>serialized := s, payloadSha256 := d\<rparr>)"
    if "finish cx m0 = Inr m" for m0
    using that by (auto simp: finish_def Let_def result_simps)
  show ?thesis
  proof (cases "''specversion'' \<in> set (keys v)")
    case True
    with assms obtain e t where a: "event_accepted cx v e t" and f: "finish cx (event_message e t) = Inr m"
      by (auto simp: validateMessageEnvelope_def validate_event_eq)
    have "data_ok (16 - 0) (ev_data e)" using a unfolding event_accepted_def by (blast intro: json_data_ok)
    with a built [OF f] show ?thesis by (auto simp: event_message_def event_accepted_def)
  next
    case False
    with assms obtain j r s where a: "job_accepted cx v j r s" and f: "finish cx (job_message j r s) = Inr m"
      by (auto simp: validateMessageEnvelope_def validate_job_eq)
    have "data_ok (16 - 0) (jb_payload j)" using a unfolding job_accepted_def by (blast intro: json_data_ok)
    with a built [OF f] show ?thesis by (auto simp: job_message_def job_accepted_def)
  qed
qed

text \<open>Keys that the collation does not tell apart keep the order they came in.\<close>

lemma order_of_equal_keys_shows:
  assumes "a \<noteq> b" "localeCompare cx a b \<le> 0" "localeCompare cx b a \<le> 0" "array_index a = None" "array_index b = None"
    and "a \<noteq> []" "length a \<le> 128" "b \<noteq> []" "length b \<le> 128"
  shows "json cx 0 (JObj [(a, JNull), (b, JNull)]) = Inr (JObj [(a, JNull), (b, JNull)])"
    and "json cx 0 (JObj [(b, JNull), (a, JNull)]) = Inr (JObj [(b, JNull), (a, JNull)])"
  using assms by (simp_all add: json_simps json_atoms by_key_def own_order_def)

section \<open>A concrete message\<close>

definition sample_codec :: codec where
  "sample_codec = \<lparr>localeCompare = (\<lambda>a b. if a \<le> b then if b \<le> a then 0 else - 1 else 1),
     number_text = (\<lambda>_. ''0''), sha256 = (\<lambda>s. s)\<rparr>"

definition sample_job :: jval where
  "sample_job = JObj [(''jobId'', JStr ''00000000-0000-4000-8000-000000000001''), (''jobType'', JStr ''a.b''),
     (''jobVersion'', JNum (Num (of_int 1))), (''source'', JStr ''urn:ai-crm:a''), (''idempotencyKey'', JStr ''abcdefgh''),
     (''requestedAt'', JStr ''2026-07-26T00:00:00.000Z''),
     (''correlationId'', JStr ''00000000-0000-4000-8000-000000000002''),
     (''policy'', JObj [(''maxAttempts'', JNum (Num (of_int 2))), (''backoffSeconds'', JArr [JNum (Num (of_int 1))]),
        (''timeoutMs'', JNum (Num (of_int 1000))), (''failureDisposition'', JStr ''isolate'')]),
     (''payload'', JObj [(''b'', JBool True), (''a'', JStr ''x'')])]"

lemma sample_codec_collation: "collation sample_codec"
  by (auto simp: collation_def sample_codec_def)

definition sample_envelope :: job_envelope where
  "sample_envelope = \<lparr>jb_jobId = ''00000000-0000-4000-8000-000000000001'', jb_jobType = ''a.b'', jb_jobVersion = 1,
     jb_source = ''urn:ai-crm:a'', idempotencyKey = ''abcdefgh'', requestedAt = ''2026-07-26T00:00:00.000Z'', notBefore = None,
     jb_correlationId = ''00000000-0000-4000-8000-000000000002'', jb_causationId = None, jb_traceparent = None,
     jb_tracestate = None, jb_policy = \<lparr>maxAttempts = 2, backoffSeconds = [1], timeoutMs = 1000\<rparr>,
     jb_payload = JObj [(''a'', JStr ''x''), (''b'', JBool True)]\<rparr>"

definition sample_message :: validated_message where
  "sample_message = (let text = json_value (number_text sample_codec) (job_value sample_envelope) in
     (job_message sample_envelope 1785024000000 1785024000000)\<lparr>serialized := text, payloadSha256 := text\<rparr>)"

lemma sample_texts:
  "text_ok UUID 36 ''00000000-0000-4000-8000-000000000001''" "text_ok UUID 36 ''00000000-0000-4000-8000-000000000002''"
  "text_ok IDENTIFIER 128 ''a.b''" "text_ok SOURCE 256 ''urn:ai-crm:a''" "text_ok IDEMPOTENCY_KEY 128 ''abcdefgh''"
  "text_ok TIMESTAMP 24 ''2026-07-26T00:00:00.000Z''" "iso_instant ''2026-07-26T00:00:00.000Z'' = Some 1785024000000"
  by code_simp+

lemma sample_payload:
  "json sample_codec 0 (JObj [(''b'', JBool True), (''a'', JStr ''x'')]) = Inr (JObj [(''a'', JStr ''x''), (''b'', JBool True)])"
  by code_simp

lemma sample_job_accepted: "job_accepted sample_codec sample_job sample_envelope 1785024000000 1785024000000"
  unfolding job_accepted_def read_policy_eq job_fields_def job_ok_def sample_job_def sample_envelope_def
  by (simp add: sample_texts sample_payload policy_ok_def job_keys_def job_optional_keys_def)

lemma envelope_of_job: "envelope (job_message j r a) = Job_message j"
  by (simp add: job_message_def)

lemma sample_sha: "sha256 sample_codec s = s"
  by (simp add: sample_codec_def)

lemma sample_job_valid: "validateMessageEnvelope sample_codec sample_job = Inr sample_message"
proof -
  have "utf8_length (json_value (number_text sample_codec) (job_value sample_envelope)) \<le> 600" by code_simp
  then have "utf8_length (json_value (number_text sample_codec) (job_value sample_envelope)) \<le> 262144"
    by (rule order_trans) simp
  then have "finish sample_codec (job_message sample_envelope 1785024000000 1785024000000) = Inr sample_message"
    by (simp only: finish_def sample_message_def Let_def envelope_of_job envelope_value.simps check_True bindR.simps
        sample_sha simp_thms)
  then have "validateJobEnvelope sample_codec sample_job = Inr sample_message"
    unfolding validate_job_eq using sample_job_accepted by blast
  moreover have "''specversion'' \<notin> set (keys sample_job)" by (simp add: sample_job_def)
  ultimately show ?thesis by (simp add: validateMessageEnvelope_def)
qed

lemma sample_job_proper: "proper sample_job" "separated sample_codec sample_job"
  by (simp_all add: sample_job_def told_apart_def sample_codec_def)

lemma sample_job_valid': "validateJobEnvelope sample_codec sample_job = Inr sample_message"
  using sample_job_valid by (simp add: validateMessageEnvelope_def sample_job_def)

lemma sample_message_fields:
  "envelope sample_message = Job_message sample_envelope" "messageId sample_message = ''00000000-0000-4000-8000-000000000001''"
  "messageKind sample_message = Job_kind" "messageType sample_message = ''a.b''" "messageVersion sample_message = Num (of_int 1)"
  "availableAt sample_message = 1785024000000" "jb_jobId sample_envelope = ''00000000-0000-4000-8000-000000000001''"
  "timeoutMs (jb_policy sample_envelope) = 1000" "maxAttempts (jb_policy sample_envelope) = 2"
  "backoffSeconds (jb_policy sample_envelope) = [1]"
  by (simp_all add: sample_message_def job_message_def Let_def sample_envelope_def)


theorem validation_is_stable_witness:
  "validateMessageEnvelope sample_codec (envelope_value (Job_message sample_envelope)) = Inr sample_message"
  using validation_is_stable [OF sample_job_valid sample_job_proper(1) sample_codec_collation] by (simp add: sample_message_fields)

end
