(* ===== verification/Event_Store.thy ===== *)
theory Event_Store
  imports Event_Messages
begin

text \<open>
  \<open>packages/platform-modules/eventing-outbox/src/\<close>: \<open>store.ts\<close> and \<open>memory-store.ts\<close>.

  An asynchronous operation is an \<open>action\<close>: it takes the state of the store and returns the new state with
  a value or a failure. \<open>eventing_store\<close> is the TypeScript interface, a record of such operations over a
  state \<open>'s\<close>. The locale \<open>event_store\<close> is its contract over abstract \<open>facts\<close>: four finite maps, and the
  data of the module that owns a message handler, which lives in the same database and is
  written in the same transaction. An operation either behaves as specified or fails, with an error that is not
  \<open>eventing_conflict\<close>, and leaves the facts as they were. The in-memory store is interpreted.
\<close>

section \<open>Actions\<close>

type_synonym ('s, 'a) action = "'s \<Rightarrow> (failure + 'a) \<times> 's"

definition ret :: "'a \<Rightarrow> ('s, 'a) action" where
  "ret x s = (Inr x, s)"

definition throw :: "failure \<Rightarrow> ('s, 'a) action" where
  "throw e s = (Inl e, s)"

definition bindA :: "('s, 'a) action \<Rightarrow> ('a \<Rightarrow> ('s, 'b) action) \<Rightarrow> ('s, 'b) action" where
  "bindA m f s = (case m s of (Inl e, t) \<Rightarrow> (Inl e, t) | (Inr x, t) \<Rightarrow> f x t)"

definition catchA :: "('s, 'a) action \<Rightarrow> (failure \<Rightarrow> ('s, 'a) action) \<Rightarrow> ('s, 'a) action" where
  "catchA m h s = (case m s of (Inl e, t) \<Rightarrow> h e t | (Inr x, t) \<Rightarrow> (Inr x, t))"

definition lift :: "failure + 'a \<Rightarrow> ('s, 'a) action" where
  "lift r s = (r, s)"

text \<open>\<open>transaction\<close>: work that throws leaves nothing behind.\<close>

definition transaction :: "('s, 'a) action \<Rightarrow> ('s, 'a) action" where
  "transaction m s = (case m s of (Inl e, t) \<Rightarrow> (Inl e, s) | (Inr x, t) \<Rightarrow> (Inr x, t))"

section \<open>Records\<close>

datatype outbox_status = Pending | Publishing | Published | Isolated

datatype job_status = Queued | Processing | Cancelled | Completed | Job_isolated

text \<open>What is to be published, and how far its publication is.\<close>

record outbox_message =
  ob_messageId :: string
  ob_messageKind :: message_kind
  ob_messageType :: string
  ob_messageVersion :: jnum
  ob_producer :: string
  ob_occurredAt :: int
  ob_correlationId :: string
  ob_payload :: string
  ob_payloadSha256 :: string
  ob_causationId :: "string option"
  ob_traceparent :: "string option"
  ob_tracestate :: "string option"

record outbox_record = outbox_message +
  ob_availableAt :: int
  attemptCount :: nat
  ob_status :: outbox_status
  claimToken :: "string option"
  claimedAt :: "int option"
  publishedAt :: "int option"
  isolatedAt :: "int option"
  lastErrorCode :: "string option"

record inbox_receipt =
  rc_messageId :: string
  rc_consumer :: string
  rc_payloadSha256 :: string
  rc_completedAt :: int

record job_record =
  jobId :: string
  job_key :: string
  job_fingerprint :: string
  job_status :: job_status
  job_envelope :: job_envelope
  cancelReason :: "string option"

datatype isolation_reason = Payload_conflict | Unsupported_message | Authoritative_state_rejected

record isolation_record =
  isolationId :: string
  is_messageId :: string
  is_consumer :: string
  is_payloadSha256 :: string
  is_reason :: isolation_reason
  is_attempt :: int
  is_isolatedAt :: int

definition outboxRecord :: "validated_message \<Rightarrow> outbox_record" where
  "outboxRecord m = \<lparr>ob_messageId = messageId m, ob_messageKind = messageKind m, ob_messageType = messageType m,
     ob_messageVersion = messageVersion m, ob_producer = producer m, ob_occurredAt = occurredAt m,
     ob_correlationId = correlationId m, ob_payload = serialized m, ob_payloadSha256 = payloadSha256 m,
     ob_causationId = causationId m, ob_traceparent = traceparent m, ob_tracestate = tracestate m,
     ob_availableAt = availableAt m, attemptCount = 0, ob_status = Pending, claimToken = None, claimedAt = None,
     publishedAt = None, isolatedAt = None, lastErrorCode = None\<rparr>"

record failure_mark =
  fm_messageId :: string
  fm_claimToken :: "string option"
  fm_at :: int
  fm_availableAt :: int
  fm_errorCode :: string
  fm_isolate :: bool

record backlog_report =
  pendingCount :: nat
  publishingCount :: nat
  isolatedCount :: nat
  inboxReceiptCount :: nat
  queuedJobCount :: nat
  oldestPendingAt :: "string option"

record reconciliation =
  missingInbox :: "(string \<times> string) list"
  missingOutboxMessageIds :: "string list"
  isolatedOutboxMessageIds :: "string list"

record 's eventing_store =
  appendOutbox :: "outbox_record \<Rightarrow> ('s, unit) action"
  getOutbox :: "string \<Rightarrow> ('s, outbox_record option) action"
  claimOutbox :: "int \<Rightarrow> int \<Rightarrow> nat \<Rightarrow> (nat \<Rightarrow> string) \<Rightarrow> ('s, outbox_record list) action"
  markOutboxPublished :: "string \<Rightarrow> string option \<Rightarrow> int \<Rightarrow> ('s, bool) action"
  markOutboxFailure :: "failure_mark \<Rightarrow> ('s, bool) action"
  replayOutbox :: "string \<Rightarrow> int \<Rightarrow> ('s, bool) action"
  findInboxReceipt :: "string \<Rightarrow> string \<Rightarrow> ('s, inbox_receipt option) action"
  createInboxReceipt :: "inbox_receipt \<Rightarrow> ('s, unit) action"
  createIsolation :: "isolation_record \<Rightarrow> ('s, unit) action"
  findJob :: "string \<Rightarrow> ('s, job_record option) action"
  findJobByIdempotencyKey :: "string \<Rightarrow> ('s, job_record option) action"
  createJob :: "job_record \<Rightarrow> ('s, unit) action"
  claimJob :: "string \<Rightarrow> ('s, job_record option) action"
  st_cancelJob :: "string \<Rightarrow> string \<Rightarrow> ('s, job_record option) action"
  completeJob :: "string \<Rightarrow> ('s, bool) action"
  isolateJob :: "string \<Rightarrow> ('s, bool) action"
  backlog :: "('s, backlog_report) action"
  reconcile :: "string list \<Rightarrow> (string \<times> string) list \<Rightarrow> ('s, reconciliation) action"

section \<open>The in-memory store\<close>

record 'w memory_store =
  outbox_rows :: "(string \<times> outbox_record) list"
  inbox_rows :: "(string \<times> inbox_receipt) list"
  job_rows :: "(string \<times> job_record) list"
  isolation_rows :: "(string \<times> isolation_record) list"
  failPublishedUpdate :: bool
  owner_data :: 'w

definition conflict :: failure where
  "conflict = EventingError Eventing_conflict False"

definition inboxKey :: "string \<Rightarrow> string \<Rightarrow> string" where
  "inboxKey i consumer = i @ [CHR 0x00] @ consumer"

definition memory_appendOutbox :: "outbox_record \<Rightarrow> ('w memory_store, unit) action" where
  "memory_appendOutbox r s = (if map_of (outbox_rows s) (ob_messageId r) \<noteq> None then (Inl conflict, s)
     else (Inr (), s\<lparr>outbox_rows := AList.update (ob_messageId r) r (outbox_rows s)\<rparr>))"

definition claimable :: "int \<Rightarrow> int \<Rightarrow> outbox_record \<Rightarrow> bool" where
  "claimable now staleBefore r \<longleftrightarrow> ob_status r = Pending \<and> ob_availableAt r \<le> now
     \<or> ob_status r = Publishing \<and> (case claimedAt r of None \<Rightarrow> False | Some t \<Rightarrow> t \<le> staleBefore)"

definition claimed_by :: "int \<Rightarrow> string \<Rightarrow> outbox_record \<Rightarrow> outbox_record" where
  "claimed_by now token r = r\<lparr>attemptCount := attemptCount r + 1, ob_status := Publishing,
     claimToken := Some token, claimedAt := Some now\<rparr>"

definition memory_claimOutbox :: "int \<Rightarrow> int \<Rightarrow> nat \<Rightarrow> (nat \<Rightarrow> string) \<Rightarrow> ('w memory_store, outbox_record list) action" where
  "memory_claimOutbox now staleBefore limit token s =
     (let chosen = take limit (sort_le (\<lambda>a b. ob_availableAt a \<le> ob_availableAt b)
            (filter (claimable now staleBefore) (map snd (outbox_rows s))));
          claimed = map (\<lambda>(n, r). claimed_by now (token n) r) (enumerate 0 chosen)
      in (Inr claimed, s\<lparr>outbox_rows := fold (\<lambda>r. AList.update (ob_messageId r) r) claimed (outbox_rows s)\<rparr>))"

definition holds_claim :: "string option \<Rightarrow> outbox_record \<Rightarrow> bool" where
  "holds_claim token r \<longleftrightarrow> ob_status r = Publishing \<and> claimToken r = token"

definition as_published :: "int \<Rightarrow> outbox_record \<Rightarrow> outbox_record" where
  "as_published now r = r\<lparr>ob_status := Published, claimToken := None, claimedAt := None, publishedAt := Some now\<rparr>"

definition memory_markOutboxPublished :: "string \<Rightarrow> string option \<Rightarrow> int \<Rightarrow> ('w memory_store, bool) action" where
  "memory_markOutboxPublished i token now s =
     (if failPublishedUpdate s then (Inl (EventingError Eventing_storage_unavailable True), s)
      else case map_of (outbox_rows s) i of
        None \<Rightarrow> (Inr False, s)
      | Some r \<Rightarrow> if holds_claim token r
          then (Inr True, s\<lparr>outbox_rows := AList.update i (as_published now r) (outbox_rows s)\<rparr>) else (Inr False, s))"

definition as_failed :: "failure_mark \<Rightarrow> outbox_record \<Rightarrow> outbox_record" where
  "as_failed fm r = r\<lparr>ob_status := (if fm_isolate fm then Isolated else Pending), ob_availableAt := fm_availableAt fm,
     claimToken := None, claimedAt := None, lastErrorCode := Some (fm_errorCode fm),
     isolatedAt := (if fm_isolate fm then Some (fm_at fm) else None)\<rparr>"

definition memory_markOutboxFailure :: "failure_mark \<Rightarrow> ('w memory_store, bool) action" where
  "memory_markOutboxFailure fm s = (case map_of (outbox_rows s) (fm_messageId fm) of
       None \<Rightarrow> (Inr False, s)
     | Some r \<Rightarrow> if holds_claim (fm_claimToken fm) r
         then (Inr True, s\<lparr>outbox_rows := AList.update (fm_messageId fm) (as_failed fm r) (outbox_rows s)\<rparr>)
         else (Inr False, s))"

definition as_replayed :: "int \<Rightarrow> outbox_record \<Rightarrow> outbox_record" where
  "as_replayed now r = r\<lparr>ob_status := Pending, attemptCount := 0, ob_availableAt := now, isolatedAt := None,
     lastErrorCode := None\<rparr>"

definition memory_replayOutbox :: "string \<Rightarrow> int \<Rightarrow> ('w memory_store, bool) action" where
  "memory_replayOutbox i now s = (case map_of (outbox_rows s) i of
       None \<Rightarrow> (Inr False, s)
     | Some r \<Rightarrow> if ob_status r = Isolated
         then (Inr True, s\<lparr>outbox_rows := AList.update i (as_replayed now r) (outbox_rows s)\<rparr>) else (Inr False, s))"

definition memory_createInboxReceipt :: "inbox_receipt \<Rightarrow> ('w memory_store, unit) action" where
  "memory_createInboxReceipt r s = (let key = inboxKey (rc_messageId r) (rc_consumer r) in
     if map_of (inbox_rows s) key \<noteq> None then (Inl conflict, s)
     else (Inr (), s\<lparr>inbox_rows := AList.update key r (inbox_rows s)\<rparr>))"

definition same_isolation :: "isolation_record \<Rightarrow> isolation_record \<Rightarrow> bool" where
  "same_isolation a b \<longleftrightarrow> is_messageId a = is_messageId b \<and> is_consumer a = is_consumer b
     \<and> is_payloadSha256 a = is_payloadSha256 b \<and> is_reason a = is_reason b"

definition memory_createIsolation :: "isolation_record \<Rightarrow> ('w memory_store, unit) action" where
  "memory_createIsolation r s = (Inr (),
     if list_ex (\<lambda>item. same_isolation item r) (map snd (isolation_rows s)) then s
     else s\<lparr>isolation_rows := AList.update (isolationId r) r (isolation_rows s)\<rparr>)"

definition memory_findJobByIdempotencyKey :: "string \<Rightarrow> ('w memory_store, job_record option) action" where
  "memory_findJobByIdempotencyKey key s = (Inr (find (\<lambda>r. job_key r = key) (map snd (job_rows s))), s)"

definition memory_createJob :: "job_record \<Rightarrow> ('w memory_store, unit) action" where
  "memory_createJob r s =
     (if map_of (job_rows s) (jobId r) \<noteq> None \<or> list_ex (\<lambda>item. job_key item = job_key r) (map snd (job_rows s))
      then (Inl conflict, s) else (Inr (), s\<lparr>job_rows := AList.update (jobId r) r (job_rows s)\<rparr>))"

definition memory_claimJob :: "string \<Rightarrow> ('w memory_store, job_record option) action" where
  "memory_claimJob i s = (case map_of (job_rows s) i of
       None \<Rightarrow> (Inr None, s)
     | Some r \<Rightarrow> if job_status r \<noteq> Queued then (Inr None, s)
         else (let next = r\<lparr>job_status := Processing\<rparr>
               in (Inr (Some next), s\<lparr>job_rows := AList.update i next (job_rows s)\<rparr>)))"

definition memory_cancelJob :: "string \<Rightarrow> string \<Rightarrow> ('w memory_store, job_record option) action" where
  "memory_cancelJob i reason s = (case map_of (job_rows s) i of
       None \<Rightarrow> (Inr None, s)
     | Some r \<Rightarrow> if job_status r \<noteq> Queued then (Inr (Some r), s)
         else (let next = r\<lparr>job_status := Cancelled, cancelReason := Some reason\<rparr>
               in (Inr (Some next), s\<lparr>job_rows := AList.update i next (job_rows s)\<rparr>)))"

definition memory_finishJob :: "job_status \<Rightarrow> string \<Rightarrow> ('w memory_store, bool) action" where
  "memory_finishJob status i s = (case map_of (job_rows s) i of
       None \<Rightarrow> (Inr False, s)
     | Some r \<Rightarrow> if job_status r \<noteq> Processing then (Inr False, s)
         else (Inr True, s\<lparr>job_rows := AList.update i (r\<lparr>job_status := status\<rparr>) (job_rows s)\<rparr>))"

definition with_status :: "outbox_status \<Rightarrow> 'w memory_store \<Rightarrow> outbox_record list" where
  "with_status status s = filter (\<lambda>r. ob_status r = status) (map snd (outbox_rows s))"

definition memory_backlog :: "('w memory_store, backlog_report) action" where
  "memory_backlog s = (let pending = with_status Pending s in (Inr
     \<lparr>pendingCount = length pending, publishingCount = length (with_status Publishing s),
      isolatedCount = length (isolation_rows s) + length (with_status Isolated s),
      inboxReceiptCount = length (inbox_rows s),
      queuedJobCount = length (filter (\<lambda>r. job_status r = Queued) (map snd (job_rows s))),
      oldestPendingAt = (case sort_le (\<lambda>a b. ob_availableAt a \<le> ob_availableAt b) pending of
         [] \<Rightarrow> None | oldest # _ \<Rightarrow> Some (to_iso (ob_availableAt oldest)))\<rparr>, s))"

definition memory_reconcile :: "string list \<Rightarrow> (string \<times> string) list \<Rightarrow> ('w memory_store, reconciliation) action" where
  "memory_reconcile expectedOutbox expectedInbox s = (Inr
     \<lparr>missingInbox = filter (\<lambda>(i, c). map_of (inbox_rows s) (inboxKey i c) = None) expectedInbox,
      missingOutboxMessageIds = filter (\<lambda>i. map_of (outbox_rows s) i = None) expectedOutbox,
      isolatedOutboxMessageIds = filter (\<lambda>i. map_option ob_status (map_of (outbox_rows s) i) = Some Isolated) expectedOutbox\<rparr>, s)"

definition memory_eventing_store :: "'w memory_store eventing_store" where
  "memory_eventing_store = \<lparr>appendOutbox = memory_appendOutbox,
     getOutbox = (\<lambda>i s. (Inr (map_of (outbox_rows s) i), s)), claimOutbox = memory_claimOutbox,
     markOutboxPublished = memory_markOutboxPublished, markOutboxFailure = memory_markOutboxFailure,
     replayOutbox = memory_replayOutbox,
     findInboxReceipt = (\<lambda>i c s. (Inr (map_of (inbox_rows s) (inboxKey i c)), s)),
     createInboxReceipt = memory_createInboxReceipt, createIsolation = memory_createIsolation,
     findJob = (\<lambda>i s. (Inr (map_of (job_rows s) i), s)),
     findJobByIdempotencyKey = memory_findJobByIdempotencyKey, createJob = memory_createJob,
     claimJob = memory_claimJob, st_cancelJob = memory_cancelJob, completeJob = memory_finishJob Completed,
     isolateJob = memory_finishJob Job_isolated, backlog = memory_backlog, reconcile = memory_reconcile\<rparr>"

definition empty_memory_store :: "'w \<Rightarrow> 'w memory_store" where
  "empty_memory_store w = \<lparr>outbox_rows = [], inbox_rows = [], job_rows = [], isolation_rows = [],
     failPublishedUpdate = False, owner_data = w\<rparr>"

section \<open>The contract\<close>

record 'w facts =
  outbox :: "string \<rightharpoonup> outbox_record"
  inbox :: "string \<times> string \<rightharpoonup> inbox_receipt"
  jobs :: "string \<rightharpoonup> job_record"
  isolations :: "string \<rightharpoonup> isolation_record"
  owner :: 'w

type_synonym ('w, 'a) relation = "'w facts \<Rightarrow> failure + 'a \<Rightarrow> 'w facts \<Rightarrow> bool"

definition faulty :: "('w, 'a) relation" where
  "faulty f r g \<longleftrightarrow> g = f \<and> (\<exists>e. r = Inl e \<and> (\<forall>b. e \<noteq> EventingError Eventing_conflict b))"

definition meets :: "('s \<Rightarrow> bool) \<Rightarrow> ('s \<Rightarrow> 'w facts) \<Rightarrow> ('s, 'a) action \<Rightarrow> ('w, 'a) relation \<Rightarrow> bool" where
  "meets ok view m spec \<longleftrightarrow> (\<forall>s r t. ok s \<longrightarrow> m s = (r, t) \<longrightarrow>
     ok t \<and> (faulty (view s) r (view t) \<or> spec (view s) r (view t)))"

definition spec_read :: "('w facts \<Rightarrow> 'a) \<Rightarrow> ('w, 'a) relation" where
  "spec_read h f r g \<longleftrightarrow> r = Inr (h f) \<and> g = f"

definition spec_append :: "outbox_record \<Rightarrow> ('w, unit) relation" where
  "spec_append row f r g \<longleftrightarrow> (if outbox f (ob_messageId row) = None
     then r = Inr () \<and> g = f\<lparr>outbox := (outbox f)(ob_messageId row \<mapsto> row)\<rparr> else r = Inl conflict \<and> g = f)"

definition spec_claim :: "int \<Rightarrow> int \<Rightarrow> nat \<Rightarrow> (nat \<Rightarrow> string) \<Rightarrow> ('w, outbox_record list) relation" where
  "spec_claim now staleBefore limit token f r g \<longleftrightarrow> (\<exists>rows. r = Inr rows
     \<and> distinct (map ob_messageId rows) \<and> length rows \<le> limit
     \<and> (\<forall>n < length rows. \<exists>old. outbox f (ob_messageId (rows ! n)) = Some old \<and> claimable now staleBefore old
          \<and> rows ! n = claimed_by now (token n) old)
     \<and> (length rows < limit \<longrightarrow> (\<forall>i old. outbox f i = Some old \<longrightarrow> claimable now staleBefore old \<longrightarrow> i \<in> ob_messageId ` set rows))
     \<and> g = f\<lparr>outbox := outbox f ++ map_of (map (\<lambda>row. (ob_messageId row, row)) rows)\<rparr>)"

definition spec_move :: "string \<Rightarrow> (outbox_record \<Rightarrow> bool) \<Rightarrow> (outbox_record \<Rightarrow> outbox_record) \<Rightarrow> ('w, bool) relation" where
  "spec_move i P h f r g \<longleftrightarrow> (case outbox f i of
       Some row \<Rightarrow> if P row then r = Inr True \<and> g = f\<lparr>outbox := (outbox f)(i \<mapsto> h row)\<rparr> else r = Inr False \<and> g = f
     | None \<Rightarrow> r = Inr False \<and> g = f)"

definition spec_receipt :: "inbox_receipt \<Rightarrow> ('w, unit) relation" where
  "spec_receipt row f r g \<longleftrightarrow> (if inbox f (rc_messageId row, rc_consumer row) = None
     then r = Inr () \<and> g = f\<lparr>inbox := (inbox f)((rc_messageId row, rc_consumer row) \<mapsto> row)\<rparr>
     else r = Inl conflict \<and> g = f)"

definition spec_isolation :: "isolation_record \<Rightarrow> ('w, unit) relation" where
  "spec_isolation row f r g \<longleftrightarrow> r = Inr () \<and> g = (if \<exists>item \<in> ran (isolations f). same_isolation item row then f
     else f\<lparr>isolations := (isolations f)(isolationId row \<mapsto> row)\<rparr>)"

definition spec_find_key :: "string \<Rightarrow> ('w, job_record option) relation" where
  "spec_find_key key f r g \<longleftrightarrow> g = f \<and> (\<exists>found. r = Inr found \<and> (case found of
       Some row \<Rightarrow> row \<in> ran (jobs f) \<and> job_key row = key | None \<Rightarrow> \<forall>row \<in> ran (jobs f). job_key row \<noteq> key))"

definition spec_create_job :: "job_record \<Rightarrow> ('w, unit) relation" where
  "spec_create_job row f r g \<longleftrightarrow> (if jobs f (jobId row) = None \<and> (\<forall>item \<in> ran (jobs f). job_key item \<noteq> job_key row)
     then r = Inr () \<and> g = f\<lparr>jobs := (jobs f)(jobId row \<mapsto> row)\<rparr> else r = Inl conflict \<and> g = f)"

definition spec_claim_job :: "string \<Rightarrow> ('w, job_record option) relation" where
  "spec_claim_job i f r g \<longleftrightarrow> (case jobs f i of
       Some row \<Rightarrow> if job_status row = Queued
         then r = Inr (Some (row\<lparr>job_status := Processing\<rparr>)) \<and> g = f\<lparr>jobs := (jobs f)(i \<mapsto> row\<lparr>job_status := Processing\<rparr>)\<rparr>
         else r = Inr None \<and> g = f
     | None \<Rightarrow> r = Inr None \<and> g = f)"

definition spec_cancel_job :: "string \<Rightarrow> string \<Rightarrow> ('w, job_record option) relation" where
  "spec_cancel_job i reason f r g \<longleftrightarrow> (case jobs f i of
       Some row \<Rightarrow> if job_status row = Queued
         then r = Inr (Some (row\<lparr>job_status := Cancelled, cancelReason := Some reason\<rparr>))
           \<and> g = f\<lparr>jobs := (jobs f)(i \<mapsto> row\<lparr>job_status := Cancelled, cancelReason := Some reason\<rparr>)\<rparr>
         else r = Inr (Some row) \<and> g = f
     | None \<Rightarrow> r = Inr None \<and> g = f)"

definition spec_finish_job :: "job_status \<Rightarrow> string \<Rightarrow> ('w, bool) relation" where
  "spec_finish_job status i f r g \<longleftrightarrow> (case jobs f i of
       Some row \<Rightarrow> if job_status row = Processing
         then r = Inr True \<and> g = f\<lparr>jobs := (jobs f)(i \<mapsto> row\<lparr>job_status := status\<rparr>)\<rparr> else r = Inr False \<and> g = f
     | None \<Rightarrow> r = Inr False \<and> g = f)"

definition spec_backlog :: "('w, backlog_report) relation" where
  "spec_backlog f r g \<longleftrightarrow> g = f \<and> (\<exists>b. r = Inr b
     \<and> pendingCount b = card {i. map_option ob_status (outbox f i) = Some Pending}
     \<and> publishingCount b = card {i. map_option ob_status (outbox f i) = Some Publishing}
     \<and> isolatedCount b = card (dom (isolations f)) + card {i. map_option ob_status (outbox f i) = Some Isolated}
     \<and> inboxReceiptCount b = card (dom (inbox f))
     \<and> queuedJobCount b = card {i. map_option job_status (jobs f i) = Some Queued}
     \<and> (oldestPendingAt b = None \<longleftrightarrow> pendingCount b = 0))"

definition reconciled :: "string list \<Rightarrow> (string \<times> string) list \<Rightarrow> 'w facts \<Rightarrow> reconciliation" where
  "reconciled outbox_ids inbox_ids f =
     \<lparr>missingInbox = filter (\<lambda>p. inbox f p = None) inbox_ids,
      missingOutboxMessageIds = filter (\<lambda>i. outbox f i = None) outbox_ids,
      isolatedOutboxMessageIds = filter (\<lambda>i. map_option ob_status (outbox f i) = Some Isolated) outbox_ids\<rparr>"

text \<open>A message identifier has no NUL character, which separates it from the consumer in the key of the inbox.\<close>

abbreviation plain :: "string \<Rightarrow> bool" where
  "plain i \<equiv> CHR 0x00 \<notin> set i"

locale event_store =
  fixes st :: "'s eventing_store" and abs :: "'s \<Rightarrow> 'w facts" and inv :: "'s \<Rightarrow> bool"
  assumes append: "meets inv abs (appendOutbox st row) (spec_append row)"
    and get_outbox: "meets inv abs (getOutbox st i) (spec_read (\<lambda>f. outbox f i))"
    and claim: "meets inv abs (claimOutbox st now staleBefore limit token) (spec_claim now staleBefore limit token)"
    and published: "meets inv abs (markOutboxPublished st i tok now) (spec_move i (holds_claim tok) (as_published now))"
    and failed: "meets inv abs (markOutboxFailure st fm) (spec_move (fm_messageId fm) (holds_claim (fm_claimToken fm)) (as_failed fm))"
    and replayed: "meets inv abs (replayOutbox st i now) (spec_move i (\<lambda>r. ob_status r = Isolated) (as_replayed now))"
    and find_receipt: "plain i \<Longrightarrow> meets inv abs (findInboxReceipt st i c) (spec_read (\<lambda>f. inbox f (i, c)))"
    and create_receipt: "plain (rc_messageId rc) \<Longrightarrow> meets inv abs (createInboxReceipt st rc) (spec_receipt rc)"
    and create_isolation: "meets inv abs (createIsolation st isol) (spec_isolation isol)"
    and find_job: "meets inv abs (findJob st i) (spec_read (\<lambda>f. jobs f i))"
    and find_key: "meets inv abs (findJobByIdempotencyKey st key) (spec_find_key key)"
    and create_job: "meets inv abs (createJob st job) (spec_create_job job)"
    and claim_job: "meets inv abs (claimJob st i) (spec_claim_job i)"
    and cancel_job: "meets inv abs (st_cancelJob st i reason) (spec_cancel_job i reason)"
    and complete_job: "meets inv abs (completeJob st i) (spec_finish_job Completed i)"
    and isolate_job: "meets inv abs (isolateJob st i) (spec_finish_job Job_isolated i)"
    and count: "meets inv abs (backlog st) spec_backlog"
    and compare: "\<forall>(i, c) \<in> set inbox_ids. plain i \<Longrightarrow>
      meets inv abs (reconcile st outbox_ids inbox_ids) (spec_read (reconciled outbox_ids inbox_ids))"
    and job_ids: "inv s \<Longrightarrow> jobs (abs s) i = Some job \<Longrightarrow> jobId job = i"
    and outbox_ids: "inv s \<Longrightarrow> outbox (abs s) i = Some row \<Longrightarrow> ob_messageId row = i"

section \<open>The in-memory store keeps the contract\<close>

definition memory_inv :: "'w memory_store \<Rightarrow> bool" where
  "memory_inv s \<longleftrightarrow> distinct (map fst (outbox_rows s)) \<and> (\<forall>(k, r) \<in> set (outbox_rows s). ob_messageId r = k)
     \<and> distinct (map fst (inbox_rows s))
     \<and> (\<forall>(k, r) \<in> set (inbox_rows s). k = inboxKey (rc_messageId r) (rc_consumer r) \<and> plain (rc_messageId r))
     \<and> distinct (map fst (job_rows s)) \<and> (\<forall>(k, r) \<in> set (job_rows s). jobId r = k)
     \<and> distinct (map fst (isolation_rows s))"

definition memory_abs :: "'w memory_store \<Rightarrow> 'w facts" where
  "memory_abs s = \<lparr>outbox = map_of (outbox_rows s),
     inbox = (\<lambda>(i, c). if plain i then map_of (inbox_rows s) (inboxKey i c) else None),
     jobs = map_of (job_rows s), isolations = map_of (isolation_rows s), owner = owner_data s\<rparr>"

lemma inboxKey_inj: "plain i \<Longrightarrow> plain i' \<Longrightarrow> inboxKey i c = inboxKey i' c' \<longleftrightarrow> i = i' \<and> c = c'"
proof (induction i arbitrary: i')
  case Nil
  then show ?case by (cases i') (auto simp: inboxKey_def)
next
  case (Cons a i)
  then show ?case by (cases i') (auto simp: inboxKey_def)
qed

lemma in_set_update: "p \<in> set (AList.update k v m) \<Longrightarrow> p = (k, v) \<or> p \<in> set m"
  by (induction m) (auto split: if_splits)

lemma memory_invI:
  assumes "memory_inv s"
  shows "ob_messageId r = i \<Longrightarrow> memory_inv (s\<lparr>outbox_rows := AList.update i r (outbox_rows s)\<rparr>)"
    and "jobId j = i \<Longrightarrow> memory_inv (s\<lparr>job_rows := AList.update i j (job_rows s)\<rparr>)"
    and "plain (rc_messageId rc) \<Longrightarrow>
      memory_inv (s\<lparr>inbox_rows := AList.update (inboxKey (rc_messageId rc) (rc_consumer rc)) rc (inbox_rows s)\<rparr>)"
    and "memory_inv (s\<lparr>isolation_rows := AList.update i isol (isolation_rows s)\<rparr>)"
  using assms by (auto simp: memory_inv_def distinct_update dest!: in_set_update)

lemma memory_abs_update:
  "memory_abs (s\<lparr>outbox_rows := AList.update i r (outbox_rows s)\<rparr>) = (memory_abs s)\<lparr>outbox := (outbox (memory_abs s))(i \<mapsto> r)\<rparr>"
  "memory_abs (s\<lparr>job_rows := AList.update i j (job_rows s)\<rparr>) = (memory_abs s)\<lparr>jobs := (jobs (memory_abs s))(i \<mapsto> j)\<rparr>"
  "memory_abs (s\<lparr>isolation_rows := AList.update i isol (isolation_rows s)\<rparr>)
     = (memory_abs s)\<lparr>isolations := (isolations (memory_abs s))(i \<mapsto> isol)\<rparr>"
  "plain (rc_messageId rc) \<Longrightarrow>
    memory_abs (s\<lparr>inbox_rows := AList.update (inboxKey (rc_messageId rc) (rc_consumer rc)) rc (inbox_rows s)\<rparr>)
    = (memory_abs s)\<lparr>inbox := (inbox (memory_abs s))((rc_messageId rc, rc_consumer rc) \<mapsto> rc)\<rparr>"
  by (auto simp: memory_abs_def update_conv' inboxKey_inj fun_eq_iff)

lemma memory_reads [simp]:
  "outbox (memory_abs s) = map_of (outbox_rows s)" "jobs (memory_abs s) = map_of (job_rows s)"
  "isolations (memory_abs s) = map_of (isolation_rows s)"
  "plain i \<Longrightarrow> inbox (memory_abs s) (i, c) = map_of (inbox_rows s) (inboxKey i c)"
  by (simp_all add: memory_abs_def)

lemma memory_ids: "memory_inv s \<Longrightarrow> map_of (outbox_rows s) i = Some r \<Longrightarrow> ob_messageId r = i"
  "memory_inv s \<Longrightarrow> map_of (job_rows s) i = Some j \<Longrightarrow> jobId j = i"
  by (auto simp: memory_inv_def dest!: map_of_SomeD)

lemma memory_ran: "memory_inv s \<Longrightarrow> ran (map_of (job_rows s)) = set (map snd (job_rows s))"
  "memory_inv s \<Longrightarrow> ran (map_of (isolation_rows s)) = set (map snd (isolation_rows s))"
  by (simp_all add: memory_inv_def ran_distinct)

lemma meetsI: "(\<And>s r t. ok s \<Longrightarrow> m s = (r, t) \<Longrightarrow> ok t \<and> spec (view s) r (view t)) \<Longrightarrow> meets ok view m spec"
  unfolding meets_def by blast

lemma memory_append: "meets memory_inv memory_abs (memory_appendOutbox row) (spec_append row)"
  by (rule meetsI) (auto simp: memory_appendOutbox_def spec_append_def memory_abs_update intro: memory_invI split: if_splits)

lemma memory_move:
  assumes "memory_inv s" "map_of (outbox_rows s) i = Some r" "ob_messageId (h r) = ob_messageId r"
  shows "memory_inv (s\<lparr>outbox_rows := AList.update i (h r) (outbox_rows s)\<rparr>)"
  using assms memory_ids(1) [OF assms(1,2)] by (intro memory_invI(1)) simp_all

lemma memory_published:
  "meets memory_inv memory_abs (memory_markOutboxPublished i token now) (spec_move i (holds_claim token) (as_published now))"
  unfolding meets_def
  by (auto simp: memory_markOutboxPublished_def spec_move_def faulty_def memory_abs_update as_published_def
      intro: memory_move split: if_splits option.splits)

lemma memory_failed:
  "meets memory_inv memory_abs (memory_markOutboxFailure fm)
     (spec_move (fm_messageId fm) (holds_claim (fm_claimToken fm)) (as_failed fm))"
  by (rule meetsI) (auto simp: memory_markOutboxFailure_def spec_move_def memory_abs_update as_failed_def
      intro: memory_move split: if_splits option.splits)

lemma memory_replayed:
  "meets memory_inv memory_abs (memory_replayOutbox i now) (spec_move i (\<lambda>r. ob_status r = Isolated) (as_replayed now))"
  by (rule meetsI) (auto simp: memory_replayOutbox_def spec_move_def memory_abs_update as_replayed_def
      intro: memory_move split: if_splits option.splits)

lemma memory_receipt:
  "plain (rc_messageId rc) \<Longrightarrow> meets memory_inv memory_abs (memory_createInboxReceipt rc) (spec_receipt rc)"
  by (rule meetsI) (auto simp: memory_createInboxReceipt_def spec_receipt_def memory_abs_update Let_def
      intro: memory_invI split: if_splits)

lemma memory_isolation: "meets memory_inv memory_abs (memory_createIsolation isol) (spec_isolation isol)"
  by (rule meetsI) (auto simp: memory_createIsolation_def spec_isolation_def memory_abs_update memory_ran list_ex_iff
      intro: memory_invI split: if_splits)

lemma memory_find_key: "meets memory_inv memory_abs (memory_findJobByIdempotencyKey key) (spec_find_key key)"
proof (rule meetsI)
  fix s :: "'a memory_store" and r t
  assume s: "memory_inv s" and "memory_findJobByIdempotencyKey key s = (r, t)"
  then have *: "t = s" "r = Inr (find (\<lambda>r. job_key r = key) (map snd (job_rows s)))"
    by (auto simp: memory_findJobByIdempotencyKey_def)
  show "memory_inv t \<and> spec_find_key key (memory_abs s) r (memory_abs t)"
  proof (cases "find (\<lambda>r. job_key r = key) (map snd (job_rows s))")
    case None
    then have "\<forall>row \<in> ran (map_of (job_rows s)). job_key row \<noteq> key"
      unfolding memory_ran(1) [OF s] find_None_iff by blast
    with s * None show ?thesis by (simp add: spec_find_key_def)
  next
    case (Some row)
    then have "row \<in> set (map snd (job_rows s))" "job_key row = key" unfolding find_Some_iff by (metis nth_mem)+
    with s * Some memory_ran(1) [OF s] show ?thesis by (simp add: spec_find_key_def)
  qed
qed

lemma memory_create_job: "meets memory_inv memory_abs (memory_createJob job) (spec_create_job job)"
  by (rule meetsI) (auto simp: memory_createJob_def spec_create_job_def memory_abs_update memory_ran list_ex_iff
      intro: memory_invI split: if_splits)

lemma memory_jobs:
  "meets memory_inv memory_abs (memory_claimJob i) (spec_claim_job i)"
  "meets memory_inv memory_abs (memory_cancelJob i reason) (spec_cancel_job i reason)"
  "meets memory_inv memory_abs (memory_finishJob status i) (spec_finish_job status i)"
  by (rule meetsI, auto simp: memory_claimJob_def spec_claim_job_def memory_cancelJob_def spec_cancel_job_def
      memory_finishJob_def spec_finish_job_def memory_abs_update memory_ids Let_def
      intro: memory_invI(2) split: if_splits option.splits)+

lemma memory_reconciled:
  "\<forall>(i, c) \<in> set inbox_ids. plain i \<Longrightarrow>
    meets memory_inv memory_abs (memory_reconcile outbox_ids inbox_ids) (spec_read (reconciled outbox_ids inbox_ids))"
  by (rule meetsI) (auto simp: memory_reconcile_def spec_read_def reconciled_def intro!: filter_cong)

lemma map_of_fold_update:
  "distinct (map k xs) \<Longrightarrow>
     map_of (fold (\<lambda>r. AList.update (k r) r) xs m) = map_of m ++ map_of (map (\<lambda>r. (k r, r)) xs)"
proof (induction xs arbitrary: m)
  case (Cons x xs)
  then have "map_of (map (\<lambda>r. (k r, r)) xs) (k x) = None" by (auto simp: map_of_eq_None_iff)
  with Cons show ?case by (auto simp: fun_eq_iff update_conv' map_add_def split: option.splits)
qed simp

lemma memory_inv_fold:
  "memory_inv s \<Longrightarrow> memory_inv (s\<lparr>outbox_rows := fold (\<lambda>r. AList.update (ob_messageId r) r) xs (outbox_rows s)\<rparr>)"
proof (induction xs arbitrary: s)
  case (Cons x xs)
  from Cons.IH [OF memory_invI(1) [OF Cons.prems, of x]] show ?case by simp
qed simp

lemma memory_outbox_values:
  assumes "memory_inv s"
  shows "distinct (map ob_messageId (map snd (outbox_rows s)))"
    and "row \<in> set (map snd (outbox_rows s)) \<longleftrightarrow> map_of (outbox_rows s) (ob_messageId row) = Some row"
proof -
  have ids: "map ob_messageId (map snd (outbox_rows s)) = map fst (outbox_rows s)"
    using assms unfolding memory_inv_def by (auto intro!: map_cong)
  show "distinct (map ob_messageId (map snd (outbox_rows s)))" unfolding ids using assms by (simp add: memory_inv_def)
  show "row \<in> set (map snd (outbox_rows s)) \<longleftrightarrow> map_of (outbox_rows s) (ob_messageId row) = Some row"
    using assms unfolding memory_inv_def by (force simp: map_of_eq_Some_iff)
qed

lemma memory_claim:
  "meets memory_inv memory_abs (memory_claimOutbox now staleBefore limit token) (spec_claim now staleBefore limit token)"
proof (rule meetsI)
  fix s :: "'a memory_store" and r t
  assume s: "memory_inv s" and run: "memory_claimOutbox now staleBefore limit token s = (r, t)"
  define all_rows where "all_rows = sort_le (\<lambda>a b. ob_availableAt a \<le> ob_availableAt b)
    (filter (claimable now staleBefore) (map snd (outbox_rows s)))"
  define rows where "rows = map (\<lambda>(n, r). claimed_by now (token n) r) (enumerate 0 (take limit all_rows))"
  have r: "r = Inr rows"
    and t: "t = s\<lparr>outbox_rows := fold (\<lambda>r. AList.update (ob_messageId r) r) rows (outbox_rows s)\<rparr>"
    using run by (auto simp: memory_claimOutbox_def Let_def rows_def all_rows_def)
  have len: "length rows = length (take limit all_rows)" by (simp add: rows_def)
  have nth: "rows ! n = claimed_by now (token n) (all_rows ! n)" if "n < length rows" for n
    using that by (simp add: rows_def nth_enumerate_eq)
  have id: "ob_messageId (claimed_by now tok row) = ob_messageId row" for tok row by (simp add: claimed_by_def)
  have ids: "map ob_messageId rows = map ob_messageId (take limit all_rows)"
    by (rule nth_equalityI) (simp_all add: len nth id)
  have set: "row \<in> set all_rows \<longleftrightarrow> map_of (outbox_rows s) (ob_messageId row) = Some row \<and> claimable now staleBefore row" for row
    using memory_outbox_values(2) [OF s, of row] by (auto simp: all_rows_def)
  have "distinct (map ob_messageId all_rows)"
    using memory_outbox_values(1) [OF s] by (simp add: all_rows_def distinct_map_filter)
  then have distinct: "distinct (map ob_messageId rows)"
    unfolding ids take_map [symmetric] by (rule distinct_take)
  have "\<exists>old. map_of (outbox_rows s) (ob_messageId (rows ! n)) = Some old \<and> claimable now staleBefore old
      \<and> rows ! n = claimed_by now (token n) old" if n: "n < length rows" for n
  proof -
    have "all_rows ! n \<in> set all_rows" using n len by simp
    with set nth [OF n] id show ?thesis by metis
  qed
  moreover have "i \<in> ob_messageId ` set rows"
    if "length rows < limit" "map_of (outbox_rows s) i = Some old" "claimable now staleBefore old" for i old
  proof -
    have "old \<in> set all_rows" "ob_messageId old = i" using that(2,3) set memory_ids(1) [OF s that(2)] by simp_all
    moreover have "take limit all_rows = all_rows" using that(1) len by simp
    ultimately have "i \<in> set (map ob_messageId rows)" unfolding ids by auto
    then show ?thesis by simp
  qed
  moreover have "memory_abs t = (memory_abs s)\<lparr>outbox := outbox (memory_abs s) ++ map_of (map (\<lambda>row. (ob_messageId row, row)) rows)\<rparr>"
    using map_of_fold_update [OF distinct] by (auto simp: t memory_abs_def fun_eq_iff)
  ultimately show "memory_inv t \<and> spec_claim now staleBefore limit token (memory_abs s) r (memory_abs t)"
    using distinct len memory_inv_fold [OF s] unfolding spec_claim_def r t by auto
qed

lemma count_rows:
  assumes "distinct (map fst m)"
  shows "length (filter (\<lambda>r. f r = v) (map snd m)) = card {i. map_option f (map_of m i) = Some v}"
proof -
  have "{i. map_option f (map_of m i) = Some v} = set (map fst (filter (\<lambda>p. f (snd p) = v) m))"
    using assms by (force simp: map_of_eq_Some_iff)
  moreover have "distinct (map fst (filter (\<lambda>p. f (snd p) = v) m))" using assms by (rule distinct_map_filter)
  ultimately have "card {i. map_option f (map_of m i) = Some v} = length (map fst (filter (\<lambda>p. f (snd p) = v) m))"
    by (simp only: distinct_card)
  then show ?thesis by (simp add: filter_map comp_def)
qed

lemma card_dom: "distinct (map fst m) \<Longrightarrow> card (dom (map_of m)) = length m"
  by (metis dom_map_of_conv_image_fst distinct_card length_map list.set_map)

lemma memory_count: "meets memory_inv memory_abs memory_backlog spec_backlog"
proof (rule meetsI)
  fix s :: "'a memory_store" and r t
  assume s: "memory_inv s" and run: "memory_backlog s = (r, t)"
  from s have keys: "distinct (map fst (outbox_rows s))" "distinct (map fst (job_rows s))"
    "distinct (map fst (inbox_rows s))" "distinct (map fst (isolation_rows s))"
    and receipts: "\<forall>(k, r) \<in> set (inbox_rows s). k = inboxKey (rc_messageId r) (rc_consumer r) \<and> plain (rc_messageId r)"
    by (simp_all add: memory_inv_def)
  have "bij_betw (\<lambda>(i, c). inboxKey i c) (dom (inbox (memory_abs s))) (dom (map_of (inbox_rows s)))"
  proof (rule bij_betwI')
    fix p q assume "p \<in> dom (inbox (memory_abs s))" "q \<in> dom (inbox (memory_abs s))"
    then show "((\<lambda>(i, c). inboxKey i c) p = (\<lambda>(i, c). inboxKey i c) q) = (p = q)"
      by (auto simp: memory_abs_def inboxKey_inj split: if_splits prod.splits)
  next
    fix p assume "p \<in> dom (inbox (memory_abs s))"
    then show "(\<lambda>(i, c). inboxKey i c) p \<in> dom (map_of (inbox_rows s))"
      by (auto simp: memory_abs_def split: if_splits prod.splits)
  next
    fix k assume "k \<in> dom (map_of (inbox_rows s))"
    then obtain r where r: "map_of (inbox_rows s) k = Some r" by blast
    then have "(k, r) \<in> set (inbox_rows s)" by (rule map_of_SomeD)
    with receipts have "k = inboxKey (rc_messageId r) (rc_consumer r)" "plain (rc_messageId r)" by auto
    with r show "\<exists>p \<in> dom (inbox (memory_abs s)). k = (\<lambda>(i, c). inboxKey i c) p"
      by (intro bexI [of _ "(rc_messageId r, rc_consumer r)"]) (auto simp: memory_abs_def)
  qed
  then have inbox: "card (dom (inbox (memory_abs s))) = length (inbox_rows s)"
    using card_dom [OF keys(3)] bij_betw_same_card by metis
  have outbox_count: "length (with_status status s) = card {i. map_option ob_status (map_of (outbox_rows s) i) = Some status}" for status
    unfolding with_status_def by (rule count_rows [OF keys(1)])
  have jobs_count: "length (filter (\<lambda>r. job_status r = Queued) (map snd (job_rows s)))
      = card {i. map_option job_status (map_of (job_rows s) i) = Some Queued}"
    by (rule count_rows [OF keys(2)])
  from run obtain b where b: "t = s" "r = Inr b" "pendingCount b = length (with_status Pending s)"
    "publishingCount b = length (with_status Publishing s)"
    "isolatedCount b = length (isolation_rows s) + length (with_status Isolated s)" "inboxReceiptCount b = length (inbox_rows s)"
    "queuedJobCount b = length (filter (\<lambda>r. job_status r = Queued) (map snd (job_rows s)))"
    "oldestPendingAt b = (case sort_le (\<lambda>a b. ob_availableAt a \<le> ob_availableAt b) (with_status Pending s) of
         [] \<Rightarrow> None | oldest # _ \<Rightarrow> Some (to_iso (ob_availableAt oldest)))"
    unfolding memory_backlog_def Let_def by fastforce
  have "oldestPendingAt b = None \<longleftrightarrow> sort_le (\<lambda>a b. ob_availableAt a \<le> ob_availableAt b) (with_status Pending s) = []"
    unfolding b(8) by (simp del: sort_le_Nil split: list.split)
  then have "oldestPendingAt b = None \<longleftrightarrow> with_status Pending s = []" unfolding sort_le_Nil .
  then show "memory_inv t \<and> spec_backlog (memory_abs s) r (memory_abs t)"
    unfolding spec_backlog_def b(1,2) inbox memory_reads card_dom [OF keys(4)]
    using s b outbox_count jobs_count by (metis length_0_conv)
qed

interpretation memory: event_store memory_eventing_store memory_abs memory_inv
  by unfold_locales
    (simp_all add: memory_eventing_store_def memory_append memory_claim memory_published memory_failed memory_replayed
      memory_receipt memory_isolation memory_find_key memory_create_job memory_jobs memory_count memory_reconciled,
     simp_all add: meets_def spec_read_def memory_ids)

end
