(* ===== verification/Event_Core.thy ===== *)
theory Event_Core
  imports Event_Store
begin

text \<open>
  \<open>packages/platform-modules/eventing-outbox/src/service.ts\<close>: appending an event, submitting and cancelling a job, and
  the consumption of a message by a handler, over any store that keeps the contract of
  \<^theory_text>\<open>Event_Store\<close>. Values that a call takes from outside (the clock, a random identifier, and whether its
  timer had fired when the handler settled) are the fields of \<open>call_env\<close>. Observations are telemetry whose
  errors are swallowed; they are left out.

  The first part proves what one call does to the facts of the store. \<open>triple\<close> is a Hoare triple for
  actions, over the abstract facts.
\<close>

section \<open>Handlers\<close>

record 's message_handler =
  h_kind :: message_kind
  h_messageType :: string
  h_messageVersion :: jnum
  recheckAuthoritativeState :: "(validated_message \<Rightarrow> ('s, bool) action) option"
  handle :: "validated_message \<Rightarrow> ('s, unit) action"

record call_env =
  ce_clock :: "nat \<Rightarrow> int"
  ce_isolationId :: string
  ce_expired :: bool

datatype skip_reason = Job_cancelled | State_rejected

datatype consumption_result =
    Result_completed
  | Result_duplicate
  | Result_skipped skip_reason
  | Result_isolated isolation_reason

record consume_request =
  rq_attempt :: jnum
  rq_consumer :: jval
  rq_envelope :: jval
  rq_timeoutMs :: jval

definition matches :: "'s message_handler \<Rightarrow> validated_message \<Rightarrow> bool" where
  "matches h m \<longleftrightarrow> h_kind h = messageKind m \<and> h_messageType h = messageType m \<and> h_messageVersion h = messageVersion m"

text \<open>
  The transaction is released only after the work has settled; if the timer fired before, the
  call fails with a timeout, whatever the work answered.
\<close>

definition withTimeout :: "bool \<Rightarrow> ('s, 'a) action \<Rightarrow> ('s, 'a) action" where
  "withTimeout expired work s = (case work s of (r, t) \<Rightarrow>
     if expired then (Inl (EventingError Eventing_handler_timeout True), t) else (r, t))"

section \<open>The core\<close>

definition is_conflict :: "failure \<Rightarrow> bool" where
  "is_conflict e = (case e of EventingError code _ \<Rightarrow> code = Eventing_conflict | Foreign_error _ \<Rightarrow> False)"

definition isolate ::
    "'s eventing_store \<Rightarrow> call_env \<Rightarrow> validated_message \<Rightarrow> string \<Rightarrow> int \<Rightarrow> isolation_reason \<Rightarrow> ('s, consumption_result) action" where
  "isolate st env m consumer attempt reason =
     bindA (lift (validateUuid (JStr (ce_isolationId env)))) (\<lambda>i.
     bindA (createIsolation st \<lparr>isolationId = i, is_messageId = messageId m, is_consumer = consumer,
        is_payloadSha256 = payloadSha256 m, is_reason = reason, is_attempt = attempt, is_isolatedAt = ce_clock env 0\<rparr>) (\<lambda>_.
     ret (if reason = Authoritative_state_rejected then Result_skipped State_rejected else Result_isolated reason)))"

definition appendEvent :: "'s eventing_store \<Rightarrow> codec \<Rightarrow> jval \<Rightarrow> ('s, string) action" where
  "appendEvent st cx input =
     bindA (lift (validateEventEnvelope cx input)) (\<lambda>m.
     bindA (catchA (appendOutbox st (outboxRecord m)) (\<lambda>e.
        if is_conflict e then bindA (getOutbox st (messageId m)) (\<lambda>row.
          if map_option ob_payloadSha256 row = Some (payloadSha256 m) then ret () else throw e)
        else throw e)) (\<lambda>_.
     ret (messageId m)))"

fun job_of :: "message_envelope \<Rightarrow> job_envelope option" where
  "job_of (Job_message j) = Some j"
| "job_of (Event_message e) = None"

definition submitted_job :: "validated_message \<Rightarrow> job_envelope \<Rightarrow> job_record" where
  "submitted_job m j = \<lparr>jobId = jb_jobId j, job_key = idempotencyKey j, job_fingerprint = payloadSha256 m,
     job_status = Queued, job_envelope = j, cancelReason = None\<rparr>"

definition submitJob :: "'s eventing_store \<Rightarrow> codec \<Rightarrow> jval \<Rightarrow> ('s, string \<times> job_status) action" where
  "submitJob st cx input =
     bindA (lift (validateJobEnvelope cx input)) (\<lambda>m.
     case job_of (envelope m) of None \<Rightarrow> throw (Foreign_error ''TypeError'') | Some j \<Rightarrow>
     bindA (findJobByIdempotencyKey st (idempotencyKey j)) (\<lambda>prior.
     case prior of
       Some p \<Rightarrow> if job_fingerprint p \<noteq> payloadSha256 m then throw conflict else ret (jobId p, job_status p)
     | None \<Rightarrow>
         (let job = submitted_job m j in
          catchA (bindA (transaction (bindA (createJob st job) (\<lambda>_. appendOutbox st (outboxRecord m)))) (\<lambda>_.
                    ret (jobId job, job_status job)))
            (\<lambda>e. if is_conflict e then bindA (findJobByIdempotencyKey st (idempotencyKey j)) (\<lambda>raced.
                   case raced of
                     Some p \<Rightarrow> if job_fingerprint p = payloadSha256 m then ret (jobId p, job_status p) else throw e
                   | None \<Rightarrow> throw e)
                 else throw e))))"

definition cancelJob :: "'s eventing_store \<Rightarrow> jval \<Rightarrow> jval \<Rightarrow> ('s, string \<times> job_status) action" where
  "cancelJob st jobIdInput reasonInput =
     bindA (lift (validateUuid jobIdInput)) (\<lambda>i.
     bindA (lift (validateReason reasonInput)) (\<lambda>reason.
     bindA (st_cancelJob st i reason) (\<lambda>row.
     case row of None \<Rightarrow> throw (EventingError Eventing_not_found False) | Some r \<Rightarrow> ret (i, job_status r))))"

section \<open>Consumption\<close>

definition receipt_of :: "call_env \<Rightarrow> validated_message \<Rightarrow> string \<Rightarrow> inbox_receipt" where
  "receipt_of env m consumer = \<lparr>rc_messageId = messageId m, rc_consumer = consumer,
     rc_payloadSha256 = payloadSha256 m, rc_completedAt = ce_clock env 1\<rparr>"

text \<open>A job that could not be claimed: it has been cancelled, completed or isolated.\<close>

definition unclaimed ::
    "'s eventing_store \<Rightarrow> call_env \<Rightarrow> validated_message \<Rightarrow> string \<Rightarrow> ('s, consumption_result) action" where
  "unclaimed st env m consumer =
     bindA (findJob st (messageId m)) (\<lambda>current.
     if map_option job_status current \<in> {Some Cancelled, Some Completed} then
       bindA (createInboxReceipt st (receipt_of env m consumer)) (\<lambda>_. ret (Result_skipped Job_cancelled))
     else if map_option job_status current = Some Job_isolated then
       bindA (createInboxReceipt st (receipt_of env m consumer)) (\<lambda>_. ret (Result_skipped State_rejected))
     else throw (EventingError Eventing_conflict True))"

definition complete ::
    "'s eventing_store \<Rightarrow> call_env \<Rightarrow> 's message_handler \<Rightarrow> validated_message \<Rightarrow> string \<Rightarrow> ('s, consumption_result) action" where
  "complete st env h m consumer =
     bindA (if h_kind h = Job_kind then completeJob st (messageId m) else ret True) (\<lambda>ok.
     if \<not> ok then throw (EventingError Eventing_conflict True)
     else bindA (createInboxReceipt st (receipt_of env m consumer)) (\<lambda>_. ret Result_completed))"

definition rejected ::
    "'s eventing_store \<Rightarrow> call_env \<Rightarrow> validated_message \<Rightarrow> string \<Rightarrow> int \<Rightarrow> string \<Rightarrow> ('s, consumption_result) action" where
  "rejected st env m consumer attempt i =
     bindA (isolateJob st i) (\<lambda>isolatedJob.
     if \<not> isolatedJob then throw (EventingError Eventing_conflict True)
     else bindA (isolate st env m consumer attempt Authoritative_state_rejected) (\<lambda>isolated.
       bindA (createInboxReceipt st (receipt_of env m consumer)) (\<lambda>_. ret isolated)))"

definition authoritative_work :: "'s message_handler \<Rightarrow> validated_message \<Rightarrow> ('s, bool) action" where
  "authoritative_work h m =
     bindA (case recheckAuthoritativeState h of None \<Rightarrow> ret False | Some recheck \<Rightarrow> recheck m) (\<lambda>allowed.
     bindA (if allowed then handle h m else ret ()) (\<lambda>_. ret allowed))"

definition consume_job ::
    "'s eventing_store \<Rightarrow> call_env \<Rightarrow> 's message_handler \<Rightarrow> validated_message \<Rightarrow> string \<Rightarrow> int \<Rightarrow> ('s, consumption_result) action" where
  "consume_job st env h m consumer attempt =
     bindA (findJob st (messageId m)) (\<lambda>existing.
     if map_option job_fingerprint existing \<noteq> Some (payloadSha256 m)
     then isolate st env m consumer attempt Payload_conflict
     else bindA (claimJob st (messageId m)) (\<lambda>claimed.
       case claimed of None \<Rightarrow> unclaimed st env m consumer
       | Some job \<Rightarrow>
           bindA (withTimeout (ce_expired env) (authoritative_work h m)) (\<lambda>authoritative.
             if \<not> authoritative then rejected st env m consumer attempt (jobId job)
             else complete st env h m consumer)))"

definition consume_event ::
    "'s eventing_store \<Rightarrow> call_env \<Rightarrow> 's message_handler \<Rightarrow> validated_message \<Rightarrow> string \<Rightarrow> ('s, consumption_result) action" where
  "consume_event st env h m consumer =
     bindA (withTimeout (ce_expired env) (handle h m)) (\<lambda>_. complete st env h m consumer)"

definition inbox_work ::
    "'s eventing_store \<Rightarrow> call_env \<Rightarrow> 's message_handler \<Rightarrow> validated_message \<Rightarrow> string \<Rightarrow> int \<Rightarrow> ('s, consumption_result) action" where
  "inbox_work st env h m consumer attempt =
     bindA (findInboxReceipt st (messageId m) consumer) (\<lambda>raced.
     case raced of
       Some rc \<Rightarrow> if rc_payloadSha256 rc = payloadSha256 m then ret Result_duplicate
                 else isolate st env m consumer attempt Payload_conflict
     | None \<Rightarrow> if h_kind h = Job_kind then consume_job st env h m consumer attempt
              else consume_event st env h m consumer)"

definition timeout_of :: "validated_message \<Rightarrow> jval \<Rightarrow> jval" where
  "timeout_of m requested = (case envelope m of
     Job_message j \<Rightarrow> JNum (Num (of_int (timeoutMs (jb_policy j)))) | Event_message e \<Rightarrow> requested)"

text \<open>The part of \<open>consume\<close> after its checks.\<close>

definition consume_valid ::
    "'s eventing_store \<Rightarrow> call_env \<Rightarrow> 's message_handler \<Rightarrow> validated_message \<Rightarrow> string \<Rightarrow> int \<Rightarrow> ('s, consumption_result) action" where
  "consume_valid st env h m consumer attempt =
     (if \<not> matches h m then isolate st env m consumer attempt Unsupported_message
      else bindA (findInboxReceipt st (messageId m) consumer) (\<lambda>receipt.
        case receipt of
          Some rc \<Rightarrow> if rc_payloadSha256 rc = payloadSha256 m then ret Result_duplicate
                    else isolate st env m consumer attempt Payload_conflict
        | None \<Rightarrow> transaction (inbox_work st env h m consumer attempt)))"

definition consume ::
    "'s eventing_store \<Rightarrow> codec \<Rightarrow> call_env \<Rightarrow> consume_request \<Rightarrow> 's message_handler \<Rightarrow> ('s, consumption_result) action" where
  "consume st cx env req h =
     bindA (lift (validateConsumerName (rq_consumer req))) (\<lambda>consumer.
     bindA (lift (read_int 1 1000 (JNum (rq_attempt req)))) (\<lambda>attempt.
     bindA (lift (validateMessageEnvelope cx (rq_envelope req))) (\<lambda>m.
     bindA (lift (read_int 100 900000 (timeout_of m (rq_timeoutMs req)))) (\<lambda>_.
     consume_valid st env h m consumer attempt))))"

section \<open>Triples\<close>

definition triple ::
    "('s \<Rightarrow> bool) \<Rightarrow> ('s \<Rightarrow> 'w facts) \<Rightarrow> ('w facts \<Rightarrow> bool) \<Rightarrow> ('s, 'a) action \<Rightarrow> (failure + 'a \<Rightarrow> 'w facts \<Rightarrow> bool) \<Rightarrow> bool" where
  "triple ok view P m Q \<longleftrightarrow> (\<forall>s r t. ok s \<longrightarrow> P (view s) \<longrightarrow> m s = (r, t) \<longrightarrow> ok t \<and> Q r (view t))"

lemma t_ret: "(\<And>f. P f \<Longrightarrow> Q (Inr x) f) \<Longrightarrow> triple ok view P (ret x) Q"
  by (auto simp: triple_def ret_def)

lemma t_throw: "(\<And>f. P f \<Longrightarrow> Q (Inl e) f) \<Longrightarrow> triple ok view P (throw e) Q"
  by (auto simp: triple_def throw_def)

lemma t_lift: "(\<And>f. P f \<Longrightarrow> Q r f) \<Longrightarrow> triple ok view P (lift r) Q"
  by (auto simp: triple_def lift_def)

lemma t_bind:
  assumes "triple ok view P m R" "\<And>x. triple ok view (R (Inr x)) (k x) Q" "\<And>e f. R (Inl e) f \<Longrightarrow> Q (Inl e) f"
  shows "triple ok view P (bindA m k) Q"
  unfolding triple_def
proof (intro allI impI)
  fix s r t assume s: "ok s" "P (view s)" and run: "bindA m k s = (r, t)"
  obtain r1 u where m: "m s = (r1, u)" by force
  with assms(1) s have u: "ok u" "R r1 (view u)" by (auto simp: triple_def)
  show "ok t \<and> Q r (view t)"
  proof (cases r1)
    case (Inl e)
    with run m u assms(3) show ?thesis by (auto simp: bindA_def)
  next
    case (Inr x)
    with run m have "k x u = (r, t)" by (simp add: bindA_def)
    with assms(2) [of x] u Inr show ?thesis by (auto simp: triple_def)
  qed
qed

lemma t_catch:
  assumes "triple ok view P m R" "\<And>e. triple ok view (R (Inl e)) (h e) Q" "\<And>x f. R (Inr x) f \<Longrightarrow> Q (Inr x) f"
  shows "triple ok view P (catchA m h) Q"
  unfolding triple_def
proof (intro allI impI)
  fix s r t assume s: "ok s" "P (view s)" and run: "catchA m h s = (r, t)"
  obtain r1 u where m: "m s = (r1, u)" by force
  with assms(1) s have u: "ok u" "R r1 (view u)" by (auto simp: triple_def)
  show "ok t \<and> Q r (view t)"
  proof (cases r1)
    case (Inr x)
    with run m u assms(3) show ?thesis by (auto simp: catchA_def)
  next
    case (Inl e)
    with run m have "h e u = (r, t)" by (simp add: catchA_def)
    with assms(2) [of e] u Inl show ?thesis by (auto simp: triple_def)
  qed
qed

text \<open>The same with one post-condition for values and one for errors.\<close>

lemma t_bind_cases:
  assumes "triple ok view P m (\<lambda>r g. case r of Inl e \<Rightarrow> E e g | Inr x \<Rightarrow> N x g)"
    and "\<And>x. triple ok view (N x) (k x) Q" "\<And>e f. E e f \<Longrightarrow> Q (Inl e) f"
  shows "triple ok view P (bindA m k) Q"
  by (rule t_bind [OF assms(1)]) (use assms(2,3) in simp_all)

lemma t_catch_cases:
  assumes "triple ok view P m (\<lambda>r g. case r of Inl e \<Rightarrow> E e g | Inr x \<Rightarrow> N x g)"
    and "\<And>e. triple ok view (E e) (h e) Q" "\<And>x f. N x f \<Longrightarrow> Q (Inr x) f"
  shows "triple ok view P (catchA m h) Q"
  by (rule t_catch [OF assms(1)]) (use assms(2,3) in simp_all)

text \<open>A failed transaction leaves the facts as they were; whether the work fails is part of its result.\<close>

lemma t_transaction:
  assumes "triple ok view (\<lambda>f. f = f0) m R" "\<And>e g. R (Inl e) g \<Longrightarrow> Q (Inl e) f0" "\<And>x g. R (Inr x) g \<Longrightarrow> Q (Inr x) g"
  shows "triple ok view (\<lambda>f. f = f0) (transaction m) Q"
  unfolding triple_def
proof (intro allI impI)
  fix s r t assume s: "ok s" "view s = f0" and run: "transaction m s = (r, t)"
  obtain r1 u where m: "m s = (r1, u)" by force
  with assms(1) s have "ok u" "R r1 (view u)" by (auto simp: triple_def)
  with run m s assms(2,3) show "ok t \<and> Q r (view t)" by (cases r1) (auto simp: transaction_def)
qed

lemma triple_run: "triple ok view (\<lambda>f. f = view s) m Q \<Longrightarrow> ok s \<Longrightarrow> m s = (r, t) \<Longrightarrow> ok t \<and> Q r (view t)"
  unfolding triple_def by blast

lemma t_pre: "triple ok view P m Q \<Longrightarrow> (\<And>f. P' f \<Longrightarrow> P f) \<Longrightarrow> triple ok view P' m Q"
  by (auto simp: triple_def)

lemma t_conseq:
  "triple ok view P m Q \<Longrightarrow> (\<And>f. P' f \<Longrightarrow> P f) \<Longrightarrow> (\<And>r f. Q r f \<Longrightarrow> Q' r f) \<Longrightarrow> triple ok view P' m Q'"
  by (auto simp: triple_def)

lemma t_weaken: "triple ok view P m Q \<Longrightarrow> (\<And>r f. Q r f \<Longrightarrow> Q' r f) \<Longrightarrow> triple ok view P m Q'"
  by (auto simp: triple_def)

lemma t_meets:
  assumes "meets ok view m spec" "\<And>f r g. P f \<Longrightarrow> faulty f r g \<or> spec f r g \<Longrightarrow> Q r g"
  shows "triple ok view P m Q"
  using assms unfolding meets_def triple_def by blast

lemma t_timeout:
  assumes "triple ok view P m R" "\<And>r f. R r f \<Longrightarrow> Q (if expired then Inl (EventingError Eventing_handler_timeout True) else r) f"
  shows "triple ok view P (withTimeout expired m) Q"
  using assms unfolding triple_def withTimeout_def by (auto split: prod.splits if_splits) metis+

section \<open>What a consumption does\<close>

text \<open>
  What the code relies on of a handler: it works in the same transaction on data of its own, may
  append messages to the outbox, and leaves the inbox, the jobs and the isolations alone; the
  check of the authoritative state only reads.
\<close>

definition outbox_grows :: "'w facts \<Rightarrow> 'w facts \<Rightarrow> bool" where
  "outbox_grows f g \<longleftrightarrow> (\<forall>i. outbox g i = outbox f i
     \<or> outbox f i = None \<and> (\<exists>row. outbox g i = Some row \<and> ob_status row = Pending))"

definition works_apart :: "('s \<Rightarrow> bool) \<Rightarrow> ('s \<Rightarrow> 'w facts) \<Rightarrow> ('s, 'a) action \<Rightarrow> bool" where
  "works_apart ok view m \<longleftrightarrow> (\<forall>f0. triple ok view (\<lambda>f. f = f0) m (\<lambda>r g. inbox g = inbox f0 \<and> jobs g = jobs f0
     \<and> isolations g = isolations f0 \<and> outbox_grows f0 g))"

definition reads_only :: "('s \<Rightarrow> bool) \<Rightarrow> ('s \<Rightarrow> 'w facts) \<Rightarrow> ('s, 'a) action \<Rightarrow> bool" where
  "reads_only ok view m \<longleftrightarrow> (\<forall>f0. triple ok view (\<lambda>f. f = f0) m (\<lambda>r g. g = f0))"

definition well_behaved :: "('s \<Rightarrow> bool) \<Rightarrow> ('s \<Rightarrow> 'w facts) \<Rightarrow> 's message_handler \<Rightarrow> bool" where
  "well_behaved ok view h \<longleftrightarrow> (\<forall>m. works_apart ok view (handle h m))
     \<and> (\<forall>recheck m. recheckAuthoritativeState h = Some recheck \<longrightarrow> reads_only ok view (recheck m))"

text \<open>The handler ran to its end, from the owner's data in \<open>f\<close> to those in \<open>g\<close>.\<close>

definition handled ::
    "('s \<Rightarrow> 'w facts) \<Rightarrow> 's message_handler \<Rightarrow> validated_message \<Rightarrow> 'w facts \<Rightarrow> 'w facts \<Rightarrow> bool" where
  "handled view h m f g \<longleftrightarrow> (\<exists>u v. handle h m u = (Inr (), v) \<and> owner (view u) = owner f \<and> outbox (view u) = outbox f
     \<and> owner (view v) = owner g \<and> outbox (view v) = outbox g)"

definition new_receipt :: "validated_message \<Rightarrow> string \<Rightarrow> 'w facts \<Rightarrow> 'w facts \<Rightarrow> bool" where
  "new_receipt m c f g \<longleftrightarrow> inbox f (messageId m, c) = None
     \<and> (\<exists>rc. rc_payloadSha256 rc = payloadSha256 m \<and> inbox g = (inbox f)((messageId m, c) \<mapsto> rc))"

definition job_moved :: "job_status \<Rightarrow> validated_message \<Rightarrow> 'w facts \<Rightarrow> 'w facts \<Rightarrow> bool" where
  "job_moved status m f g \<longleftrightarrow> (\<exists>row. jobs f (messageId m) = Some row \<and> job_status row = Queued
     \<and> job_fingerprint row = payloadSha256 m \<and> jobs g = (jobs f)(messageId m \<mapsto> row\<lparr>job_status := status\<rparr>))"

fun consumed ::
    "('s \<Rightarrow> 'w facts) \<Rightarrow> 's message_handler \<Rightarrow> validated_message \<Rightarrow> string \<Rightarrow> 'w facts \<Rightarrow> consumption_result \<Rightarrow> 'w facts \<Rightarrow> bool" where
  "consumed view h m c f Result_completed g \<longleftrightarrow> new_receipt m c f g \<and> handled view h m f g \<and> isolations g = isolations f
     \<and> outbox_grows f g \<and> (if messageKind m = Job_kind then job_moved Completed m f g else jobs g = jobs f)"
| "consumed view h m c f Result_duplicate g \<longleftrightarrow> g = f
     \<and> (\<exists>rc. inbox f (messageId m, c) = Some rc \<and> rc_payloadSha256 rc = payloadSha256 m)"
| "consumed view h m c f (Result_isolated reason) g \<longleftrightarrow>
     inbox g = inbox f \<and> jobs g = jobs f \<and> outbox g = outbox f \<and> owner g = owner f
     \<and> (reason = Unsupported_message \<and> \<not> matches h m
        \<or> reason = Payload_conflict \<and> matches h m
            \<and> ((\<exists>rc. inbox f (messageId m, c) = Some rc \<and> rc_payloadSha256 rc \<noteq> payloadSha256 m)
               \<or> messageKind m = Job_kind \<and> map_option job_fingerprint (jobs f (messageId m)) \<noteq> Some (payloadSha256 m)))"
| "consumed view h m c f (Result_skipped Job_cancelled) g \<longleftrightarrow> new_receipt m c f g \<and> jobs g = jobs f \<and> outbox g = outbox f
     \<and> owner g = owner f \<and> isolations g = isolations f
     \<and> map_option job_status (jobs f (messageId m)) \<in> {Some Cancelled, Some Completed}"
| "consumed view h m c f (Result_skipped State_rejected) g \<longleftrightarrow> new_receipt m c f g \<and> outbox g = outbox f \<and> owner g = owner f
     \<and> (map_option job_status (jobs f (messageId m)) = Some Job_isolated \<and> jobs g = jobs f \<and> isolations g = isolations f
        \<or> job_moved Job_isolated m f g)"

text \<open>The post-condition of work inside a transaction speaks of what it returns only.\<close>

abbreviation returns :: "('a \<Rightarrow> 'w facts \<Rightarrow> bool) \<Rightarrow> failure + 'a \<Rightarrow> 'w facts \<Rightarrow> bool" where
  "returns Q r g \<equiv> (\<forall>x. r = Inr x \<longrightarrow> Q x g)"

lemma receipt_sha [simp]: "rc_payloadSha256 (receipt_of env m c) = payloadSha256 m"
  by (simp add: receipt_of_def)

lemma new_receiptI:
  "inbox f (messageId m, c) = None \<Longrightarrow> inbox g = (inbox f)((messageId m, c) \<mapsto> receipt_of env m c) \<Longrightarrow> new_receipt m c f g"
  unfolding new_receipt_def using receipt_sha by blast

context event_store
begin

lemma isolate_returns:
  "triple inv abs (\<lambda>f. f = f1) (isolate st env m c a reason)
     (\<lambda>r g. case r of Inl e \<Rightarrow> g = f1 | Inr x \<Rightarrow>
        x = (if reason = Authoritative_state_rejected then Result_skipped State_rejected else Result_isolated reason)
        \<and> inbox g = inbox f1 \<and> jobs g = jobs f1 \<and> outbox g = outbox f1 \<and> owner g = owner f1)"
  unfolding isolate_def
  apply (rule t_bind [where R = "\<lambda>r g. g = f1"], rule t_lift)
    apply simp
   apply (rule t_bind [where R = "\<lambda>r g. case r of Inl e \<Rightarrow> g = f1 | Inr x \<Rightarrow>
        inbox g = inbox f1 \<and> jobs g = jobs f1 \<and> outbox g = outbox f1 \<and> owner g = owner f1"])
     apply (rule t_meets [OF create_isolation])
     apply (auto simp: faulty_def spec_isolation_def)[1]
    apply (rule t_ret)
    apply auto
  done

lemma receipt_returns:
  assumes "plain (messageId m)"
  shows "triple inv abs (\<lambda>f. f = f1) (createInboxReceipt st (receipt_of env m c))
     (returns (\<lambda>_ g. inbox f1 (messageId m, c) = None
        \<and> g = f1\<lparr>inbox := (inbox f1)((messageId m, c) \<mapsto> receipt_of env m c)\<rparr>))"
  by (rule t_meets [OF create_receipt])
    (use assms in \<open>auto simp: faulty_def spec_receipt_def receipt_of_def split: if_splits\<close>)

lemma receipt_then:
  assumes "plain (messageId m)"
    and "\<And>f. K f \<Longrightarrow> inbox f (messageId m, c) = None \<Longrightarrow>
      Q x (f\<lparr>inbox := (inbox f)((messageId m, c) \<mapsto> receipt_of env m c)\<rparr>)"
  shows "triple inv abs K (bindA (createInboxReceipt st (receipt_of env m c)) (\<lambda>_. ret x)) (returns Q)"
proof (rule t_bind [where R = "returns (\<lambda>_ g. Q x g)"])
  show "triple inv abs K (createInboxReceipt st (receipt_of env m c)) (returns (\<lambda>_. Q x))"
    unfolding triple_def
  proof (intro allI impI)
    fix s r t assume s: "inv s" "K (abs s)" and run: "createInboxReceipt st (receipt_of env m c) s = (r, t)"
    with receipt_returns [OF assms(1), of "abs s" env c] have "inv t \<and> returns (\<lambda>_ g. inbox (abs s) (messageId m, c) = None
      \<and> g = (abs s)\<lparr>inbox := (inbox (abs s))((messageId m, c) \<mapsto> receipt_of env m c)\<rparr>) r (abs t)"
      unfolding triple_def by blast
    with s(2) assms(2) show "inv t \<and> returns (\<lambda>_. Q x) r (abs t)" by auto
  qed
qed (auto intro: t_ret)

lemma unclaimed_returns:
  assumes "plain (messageId m)"
  shows "triple inv abs (\<lambda>f. f = f0) (unclaimed st env m c) (returns (\<lambda>x g. consumed abs h m c f0 x g))"
  unfolding unclaimed_def
proof (rule t_bind [where R = "returns (\<lambda>x g. g = f0 \<and> x = jobs f0 (messageId m))"])
  show "triple inv abs (\<lambda>f. f = f0) (findJob st (messageId m)) (returns (\<lambda>x g. g = f0 \<and> x = jobs f0 (messageId m)))"
    by (rule t_meets [OF find_job]) (auto simp: faulty_def spec_read_def)
next
  fix x
  let ?P = "returns (\<lambda>x g. g = f0 \<and> x = jobs f0 (messageId m)) (Inr x)"
  show "triple inv abs ?P
      (if map_option job_status x \<in> {Some Cancelled, Some Completed} then
         bindA (createInboxReceipt st (receipt_of env m c)) (\<lambda>_. ret (Result_skipped Job_cancelled))
       else if map_option job_status x = Some Job_isolated then
         bindA (createInboxReceipt st (receipt_of env m c)) (\<lambda>_. ret (Result_skipped State_rejected))
       else throw (EventingError Eventing_conflict True)) (returns (\<lambda>x g. consumed abs h m c f0 x g))"
  proof -
    have "triple inv abs ?P (bindA (createInboxReceipt st (receipt_of env m c)) (\<lambda>_. ret (Result_skipped Job_cancelled)))
        (returns (\<lambda>x g. consumed abs h m c f0 x g))" if "map_option job_status x \<in> {Some Cancelled, Some Completed}"
      by (rule receipt_then [OF assms]) (use that in \<open>auto intro: new_receiptI\<close>)
    moreover have "triple inv abs ?P (bindA (createInboxReceipt st (receipt_of env m c)) (\<lambda>_. ret (Result_skipped State_rejected)))
        (returns (\<lambda>x g. consumed abs h m c f0 x g))" if "map_option job_status x = Some Job_isolated"
      by (rule receipt_then [OF assms]) (use that in \<open>auto intro: new_receiptI\<close>)
    ultimately show ?thesis by (auto intro: t_throw)
  qed
qed simp

lemma complete_returns:
  assumes "plain (messageId m)"
    and job: "\<And>f. K f \<Longrightarrow> h_kind h = Job_kind \<Longrightarrow> \<exists>row. jobs f (messageId m) = Some row \<and> job_status row = Processing
      \<and> Q (f\<lparr>jobs := (jobs f)(messageId m \<mapsto> row\<lparr>job_status := Completed\<rparr>),
             inbox := (inbox f)((messageId m, c) \<mapsto> receipt_of env m c)\<rparr>)"
    and event: "\<And>f. K f \<Longrightarrow> h_kind h \<noteq> Job_kind \<Longrightarrow> Q (f\<lparr>inbox := (inbox f)((messageId m, c) \<mapsto> receipt_of env m c)\<rparr>)"
  shows "triple inv abs (\<lambda>f. K f) (complete st env h m c) (returns (\<lambda>x g. x = Result_completed \<and> Q g))"
  unfolding complete_def
proof (rule t_bind [where R = "returns (\<lambda>ok g. ok \<longrightarrow> Q (g\<lparr>inbox := (inbox g)((messageId m, c) \<mapsto> receipt_of env m c)\<rparr>))"])
  show "triple inv abs (\<lambda>f. K f) (if h_kind h = Job_kind then completeJob st (messageId m) else ret True)
      (returns (\<lambda>ok g. ok \<longrightarrow> Q (g\<lparr>inbox := (inbox g)((messageId m, c) \<mapsto> receipt_of env m c)\<rparr>)))"
  proof (cases "h_kind h = Job_kind")
    case True
    have "triple inv abs (\<lambda>f. K f) (completeJob st (messageId m))
      (returns (\<lambda>ok g. ok \<longrightarrow> Q (g\<lparr>inbox := (inbox g)((messageId m, c) \<mapsto> receipt_of env m c)\<rparr>)))"
      by (rule t_meets [OF complete_job]) (use job [OF _ True] in \<open>fastforce simp: faulty_def spec_finish_job_def\<close>)
    with True show ?thesis by simp
  qed (use event in \<open>auto intro: t_ret\<close>)
next
  fix ok
  show "triple inv abs (returns (\<lambda>ok g. ok \<longrightarrow> Q (g\<lparr>inbox := (inbox g)((messageId m, c) \<mapsto> receipt_of env m c)\<rparr>)) (Inr ok))
      (if \<not> ok then throw (EventingError Eventing_conflict True)
       else bindA (createInboxReceipt st (receipt_of env m c)) (\<lambda>_. ret Result_completed)) (returns (\<lambda>x g. x = Result_completed \<and> Q g))"
    by (auto intro!: receipt_then [OF assms(1)] t_throw)
qed simp

end

definition apart :: "'w facts \<Rightarrow> 'w facts \<Rightarrow> bool" where
  "apart f g \<longleftrightarrow> inbox g = inbox f \<and> jobs g = jobs f \<and> isolations g = isolations f \<and> outbox_grows f g"

context event_store
begin

lemma handle_returns:
  assumes "well_behaved inv abs h"
  shows "triple inv abs (\<lambda>f. f = f1) (handle h m) (returns (\<lambda>_ g. apart f1 g \<and> handled abs h m f1 g))"
  unfolding triple_def
proof (intro allI impI)
  fix s r t assume s: "inv s" "abs s = f1" and run: "handle h m s = (r, t)"
  with assms have "inv t \<and> apart f1 (abs t)" unfolding well_behaved_def works_apart_def triple_def apart_def by blast
  moreover have "handled abs h m f1 (abs t)" if "r = Inr x" for x
    using run s that unfolding handled_def by auto
  ultimately show "inv t \<and> returns (\<lambda>_ g. apart f1 g \<and> handled abs h m f1 g) r (abs t)" by blast
qed

lemma authoritative_returns:
  assumes "well_behaved inv abs h"
  shows "triple inv abs (\<lambda>f. f = f1) (authoritative_work h m)
     (returns (\<lambda>allowed g. if allowed then apart f1 g \<and> handled abs h m f1 g else g = f1))"
  unfolding authoritative_work_def
proof (rule t_bind [where R = "returns (\<lambda>_ g. g = f1)"])
  have "triple inv abs (\<lambda>f. f = f1) (recheck m) (returns (\<lambda>_ g. g = f1))"
    if "recheckAuthoritativeState h = Some recheck" for recheck
    using assms that unfolding well_behaved_def reads_only_def by (auto intro: t_weaken)
  then show "triple inv abs (\<lambda>f. f = f1) (case recheckAuthoritativeState h of None \<Rightarrow> ret False | Some recheck \<Rightarrow> recheck m)
      (returns (\<lambda>_ g. g = f1))"
    by (auto intro: t_ret split: option.split)
next
  fix allowed
  show "triple inv abs (returns (\<lambda>_ g. g = f1) (Inr allowed)) (bindA (if allowed then handle h m else ret ()) (\<lambda>_. ret allowed))
      (returns (\<lambda>allowed g. if allowed then apart f1 g \<and> handled abs h m f1 g else g = f1))"
    using handle_returns [OF assms, of f1 m]
    by (intro t_bind [where R = "returns (\<lambda>_ g. if allowed then apart f1 g \<and> handled abs h m f1 g else g = f1)"])
      (auto intro: t_ret)
qed simp

lemma rejected_returns:
  assumes "plain (messageId m)" "jobs f1 (messageId m) = Some row" "i = messageId m"
  shows "triple inv abs (\<lambda>f. f = f1) (rejected st env m c a i)
     (returns (\<lambda>x g. x = Result_skipped State_rejected \<and> inbox f1 (messageId m, c) = None
        \<and> inbox g = (inbox f1)((messageId m, c) \<mapsto> receipt_of env m c) \<and> outbox g = outbox f1 \<and> owner g = owner f1
        \<and> jobs g = (jobs f1)(messageId m \<mapsto> row\<lparr>job_status := Job_isolated\<rparr>)))"
  unfolding rejected_def
proof (rule t_bind [where R = "returns (\<lambda>ok g. ok \<longrightarrow> inbox g = inbox f1 \<and> outbox g = outbox f1 \<and> owner g = owner f1
        \<and> jobs g = (jobs f1)(messageId m \<mapsto> row\<lparr>job_status := Job_isolated\<rparr>))"])
  show "triple inv abs (\<lambda>f. f = f1) (isolateJob st i) (returns (\<lambda>ok g. ok \<longrightarrow> inbox g = inbox f1 \<and> outbox g = outbox f1
        \<and> owner g = owner f1 \<and> jobs g = (jobs f1)(messageId m \<mapsto> row\<lparr>job_status := Job_isolated\<rparr>)))"
    by (rule t_meets [OF isolate_job]) (use assms(2,3) in \<open>auto simp: faulty_def spec_finish_job_def split: if_splits\<close>)
next
  fix ok
  let ?K = "\<lambda>g. inbox g = inbox f1 \<and> outbox g = outbox f1 \<and> owner g = owner f1
        \<and> jobs g = (jobs f1)(messageId m \<mapsto> row\<lparr>job_status := Job_isolated\<rparr>)"
  let ?Q = "\<lambda>x g. x = Result_skipped State_rejected \<and> inbox f1 (messageId m, c) = None
        \<and> inbox g = (inbox f1)((messageId m, c) \<mapsto> receipt_of env m c) \<and> outbox g = outbox f1 \<and> owner g = owner f1
        \<and> jobs g = (jobs f1)(messageId m \<mapsto> row\<lparr>job_status := Job_isolated\<rparr>)"
  have iso: "triple inv abs ?K (isolate st env m c a Authoritative_state_rejected)
      (returns (\<lambda>x g. ?K g \<and> x = Result_skipped State_rejected))"
    unfolding triple_def
  proof (intro allI impI)
    fix s r t assume s: "inv s" "?K (abs s)" and run: "isolate st env m c a Authoritative_state_rejected s = (r, t)"
    from triple_run [OF isolate_returns s(1) run]
    have "inv t \<and> (case r of Inl e \<Rightarrow> abs t = abs s | Inr x \<Rightarrow> x = Result_skipped State_rejected
        \<and> inbox (abs t) = inbox (abs s) \<and> jobs (abs t) = jobs (abs s) \<and> outbox (abs t) = outbox (abs s) \<and> owner (abs t) = owner (abs s))"
      by (simp split: sum.splits)
    with s(2) show "inv t \<and> returns (\<lambda>x g. ?K g \<and> x = Result_skipped State_rejected) r (abs t)" by auto
  qed
  have "triple inv abs ?K (bindA (isolate st env m c a Authoritative_state_rejected) (\<lambda>isolated.
       bindA (createInboxReceipt st (receipt_of env m c)) (\<lambda>_. ret isolated))) (returns ?Q)"
  proof (rule t_bind [OF iso])
    fix x
    show "triple inv abs (returns (\<lambda>x g. ?K g \<and> x = Result_skipped State_rejected) (Inr x))
        (bindA (createInboxReceipt st (receipt_of env m c)) (\<lambda>_. ret x)) (returns ?Q)"
      by (rule receipt_then [OF assms(1)]) auto
  qed simp
  then show "triple inv abs (returns (\<lambda>ok g. ok \<longrightarrow> ?K g) (Inr ok))
      (if \<not> ok then throw (EventingError Eventing_conflict True)
       else bindA (isolate st env m c a Authoritative_state_rejected) (\<lambda>isolated.
         bindA (createInboxReceipt st (receipt_of env m c)) (\<lambda>_. ret isolated))) (returns ?Q)"
    by (cases ok) (auto intro: t_throw elim!: t_conseq)
qed simp

end

context event_store
begin

lemma isolated_conflict:
  assumes "K f1" "\<And>g. inbox g = inbox f1 \<and> jobs g = jobs f1 \<and> outbox g = outbox f1 \<and> owner g = owner f1 \<Longrightarrow> Q (Result_isolated reason) g"
    and "reason \<noteq> Authoritative_state_rejected"
  shows "triple inv abs (\<lambda>f. f = f1) (isolate st env m c a reason) (returns Q)"
  by (rule t_weaken [OF isolate_returns]) (use assms(2,3) in \<open>auto split: sum.splits\<close>)

lemma grows_from: "outbox_grows f1 g \<Longrightarrow> outbox f1 = outbox f0 \<Longrightarrow> outbox g' = outbox g \<Longrightarrow> outbox_grows f0 g'"
  by (simp add: outbox_grows_def)

lemma handled_from: "handled abs h m f1 g \<Longrightarrow> owner f1 = owner f0 \<Longrightarrow> outbox f1 = outbox f0 \<Longrightarrow> owner g' = owner g \<Longrightarrow>
    outbox g' = outbox g \<Longrightarrow> handled abs h m f0 g'"
  unfolding handled_def by metis

lemma consume_event_returns:
  assumes "plain (messageId m)" "well_behaved inv abs h" "h_kind h \<noteq> Job_kind" "messageKind m \<noteq> Job_kind"
    and "inbox f0 (messageId m, c) = None"
  shows "triple inv abs (\<lambda>f. f = f0) (consume_event st env h m c) (returns (\<lambda>x g. consumed abs h m c f0 x g))"
  unfolding consume_event_def
proof (rule t_bind [where R = "returns (\<lambda>_ g. apart f0 g \<and> handled abs h m f0 g)"])
  show "triple inv abs (\<lambda>f. f = f0) (withTimeout (ce_expired env) (handle h m)) (returns (\<lambda>_ g. apart f0 g \<and> handled abs h m f0 g))"
    by (rule t_timeout [OF handle_returns [OF assms(2)]]) (auto split: if_splits)
next
  fix x
  have "triple inv abs (\<lambda>g. apart f0 g \<and> handled abs h m f0 g) (complete st env h m c)
      (returns (\<lambda>x g. x = Result_completed \<and> consumed abs h m c f0 Result_completed g))"
    by (rule complete_returns [OF assms(1)])
      (use assms(3-5) in \<open>auto intro!: new_receiptI simp: apart_def elim: handled_from grows_from\<close>)
  then show "triple inv abs (returns (\<lambda>_ g. apart f0 g \<and> handled abs h m f0 g) (Inr x)) (complete st env h m c)
      (returns (\<lambda>x g. consumed abs h m c f0 x g))"
    by (rule t_conseq) auto
qed simp

lemma consume_job_returns:
  assumes "plain (messageId m)" "well_behaved inv abs h" "h_kind h = Job_kind" "messageKind m = Job_kind" "matches h m"
    and "inbox f0 (messageId m, c) = None"
  shows "triple inv abs (\<lambda>f. f = f0) (consume_job st env h m c a) (returns (\<lambda>x g. consumed abs h m c f0 x g))"
  unfolding consume_job_def
proof (rule t_bind [where R = "returns (\<lambda>x g. g = f0 \<and> x = jobs f0 (messageId m))"])
  show "triple inv abs (\<lambda>f. f = f0) (findJob st (messageId m)) (returns (\<lambda>x g. g = f0 \<and> x = jobs f0 (messageId m)))"
    by (rule t_meets [OF find_job]) (auto simp: faulty_def spec_read_def)
next
  fix existing
  let ?claimed = "\<lambda>row. f0\<lparr>jobs := (jobs f0)(messageId m \<mapsto> row\<lparr>job_status := Processing\<rparr>)\<rparr>"
  let ?after = "\<lambda>claimed g. case claimed of None \<Rightarrow> g = f0
     | Some job \<Rightarrow> \<exists>row. jobs f0 (messageId m) = Some row \<and> job_status row = Queued \<and> jobId job = messageId m \<and> g = ?claimed row"
  let ?rest = "\<lambda>job. bindA (withTimeout (ce_expired env) (authoritative_work h m)) (\<lambda>authoritative.
             if \<not> authoritative then rejected st env m c a (jobId job) else complete st env h m c)"
  have claim: "triple inv abs (\<lambda>f. f = f0) (claimJob st (messageId m)) (returns ?after)"
    unfolding triple_def
  proof (intro allI impI)
    fix s r t assume s: "inv s" "abs s = f0" and run: "claimJob st (messageId m) s = (r, t)"
    have ids: "jobs f0 (messageId m) = Some row \<Longrightarrow> jobId row = messageId m" for row using job_ids [OF s(1)] s(2) by simp
    from claim_job [of "messageId m"] s run have "inv t \<and> (faulty f0 r (abs t) \<or> spec_claim_job (messageId m) f0 r (abs t))"
      unfolding meets_def by blast
    then show "inv t \<and> returns ?after r (abs t)"
    proof (cases "jobs f0 (messageId m)")
      case None
      with \<open>inv t \<and> _\<close> show ?thesis by (auto simp: faulty_def spec_claim_job_def)
    next
      case (Some row)
      with ids [OF Some] \<open>inv t \<and> _\<close> show ?thesis
        by (cases "job_status row = Queued") (auto simp: faulty_def spec_claim_job_def)
    qed
  qed
  have rest: "triple inv abs (\<lambda>f. f = ?claimed row) (?rest job) (returns (\<lambda>x g. consumed abs h m c f0 x g))"
    if row: "jobs f0 (messageId m) = Some row" "job_status row = Queued" "jobId job = messageId m"
      "job_fingerprint row = payloadSha256 m" for row job
  proof (rule t_bind [where R = "returns (\<lambda>allowed g. if allowed then apart (?claimed row) g \<and> handled abs h m (?claimed row) g else g = ?claimed row)"])
    show "triple inv abs (\<lambda>f. f = ?claimed row) (withTimeout (ce_expired env) (authoritative_work h m))
      (returns (\<lambda>allowed g. if allowed then apart (?claimed row) g \<and> handled abs h m (?claimed row) g else g = ?claimed row))"
      by (rule t_timeout [OF authoritative_returns [OF assms(2)]]) (cases "ce_expired env"; simp)
  next
    fix allowed
    show "triple inv abs (returns (\<lambda>allowed g. if allowed then apart (?claimed row) g \<and> handled abs h m (?claimed row) g
        else g = ?claimed row) (Inr allowed)) (if \<not> allowed then rejected st env m c a (jobId job) else complete st env h m c)
      (returns (\<lambda>x g. consumed abs h m c f0 x g))"
    proof (cases allowed)
      case True
      have "triple inv abs (\<lambda>g. apart (?claimed row) g \<and> handled abs h m (?claimed row) g) (complete st env h m c)
        (returns (\<lambda>x g. x = Result_completed \<and> consumed abs h m c f0 Result_completed g))"
        by (rule complete_returns [OF assms(1)])
          (use assms(3,4,6) row in \<open>auto intro!: new_receiptI simp: apart_def job_moved_def elim: handled_from grows_from\<close>)
      then have "triple inv abs (\<lambda>g. apart (?claimed row) g \<and> handled abs h m (?claimed row) g) (complete st env h m c)
        (returns (\<lambda>x g. consumed abs h m c f0 x g))" by (rule t_weaken) auto
      then show ?thesis using True by (simp only: not_True_eq_False if_False) (erule t_pre, auto)
    next
      case False
      have "triple inv abs (\<lambda>f. f = ?claimed row) (rejected st env m c a (jobId job)) (returns (\<lambda>x g. consumed abs h m c f0 x g))"
        by (rule t_weaken, rule rejected_returns [OF assms(1), where row = "row\<lparr>job_status := Processing\<rparr>"])
          (use row in \<open>auto intro: new_receiptI simp: job_moved_def\<close>)
      then show ?thesis using False by (simp only: not_False_eq_True if_True) (erule t_pre, auto)
    qed
  qed simp
  show "triple inv abs (returns (\<lambda>x g. g = f0 \<and> x = jobs f0 (messageId m)) (Inr existing))
     (if map_option job_fingerprint existing \<noteq> Some (payloadSha256 m)
      then isolate st env m c a Payload_conflict
      else bindA (claimJob st (messageId m)) (\<lambda>claimed. case claimed of None \<Rightarrow> unclaimed st env m c | Some job \<Rightarrow> ?rest job))
     (returns (\<lambda>x g. consumed abs h m c f0 x g))"
  proof (cases "existing = jobs f0 (messageId m)")
    case False
    then show ?thesis by (auto simp: triple_def)
  next
    case existing: True
    show ?thesis
    proof (cases "map_option job_fingerprint existing = Some (payloadSha256 m)")
      case False
      have "triple inv abs (\<lambda>f. f = f0) (isolate st env m c a Payload_conflict) (returns (\<lambda>x g. consumed abs h m c f0 x g))"
        by (rule isolated_conflict [where K = "\<lambda>_. True"]) (use False existing assms(4,5) in auto)
      with False existing show ?thesis by simp
    next
      case True
      then obtain row where row: "jobs f0 (messageId m) = Some row" "job_fingerprint row = payloadSha256 m"
        using existing by auto
      have "triple inv abs (\<lambda>f. f = f0) (bindA (claimJob st (messageId m)) (\<lambda>claimed. case claimed of
          None \<Rightarrow> unclaimed st env m c | Some job \<Rightarrow> ?rest job)) (returns (\<lambda>x g. consumed abs h m c f0 x g))"
      proof (rule t_bind [OF claim])
        fix claimed
        show "triple inv abs (returns ?after (Inr claimed)) (case claimed of None \<Rightarrow> unclaimed st env m c | Some job \<Rightarrow> ?rest job)
          (returns (\<lambda>x g. consumed abs h m c f0 x g))"
        proof (cases claimed)
          case None
          then show ?thesis using unclaimed_returns [OF assms(1), of f0 env c h] by simp
        next
          case (Some job)
          show ?thesis unfolding triple_def
          proof (intro allI impI)
            fix s r t assume s: "inv s" "returns ?after (Inr claimed) (abs s)"
              and run: "(case claimed of None \<Rightarrow> unclaimed st env m c | Some job \<Rightarrow> ?rest job) s = (r, t)"
            from s(2) Some row(1) have "job_status row = Queued" "jobId job = messageId m" "abs s = ?claimed row" by auto
            with rest [OF row(1) this(1,2) row(2)] s(1) run Some
            show "inv t \<and> returns (\<lambda>x g. consumed abs h m c f0 x g) r (abs t)" unfolding triple_def by simp
          qed
        qed
      qed simp
      with True existing show ?thesis by simp
    qed
  qed
qed simp

end

lemma UUID_plain: "text_ok UUID n s \<Longrightarrow> plain s"
proof
  assume "text_ok UUID n s" "CHR 0x00 \<in> set s"
  then have "rx_chars UUID (CHR 0x00)" using rx_test_chars by (auto simp: text_ok_def)
  moreover have "\<not> rx_chars UUID (CHR 0x00)" by code_simp
  ultimately show False by blast
qed

lemma validated_plain: "validateMessageEnvelope cx v = Inr m \<Longrightarrow> plain (messageId m)"
  using validated_shape [of cx v m]
  by (auto simp: event_ok_def job_ok_def dest: UUID_plain split: message_envelope.splits)

text \<open>What the caller of \<open>consume\<close> is told, and what has happened.\<close>

definition consumption ::
    "('s \<Rightarrow> 'w facts) \<Rightarrow> codec \<Rightarrow> consume_request \<Rightarrow> 's message_handler \<Rightarrow> 'w facts \<Rightarrow> failure + consumption_result \<Rightarrow> 'w facts \<Rightarrow> bool" where
  "consumption view cx req h f r g \<longleftrightarrow> (case r of
     Inl e \<Rightarrow> g = f
   | Inr x \<Rightarrow> \<exists>m c. validateMessageEnvelope cx (rq_envelope req) = Inr m
       \<and> validateConsumerName (rq_consumer req) = Inr c \<and> consumed view h m c f x g)"

context event_store
begin

lemma find_receipt_returns:
  assumes "plain (messageId m)"
  shows "triple inv abs (\<lambda>f. f = f0) (findInboxReceipt st (messageId m) c)
    (\<lambda>r g. g = f0 \<and> returns (\<lambda>x _. x = inbox f0 (messageId m, c)) r g)"
  by (rule t_meets [OF find_receipt [OF assms]]) (auto simp: faulty_def spec_read_def)

lemma inbox_work_returns:
  assumes "plain (messageId m)" "well_behaved inv abs h" "matches h m"
  shows "triple inv abs (\<lambda>f. f = f0) (inbox_work st env h m c a) (returns (\<lambda>x g. consumed abs h m c f0 x g))"
  unfolding inbox_work_def
proof (rule t_bind [OF find_receipt_returns [OF assms(1)]])
  fix raced :: "inbox_receipt option"
  let ?k = "case raced of
       Some rc \<Rightarrow> if rc_payloadSha256 rc = payloadSha256 m then ret Result_duplicate else isolate st env m c a Payload_conflict
     | None \<Rightarrow> if h_kind h = Job_kind then consume_job st env h m c a else consume_event st env h m c"
  have kind: "h_kind h = messageKind m" using assms(3) by (simp add: matches_def)
  have "triple inv abs (\<lambda>f. f = f0) ?k (returns (\<lambda>x g. consumed abs h m c f0 x g))" if raced: "raced = inbox f0 (messageId m, c)"
  proof (cases raced)
    case None
    with raced kind assms show ?thesis
      by (cases "h_kind h = Job_kind") (simp_all add: consume_job_returns consume_event_returns)
  next
    case (Some rc)
    show ?thesis
    proof (cases "rc_payloadSha256 rc = payloadSha256 m")
      case True
      with Some raced show ?thesis by (auto intro!: t_ret)
    next
      case False
      have "triple inv abs (\<lambda>f. f = f0) (isolate st env m c a Payload_conflict) (returns (\<lambda>x g. consumed abs h m c f0 x g))"
        by (rule isolated_conflict [where K = "\<lambda>_. True"]) (use False Some raced assms(3) in auto)
      with Some False show ?thesis by simp
    qed
  qed
  then show "triple inv abs (\<lambda>g. g = f0 \<and> returns (\<lambda>x _. x = inbox f0 (messageId m, c)) (Inr raced) g) ?k
      (returns (\<lambda>x g. consumed abs h m c f0 x g))"
    unfolding triple_def by auto
qed simp

lemma consume_valid_returns:
  assumes "well_behaved inv abs h"
    and valid: "validateConsumerName (rq_consumer req) = Inr c" "validateMessageEnvelope cx (rq_envelope req) = Inr m"
  shows "triple inv abs (\<lambda>f. f = f0) (consume_valid st env h m c a) (consumption abs cx req h f0)"
proof -
  have plain: "plain (messageId m)" using valid(2) by (rule validated_plain)
  have isolated: "triple inv abs (\<lambda>f. f = f0) (isolate st env m c a reason) (consumption abs cx req h f0)"
    if "reason \<noteq> Authoritative_state_rejected" "\<And>g. inbox g = inbox f0 \<and> jobs g = jobs f0 \<and> outbox g = outbox f0 \<and> owner g = owner f0
        \<Longrightarrow> consumed abs h m c f0 (Result_isolated reason) g" for reason
    by (rule t_weaken [OF isolate_returns]) (use that valid in \<open>auto simp: consumption_def split: sum.splits\<close>)
  show ?thesis
  proof (cases "matches h m")
    case False
    with isolated [of Unsupported_message] show ?thesis by (simp add: consume_valid_def)
  next
    case match: True
    have work: "triple inv abs (\<lambda>f. f = f0) (transaction (inbox_work st env h m c a)) (consumption abs cx req h f0)"
      by (rule t_transaction [OF inbox_work_returns [OF plain assms(1) match]]) (use valid in \<open>auto simp: consumption_def\<close>)
    have "triple inv abs (\<lambda>f. f = f0) (bindA (findInboxReceipt st (messageId m) c) (\<lambda>receipt.
        case receipt of
          Some rc \<Rightarrow> if rc_payloadSha256 rc = payloadSha256 m then ret Result_duplicate else isolate st env m c a Payload_conflict
        | None \<Rightarrow> transaction (inbox_work st env h m c a))) (consumption abs cx req h f0)"
    proof (rule t_bind [OF find_receipt_returns [OF plain]])
      fix receipt :: "inbox_receipt option"
      let ?k = "case receipt of
          Some rc \<Rightarrow> if rc_payloadSha256 rc = payloadSha256 m then ret Result_duplicate else isolate st env m c a Payload_conflict
        | None \<Rightarrow> transaction (inbox_work st env h m c a)"
      have "triple inv abs (\<lambda>f. f = f0) ?k (consumption abs cx req h f0)" if receipt: "receipt = inbox f0 (messageId m, c)"
      proof (cases receipt)
        case None
        with work show ?thesis by simp
      next
        case (Some rc)
        show ?thesis
        proof (cases "rc_payloadSha256 rc = payloadSha256 m")
          case True
          have "triple inv abs (\<lambda>f. f = f0) (ret Result_duplicate) (consumption abs cx req h f0)"
            by (rule t_ret) (use True Some receipt valid in \<open>simp add: consumption_def\<close>)
          with Some True show ?thesis by simp
        next
          case False
          have "triple inv abs (\<lambda>f. f = f0) (isolate st env m c a Payload_conflict) (consumption abs cx req h f0)"
            by (rule isolated) (use False Some receipt match in auto)
          with Some False show ?thesis by simp
        qed
      qed
      then show "triple inv abs (\<lambda>g. g = f0 \<and> returns (\<lambda>x _. x = inbox f0 (messageId m, c)) (Inr receipt) g) ?k
          (consumption abs cx req h f0)"
        unfolding triple_def by auto
    qed (simp add: consumption_def)
    with match show ?thesis by (simp add: consume_valid_def)
  qed
qed

lemma t_check:
  assumes "\<And>x. r = Inr x \<Longrightarrow> triple inv abs (\<lambda>f. f = f0) (k x) Q" "\<And>e. Q (Inl e) f0"
  shows "triple inv abs (\<lambda>f. f = f0) (bindA (lift r) k) Q"
  using assms unfolding triple_def bindA_def lift_def by (cases r) auto

lemma consume_spec:
  assumes "well_behaved inv abs h"
  shows "triple inv abs (\<lambda>f. f = f0) (consume st cx env req h) (consumption abs cx req h f0)"
  unfolding consume_def
  by (intro t_check consume_valid_returns [OF assms]) (simp_all add: consumption_def)

end

section \<open>Appending, submitting and cancelling\<close>

definition appended :: "codec \<Rightarrow> jval \<Rightarrow> 'w facts \<Rightarrow> failure + string \<Rightarrow> 'w facts \<Rightarrow> bool" where
  "appended cx input f r g \<longleftrightarrow> (case r of
     Inl e \<Rightarrow> g = f
   | Inr i \<Rightarrow> \<exists>m. validateEventEnvelope cx input = Inr m \<and> i = messageId m
       \<and> (case outbox f i of
            None \<Rightarrow> g = f\<lparr>outbox := (outbox f)(i \<mapsto> outboxRecord m)\<rparr>
          | Some row \<Rightarrow> g = f \<and> ob_payloadSha256 row = payloadSha256 m))"

definition submitted :: "codec \<Rightarrow> jval \<Rightarrow> 'w facts \<Rightarrow> failure + string \<times> job_status \<Rightarrow> 'w facts \<Rightarrow> bool" where
  "submitted cx input f r g \<longleftrightarrow> (case r of
     Inl e \<Rightarrow> g = f
   | Inr (i, status) \<Rightarrow> \<exists>m j. validateJobEnvelope cx input = Inr m \<and> envelope m = Job_message j
       \<and> ((\<exists>row \<in> ran (jobs f). g = f \<and> job_key row = idempotencyKey j \<and> job_fingerprint row = payloadSha256 m
             \<and> i = jobId row \<and> status = job_status row)
          \<or> (i = messageId m \<and> status = Queued \<and> jobs f i = None \<and> outbox f i = None
             \<and> (\<forall>row \<in> ran (jobs f). job_key row \<noteq> idempotencyKey j)
             \<and> g = f\<lparr>jobs := (jobs f)(i \<mapsto> submitted_job m j), outbox := (outbox f)(i \<mapsto> outboxRecord m)\<rparr>)))"

definition cancelled :: "'w facts \<Rightarrow> failure + string \<times> job_status \<Rightarrow> 'w facts \<Rightarrow> bool" where
  "cancelled f r g \<longleftrightarrow> (case r of
     Inl e \<Rightarrow> g = f
   | Inr (i, status) \<Rightarrow> \<exists>row. jobs f i = Some row
       \<and> (if job_status row = Queued
          then status = Cancelled \<and> (\<exists>reason. g = f\<lparr>jobs := (jobs f)(i \<mapsto> row\<lparr>job_status := Cancelled, cancelReason := Some reason\<rparr>)\<rparr>)
          else status = job_status row \<and> g = f))"

lemma outboxRecord_id [simp]: "ob_messageId (outboxRecord m) = messageId m"
  by (simp add: outboxRecord_def)

lemma is_conflict_iff [simp]: "is_conflict conflict"
  by (simp add: is_conflict_def conflict_def)

lemma faulty_no_conflict: "faulty f (Inl e) g \<Longrightarrow> \<not> is_conflict e"
  by (auto simp: faulty_def is_conflict_def split: failure.splits)

lemma cancelled_none: "spec_cancel_job i reason f0 (Inr None) g \<Longrightarrow> cancelled f0 (Inl e) g"
  by (auto simp: spec_cancel_job_def cancelled_def split: option.splits if_splits)

lemma cancelled_some: "spec_cancel_job i reason f0 (Inr (Some r)) g \<Longrightarrow> cancelled f0 (Inr (i, job_status r)) g"
proof (cases "jobs f0 i")
  case (Some row)
  then show "spec_cancel_job i reason f0 (Inr (Some r)) g \<Longrightarrow> ?thesis"
    by (cases "job_status row = Queued") (auto simp: spec_cancel_job_def cancelled_def)
qed (simp add: spec_cancel_job_def)

context event_store
begin

lemma append_spec: "triple inv abs (\<lambda>f. f = f0) (appendEvent st cx input) (appended cx input f0)"
  unfolding appendEvent_def
proof (rule t_check)
  fix m assume valid: "validateEventEnvelope cx input = Inr m"
  let ?Q = "\<lambda>r g. case r of Inl e \<Rightarrow> g = f0 | Inr _ \<Rightarrow> (case outbox f0 (messageId m) of
      None \<Rightarrow> g = f0\<lparr>outbox := (outbox f0)(messageId m \<mapsto> outboxRecord m)\<rparr>
    | Some row \<Rightarrow> g = f0 \<and> ob_payloadSha256 row = payloadSha256 m)"
  have "triple inv abs (\<lambda>f. f = f0) (catchA (appendOutbox st (outboxRecord m)) (\<lambda>e.
        if is_conflict e then bindA (getOutbox st (messageId m)) (\<lambda>row.
          if map_option ob_payloadSha256 row = Some (payloadSha256 m) then ret () else throw e)
        else throw e)) ?Q"
  proof (rule t_catch_cases)
    show "triple inv abs (\<lambda>f. f = f0) (appendOutbox st (outboxRecord m)) (\<lambda>r g. case r of
        Inl e \<Rightarrow> g = f0 \<and> (is_conflict e \<longrightarrow> outbox f0 (messageId m) \<noteq> None)
      | Inr _ \<Rightarrow> outbox f0 (messageId m) = None \<and> g = f0\<lparr>outbox := (outbox f0)(messageId m \<mapsto> outboxRecord m)\<rparr>)"
      by (rule t_meets [OF append])
        (auto simp: spec_append_def faulty_def is_conflict_def split: if_splits failure.splits)
  next
    fix e
    let ?P = "\<lambda>g. g = f0 \<and> (is_conflict e \<longrightarrow> outbox f0 (messageId m) \<noteq> None)"
    have look: "triple inv abs (\<lambda>f. f = f0) (getOutbox st (messageId m))
        (\<lambda>r g. g = f0 \<and> returns (\<lambda>x _. x = outbox f0 (messageId m)) r g)"
      by (rule t_meets [OF get_outbox]) (auto simp: faulty_def spec_read_def)
    have "triple inv abs ?P (bindA (getOutbox st (messageId m)) (\<lambda>row.
          if map_option ob_payloadSha256 row = Some (payloadSha256 m) then ret () else throw e)) ?Q" if "is_conflict e"
    proof (rule t_pre [OF t_bind [OF look]])
      fix row
      show "triple inv abs (\<lambda>g. g = f0 \<and> returns (\<lambda>x _. x = outbox f0 (messageId m)) (Inr row) g)
          (if map_option ob_payloadSha256 row = Some (payloadSha256 m) then ret () else throw e) ?Q"
        by (auto intro!: t_ret t_throw split: option.splits)
    qed auto
    then show "triple inv abs ?P
        (if is_conflict e then bindA (getOutbox st (messageId m)) (\<lambda>row.
          if map_option ob_payloadSha256 row = Some (payloadSha256 m) then ret () else throw e)
         else throw e) ?Q"
      by (auto intro!: t_throw)
  qed (auto split: option.splits)
  then show "triple inv abs (\<lambda>f. f = f0) (bindA (catchA (appendOutbox st (outboxRecord m)) (\<lambda>e.
        if is_conflict e then bindA (getOutbox st (messageId m)) (\<lambda>row.
          if map_option ob_payloadSha256 row = Some (payloadSha256 m) then ret () else throw e)
        else throw e)) (\<lambda>_. ret (messageId m))) (appended cx input f0)"
    by (rule t_bind) (use valid in \<open>auto intro!: t_ret simp: appended_def\<close>)
qed (simp add: appended_def)

lemma cancel_spec: "triple inv abs (\<lambda>f. f = f0) (cancelJob st jobIdInput reasonInput) (cancelled f0)"
  unfolding cancelJob_def
proof (intro t_check)
  fix i reason
  show "triple inv abs (\<lambda>f. f = f0) (bindA (st_cancelJob st i reason) (\<lambda>row.
     case row of None \<Rightarrow> throw (EventingError Eventing_not_found False) | Some r \<Rightarrow> ret (i, job_status r))) (cancelled f0)"
  proof (rule t_bind_cases)
    show "triple inv abs (\<lambda>f. f = f0) (st_cancelJob st i reason)
        (\<lambda>r g. case r of Inl e \<Rightarrow> g = f0 | Inr x \<Rightarrow> spec_cancel_job i reason f0 (Inr x) g)"
      by (rule t_meets [OF cancel_job]) (auto simp: faulty_def spec_cancel_job_def split: option.splits if_splits)
    show "triple inv abs (spec_cancel_job i reason f0 (Inr x))
       (case x of None \<Rightarrow> throw (EventingError Eventing_not_found False) | Some r \<Rightarrow> ret (i, job_status r)) (cancelled f0)" for x
      by (cases x) (auto intro!: t_ret t_throw cancelled_none cancelled_some)
  qed (auto simp: cancelled_def)
qed (simp_all add: cancelled_def)

end

lemma validated_job:
  assumes "validateJobEnvelope cx v = Inr m"
  obtains j where "envelope m = Job_message j" "messageId m = jb_jobId j" "messageKind m = Job_kind"
proof -
  from assms obtain j r a where f: "finish cx (job_message j r a) = Inr m" unfolding validate_job_eq by blast
  then show thesis by (intro that [of j]) (auto simp: finish_def Let_def result_simps job_message_def)
qed

context event_store
begin

lemma find_key_returns:
  "triple inv abs (\<lambda>f. f = f0) (findJobByIdempotencyKey st key)
     (\<lambda>r g. case r of Inl e \<Rightarrow> g = f0 | Inr x \<Rightarrow> g = f0 \<and> (case x of
        Some row \<Rightarrow> row \<in> ran (jobs f0) \<and> job_key row = key | None \<Rightarrow> \<forall>row \<in> ran (jobs f0). job_key row \<noteq> key))"
  by (rule t_meets [OF find_key]) (auto simp: faulty_def spec_find_key_def split: option.splits)

lemma create_both:
  "triple inv abs (\<lambda>f. f = f0) (transaction (bindA (createJob st job) (\<lambda>_. appendOutbox st row)))
     (\<lambda>r g. case r of Inl e \<Rightarrow> g = f0 | Inr _ \<Rightarrow> jobs f0 (jobId job) = None \<and> outbox f0 (ob_messageId row) = None
        \<and> (\<forall>item \<in> ran (jobs f0). job_key item \<noteq> job_key job)
        \<and> g = f0\<lparr>jobs := (jobs f0)(jobId job \<mapsto> job), outbox := (outbox f0)(ob_messageId row \<mapsto> row)\<rparr>)"
proof (rule t_transaction)
  let ?J = "\<lambda>g. jobs f0 (jobId job) = None \<and> (\<forall>item \<in> ran (jobs f0). job_key item \<noteq> job_key job)
      \<and> g = f0\<lparr>jobs := (jobs f0)(jobId job \<mapsto> job)\<rparr>"
  show "triple inv abs (\<lambda>f. f = f0) (bindA (createJob st job) (\<lambda>_. appendOutbox st row))
      (returns (\<lambda>_ g. jobs f0 (jobId job) = None \<and> outbox f0 (ob_messageId row) = None
        \<and> (\<forall>item \<in> ran (jobs f0). job_key item \<noteq> job_key job)
        \<and> g = f0\<lparr>jobs := (jobs f0)(jobId job \<mapsto> job), outbox := (outbox f0)(ob_messageId row \<mapsto> row)\<rparr>))"
  proof (rule t_bind_cases)
    show "triple inv abs (\<lambda>f. f = f0) (createJob st job) (\<lambda>r g. case r of Inl e \<Rightarrow> True | Inr _ \<Rightarrow> ?J g)"
      by (rule t_meets [OF create_job]) (auto simp: faulty_def spec_create_job_def split: if_splits)
    show "triple inv abs ?J (appendOutbox st row)
      (returns (\<lambda>_ g. jobs f0 (jobId job) = None \<and> outbox f0 (ob_messageId row) = None
        \<and> (\<forall>item \<in> ran (jobs f0). job_key item \<noteq> job_key job)
        \<and> g = f0\<lparr>jobs := (jobs f0)(jobId job \<mapsto> job), outbox := (outbox f0)(ob_messageId row \<mapsto> row)\<rparr>))"
      by (rule t_meets [OF append]) (auto simp: faulty_def spec_append_def split: if_splits)
  qed simp
qed auto

lemma submit_spec: "triple inv abs (\<lambda>f. f = f0) (submitJob st cx input) (submitted cx input f0)"
  unfolding submitJob_def
proof (rule t_check)
  fix m assume valid: "validateJobEnvelope cx input = Inr m"
  then obtain j where j: "envelope m = Job_message j" "messageId m = jb_jobId j" by (rule validated_job)
  let ?create = "bindA (transaction (bindA (createJob st (submitted_job m j)) (\<lambda>_. appendOutbox st (outboxRecord m)))) (\<lambda>_.
      ret (jobId (submitted_job m j), job_status (submitted_job m j)))"
  let ?again = "\<lambda>e. if is_conflict e then bindA (findJobByIdempotencyKey st (idempotencyKey j)) (\<lambda>raced.
      case raced of Some p \<Rightarrow> if job_fingerprint p = payloadSha256 m then ret (jobId p, job_status p) else throw e
      | None \<Rightarrow> throw e) else throw e"
  have created: "triple inv abs (\<lambda>f. f = f0) ?create (submitted cx input f0)"
    by (rule t_bind_cases [OF create_both])
      (use valid j in \<open>auto intro!: t_ret simp: submitted_def submitted_job_def\<close>)
  have again: "triple inv abs (\<lambda>f. f = f0) (?again e) (submitted cx input f0)" for e
  proof (cases "is_conflict e")
    case True
    have "triple inv abs (\<lambda>f. f = f0) (bindA (findJobByIdempotencyKey st (idempotencyKey j)) (\<lambda>raced.
      case raced of Some p \<Rightarrow> if job_fingerprint p = payloadSha256 m then ret (jobId p, job_status p) else throw e
      | None \<Rightarrow> throw e)) (submitted cx input f0)"
      by (rule t_bind_cases [OF find_key_returns])
        (use valid j in \<open>auto intro!: t_ret t_throw simp: submitted_def split: option.split\<close>)
    with True show ?thesis by simp
  qed (auto intro: t_throw simp: submitted_def)
  have "triple inv abs (\<lambda>f. f = f0) (catchA ?create ?again) (submitted cx input f0)"
  proof (rule t_catch [OF created])
    show "triple inv abs (submitted cx input f0 (Inl e)) (?again e) (submitted cx input f0)" for e
      by (rule t_pre [OF again]) (simp add: submitted_def)
  qed
  then have "triple inv abs (\<lambda>f. f = f0) (bindA (findJobByIdempotencyKey st (idempotencyKey j)) (\<lambda>prior. case prior of
       Some p \<Rightarrow> if job_fingerprint p \<noteq> payloadSha256 m then throw conflict else ret (jobId p, job_status p)
     | None \<Rightarrow> catchA ?create ?again)) (submitted cx input f0)"
    by (intro t_bind_cases [OF find_key_returns])
      (use valid j in \<open>auto intro!: t_ret t_throw elim!: t_pre simp: submitted_def split: option.split\<close>)
  with j show "triple inv abs (\<lambda>f. f = f0) (case job_of (envelope m) of None \<Rightarrow> throw (Foreign_error ''TypeError'') | Some j \<Rightarrow>
     bindA (findJobByIdempotencyKey st (idempotencyKey j)) (\<lambda>prior.
     case prior of
       Some p \<Rightarrow> if job_fingerprint p \<noteq> payloadSha256 m then throw conflict else ret (jobId p, job_status p)
     | None \<Rightarrow>
         (let job = submitted_job m j in
          catchA (bindA (transaction (bindA (createJob st job) (\<lambda>_. appendOutbox st (outboxRecord m)))) (\<lambda>_.
                    ret (jobId job, job_status job)))
            (\<lambda>e. if is_conflict e then bindA (findJobByIdempotencyKey st (idempotencyKey j)) (\<lambda>raced.
                   case raced of
                     Some p \<Rightarrow> if job_fingerprint p = payloadSha256 m then ret (jobId p, job_status p) else throw e
                   | None \<Rightarrow> throw e)
                 else throw e)))) (submitted cx input f0)"
    by (simp add: Let_def)
qed (simp add: submitted_def)

end

end
