(* ===== verification/Event_Publisher.thy ===== *)
theory Event_Publisher
  imports Event_Core
begin

text \<open>
  \<open>packages/platform-modules/eventing-outbox/src/\<close>: \<open>publisher.ts\<close>, \<open>operations.ts\<close> and \<open>rabbit.ts\<close>.

  \<open>publishBatch\<close> is the loop over the claimed rows; \<open>publisher_step\<close> is the part of it between two awaits, so
  that \<^theory_text>\<open>Event_System\<close> can interleave several publishers with everything else, and \<open>batch\<close> runs it to
  its end. The transport is an argument: its answer to one publication is a value or a failure.
\<close>

section \<open>Publication of the outbox\<close>

record raw_publisher_options =
  raw_batchSize :: jnum
  raw_claimLeaseSeconds :: jnum
  raw_maxAttempts :: jnum
  raw_backoffSeconds :: "jnum list"

record publisher_options =
  batchSize :: int
  claimLeaseSeconds :: int
  po_maxAttempts :: int
  po_backoffSeconds :: "int list"

definition createOutboxPublisher :: "raw_publisher_options \<Rightarrow> failure + publisher_options" where
  "createOutboxPublisher raw =
     bindR (read_int 1 1000 (JNum (raw_batchSize raw))) (\<lambda>batch.
     bindR (case int_val (raw_claimLeaseSeconds raw) of Some i \<Rightarrow> if i < 1 then invalid else Inr i | None \<Rightarrow> invalid) (\<lambda>lease.
     bindR (read_int 1 16 (JNum (raw_maxAttempts raw))) (\<lambda>attempts.
     bindR (valid_if (int (length (raw_backoffSeconds raw)) = attempts - 1)) (\<lambda>_.
     bindR (mapR (\<lambda>v. read_int 1 86400 (JNum v)) (raw_backoffSeconds raw)) (\<lambda>backoff.
       Inr \<lparr>batchSize = batch, claimLeaseSeconds = lease, po_maxAttempts = attempts, po_backoffSeconds = backoff\<rparr>)))))"

record publication =
  pb_attempt :: nat
  pb_messageId :: string
  pb_messageKind :: message_kind
  pb_messageType :: string
  pb_messageVersion :: jnum
  pb_producer :: string
  pb_correlationId :: string
  pb_payload :: string
  pb_causationId :: "string option"
  pb_traceparent :: "string option"
  pb_tracestate :: "string option"

definition publication_of :: "outbox_record \<Rightarrow> publication" where
  "publication_of r = \<lparr>pb_attempt = attemptCount r, pb_messageId = ob_messageId r, pb_messageKind = ob_messageKind r,
     pb_messageType = ob_messageType r, pb_messageVersion = ob_messageVersion r, pb_producer = ob_producer r,
     pb_correlationId = ob_correlationId r, pb_payload = ob_payload r, pb_causationId = ob_causationId r,
     pb_traceparent = ob_traceparent r, pb_tracestate = ob_tracestate r\<rparr>"

record batch_result =
  br_claimed :: nat
  br_published :: nat
  br_retained :: nat
  br_isolated :: nat

text \<open>Where the loop is: about to claim, to publish a row, to mark it, or done.\<close>

datatype publisher_state =
    Claiming
  | Publish_row outbox_record "outbox_record list" batch_result
  | Mark_row outbox_record "outbox_record list" batch_result
  | Fail_row outbox_record "outbox_record list" batch_result failure
  | Finished batch_result
  | Thrown failure

record step_env =
  se_clock :: "nat \<Rightarrow> int"
  se_token :: "nat \<Rightarrow> string"
  se_transport :: "publication \<Rightarrow> failure + unit"

fun next_row :: "outbox_record list \<Rightarrow> batch_result \<Rightarrow> publisher_state" where
  "next_row [] n = Finished n"
| "next_row (r # rs) n = Publish_row r rs n"

definition unavailable :: failure where
  "unavailable = EventingError Eventing_storage_unavailable True"

fun code_text :: "eventing_code \<Rightarrow> string" where
  "code_text Eventing_conflict = ''eventing_conflict''"
| "code_text Eventing_invalid_input = ''eventing_invalid_input''"
| "code_text Eventing_handler_timeout = ''eventing_handler_timeout''"
| "code_text Eventing_not_found = ''eventing_not_found''"
| "code_text Eventing_operation_denied = ''eventing_operation_denied''"
| "code_text Eventing_storage_unavailable = ''eventing_storage_unavailable''"

fun error_code :: "failure \<Rightarrow> string" where
  "error_code (EventingError code _) = code_text code"
| "error_code (Foreign_error _) = ''publish_failed''"

fun own_error :: "failure \<Rightarrow> failure" where
  "own_error (EventingError code b) = EventingError code b"
| "own_error (Foreign_error _) = unavailable"

definition backoff_for :: "publisher_options \<Rightarrow> nat \<Rightarrow> int" where
  "backoff_for opts attempt = (if 0 < attempt \<and> attempt - 1 < length (po_backoffSeconds opts)
     then po_backoffSeconds opts ! (attempt - 1) else 0)"

definition exhausted :: "publisher_options \<Rightarrow> outbox_record \<Rightarrow> bool" where
  "exhausted opts r \<longleftrightarrow> po_maxAttempts opts \<le> int (attemptCount r)"

definition failure_of :: "publisher_options \<Rightarrow> step_env \<Rightarrow> outbox_record \<Rightarrow> failure \<Rightarrow> failure_mark" where
  "failure_of opts env r e = \<lparr>fm_messageId = ob_messageId r, fm_claimToken = claimToken r, fm_at = se_clock env 0,
     fm_availableAt = se_clock env 1 + backoff_for opts (attemptCount r) * 1000, fm_errorCode = error_code e,
     fm_isolate = exhausted opts r\<rparr>"

fun publisher_step ::
    "'s eventing_store \<Rightarrow> publisher_options \<Rightarrow> step_env \<Rightarrow> publisher_state \<Rightarrow> 's \<Rightarrow> publisher_state \<times> 's" where
  "publisher_step st opts env Claiming s =
     (let now = se_clock env 0 in
      case claimOutbox st now (now - claimLeaseSeconds opts * 1000) (nat (batchSize opts)) (se_token env) s of
        (Inl e, t) \<Rightarrow> (Thrown e, t)
      | (Inr rows, t) \<Rightarrow> (next_row rows \<lparr>br_claimed = length rows, br_published = 0, br_retained = 0, br_isolated = 0\<rparr>, t))"
| "publisher_step st opts env (Publish_row r rs n) s = (case se_transport env (publication_of r) of
       Inr _ \<Rightarrow> (Mark_row r rs n, s) | Inl e \<Rightarrow> (Fail_row r rs n e, s))"
| "publisher_step st opts env (Mark_row r rs n) s =
     (case markOutboxPublished st (ob_messageId r) (claimToken r) (se_clock env 0) s of
        (Inr True, t) \<Rightarrow> (next_row rs (n\<lparr>br_published := br_published n + 1\<rparr>), t)
      | (Inr False, t) \<Rightarrow> (Thrown unavailable, t)
      | (Inl e, t) \<Rightarrow> (Thrown (own_error e), t))"
| "publisher_step st opts env (Fail_row r rs n e) s =
     (case markOutboxFailure st (failure_of opts env r e) s of
        (Inr True, t) \<Rightarrow> (next_row rs (if exhausted opts r then n\<lparr>br_isolated := br_isolated n + 1\<rparr>
                                    else n\<lparr>br_retained := br_retained n + 1\<rparr>), t)
      | (Inr False, t) \<Rightarrow> (Thrown unavailable, t)
      | (Inl _, t) \<Rightarrow> (Thrown unavailable, t))"
| "publisher_step st opts env (Finished n) s = (Finished n, s)"
| "publisher_step st opts env (Thrown e) s = (Thrown e, s)"

fun settled :: "publisher_state \<Rightarrow> bool" where
  "settled (Finished n) = True"
| "settled (Thrown e) = True"
| "settled _ = False"

text \<open>The steps left once the rows have been claimed; claiming comes first.\<close>

fun steps_left :: "publisher_state \<Rightarrow> nat" where
  "steps_left (Publish_row r rs n) = 2 * length rs + 2"
| "steps_left (Mark_row r rs n) = 2 * length rs + 1"
| "steps_left (Fail_row r rs n e) = 2 * length rs + 1"
| "steps_left _ = 0"

lemma steps_left_next: "steps_left (next_row rs n) = 2 * length rs"
  by (cases rs) auto

lemma publisher_step_left:
  "publisher_step st opts env p s = (q, t) \<Longrightarrow> \<not> settled p \<Longrightarrow> p \<noteq> Claiming \<Longrightarrow>
     q \<noteq> Claiming \<and> steps_left q < steps_left p"
proof (cases p)
  case (Mark_row r rs n)
  then show "publisher_step st opts env p s = (q, t) \<Longrightarrow> ?thesis"
    by (cases rs) (auto simp: steps_left_next split: prod.splits sum.splits bool.splits)
next
  case (Fail_row r rs n e)
  then show "publisher_step st opts env p s = (q, t) \<Longrightarrow> ?thesis"
    by (cases rs) (auto simp: steps_left_next split: prod.splits sum.splits bool.splits)
qed (auto split: sum.splits)

lemma publisher_step_claims: "publisher_step st opts env Claiming s = (q, t) \<Longrightarrow> q \<noteq> Claiming"
  by (auto simp: Let_def split: prod.splits sum.splits) (metis next_row.elims publisher_state.distinct(1,7))

function batch ::
    "'s eventing_store \<Rightarrow> publisher_options \<Rightarrow> (nat \<Rightarrow> step_env) \<Rightarrow> nat \<Rightarrow> publisher_state \<Rightarrow> 's \<Rightarrow> publisher_state \<times> 's" where
  "batch st opts env k p s = (if settled p then (p, s)
     else (case publisher_step st opts (env k) p s of (q, t) \<Rightarrow> batch st opts env (Suc k) q t))"
  by pat_completeness auto
termination
proof (relation "measures [\<lambda>(st, opts, env, k, p, s). if p = Claiming then 1 else 0, \<lambda>(st, opts, env, k, p, s). steps_left p]")
  fix st :: "'s eventing_store" and opts and env :: "nat \<Rightarrow> step_env" and k :: nat and p s q t
  assume p: "\<not> settled p" and "(q, t) = publisher_step st opts (env k) p s"
  then have step: "publisher_step st opts (env k) p s = (q, t)" by simp
  show "((st, opts, env, Suc k, q, t), st, opts, env, k, p, s)
      \<in> measures [\<lambda>(st, opts, env, k, p, s). if p = Claiming then 1 else 0, \<lambda>(st, opts, env, k, p, s). steps_left p]"
  proof (cases "p = Claiming")
    case True
    from publisher_step_claims [OF step [unfolded True]] True show ?thesis by simp
  next
    case False
    from publisher_step_left [OF step p False] False show ?thesis by simp
  qed
qed simp

declare batch.simps [simp del]

definition publishBatch ::
    "'s eventing_store \<Rightarrow> publisher_options \<Rightarrow> (nat \<Rightarrow> step_env) \<Rightarrow> ('s, batch_result) action" where
  "publishBatch st opts env s = (case batch st opts env 0 Claiming s of
     (Finished n, t) \<Rightarrow> (Inr n, t) | (Thrown e, t) \<Rightarrow> (Inl e, t) | (_, t) \<Rightarrow> (Inl unavailable, t))"

lemma batch_settles: "batch st opts env k p s = (q, t) \<Longrightarrow> settled q"
proof (induction st opts env k p s arbitrary: q t rule: batch.induct)
  case (1 st opts env k p s)
  then show ?case
    by (subst (asm) (2) batch.simps) (auto split: if_splits prod.splits)
qed

section \<open>Operations\<close>

record operational_control =
  authorize_replay :: "string \<Rightarrow> failure + bool \<times> string"
  record_replay :: "string \<Rightarrow> string \<Rightarrow> string \<Rightarrow> failure + unit"

definition op_reconcile :: "'s eventing_store \<Rightarrow> jval list \<Rightarrow> (jval \<times> jval) list \<Rightarrow> ('s, reconciliation) action" where
  "op_reconcile st outbox_ids inbox_ids =
     bindA (lift (valid_if (length outbox_ids \<le> 1000 \<and> length inbox_ids \<le> 1000))) (\<lambda>_.
     bindA (lift (mapR validateUuid outbox_ids)) (\<lambda>is.
     bindA (lift (mapR (\<lambda>(i, c). bindR (validateUuid i) (\<lambda>i'. bindR (validateConsumerName c) (\<lambda>c'. Inr (i', c')))) inbox_ids)) (\<lambda>ps.
     reconcile st (rev (remdups (rev is))) ps)))"

definition op_replayOutbox ::
    "'s eventing_store \<Rightarrow> operational_control \<Rightarrow> int \<Rightarrow> jval \<Rightarrow> jval \<Rightarrow> ('s, unit) action" where
  "op_replayOutbox st control now messageIdInput reasonInput =
     bindA (lift (validateUuid messageIdInput)) (\<lambda>i.
     bindA (lift (validateReason reasonInput)) (\<lambda>reason.
     bindA (lift (authorize_replay control i)) (\<lambda>(allowed, decisionId).
     if \<not> allowed then throw (EventingError Eventing_operation_denied False)
     else bindA (lift (record_replay control i decisionId reason)) (\<lambda>_.
       bindA (replayOutbox st i now) (\<lambda>ok. if ok then ret () else throw (EventingError Eventing_not_found False))))))"

section \<open>The RabbitMQ boundary\<close>

definition NAME :: rx where
  "NAME = Seq (Cls cls_alnum) (rx_upto 0 254 (Cls (cls_alnum @ chars_of ''._:-'')))"

definition ROUTE :: rx where
  "ROUTE = Seq (Cls (cls_alnum @ chars_of ''*#'')) (rx_upto 0 254 (Cls (cls_alnum @ chars_of ''._*#:-'')))"

record rabbit_route =
  rr_messageKind :: message_kind
  rr_messageType :: string
  rr_messageVersion :: jnum
  rr_routingKey :: string

record rabbit_topology =
  rt_exchange :: string
  rt_routes :: "rabbit_route list"

text \<open>What is handed to the channel; every message is persistent and of content type JSON.\<close>

record rabbit_message =
  rm_exchange :: string
  rm_routingKey :: string
  rm_payload :: string
  rm_messageId :: string
  rm_type :: string
  rm_correlationId :: string
  rm_appId :: string
  rm_kind :: message_kind
  rm_version :: jnum
  rm_publishAttempt :: nat
  rm_deliveryAttempt :: nat
  rm_causationId :: "string option"
  rm_traceparent :: "string option"
  rm_tracestate :: "string option"

text \<open>The answers of the confirm channel.\<close>

record rabbit_channel =
  ch_assertDurableExchange :: "failure + unit"
  ch_publishMandatory :: "rabbit_message \<Rightarrow> failure + bool"
  ch_waitForDrain :: "failure + unit"
  ch_waitForConfirms :: "failure + unit"
  ch_takeReturned :: "string \<Rightarrow> bool"

fun kind_text :: "message_kind \<Rightarrow> string" where
  "kind_text Event_kind = ''event''"
| "kind_text Job_kind = ''job''"

definition route_key :: "codec \<Rightarrow> message_kind \<Rightarrow> string \<Rightarrow> jnum \<Rightarrow> string" where
  "route_key cx kind type version =
     kind_text kind @ [CHR 0x00] @ type @ [CHR 0x00] @ json_number (number_text cx) version"

definition route_map :: "codec \<Rightarrow> rabbit_route list \<Rightarrow> (string \<times> string) list" where
  "route_map cx routes = fold (\<lambda>r. AList.update (route_key cx (rr_messageKind r) (rr_messageType r) (rr_messageVersion r))
     (rr_routingKey r)) routes []"

definition createRabbitConfirmTransport :: "codec \<Rightarrow> rabbit_channel \<Rightarrow> rabbit_topology \<Rightarrow> failure + (string \<times> string) list" where
  "createRabbitConfirmTransport cx channel topology =
     bindR (valid_if (rx_test NAME (rt_exchange topology) \<and> 1 \<le> length (rt_routes topology) \<and> length (rt_routes topology) \<le> 1000
        \<and> list_all (\<lambda>r. rx_test ROUTE (rr_routingKey r)) (rt_routes topology))) (\<lambda>_.
     let routes = route_map cx (rt_routes topology) in
     bindR (valid_if (length routes = length (rt_routes topology))) (\<lambda>_.
     bindR (ch_assertDurableExchange channel) (\<lambda>_. Inr routes)))"

definition rabbit_message_of :: "rabbit_topology \<Rightarrow> string \<Rightarrow> publication \<Rightarrow> rabbit_message" where
  "rabbit_message_of topology route p = \<lparr>rm_exchange = rt_exchange topology, rm_routingKey = route, rm_payload = pb_payload p,
     rm_messageId = pb_messageId p, rm_type = pb_messageType p, rm_correlationId = pb_correlationId p,
     rm_appId = pb_producer p, rm_kind = pb_messageKind p, rm_version = pb_messageVersion p,
     rm_publishAttempt = pb_attempt p, rm_deliveryAttempt = 1, rm_causationId = pb_causationId p,
     rm_traceparent = pb_traceparent p, rm_tracestate = pb_tracestate p\<rparr>"

definition rabbit_publish ::
    "codec \<Rightarrow> rabbit_channel \<Rightarrow> rabbit_topology \<Rightarrow> (string \<times> string) list \<Rightarrow> publication \<Rightarrow> failure + unit" where
  "rabbit_publish cx channel topology routes p =
     (case map_of routes (route_key cx (pb_messageKind p) (pb_messageType p) (pb_messageVersion p)) of
        None \<Rightarrow> invalid
      | Some route \<Rightarrow> if route = [] then invalid else
          bindR (ch_publishMandatory channel (rabbit_message_of topology route p)) (\<lambda>writable.
          bindR (if \<not> writable then ch_waitForDrain channel else Inr ()) (\<lambda>_.
          bindR (case ch_waitForConfirms channel of Inl _ \<Rightarrow> Inl unavailable | Inr u \<Rightarrow> Inr u) (\<lambda>_.
          check (\<not> ch_takeReturned channel (pb_messageId p)) unavailable))))"

record retry_policy =
  rp_maxAttempts :: jnum
  rp_backoffSeconds :: "jnum list"
  rp_timeoutMs :: jnum

datatype error_class = Retryable | Terminal

datatype delivery_action = Acked | Retried jnum | Dead_lettered

text \<open>
  A delivery: the size of its body, what \<open>JSON.parse\<close> makes of the body, the attempt from its
  headers, and whether the republication of a retry is confirmed.
\<close>

record rabbit_delivery =
  rd_byteLength :: nat
  rd_parsed :: "failure + jval"
  rd_attempt :: jnum
  rd_retry :: "failure + unit"

definition policy_of_job :: "job_policy \<Rightarrow> retry_policy" where
  "policy_of_job p = \<lparr>rp_maxAttempts = Num (of_int (maxAttempts p)),
     rp_backoffSeconds = map (\<lambda>i. Num (of_int i)) (backoffSeconds p), rp_timeoutMs = Num (of_int (timeoutMs p))\<rparr>"

definition event_policy_ok :: "retry_policy \<Rightarrow> bool" where
  "event_policy_ok p \<longleftrightarrow> (case int_between 1 16 (JNum (rp_maxAttempts p)) of
       None \<Rightarrow> False | Some n \<Rightarrow> int (length (rp_backoffSeconds p)) = n - 1)
     \<and> list_all (\<lambda>v. int_between 1 86400 (JNum v) \<noteq> None) (rp_backoffSeconds p)
     \<and> int_between 100 900000 (JNum (rp_timeoutMs p)) \<noteq> None"

text \<open>\<open>backoffSeconds[attempt - 1] ?? 1\<close>\<close>

definition retry_delay :: "retry_policy \<Rightarrow> jnum \<Rightarrow> jnum" where
  "retry_delay p attempt = (case int_val attempt of
     Some n \<Rightarrow> if 1 \<le> n \<and> n - 1 < int (length (rp_backoffSeconds p)) then rp_backoffSeconds p ! nat (n - 1) else Num (of_int 1)
   | None \<Rightarrow> Num (of_int 1))"

definition settle_error ::
    "(failure \<Rightarrow> error_class) \<Rightarrow> rabbit_delivery \<Rightarrow> retry_policy \<Rightarrow> failure \<Rightarrow> delivery_action list \<times> (failure + unit)" where
  "settle_error classify d p e =
     (if classify e = Retryable \<and> js_less (rd_attempt d) (rp_maxAttempts p) then
        (case rd_retry d of
           Inr _ \<Rightarrow> ([Retried (retry_delay p (rd_attempt d)), Acked], Inr ())
         | Inl f \<Rightarrow> ([Retried (retry_delay p (rd_attempt d))], Inl f))
      else ([Dead_lettered], Inr ()))"

definition delivered_message :: "codec \<Rightarrow> rabbit_delivery \<Rightarrow> failure + validated_message" where
  "delivered_message cx d =
     bindR (valid_if (rd_byteLength d \<le> 262144 \<and> (case int_val (rd_attempt d) of None \<Rightarrow> False | Some n \<Rightarrow> 1 \<le> n))) (\<lambda>_.
     bindR (rd_parsed d) (validateMessageEnvelope cx))"

definition handleRabbitDelivery ::
    "codec \<Rightarrow> rabbit_delivery \<Rightarrow> retry_policy \<Rightarrow> (failure \<Rightarrow> error_class)
      \<Rightarrow> (message_envelope \<Rightarrow> jnum \<Rightarrow> jnum \<Rightarrow> failure + unit) \<Rightarrow> delivery_action list \<times> (failure + unit)" where
  "handleRabbitDelivery cx d eventPolicy classify consumer =
     (case delivered_message cx d of
        Inl e \<Rightarrow> settle_error classify d eventPolicy e
      | Inr m \<Rightarrow>
          (let p = (case envelope m of Job_message j \<Rightarrow> policy_of_job (jb_policy j) | Event_message _ \<Rightarrow> eventPolicy)
           in if messageKind m \<noteq> Job_kind \<and> \<not> event_policy_ok p
              then settle_error classify d p (EventingError Eventing_invalid_input False)
              else if js_less (rp_maxAttempts p) (rd_attempt d) then ([Dead_lettered], Inr ())
              else (case consumer (envelope m) (rd_attempt d) (rp_timeoutMs p) of
                  Inr _ \<Rightarrow> ([Acked], Inr ())
                | Inl e \<Rightarrow> settle_error classify d p e)))"

text \<open>A publication succeeds only after the broker has confirmed it and has not returned it.\<close>

lemma rabbit_publish_confirmed:
  assumes "rabbit_publish cx channel topology routes p = Inr ()"
  shows "\<exists>route writable. map_of routes (route_key cx (pb_messageKind p) (pb_messageType p) (pb_messageVersion p)) = Some route
       \<and> ch_publishMandatory channel (rabbit_message_of topology route p) = Inr writable
       \<and> (writable \<or> ch_waitForDrain channel = Inr ()) \<and> ch_waitForConfirms channel = Inr ()
       \<and> \<not> ch_takeReturned channel (pb_messageId p)"
proof (cases "map_of routes (route_key cx (pb_messageKind p) (pb_messageType p) (pb_messageVersion p))")
  case None
  with assms show ?thesis by (simp add: rabbit_publish_def)
next
  case (Some route)
  with assms obtain writable where w: "ch_publishMandatory channel (rabbit_message_of topology route p) = Inr writable"
    and "(if \<not> writable then ch_waitForDrain channel else Inr ()) = Inr ()"
    and c: "(case ch_waitForConfirms channel of Inl _ \<Rightarrow> Inl unavailable | Inr u \<Rightarrow> Inr u) = Inr ()"
    and "\<not> ch_takeReturned channel (pb_messageId p)"
    by (cases "route = []") (auto simp: rabbit_publish_def result_simps)
  moreover from c have "ch_waitForConfirms channel = Inr ()" by (cases "ch_waitForConfirms channel") simp_all
  ultimately show ?thesis using Some by (intro exI conjI) (auto split: if_splits)
qed

text \<open>How a delivery is settled.\<close>

lemma settle_error_cases:
  "settle_error classify d p e = (actions, r) \<Longrightarrow>
     (actions = [Dead_lettered] \<and> r = Inr () \<and> \<not> (classify e = Retryable \<and> js_less (rd_attempt d) (rp_maxAttempts p)))
     \<or> (classify e = Retryable \<and> js_less (rd_attempt d) (rp_maxAttempts p)
        \<and> (actions = [Retried (retry_delay p (rd_attempt d)), Acked] \<and> rd_retry d = Inr () \<and> r = Inr ()
           \<or> actions = [Retried (retry_delay p (rd_attempt d))] \<and> (\<exists>f. rd_retry d = Inl f \<and> r = Inl f)))"
  by (cases "rd_retry d") (auto simp: settle_error_def split: if_splits)

lemma delivered_policy:
  assumes "delivered_message cx d = Inr m" "envelope m = Job_message j"
  shows "messageKind m = Job_kind" "policy_ok (jb_policy j)" "\<exists>k. rd_attempt d = Num (of_int k) \<and> 1 \<le> k"
proof -
  from assms(1) obtain k v where "int_val (rd_attempt d) = Some k" "1 \<le> k" "validateMessageEnvelope cx v = Inr m"
    unfolding delivered_message_def by (auto simp: result_simps split: option.splits)
  then show "messageKind m = Job_kind" "policy_ok (jb_policy j)" "\<exists>k. rd_attempt d = Num (of_int k) \<and> 1 \<le> k"
    using validated_shape [of cx v m] assms(2) by (auto simp: job_ok_def int_val_Some)
qed

lemma job_retry_delay:
  assumes "policy_ok p" "1 \<le> k" "k < maxAttempts p"
  shows "retry_delay (policy_of_job p) (Num (of_int k)) = Num (of_int (backoffSeconds p ! nat (k - 1)))"
  using assms by (auto simp: retry_delay_def policy_of_job_def policy_ok_def intro!: nth_map)

text \<open>How often each answer of a delivery is possible, for a job.\<close>

lemma delivered_job:
  assumes "delivered_message cx d = Inr m" "envelope m = Job_message j"
  shows "handleRabbitDelivery cx d policy classify consumer =
    (if js_less (Num (of_int (maxAttempts (jb_policy j)))) (rd_attempt d) then ([Dead_lettered], Inr ())
     else case consumer (Job_message j) (rd_attempt d) (Num (of_int (timeoutMs (jb_policy j)))) of
       Inr _ \<Rightarrow> ([Acked], Inr ()) | Inl e \<Rightarrow> settle_error classify d (policy_of_job (jb_policy j)) e)"
  using assms delivered_policy(1) [OF assms] by (simp add: handleRabbitDelivery_def policy_of_job_def split: sum.split)

lemma delivery_cases:
  assumes "handleRabbitDelivery cx d policy classify consumer = (actions, r)"
  obtains (acked) m t where "actions = [Acked]" "r = Inr ()" "delivered_message cx d = Inr m" "consumer (envelope m) (rd_attempt d) t = Inr ()"
    | (dead) "actions = [Dead_lettered]" "r = Inr ()"
    | (failed) p e where "settle_error classify d p e = (actions, r)"
proof (cases "delivered_message cx d")
  case (Inl e)
  with assms that(3) [of policy e] show ?thesis by (simp add: handleRabbitDelivery_def)
next
  case (Inr m)
  let ?p = "case envelope m of Job_message j \<Rightarrow> policy_of_job (jb_policy j) | Event_message _ \<Rightarrow> policy"
  show ?thesis
  proof (cases "messageKind m \<noteq> Job_kind \<and> \<not> event_policy_ok ?p")
    case True
    with assms Inr that(3) show ?thesis by (simp add: handleRabbitDelivery_def)
  next
    case ok: False
    show ?thesis
    proof (cases "js_less (rp_maxAttempts ?p) (rd_attempt d)")
      case True
      with assms Inr ok that(2) show ?thesis by (simp add: handleRabbitDelivery_def)
    next
      case False
      with assms Inr ok that(1,3) show ?thesis
        by (cases "consumer (envelope m) (rd_attempt d) (rp_timeoutMs ?p)") (simp_all add: handleRabbitDelivery_def)
    qed
  qed
qed


definition sample_delivery :: rabbit_delivery where
  "sample_delivery = \<lparr>rd_byteLength = 600, rd_parsed = Inr sample_job, rd_attempt = Num (of_int 1), rd_retry = Inr ()\<rparr>"


end
