(* ===== verification/Event_System.thy ===== *)
theory Event_System
  imports Event_Publisher
begin

text \<open>
  Everything that happens to one database of events: calls of the core, replays by an operator, and any
  number of publishers whose loops are interleaved step by step, in any order and with any
  answers from the transport, the clocks and the store. \<open>confirmed\<close> is what the transport has
  confirmed so far and \<open>consumed_log\<close> what the callers of \<open>consume\<close> were told; neither is read by the code.
\<close>

record 's system =
  db :: 's
  publishers :: "nat \<Rightarrow> publisher_state"
  confirmed :: "publication set"
  consumed_log :: "(string \<times> string \<times> consumption_result) list"

datatype 's operation =
    Append_event jval
  | Submit_job jval
  | Cancel_job jval jval
  | Consume call_env consume_request "'s message_handler"
  | Replay operational_control int jval jval
  | Start_batch nat
  | Publisher_step nat publisher_options step_env

definition log_entry :: "codec \<Rightarrow> consume_request \<Rightarrow> failure + consumption_result \<Rightarrow> (string \<times> string \<times> consumption_result) list" where
  "log_entry cx req r = (case (r, validateMessageEnvelope cx (rq_envelope req), validateConsumerName (rq_consumer req)) of
     (Inr x, Inr m, Inr c) \<Rightarrow> [(messageId m, c, x)] | _ \<Rightarrow> [])"

definition confirmation :: "step_env \<Rightarrow> publisher_state \<Rightarrow> publication set" where
  "confirmation env p = (case p of
     Publish_row r rs n \<Rightarrow> if se_transport env (publication_of r) = Inr () then {publication_of r} else {} | _ \<Rightarrow> {})"

fun system_step :: "'s eventing_store \<Rightarrow> codec \<Rightarrow> 's operation \<Rightarrow> 's system \<Rightarrow> 's system" where
  "system_step st cx (Append_event v) w = w\<lparr>db := snd (appendEvent st cx v (db w))\<rparr>"
| "system_step st cx (Submit_job v) w = w\<lparr>db := snd (submitJob st cx v (db w))\<rparr>"
| "system_step st cx (Cancel_job v reason) w = w\<lparr>db := snd (cancelJob st v reason (db w))\<rparr>"
| "system_step st cx (Consume env req h) w = (case consume st cx env req h (db w) of
     (r, t) \<Rightarrow> w\<lparr>db := t, consumed_log := consumed_log w @ log_entry cx req r\<rparr>)"
| "system_step st cx (Replay control now v reason) w = w\<lparr>db := snd (op_replayOutbox st control now v reason (db w))\<rparr>"
| "system_step st cx (Start_batch n) w =
     (if settled (publishers w n) then w\<lparr>publishers := (publishers w)(n := Claiming)\<rparr> else w)"
| "system_step st cx (Publisher_step n opts env) w = (case publisher_step st opts env (publishers w n) (db w) of
     (q, t) \<Rightarrow> w\<lparr>db := t, publishers := (publishers w)(n := q), confirmed := confirmed w \<union> confirmation env (publishers w n)\<rparr>)"

definition run :: "'s eventing_store \<Rightarrow> codec \<Rightarrow> 's operation list \<Rightarrow> 's system \<Rightarrow> 's system" where
  "run st cx ops w = fold (system_step st cx) ops w"

definition start :: "'s \<Rightarrow> 's system" where
  "start s = \<lparr>db = s, publishers = (\<lambda>_. Claiming), confirmed = {}, consumed_log = []\<rparr>"

section \<open>What can happen to a message and to a job\<close>

abbreviation content :: "outbox_record \<Rightarrow> outbox_message" where
  "content r \<equiv> outbox_message.truncate r"

text \<open>Messages are kept, with their content; receipts are kept; a job that has ended stays as it is.\<close>

definition keeps :: "'w facts \<Rightarrow> 'w facts \<Rightarrow> bool" where
  "keeps f g \<longleftrightarrow> (\<forall>i r. outbox f i = Some r \<longrightarrow> (\<exists>r'. outbox g i = Some r' \<and> content r' = content r))
     \<and> (\<forall>k rc. inbox f k = Some rc \<longrightarrow> inbox g k = Some rc)
     \<and> (\<forall>i j. jobs f i = Some j \<longrightarrow> (\<exists>j'. jobs g i = Some j'
          \<and> job_key j' = job_key j \<and> job_fingerprint j' = job_fingerprint j \<and> job_envelope j' = job_envelope j
          \<and> (job_status j \<noteq> Queued \<longrightarrow> j' = j)))"

text \<open>Between transactions no job is being processed.\<close>

definition calm :: "'w facts \<Rightarrow> bool" where
  "calm f \<longleftrightarrow> (\<forall>j \<in> ran (jobs f). job_status j \<noteq> Processing)"

text \<open>A row that was not published before is published only by a publisher's mark.\<close>

definition no_new_published :: "'w facts \<Rightarrow> 'w facts \<Rightarrow> bool" where
  "no_new_published f g \<longleftrightarrow> (\<forall>i r. outbox g i = Some r \<longrightarrow> ob_status r = Published \<longrightarrow> outbox f i = Some r)"

lemma keeps_refl [simp]: "keeps f f"
  by (simp add: keeps_def)

lemma keeps_trans: "keeps f g \<Longrightarrow> keeps g h \<Longrightarrow> keeps f h"
proof -
  assume fg: "keeps f g" and gh: "keeps g h"
  have "\<exists>r'. outbox h i = Some r' \<and> content r' = content r" if "outbox f i = Some r" for i r
    using fg gh that unfolding keeps_def by fastforce
  moreover have "inbox h k = Some rc" if "inbox f k = Some rc" for k rc
    using fg gh that unfolding keeps_def by blast
  moreover have "\<exists>j'. jobs h i = Some j' \<and> job_key j' = job_key j \<and> job_fingerprint j' = job_fingerprint j
      \<and> job_envelope j' = job_envelope j \<and> (job_status j \<noteq> Queued \<longrightarrow> j' = j)" if f: "jobs f i = Some j" for i j
  proof -
    from fg f obtain j1 where j1: "jobs g i = Some j1" "job_key j1 = job_key j" "job_fingerprint j1 = job_fingerprint j"
      "job_envelope j1 = job_envelope j" "job_status j \<noteq> Queued \<Longrightarrow> j1 = j" unfolding keeps_def by blast
    from gh j1(1) obtain j2 where "jobs h i = Some j2" "job_key j2 = job_key j1" "job_fingerprint j2 = job_fingerprint j1"
      "job_envelope j2 = job_envelope j1" "job_status j1 \<noteq> Queued \<longrightarrow> j2 = j1" unfolding keeps_def by blast
    with j1(2-5) show ?thesis by (cases "job_status j = Queued") auto
  qed
  ultimately show "keeps f h" unfolding keeps_def by blast
qed

definition quiet_change :: "'w facts \<Rightarrow> 'w facts \<Rightarrow> bool" where
  "quiet_change f g \<longleftrightarrow> keeps f g \<and> (calm f \<longrightarrow> calm g) \<and> no_new_published f g"

lemma quiet_refl [simp]: "quiet_change f f"
  by (simp add: quiet_change_def no_new_published_def)

lemma quiet_append:
  "outbox f (ob_messageId r) = None \<Longrightarrow> ob_status r = Pending \<Longrightarrow> quiet_change f (f\<lparr>outbox := (outbox f)(ob_messageId r \<mapsto> r)\<rparr>)"
  by (auto simp: quiet_change_def keeps_def calm_def no_new_published_def)

lemma calm_update: "calm f \<Longrightarrow> job_status j \<noteq> Processing \<Longrightarrow> jobs g = (jobs f)(i \<mapsto> j) \<Longrightarrow> calm g"
  by (auto simp: calm_def ran_def)

lemma keeps_grows: "outbox_grows f g \<Longrightarrow> outbox f i = Some r \<Longrightarrow> outbox g i = Some r"
  by (auto simp: outbox_grows_def dest: spec [of _ i])

lemma appended_quiet: "appended cx v f r g \<Longrightarrow> quiet_change f g"
proof (cases r)
  case (Inr i)
  assume a: "appended cx v f r g"
  with Inr obtain m where "i = messageId m" "case outbox f i of None \<Rightarrow> g = f\<lparr>outbox := (outbox f)(i \<mapsto> outboxRecord m)\<rparr> | Some row \<Rightarrow> g = f"
    by (auto simp: appended_def split: option.splits)
  then show ?thesis using quiet_append [of f "outboxRecord m"] by (cases "outbox f i") (auto simp: outboxRecord_def)
qed (simp add: appended_def)

lemma submitted_quiet: "submitted cx v f r g \<Longrightarrow> quiet_change f g"
proof -
  assume a: "submitted cx v f r g"
  show ?thesis
  proof (cases "g = f")
    case False
    with a obtain i m j where n: "jobs f i = None" "outbox f i = None" "i = messageId m"
      and g: "g = f\<lparr>jobs := (jobs f)(i \<mapsto> submitted_job m j), outbox := (outbox f)(i \<mapsto> outboxRecord m)\<rparr>"
      by (auto simp: submitted_def split: sum.splits)
    from n have "keeps f g" "no_new_published f g" unfolding g by (auto simp: keeps_def no_new_published_def outboxRecord_def)
    moreover have "calm f \<Longrightarrow> calm g" unfolding g by (erule calm_update) (auto simp: submitted_job_def)
    ultimately show ?thesis by (simp add: quiet_change_def)
  qed simp
qed

lemma cancelled_quiet: "cancelled f r g \<Longrightarrow> quiet_change f g"
proof -
  assume a: "cancelled f r g"
  show ?thesis
  proof (cases "g = f")
    case False
    with a obtain i row reason where row: "jobs f i = Some row" "job_status row = Queued"
      and g: "g = f\<lparr>jobs := (jobs f)(i \<mapsto> row\<lparr>job_status := Cancelled, cancelReason := Some reason\<rparr>)\<rparr>"
      by (auto simp: cancelled_def split: sum.splits if_splits)
    from row have "keeps f g" "no_new_published f g" unfolding g by (auto simp: keeps_def no_new_published_def)
    moreover have "calm f \<Longrightarrow> calm g" unfolding g by (erule calm_update) auto
    ultimately show ?thesis by (simp add: quiet_change_def)
  qed simp
qed

lemma job_moved_keeps:
  assumes "job_moved status m f g" "status \<noteq> Processing"
  shows "\<forall>i j. jobs f i = Some j \<longrightarrow> (\<exists>j'. jobs g i = Some j' \<and> job_key j' = job_key j \<and> job_fingerprint j' = job_fingerprint j
      \<and> job_envelope j' = job_envelope j \<and> (job_status j \<noteq> Queued \<longrightarrow> j' = j))"
    and "calm f \<Longrightarrow> calm g"
proof -
  from assms(1) obtain row where row: "jobs f (messageId m) = Some row" "job_status row = Queued"
    and g: "jobs g = (jobs f)(messageId m \<mapsto> row\<lparr>job_status := status\<rparr>)" by (auto simp: job_moved_def)
  show "\<forall>i j. jobs f i = Some j \<longrightarrow> (\<exists>j'. jobs g i = Some j' \<and> job_key j' = job_key j \<and> job_fingerprint j' = job_fingerprint j
      \<and> job_envelope j' = job_envelope j \<and> (job_status j \<noteq> Queued \<longrightarrow> j' = j))"
    using row unfolding g by auto
  show "calm f \<Longrightarrow> calm g" by (erule calm_update [OF _ _ g]) (use assms(2) in simp)
qed

lemma same_jobs_keeps:
  "jobs g = jobs f \<Longrightarrow> \<forall>i j. jobs f i = Some j \<longrightarrow> (\<exists>j'. jobs g i = Some j' \<and> job_key j' = job_key j
      \<and> job_fingerprint j' = job_fingerprint j \<and> job_envelope j' = job_envelope j \<and> (job_status j \<noteq> Queued \<longrightarrow> j' = j))"
  "jobs g = jobs f \<Longrightarrow> calm f \<Longrightarrow> calm g"
  by (auto simp: calm_def)

lemma new_receipt_keeps: "new_receipt m c f g \<Longrightarrow> \<forall>k rc. inbox f k = Some rc \<longrightarrow> inbox g k = Some rc"
  by (auto simp: new_receipt_def)

lemma grows_keeps:
  "outbox_grows f g \<Longrightarrow> \<forall>i r. outbox f i = Some r \<longrightarrow> (\<exists>r'. outbox g i = Some r' \<and> content r' = content r)"
  "outbox_grows f g \<Longrightarrow> no_new_published f g"
  unfolding outbox_grows_def no_new_published_def by (metis option.distinct(1), metis option.inject outbox_status.distinct(3))

lemma same_outbox_grows: "outbox g = outbox f \<Longrightarrow> outbox_grows f g"
  by (simp add: outbox_grows_def)
lemma consumed_quiet: "consumed view h m c f x g \<Longrightarrow> quiet_change f g"
proof (cases x)
  case Result_completed
  assume a: "consumed view h m c f x g"
  with Result_completed have r: "new_receipt m c f g" "outbox_grows f g"
    and j: "if messageKind m = Job_kind then job_moved Completed m f g else jobs g = jobs f" by simp_all
  from j have "(\<forall>i j. jobs f i = Some j \<longrightarrow> (\<exists>j'. jobs g i = Some j' \<and> job_key j' = job_key j \<and> job_fingerprint j' = job_fingerprint j
      \<and> job_envelope j' = job_envelope j \<and> (job_status j \<noteq> Queued \<longrightarrow> j' = j))) \<and> (calm f \<longrightarrow> calm g)"
    using job_moved_keeps [of Completed m f g] same_jobs_keeps [of g f] by (cases "messageKind m = Job_kind") simp_all
  with r show ?thesis using new_receipt_keeps [OF r(1)] grows_keeps [OF r(2)] unfolding quiet_change_def keeps_def by blast
next
  case (Result_skipped reason)
  assume a: "consumed view h m c f x g"
  with Result_skipped have r: "new_receipt m c f g" "outbox_grows f g" and "jobs g = jobs f \<or> job_moved Job_isolated m f g"
    by (cases reason; auto intro: same_outbox_grows)+
  then have "(\<forall>i j. jobs f i = Some j \<longrightarrow> (\<exists>j'. jobs g i = Some j' \<and> job_key j' = job_key j \<and> job_fingerprint j' = job_fingerprint j
      \<and> job_envelope j' = job_envelope j \<and> (job_status j \<noteq> Queued \<longrightarrow> j' = j))) \<and> (calm f \<longrightarrow> calm g)"
    using job_moved_keeps [of Job_isolated m f g] same_jobs_keeps [of g f] by blast
  with r show ?thesis using new_receipt_keeps [OF r(1)] grows_keeps [OF r(2)] unfolding quiet_change_def keeps_def by blast
next
  case (Result_isolated reason)
  assume "consumed view h m c f x g"
  with Result_isolated have "inbox g = inbox f" "jobs g = jobs f" "outbox g = outbox f" by simp_all
  then show ?thesis by (auto simp: quiet_change_def keeps_def calm_def no_new_published_def)
qed simp

lemma moved_quiet:
  assumes "spec_move i P h f r g" "\<And>row. content (h row) = content row"
  shows "keeps f g" "calm f \<Longrightarrow> calm g" "(\<And>row. ob_status (h row) \<noteq> Published) \<Longrightarrow> no_new_published f g"
  using assms by (auto simp: spec_move_def keeps_def calm_def no_new_published_def split: option.splits if_splits)

lemma content_moves [simp]:
  "content (as_published now r) = content r" "content (as_failed fm r) = content r" "content (as_replayed now r) = content r"
  "content (claimed_by now tok r) = content r"
  by (simp_all add: as_published_def as_failed_def as_replayed_def claimed_by_def outbox_message.defs)

lemma claimed_rows:
  assumes "spec_claim now stale limit token f (Inr rows) g"
  shows "quiet_change f g" "r \<in> set rows \<Longrightarrow> outbox g (ob_messageId r) = Some r \<and> ob_status r = Publishing"
proof -
  from assms have d: "distinct (map ob_messageId rows)"
    and old: "\<And>n. n < length rows \<Longrightarrow> \<exists>old. outbox f (ob_messageId (rows ! n)) = Some old \<and> rows ! n = claimed_by now (token n) old"
    and g: "g = f\<lparr>outbox := outbox f ++ map_of (map (\<lambda>row. (ob_messageId row, row)) rows)\<rparr>"
    by (auto simp: spec_claim_def)
  have row: "map_of (map (\<lambda>row. (ob_messageId row, row)) rows) i = Some r \<longleftrightarrow> r \<in> set rows \<and> ob_messageId r = i" for i r
    using d by (subst map_of_eq_Some_iff) (auto simp: comp_def)
  have before: "\<exists>old. outbox f (ob_messageId r) = Some old \<and> content r = content old \<and> ob_status r = Publishing" if "r \<in> set rows" for r
  proof -
    from that obtain n where "n < length rows" "r = rows ! n" by (metis in_set_conv_nth)
    with old obtain o1 where "outbox f (ob_messageId r) = Some o1" "r = claimed_by now (token n) o1" by blast
    then show ?thesis by (simp add: claimed_by_def [of _ _ o1] outbox_message.defs)
  qed
  show "r \<in> set rows \<Longrightarrow> outbox g (ob_messageId r) = Some r \<and> ob_status r = Publishing"
    using row [of "ob_messageId r" r] before [of r] by (auto simp: g map_add_Some_iff)
  have "keeps f g" unfolding keeps_def
  proof (intro conjI allI impI)
    fix i r assume f: "outbox f i = Some r"
    show "\<exists>r'. outbox g i = Some r' \<and> content r' = content r"
    proof (cases "map_of (map (\<lambda>row. (ob_messageId row, row)) rows) i")
      case None
      with f show ?thesis by (simp add: g map_add_def)
    next
      case (Some r')
      with row have "r' \<in> set rows" "ob_messageId r' = i" by simp_all
      with before [of r'] f Some show ?thesis by (simp add: g map_add_def)
    qed
  qed (auto simp: g)
  moreover have "no_new_published f g"
    by (clarsimp simp: no_new_published_def g map_add_Some_iff row) (use before in fastforce)
  ultimately show "quiet_change f g" by (auto simp: quiet_change_def g calm_def)
qed

section \<open>The invariant of the system\<close>

fun rows_of :: "publisher_state \<Rightarrow> outbox_record list" where
  "rows_of (Publish_row r rs n) = r # rs"
| "rows_of (Mark_row r rs n) = r # rs"
| "rows_of (Fail_row r rs n e) = r # rs"
| "rows_of _ = []"

text \<open>Nothing else than the number of the attempt depends on the state of the row.\<close>

definition was_confirmed :: "publication set \<Rightarrow> outbox_record \<Rightarrow> bool" where
  "was_confirmed C r \<longleftrightarrow> (\<exists>a. (publication_of r)\<lparr>pb_attempt := a\<rparr> \<in> C)"

definition completions :: "'s system \<Rightarrow> (string \<times> string) list" where
  "completions w = map (\<lambda>(i, c, x). (i, c)) (filter (\<lambda>(i, c, x). x = Result_completed) (consumed_log w))"

definition marks_confirmed :: "'s system \<Rightarrow> bool" where
  "marks_confirmed w \<longleftrightarrow> (\<forall>n r rs k. publishers w n = Mark_row r rs k \<longrightarrow> publication_of r \<in> confirmed w)"

definition holds_rows :: "'w facts \<Rightarrow> publisher_state \<Rightarrow> bool" where
  "holds_rows f p \<longleftrightarrow> (\<forall>r \<in> set (rows_of p). \<exists>r'. outbox f (ob_messageId r) = Some r' \<and> content r' = content r)"

definition system_inv :: "'w facts \<Rightarrow> 's system \<Rightarrow> bool" where
  "system_inv f w \<longleftrightarrow> calm f \<and> (\<forall>n. holds_rows f (publishers w n)) \<and> marks_confirmed w
     \<and> (\<forall>i r. outbox f i = Some r \<longrightarrow> ob_status r = Published \<longrightarrow> was_confirmed (confirmed w) r)
     \<and> distinct (completions w) \<and> (\<forall>k \<in> set (completions w). inbox f k \<noteq> None)"

lemma content_publication: "content r = content r' \<Longrightarrow> (publication_of r)\<lparr>pb_attempt := a\<rparr> = (publication_of r')\<lparr>pb_attempt := a\<rparr>"
  by (simp add: publication_of_def outbox_message.defs)

lemma content_id: "content r = content r' \<Longrightarrow> ob_messageId r = ob_messageId r'"
  by (simp add: outbox_message.defs)

lemma holds_keeps: "keeps f g \<Longrightarrow> holds_rows f p \<Longrightarrow> holds_rows g p"
  unfolding keeps_def holds_rows_def by fastforce

lemma was_confirmed_mono: "was_confirmed C r \<Longrightarrow> was_confirmed (C \<union> D) r"
  by (auto simp: was_confirmed_def)

text \<open>What any change but a publisher's has to keep, and what a publisher's step adds.\<close>

lemma quiet_system:
  assumes "system_inv f w" "quiet_change f g"
  shows "system_inv g (w\<lparr>db := t\<rparr>)"
proof -
  from assms have k: "keeps f g" "calm g" "no_new_published f g" by (simp_all add: quiet_change_def system_inv_def)
  have "\<forall>k \<in> set (completions w). inbox g k \<noteq> None"
    using assms(1) k(1) unfolding system_inv_def keeps_def by fastforce
  moreover have "was_confirmed (confirmed w) r" if "outbox g i = Some r" "ob_status r = Published" for i r
    using assms(1) k(3) that unfolding system_inv_def no_new_published_def by blast
  ultimately show ?thesis using assms(1) k(2) holds_keeps [OF k(1)]
    by (simp add: system_inv_def marks_confirmed_def completions_def)
qed

lemma consumption_log:
  assumes "system_inv f w" "consumption view cx req h f r g"
  shows "system_inv g (w\<lparr>db := t, consumed_log := consumed_log w @ log_entry cx req r\<rparr>)"
proof (cases r)
  case (Inl e)
  with assms show ?thesis by (auto simp: consumption_def log_entry_def system_inv_def marks_confirmed_def completions_def)
next
  case (Inr x)
  with assms(2) obtain m c where m: "validateMessageEnvelope cx (rq_envelope req) = Inr m"
      "validateConsumerName (rq_consumer req) = Inr c" and x: "consumed view h m c f x g" by (auto simp: consumption_def)
  from quiet_system [OF assms(1) consumed_quiet [OF x]] have i: "system_inv g (w\<lparr>db := t\<rparr>)" .
  have e: "log_entry cx req r = [(messageId m, c, x)]" by (simp add: log_entry_def Inr m)
  show ?thesis
  proof (cases "x = Result_completed")
    case False
    with i show ?thesis by (simp add: e system_inv_def marks_confirmed_def completions_def)
  next
    case True
    with x have "inbox f (messageId m, c) = None" "inbox g (messageId m, c) \<noteq> None" by (auto simp: new_receipt_def)
    then have "(messageId m, c) \<notin> set (completions w)" using assms(1) unfolding system_inv_def by blast
    moreover have "completions (w\<lparr>db := t, consumed_log := consumed_log w @ log_entry cx req r\<rparr>) = completions w @ [(messageId m, c)]"
      by (simp add: completions_def e True)
    moreover have "completions (w\<lparr>db := t\<rparr>) = completions w" by (simp add: completions_def)
    ultimately show ?thesis using i \<open>inbox g (messageId m, c) \<noteq> None\<close>
      by (simp add: system_inv_def marks_confirmed_def)
  qed
qed


lemma publisher_system:
  assumes w: "system_inv f w" and "keeps f g" "calm g" "holds_rows g q" "confirmed w \<subseteq> C"
    and "\<And>r rs k. q = Mark_row r rs k \<Longrightarrow> publication_of r \<in> C"
    and "\<And>i r. outbox g i = Some r \<Longrightarrow> ob_status r = Published \<Longrightarrow> outbox f i = Some r \<or> was_confirmed C r"
  shows "system_inv g (w\<lparr>db := t, publishers := (publishers w)(n := q), confirmed := C\<rparr>)"
proof -
  have "was_confirmed C r" if "outbox g i = Some r" "ob_status r = Published" for i r
  proof -
    have "outbox f i = Some r \<Longrightarrow> was_confirmed (confirmed w \<union> C) r"
      using w that(2) was_confirmed_mono unfolding system_inv_def by blast
    with assms(5) assms(7) [OF that] show ?thesis by (auto simp: Un_absorb1)
  qed
  moreover have "inbox g k \<noteq> None" if "k \<in> set (completions w)" for k
    using w that assms(2) unfolding system_inv_def keeps_def by blast
  moreover have "holds_rows g (publishers w m)" for m
    using w holds_keeps [OF assms(2)] unfolding system_inv_def by blast
  moreover have "publication_of r \<in> C" if "publishers w m = Mark_row r rs k" for m r rs k
    using w that assms(5) unfolding system_inv_def marks_confirmed_def by blast
  moreover have "completions (w\<lparr>db := t, publishers := (publishers w)(n := q), confirmed := C\<rparr>) = completions w"
    by (simp add: completions_def)
  moreover have "distinct (completions w)" using w by (simp add: system_inv_def)
  ultimately show ?thesis using assms(3,4,6) by (auto simp: system_inv_def marks_confirmed_def)
qed

lemma rows_of_next [simp]: "rows_of (next_row rs n) = rs"
  by (cases rs) simp_all

lemma holds_next [simp]: "holds_rows f (next_row rs n) \<longleftrightarrow> (\<forall>r \<in> set rs. \<exists>r'. outbox f (ob_messageId r) = Some r' \<and> content r' = content r)"
  by (simp add: holds_rows_def)

lemma next_not_mark [simp]: "next_row rs n \<noteq> Mark_row r rs' k" "Mark_row r rs' k \<noteq> next_row rs n"
  by (cases rs; simp)+

lemma holds_thrown [simp]: "holds_rows f (Thrown e)"
  by (simp add: holds_rows_def)

lemma moved_published:
  assumes "spec_move i P (as_published now) f res g" "holds_rows f p" "r \<in> set (rows_of p)" "i = ob_messageId r"
    and "publication_of r \<in> C" "outbox g j = Some row" "ob_status row = Published"
  shows "outbox f j = Some row \<or> was_confirmed C row"
proof (cases "outbox f j = Some row")
  case False
  from assms(2,3) obtain old where old: "outbox f (ob_messageId r) = Some old" "content old = content r" by (auto simp: holds_rows_def)
  with assms(1,4,6) False have "row = as_published now old" by (auto simp: spec_move_def split: if_splits)
  then have "content row = content r" by (simp add: old(2))
  from content_publication [OF this, of "attemptCount r"] have "(publication_of row)\<lparr>pb_attempt := attemptCount r\<rparr> = publication_of r"
    by (simp add: publication_of_def)
  with assms(5) show ?thesis by (auto simp: was_confirmed_def intro: exI [of _ "attemptCount r"])
qed simp

context event_store
begin

lemma met: "meets inv abs m spec \<Longrightarrow> inv s \<Longrightarrow> m s = (r, t) \<Longrightarrow>
    inv t \<and> ((\<exists>e. r = Inl e \<and> abs t = abs s) \<or> spec (abs s) r (abs t))"
  unfolding meets_def faulty_def by blast

lemma publisher_claims:
  assumes "inv s" "publisher_step st opts env Claiming s = (q, t)"
  shows "inv t \<and> quiet_change (abs s) (abs t) \<and> holds_rows (abs t) q \<and> (\<forall>r rs k. q \<noteq> Mark_row r rs k)"
proof -
  let ?now = "se_clock env 0"
  obtain res u where c: "claimOutbox st ?now (?now - claimLeaseSeconds opts * 1000) (nat (batchSize opts)) (se_token env) s = (res, u)"
    by force
  from met [OF claim assms(1) c] have u: "inv u" and "(\<exists>e. res = Inl e \<and> abs u = abs s) \<or>
      spec_claim ?now (?now - claimLeaseSeconds opts * 1000) (nat (batchSize opts)) (se_token env) (abs s) res (abs u)" by simp_all
  then consider (fault) e where "res = Inl e" "abs u = abs s"
    | (rows) rows where "res = Inr rows" "spec_claim ?now (?now - claimLeaseSeconds opts * 1000) (nat (batchSize opts)) (se_token env) (abs s) (Inr rows) (abs u)"
    by (auto simp: spec_claim_def)
  then show ?thesis
  proof cases
    case fault
    with assms(2) c u show ?thesis by (auto simp: Let_def)
  next
    case rows
    from claimed_rows(2) [OF rows(2)] have "\<forall>r \<in> set rows. \<exists>r'. outbox (abs u) (ob_messageId r) = Some r' \<and> content r' = content r" by blast
    with assms(2) c u rows(1) claimed_rows(1) [OF rows(2)] show ?thesis by (auto simp: Let_def)
  qed
qed

lemma publisher_spec:
  assumes "inv s" "publisher_step st opts env p s = (q, t)" "system_inv (abs s) w" "publishers w n = p"
  shows "inv t \<and> system_inv (abs t) (w\<lparr>db := t, publishers := (publishers w)(n := q), confirmed := confirmed w \<union> confirmation env p\<rparr>)"
proof -
  have calm: "calm (abs s)" and rows: "holds_rows (abs s) p" using assms(3,4) by (auto simp: system_inv_def)
  note keep = publisher_system [OF assms(3)]
  show ?thesis
  proof (cases p)
    case Claiming
    from publisher_claims [OF assms(1) assms(2) [unfolded Claiming]] calm show ?thesis
      by (auto simp: quiet_change_def no_new_published_def intro!: keep)
  next
    case (Publish_row r rs k)
    from assms(2) have t: "t = s" and q: "q = Mark_row r rs k \<and> se_transport env (publication_of r) = Inr () \<or> (\<exists>e. q = Fail_row r rs k e)"
      by (auto simp: Publish_row split: sum.splits)
    from q rows have "holds_rows (abs s) q" by (auto simp: Publish_row holds_rows_def)
    with q calm assms(1) show ?thesis unfolding t
      by (intro conjI keep) (auto simp: Publish_row confirmation_def)
  next
    case (Mark_row r rs k)
    let ?c = "confirmed w"
    have pub: "publication_of r \<in> confirmed w" using assms(3,4) Mark_row unfolding system_inv_def marks_confirmed_def by blast
    obtain res u where c: "markOutboxPublished st (ob_messageId r) (claimToken r) (se_clock env 0) s = (res, u)" by force
    from met [OF published assms(1) c] have u: "inv u" and m: "(\<exists>e. res = Inl e \<and> abs u = abs s) \<or>
      spec_move (ob_messageId r) (holds_claim (claimToken r)) (as_published (se_clock env 0)) (abs s) res (abs u)" by simp_all
    have k: "keeps (abs s) (abs u)" "calm (abs u)" using m calm moved_quiet(1,2) content_moves(1) by (metis keeps_refl)+
    have new: "outbox (abs s) i = Some row \<or> was_confirmed ?c row" if "outbox (abs u) i = Some row" "ob_status row = Published" for i row
      using m that moved_published [OF _ rows, of "ob_messageId r" _ _ res "abs u" r ?c i row] pub by (auto simp: Mark_row)
    have "u = t" and q: "q = next_row rs (k\<lparr>br_published := br_published k + 1\<rparr>) \<or> (\<exists>e. q = Thrown e)"
      using assms(2) c Mark_row by (auto split: sum.splits bool.splits)
    from rows holds_keeps [OF k(1) rows] have "holds_rows (abs u) q" using q by (auto simp: Mark_row holds_rows_def)
    with u k new q show ?thesis unfolding \<open>u = t\<close> by (intro conjI keep) (auto simp: Mark_row confirmation_def)
  next
    case (Fail_row r rs k e)
    obtain res u where c: "markOutboxFailure st (failure_of opts env r e) s = (res, u)" by force
    from met [OF failed assms(1) c] have u: "inv u" and m: "(\<exists>e. res = Inl e \<and> abs u = abs s) \<or>
      spec_move (fm_messageId (failure_of opts env r e)) (holds_claim (fm_claimToken (failure_of opts env r e)))
        (as_failed (failure_of opts env r e)) (abs s) res (abs u)" by simp_all
    have k: "keeps (abs s) (abs u)" "calm (abs u)" using m calm moved_quiet(1,2) content_moves(2) by (metis keeps_refl)+
    have "ob_status (as_failed fm row) \<noteq> Published" for fm row by (simp add: as_failed_def)
    with m have new: "no_new_published (abs s) (abs u)"
      using moved_quiet(3) content_moves(2) by (metis no_new_published_def)
    have "u = t" and q: "(\<exists>n. q = next_row rs n) \<or> (\<exists>e. q = Thrown e)"
      using assms(2) c Fail_row by (auto split: sum.splits bool.splits)
    from rows holds_keeps [OF k(1) rows] have "holds_rows (abs u) q" using q by (auto simp: Fail_row holds_rows_def)
    with u k new q show ?thesis unfolding \<open>u = t\<close>
      by (intro conjI keep) (auto simp: Fail_row confirmation_def no_new_published_def)
  next
    case (Finished k)
    with assms rows calm show ?thesis by (intro conjI keep) (auto simp: confirmation_def)
  next
    case (Thrown e)
    with assms rows calm show ?thesis by (intro conjI keep) (auto simp: confirmation_def)
  qed
qed

end


section \<open>Every run keeps the invariant\<close>

text \<open>What is asked of an operation: the handlers work in the same transaction and keep to their own data.\<close>

fun admissible :: "('s \<Rightarrow> bool) \<Rightarrow> ('s \<Rightarrow> 'w facts) \<Rightarrow> 's operation \<Rightarrow> bool" where
  "admissible ok view (Consume env req h) = well_behaved ok view h"
| "admissible ok view _ = True"

lemma consumption_keeps: "consumption view cx req h f r g \<Longrightarrow> keeps f g"
  using consumed_quiet [of view h] by (fastforce simp: consumption_def quiet_change_def split: sum.splits)

context event_store
begin

lemma replay_spec: "triple inv abs (\<lambda>f. f = f0) (op_replayOutbox st control now v reason) (\<lambda>r g. quiet_change f0 g)"
  unfolding op_replayOutbox_def
proof (intro t_check)
  fix i why p
  show "triple inv abs (\<lambda>f. f = f0) (case p of (allowed, decisionId) \<Rightarrow>
      if \<not> allowed then throw (EventingError Eventing_operation_denied False)
      else bindA (lift (record_replay control i decisionId why)) (\<lambda>_.
        bindA (replayOutbox st i now) (\<lambda>ok. if ok then ret () else throw (EventingError Eventing_not_found False))))
    (\<lambda>r g. quiet_change f0 g)"
  proof (cases p)
    case (Pair allowed decisionId)
    have "triple inv abs (\<lambda>f. f = f0) (replayOutbox st i now) (\<lambda>r g. quiet_change f0 g)"
    proof (rule t_meets [OF replayed])
      fix f g r assume f: "f = f0" and m: "faulty f r g \<or> spec_move i (\<lambda>r. ob_status r = Isolated) (as_replayed now) f r g"
      have pending: "ob_status (as_replayed now row) \<noteq> Published" for row by (simp add: as_replayed_def)
      from m show "quiet_change f0 g"
      proof
        assume "faulty f r g"
        with f show ?thesis by (simp add: faulty_def)
      next
        assume move: "spec_move i (\<lambda>r. ob_status r = Isolated) (as_replayed now) f r g"
        from moved_quiet [OF this] pending f show ?thesis by (simp add: quiet_change_def)
      qed
    qed
    then show ?thesis unfolding Pair
      by (auto intro!: t_throw t_check t_bind [where R = "\<lambda>r g. quiet_change f0 g"] t_ret)
  qed
qed simp_all

lemma quiet_case:
  assumes "triple inv abs (\<lambda>f. f = abs (db w)) m Q" "\<And>r g. Q r g \<Longrightarrow> quiet_change (abs (db w)) g"
    "inv (db w)" "system_inv (abs (db w)) w"
  shows "inv (snd (m (db w))) \<and> system_inv (abs (snd (m (db w)))) (w\<lparr>db := snd (m (db w))\<rparr>) \<and> keeps (abs (db w)) (abs (snd (m (db w))))"
proof -
  obtain r t where m: "m (db w) = (r, t)" by force
  from triple_run [OF assms(1,3) m] assms(2) have "inv t" "quiet_change (abs (db w)) (abs t)" by auto
  with quiet_system [OF assms(4)] show ?thesis by (simp add: m quiet_change_def)
qed

lemma publisher_keeps:
  assumes "inv s" "publisher_step st opts env p s = (q, t)"
  shows "keeps (abs s) (abs t)"
proof (cases p)
  case Claiming
  from publisher_claims [OF assms(1) assms(2) [unfolded Claiming]] show ?thesis by (simp add: quiet_change_def)
next
  case (Publish_row r rs n)
  with assms(2) show ?thesis by (auto split: sum.splits)
next
  case (Mark_row r rs n)
  obtain res u where c: "markOutboxPublished st (ob_messageId r) (claimToken r) (se_clock env 0) s = (res, u)" by force
  with assms(2) Mark_row have "u = t" by (auto split: sum.splits bool.splits)
  with met [OF published assms(1) c] moved_quiet(1) content_moves(1) show ?thesis by (metis keeps_refl)
next
  case (Fail_row r rs n e)
  obtain res u where c: "markOutboxFailure st (failure_of opts env r e) s = (res, u)" by force
  with assms(2) Fail_row have "u = t" by (auto split: sum.splits bool.splits)
  with met [OF failed assms(1) c] moved_quiet(1) content_moves(2) show ?thesis by (metis keeps_refl)
qed (use assms in auto)

lemma step_inv:
  assumes "inv (db w)" "system_inv (abs (db w)) w" "admissible inv abs op"
  shows "inv (db (system_step st cx op w)) \<and> system_inv (abs (db (system_step st cx op w))) (system_step st cx op w)
    \<and> keeps (abs (db w)) (abs (db (system_step st cx op w)))"
proof (cases op)
  case (Append_event v)
  from quiet_case [OF append_spec appended_quiet assms(1,2)] show ?thesis by (simp add: Append_event)
next
  case (Submit_job v)
  from quiet_case [OF submit_spec submitted_quiet assms(1,2)] show ?thesis by (simp add: Submit_job)
next
  case (Cancel_job v reason)
  from quiet_case [OF cancel_spec cancelled_quiet assms(1,2)] show ?thesis by (simp add: Cancel_job)
next
  case (Replay control now v reason)
  from quiet_case [OF replay_spec _ assms(1,2)] show ?thesis by (simp add: Replay)
next
  case (Consume env req h)
  obtain r t where c: "consume st cx env req h (db w) = (r, t)" by force
  from assms(3) have h: "well_behaved inv abs h" by (simp add: Consume)
  from triple_run [OF consume_spec [OF h] assms(1) c] have "inv t" "consumption abs cx req h (abs (db w)) r (abs t)" by auto
  with consumption_log [OF assms(2) this(2)] consumption_keeps [OF this(2)] show ?thesis by (simp add: Consume c)
next
  case (Start_batch n)
  with assms show ?thesis
    by (auto simp: system_inv_def completions_def marks_confirmed_def holds_rows_def)
next
  case (Publisher_step n opts env)
  obtain q t where c: "publisher_step st opts env (publishers w n) (db w) = (q, t)" by force
  from publisher_spec [OF assms(1) c assms(2) refl] publisher_keeps [OF assms(1) c] show ?thesis
    by (simp add: Publisher_step c)
qed

lemma run_inv:
  "inv (db w) \<Longrightarrow> system_inv (abs (db w)) w \<Longrightarrow> list_all (admissible inv abs) ops \<Longrightarrow>
    inv (db (run st cx ops w)) \<and> system_inv (abs (db (run st cx ops w))) (run st cx ops w)
      \<and> keeps (abs (db w)) (abs (db (run st cx ops w)))"
proof (induction ops arbitrary: w)
  case (Cons op ops)
  from Cons.prems have "admissible inv abs op" "list_all (admissible inv abs) ops" by simp_all
  from step_inv [OF Cons.prems(1,2) this(1)] Cons.IH [OF _ _ this(2), of "system_step st cx op w"] keeps_trans
  show ?case by (metis run_def fold_simps(2))
qed (simp add: run_def)

end


section \<open>Over the in-memory store\<close>

abbreviation reached :: "codec \<Rightarrow> 'w \<Rightarrow> 'w memory_store operation list \<Rightarrow> 'w memory_store system" where
  "reached cx d ops \<equiv> run memory_eventing_store cx ops (start (empty_memory_store d))"

lemma db_start [simp]: "db (start s) = s"
  by (simp add: start_def)

lemma start_inv:
  "memory_inv (empty_memory_store d)" "system_inv (memory_abs (empty_memory_store d)) (start (empty_memory_store d))"
  by (auto simp: memory_inv_def memory_abs_def empty_memory_store_def start_def system_inv_def calm_def
      completions_def marks_confirmed_def holds_rows_def split: if_splits)

lemma reached_inv:
  assumes "list_all (admissible memory_inv memory_abs) ops"
  shows "memory_inv (db (reached cx d ops)) \<and> system_inv (memory_abs (db (reached cx d ops))) (reached cx d ops)"
  using memory.run_inv [of "start (empty_memory_store d)" ops cx] start_inv [of d] assms by simp

lemma memory_rows:
  assumes "memory_inv s"
  shows "(i, r) \<in> set (outbox_rows s) \<longleftrightarrow> outbox (memory_abs s) i = Some r"
    and "(i, j) \<in> set (job_rows s) \<longleftrightarrow> jobs (memory_abs s) i = Some j"
  using assms by (simp_all add: memory_inv_def)

text \<open>A small run for the witnesses: a job is submitted, published, consumed and delivered again.\<close>

definition sample_options :: publisher_options where
  "sample_options = \<lparr>batchSize = 10, claimLeaseSeconds = 30, po_maxAttempts = 2, po_backoffSeconds = [1]\<rparr>"

definition sample_env :: step_env where
  "sample_env = \<lparr>se_clock = (\<lambda>_. 1785024000000), se_token = (\<lambda>_. ''t''), se_transport = (\<lambda>_. Inr ())\<rparr>"

definition sample_handler :: "unit memory_store message_handler" where
  "sample_handler = \<lparr>h_kind = Job_kind, h_messageType = ''a.b'', h_messageVersion = Num (of_int 1),
     recheckAuthoritativeState = Some (\<lambda>_. ret True), handle = (\<lambda>_. ret ())\<rparr>"

definition sample_request :: consume_request where
  "sample_request = \<lparr>rq_attempt = Num (of_int 1), rq_consumer = JStr ''c.d'', rq_envelope = sample_job, rq_timeoutMs = JNull\<rparr>"

definition sample_call :: call_env where
  "sample_call = \<lparr>ce_clock = (\<lambda>_. 1785024000000), ce_isolationId = ''i'', ce_expired = False\<rparr>"

definition sample_run :: "unit memory_store operation list" where
  "sample_run = [Submit_job sample_job, Publisher_step 0 sample_options sample_env, Publisher_step 0 sample_options sample_env,
     Publisher_step 0 sample_options sample_env, Consume sample_call sample_request sample_handler,
     Consume sample_call sample_request sample_handler]"

lemma sample_admissible: "list_all (admissible memory_inv memory_abs) sample_run"
  by (auto simp: sample_run_def well_behaved_def works_apart_def reads_only_def sample_handler_def outbox_grows_def intro!: t_ret)


lemma sample_request_valid: "validateConsumerName (JStr ''c.d'') = Inr ''c.d''"
  by code_simp

lemma sample_ints: "read_int 1 1000 (JNum (Num 1)) = Inr 1" "read_int 100 900000 (JNum (Num 1000)) = Inr 1000"
  by (simp_all add: read_int_eq)

lemmas sample_simps = run_def sample_run_def start_def empty_memory_store_def sample_job_valid' sample_job_valid
  sample_message_fields sample_request_valid sample_ints

lemma sample_submitted:
  "submitJob memory_eventing_store sample_codec sample_job (empty_memory_store ()) =
     (Inr (''00000000-0000-4000-8000-000000000001'', Queued),
      (empty_memory_store ())\<lparr>job_rows := [(''00000000-0000-4000-8000-000000000001'', submitted_job sample_message sample_envelope)],
        outbox_rows := [(''00000000-0000-4000-8000-000000000001'', outboxRecord sample_message)]\<rparr>)"
  by (simp add: submitJob_def bindA_def lift_def sample_job_valid' sample_message_fields memory_eventing_store_def
      memory_findJobByIdempotencyKey_def memory_createJob_def memory_appendOutbox_def transaction_def catchA_def ret_def
      empty_memory_store_def submitted_job_def Let_def)


abbreviation sample_id :: string where "sample_id \<equiv> ''00000000-0000-4000-8000-000000000001''"

definition sample_row :: outbox_record where
  "sample_row = as_published 1785024000000 (claimed_by 1785024000000 ''t'' (outboxRecord sample_message))"

lemma sample_published:
  "reached sample_codec () (take 4 sample_run) =
     \<lparr>db = (empty_memory_store ())\<lparr>job_rows := [(sample_id, submitted_job sample_message sample_envelope)],
        outbox_rows := [(sample_id, sample_row)]\<rparr>,
      publishers = (\<lambda>_. Claiming)(0 := Finished \<lparr>br_claimed = 1, br_published = 1, br_retained = 0, br_isolated = 0\<rparr>),
      confirmed = {publication_of (claimed_by 1785024000000 ''t'' (outboxRecord sample_message))}, consumed_log = []\<rparr>"
  by (simp add: sample_run_def run_def sample_submitted)
    (simp add: start_def memory_eventing_store_def memory_claimOutbox_def sample_env_def sample_options_def Let_def claimable_def
      outboxRecord_def claimed_by_def sample_message_fields empty_memory_store_def confirmation_def
      memory_markOutboxPublished_def holds_claim_def as_published_def sample_row_def)

lemma sample_consumed:
  "consume memory_eventing_store sample_codec sample_call sample_request sample_handler
     ((empty_memory_store ())\<lparr>job_rows := [(sample_id, submitted_job sample_message sample_envelope)],
        outbox_rows := [(sample_id, sample_row)]\<rparr>) = (Inr Result_completed, 
     (empty_memory_store ())\<lparr>job_rows := [(sample_id, (submitted_job sample_message sample_envelope)\<lparr>job_status := Completed\<rparr>)],
        outbox_rows := [(sample_id, sample_row)],
        inbox_rows := [(inboxKey sample_id ''c.d'', receipt_of sample_call sample_message ''c.d'')]\<rparr>)"
  by (simp add: consume_def bindA_def lift_def sample_request_def sample_request_valid sample_ints sample_job_valid timeout_of_def
      sample_message_fields consume_valid_def matches_def sample_handler_def memory_eventing_store_def empty_memory_store_def
      transaction_def inbox_work_def consume_job_def submitted_job_def memory_claimJob_def withTimeout_def authoritative_work_def
      ret_def complete_def memory_finishJob_def memory_createInboxReceipt_def receipt_of_def sample_call_def Let_def)


section \<open>A batch\<close>

text \<open>What becomes of a claimed row, given the answers of the transport.\<close>

fun outcome :: "publisher_options \<Rightarrow> failure + unit \<Rightarrow> outbox_record \<Rightarrow> outbox_status" where
  "outcome opts (Inr u) r = Published"
| "outcome opts (Inl e) r = (if exhausted opts r then Isolated else Pending)"

definition finished_row :: "publisher_options \<Rightarrow> (publication \<Rightarrow> failure + unit) \<Rightarrow> outbox_record \<Rightarrow> outbox_record \<Rightarrow> bool" where
  "finished_row opts tr r r' \<longleftrightarrow> content r' = content r \<and> attemptCount r' = attemptCount r \<and> claimToken r' = None
     \<and> ob_status r' = outcome opts (tr (publication_of r)) r"

definition outcomes :: "publisher_options \<Rightarrow> (publication \<Rightarrow> failure + unit) \<Rightarrow> outbox_status \<Rightarrow> outbox_record list \<Rightarrow> nat" where
  "outcomes opts tr status rs = length (filter (\<lambda>r. outcome opts (tr (publication_of r)) r = status) rs)"

definition tally :: "publisher_options \<Rightarrow> (publication \<Rightarrow> failure + unit) \<Rightarrow> outbox_record list \<Rightarrow> batch_result \<Rightarrow> batch_result" where
  "tally opts tr rs n = n\<lparr>br_published := br_published n + outcomes opts tr Published rs,
     br_retained := br_retained n + outcomes opts tr Pending rs, br_isolated := br_isolated n + outcomes opts tr Isolated rs\<rparr>"

lemma batch_steps:
  "\<not> settled p \<Longrightarrow> batch st opts env k p s = (case publisher_step st opts (env k) p s of (q, t) \<Rightarrow> batch st opts env (Suc k) q t)"
  "settled p \<Longrightarrow> batch st opts env k p s = (p, s)"
  by (subst batch.simps, simp)+

text \<open>One row: it is published or failed, and marked.\<close>

lemma memory_row:
  assumes "map_of (outbox_rows s) (ob_messageId r) = Some r" "ob_status r = Publishing" "\<not> failPublishedUpdate s"
  shows "\<exists>r'. batch memory_eventing_store opts env k (Publish_row r rs n) s
      = batch memory_eventing_store opts env (Suc (Suc k)) (next_row rs (tally opts (se_transport (env k)) [r] n))
          (s\<lparr>outbox_rows := AList.update (ob_messageId r) r' (outbox_rows s)\<rparr>)
    \<and> finished_row opts (se_transport (env k)) r r'"
proof (cases "se_transport (env k) (publication_of r)")
  case (Inr u)
  then have "batch memory_eventing_store opts env k (Publish_row r rs n) s = batch memory_eventing_store opts env (Suc (Suc k))
      (next_row rs (tally opts (se_transport (env k)) [r] n))
      (s\<lparr>outbox_rows := AList.update (ob_messageId r) (as_published (se_clock (env (Suc k)) 0) r) (outbox_rows s)\<rparr>)"
    using assms by (simp add: batch.simps memory_eventing_store_def memory_markOutboxPublished_def holds_claim_def tally_def outcomes_def)
  then show ?thesis using Inr
    by (intro exI conjI) (auto simp: finished_row_def as_published_def outbox_message.defs)
next
  case (Inl e)
  then have "batch memory_eventing_store opts env k (Publish_row r rs n) s = batch memory_eventing_store opts env (Suc (Suc k))
      (next_row rs (tally opts (se_transport (env k)) [r] n))
      (s\<lparr>outbox_rows := AList.update (ob_messageId r) (as_failed (failure_of opts (env (Suc k)) r e) r) (outbox_rows s)\<rparr>)"
    using assms by (simp add: batch.simps memory_eventing_store_def memory_markOutboxFailure_def holds_claim_def failure_of_def tally_def outcomes_def)
  then show ?thesis using Inl
    by (intro exI conjI) (auto simp: finished_row_def as_failed_def failure_of_def outbox_message.defs)
qed


lemma tally_Cons: "tally opts tr rs (tally opts tr [r] n) = tally opts tr (r # rs) n"
  by (simp add: tally_def outcomes_def)

lemma memory_batch:
  assumes "\<forall>k. se_transport (env k) = tr" "distinct (map ob_messageId rs)" "\<not> failPublishedUpdate s"
    and "\<forall>r \<in> set rs. map_of (outbox_rows s) (ob_messageId r) = Some r \<and> ob_status r = Publishing"
  shows "\<exists>t. batch memory_eventing_store opts env k (next_row rs n) s = (Finished (tally opts tr rs n), t)
    \<and> (\<forall>r \<in> set rs. \<exists>r'. map_of (outbox_rows t) (ob_messageId r) = Some r' \<and> finished_row opts tr r r')
    \<and> (\<forall>i. i \<notin> ob_messageId ` set rs \<longrightarrow> map_of (outbox_rows t) i = map_of (outbox_rows s) i)"
  using assms(2-)
proof (induction rs arbitrary: k n s)
  case Nil
  then show ?case by (simp add: batch_steps tally_def outcomes_def)
next
  case (Cons r rs)
  from Cons.prems memory_row [of s r opts env k rs n] assms(1) obtain r' where
    r': "batch memory_eventing_store opts env k (Publish_row r rs n) s = batch memory_eventing_store opts env (Suc (Suc k))
        (next_row rs (tally opts tr [r] n)) (s\<lparr>outbox_rows := AList.update (ob_messageId r) r' (outbox_rows s)\<rparr>)"
      "finished_row opts tr r r'" by auto
  let ?s = "s\<lparr>outbox_rows := AList.update (ob_messageId r) r' (outbox_rows s)\<rparr>"
  have apart: "ob_messageId x \<noteq> ob_messageId r" if "x \<in> set rs" for x
    using Cons.prems(1) imageI [OF that, of ob_messageId] by auto
  have "distinct (map ob_messageId rs)" "\<not> failPublishedUpdate ?s"
    "\<forall>r \<in> set rs. map_of (outbox_rows ?s) (ob_messageId r) = Some r \<and> ob_status r = Publishing"
    using Cons.prems apart by (simp_all add: update_conv')
  from Cons.IH [OF this, of "Suc (Suc k)" "tally opts tr [r] n", unfolded tally_Cons] obtain t where t:
    "batch memory_eventing_store opts env (Suc (Suc k)) (next_row rs (tally opts tr [r] n)) ?s = (Finished (tally opts tr (r # rs) n), t)"
    "\<forall>r \<in> set rs. \<exists>r'. map_of (outbox_rows t) (ob_messageId r) = Some r' \<and> finished_row opts tr r r'"
    "\<forall>i. i \<notin> ob_messageId ` set rs \<longrightarrow> map_of (outbox_rows t) i = map_of (outbox_rows ?s) i" by blast
  from apart have "ob_messageId r \<notin> ob_messageId ` set rs" by force
  with t(3) r'(2) have "\<exists>r'. map_of (outbox_rows t) (ob_messageId r) = Some r' \<and> finished_row opts tr r r'"
    by (simp add: update_conv')
  moreover have "map_of (outbox_rows t) i = map_of (outbox_rows s) i" if "i \<notin> ob_messageId ` set (r # rs)" for i
    using t(3) that by (simp add: update_conv')
  ultimately show ?case unfolding next_row.simps r'(1) t(1) using t(2) by auto
qed


text \<open>The whole batch, with an outbox that can be written.\<close>

lemma memory_publishBatch:
  assumes "memory_inv s" "\<not> failPublishedUpdate s" "\<forall>k. se_transport (env k) = tr"
  shows "\<exists>rows t. publishBatch memory_eventing_store opts env s
        = (Inr (tally opts tr rows \<lparr>br_claimed = length rows, br_published = 0, br_retained = 0, br_isolated = 0\<rparr>), t)
    \<and> distinct (map ob_messageId rows) \<and> length rows \<le> nat (batchSize opts)
    \<and> (\<forall>r' \<in> set rows. \<exists>r n. map_of (outbox_rows s) (ob_messageId r') = Some r \<and> r' = claimed_by (se_clock (env 0) 0) (se_token (env 0) n) r
          \<and> claimable (se_clock (env 0) 0) (se_clock (env 0) 0 - claimLeaseSeconds opts * 1000) r)
    \<and> (length rows < nat (batchSize opts) \<longrightarrow> (\<forall>i r. map_of (outbox_rows s) i = Some r
          \<longrightarrow> claimable (se_clock (env 0) 0) (se_clock (env 0) 0 - claimLeaseSeconds opts * 1000) r \<longrightarrow> i \<in> ob_messageId ` set rows))
    \<and> (\<forall>r \<in> set rows. \<exists>r'. map_of (outbox_rows t) (ob_messageId r) = Some r' \<and> finished_row opts tr r r')
    \<and> (\<forall>i. i \<notin> ob_messageId ` set rows \<longrightarrow> map_of (outbox_rows t) i = map_of (outbox_rows s) i)"
proof -
  let ?now = "se_clock (env 0) 0" and ?stale = "se_clock (env 0) 0 - claimLeaseSeconds opts * 1000"
  obtain res u where c: "memory_claimOutbox ?now ?stale (nat (batchSize opts)) (se_token (env 0)) s = (res, u)" by force
  have "memory_inv u \<and> ((\<exists>e. res = Inl e \<and> memory_abs u = memory_abs s) \<or>
      spec_claim ?now ?stale (nat (batchSize opts)) (se_token (env 0)) (memory_abs s) res (memory_abs u))"
    by (rule memory.met [OF memory_claim assms(1) c])
  moreover from c have "\<not> (\<exists>e. res = Inl e)" and fail: "failPublishedUpdate u = failPublishedUpdate s"
    by (auto simp: memory_claimOutbox_def Let_def)
  ultimately obtain rows where rows: "res = Inr rows" and
    spec: "spec_claim ?now ?stale (nat (batchSize opts)) (se_token (env 0)) (memory_abs s) (Inr rows) (memory_abs u)"
    by (auto simp: spec_claim_def)
  from spec have d: "distinct (map ob_messageId rows)" and len: "length rows \<le> nat (batchSize opts)"
    and old: "\<And>n. n < length rows \<Longrightarrow> \<exists>old. map_of (outbox_rows s) (ob_messageId (rows ! n)) = Some old \<and> claimable ?now ?stale old
          \<and> rows ! n = claimed_by ?now (se_token (env 0) n) old"
    and all: "length rows < nat (batchSize opts) \<longrightarrow> (\<forall>i old. map_of (outbox_rows s) i = Some old \<longrightarrow> claimable ?now ?stale old \<longrightarrow> i \<in> ob_messageId ` set rows)"
    and u: "map_of (outbox_rows u) = map_of (outbox_rows s) ++ map_of (map (\<lambda>row. (ob_messageId row, row)) rows)"
    unfolding spec_claim_def by (auto dest: arg_cong [of _ _ outbox])
  have held: "\<forall>r \<in> set rows. map_of (outbox_rows u) (ob_messageId r) = Some r \<and> ob_status r = Publishing"
    using claimed_rows(2) [OF spec] by simp
  have "i \<notin> ob_messageId ` set rows \<Longrightarrow> map_of (outbox_rows u) i = map_of (outbox_rows s) i" for i
    unfolding u by (force simp: map_add_def map_of_eq_None_iff split: option.splits dest!: map_of_SomeD)
  moreover from memory_batch [OF assms(3) d _ held, of opts 1] fail assms(2) obtain t where t:
    "batch memory_eventing_store opts env 1 (next_row rows \<lparr>br_claimed = length rows, br_published = 0, br_retained = 0, br_isolated = 0\<rparr>) u
       = (Finished (tally opts tr rows \<lparr>br_claimed = length rows, br_published = 0, br_retained = 0, br_isolated = 0\<rparr>), t)"
    "\<forall>r \<in> set rows. \<exists>r'. map_of (outbox_rows t) (ob_messageId r) = Some r' \<and> finished_row opts tr r r'"
    "\<forall>i. i \<notin> ob_messageId ` set rows \<longrightarrow> map_of (outbox_rows t) i = map_of (outbox_rows u) i" by blast
  moreover have "publishBatch memory_eventing_store opts env s
      = (Inr (tally opts tr rows \<lparr>br_claimed = length rows, br_published = 0, br_retained = 0, br_isolated = 0\<rparr>), t)"
    unfolding publishBatch_def
    using t(1) c rows by (simp add: batch_steps Let_def memory_eventing_store_def)
  moreover have "\<exists>r n. map_of (outbox_rows s) (ob_messageId r') = Some r \<and> r' = claimed_by ?now (se_token (env 0) n) r \<and> claimable ?now ?stale r"
    if "r' \<in> set rows" for r'
    using that old by (metis in_set_conv_nth)
  ultimately show ?thesis using d len all by (intro exI [of _ rows] exI [of _ t]) simp
qed


lemma sample_duplicate:
  "consume memory_eventing_store sample_codec sample_call sample_request sample_handler
     ((empty_memory_store ())\<lparr>job_rows := js, outbox_rows := os,
        inbox_rows := [(inboxKey sample_id ''c.d'', receipt_of sample_call sample_message ''c.d'')]\<rparr>) = (Inr Result_duplicate,
     (empty_memory_store ())\<lparr>job_rows := js, outbox_rows := os,
        inbox_rows := [(inboxKey sample_id ''c.d'', receipt_of sample_call sample_message ''c.d'')]\<rparr>)"
  by (simp add: consume_def bindA_def lift_def sample_request_def sample_request_valid sample_ints sample_job_valid timeout_of_def
      sample_message_fields consume_valid_def matches_def sample_handler_def memory_eventing_store_def receipt_of_def ret_def)

lemma sample_entry: "log_entry sample_codec sample_request (Inr x) = [(sample_id, ''c.d'', x)]"
  by (simp add: log_entry_def sample_request_def sample_job_valid sample_request_valid sample_message_fields)

lemma sample_final:
  "reached sample_codec () sample_run =
     \<lparr>db = (empty_memory_store ())\<lparr>job_rows := [(sample_id, (submitted_job sample_message sample_envelope)\<lparr>job_status := Completed\<rparr>)],
        outbox_rows := [(sample_id, sample_row)],
        inbox_rows := [(inboxKey sample_id ''c.d'', receipt_of sample_call sample_message ''c.d'')]\<rparr>,
      publishers = (\<lambda>_. Claiming)(0 := Finished \<lparr>br_claimed = 1, br_published = 1, br_retained = 0, br_isolated = 0\<rparr>),
      confirmed = {publication_of (claimed_by 1785024000000 ''t'' (outboxRecord sample_message))},
      consumed_log = [(sample_id, ''c.d'', Result_completed), (sample_id, ''c.d'', Result_duplicate)]\<rparr>"
proof -
  have "reached sample_codec () sample_run = run memory_eventing_store sample_codec
      [Consume sample_call sample_request sample_handler, Consume sample_call sample_request sample_handler]
      (reached sample_codec () (take 4 sample_run))"
    by (simp add: run_def sample_run_def)
  then show ?thesis unfolding sample_published
    by (simp add: run_def sample_consumed sample_duplicate sample_entry)
qed

text \<open>The store with the job waiting to be published.\<close>

definition sample_pending :: "unit memory_store" where
  "sample_pending = (empty_memory_store ())\<lparr>job_rows := [(sample_id, submitted_job sample_message sample_envelope)],
     outbox_rows := [(sample_id, outboxRecord sample_message)]\<rparr>"

lemma count_distinct: "distinct xs \<Longrightarrow> count_list xs x = (if x \<in> set xs then 1 else 0)"
  by (induction xs) auto

lemma count_completions: "count_list (completions w) (i, c) = count_list (consumed_log w) (i, c, Result_completed)"
proof -
  have "count_list (map (\<lambda>(i, c, x). (i, c)) (filter (\<lambda>(i, c, x). x = Result_completed) xs)) (i, c)
      = count_list xs (i, c, Result_completed)" for xs
    by (induction xs) auto
  then show ?thesis by (simp add: completions_def)
qed



text \<open>
  Property C34. A message is marked as published only after the transport has confirmed a publication of exactly its
  content, however the loops of any number of publishers, replays and failures interleave.
\<close>

theorem published_means_confirmed:
  assumes "list_all (admissible memory_inv memory_abs) ops" "(i, r) \<in> set (outbox_rows (db (reached cx d ops)))"
    and "ob_status r = Published"
  shows "\<exists>attempt. (publication_of r)\<lparr>pb_attempt := attempt\<rparr> \<in> confirmed (reached cx d ops)"
  using reached_inv [OF assms(1), of cx d] assms(2,3) memory_rows(1) unfolding system_inv_def was_confirmed_def by blast

theorem published_means_confirmed_witness:
  "\<exists>attempt. (publication_of sample_row)\<lparr>pb_attempt := attempt\<rparr> \<in> confirmed (reached sample_codec () sample_run)"
  by (rule published_means_confirmed [OF sample_admissible, of sample_id]) (simp_all add: sample_final sample_row_def as_published_def)







end
