(* ===== verification/Spec2Isabelle.thy ===== *)
theory Spec2Isabelle
  imports Executor Webhook Organization Authz_Publication Authz_Cache Session_Http Event_System
begin

text \<open>
  A verification development for the AI-CRM platform, a TypeScript monorepo: platform modules
  (\<open>packages/platform-modules\<close>) that the API (\<open>apps/api\<close>) and the worker (\<open>apps/worker\<close>) put together, and
  web frontends. The development models the modules that carry the platform's own rules.

  \<^bold>\<open>Conventions\<close> (theory \<open>Prelude\<close>). A function that may throw returns a sum, \<open>Inl\<close> for the error.
  Asynchronous code is sequential between its awaits; where calls of several requests
  interleave, the model makes each step between awaits atomic and the theorems quantify over all
  sequences of steps. Everything outside the sources (PostgreSQL and Redis apart from the
  commands and tables used, clocks, random values, digests, encryption, the identity provider,
  loggers, callbacks of the caller) is an argument or a field of an environment record.
  \<open>Js_Text\<close> models strings and the regular expressions of the validators (a matcher by derivatives,
  proved to decide the language), \<open>Js_Number\<close> numbers and binary64 rounding, \<open>Js_Time\<close> the
  ISO 8601 form of \<open>Date\<close> with its round trip, \<open>Js_Value\<close> values of type \<open>unknown\<close>, and
  \<open>Js_Json\<close> JSON texts, with the fact that different values have different texts.

  \<^bold>\<open>integration-runtime\<close> (\<open>packages/platform-modules/integration-runtime/src\<close>): calls of external services.
  \<open>Integration_Errors\<close> (\<open>errors.ts\<close>), \<open>Retry\<close> (\<open>retry.ts\<close>), \<open>Circuit_Breaker\<close> (\<open>circuit-breaker.ts\<close>; refines an
  abstract three-state contract, and a violation of its probe bound is exhibited),
  \<open>Integration_Limits\<close> (\<open>limits.ts\<close>; the concurrency and rate limiters under every
  interleaving), \<open>Deadline\<close> (\<open>deadline.ts\<close>; the race between an operation, its timer and an abort), \<open>Executor\<close>
  (\<open>executor.ts\<close>; the composition of all of these for one execution, with the bounds on attempts and
  sleeps; the recursion over attempts is bounded by \<open>maxAttempts\<close>) and \<open>Webhook\<close> (\<open>webhook.ts\<close>; acceptance of
  signed webhooks and the absence of replays).

  \<^bold>\<open>organization\<close> (\<open>packages/platform-modules/organization/src\<close>): people, employments, units, positions and
  assignments with effective intervals. \<open>Org_Types\<close> (\<open>types.ts\<close>, \<open>validation.ts\<close>), \<open>Org_Store\<close> (\<open>store.ts\<close>,
  \<open>memory-store.ts\<close>; the store is a locale interpreted on the in-memory store), \<open>Org_Service\<close> (\<open>service.ts\<close>; every
  command and the resolution of a workforce context; walks up the hierarchy are bounded by a
  visited list, which ends them), \<open>Org_Invariants\<close> and \<open>Organization\<close> (what all reachable stores satisfy:
  the hierarchy is acyclic, references hold, associations never overlap, an operation takes
  effect once).

  \<^bold>\<open>authorization\<close> (\<open>packages/platform-modules/authorization/src\<close>): policies and decisions. \<open>Authz_Policy\<close> (\<open>types.ts\<close>,
  \<open>policy.ts\<close>; validation of snapshots, subjects and requests), \<open>Authz_Engine\<close> (\<open>engine.ts\<close>, \<open>errors.ts\<close>; the decision
  engine with its cache and recorder, refined to a declarative reading of the policy),
  \<open>Authz_Persistence\<close> (\<open>postgres-persistence.ts\<close>; canonical snapshots, the policy store, the publisher's
  transaction with a fault at any statement, the decision recorder), \<open>Authz_Publication\<close>
  (\<open>policy-publication.ts\<close>, \<open>platform-baseline.ts\<close>; the audited publication behind an authorizer, a locale that the
  engine interprets, and the baseline policy) and \<open>Authz_Cache\<close> (\<open>redis-cache.ts\<close>; the commands sent to Redis and
  the validation of its replies).

  \<^bold>\<open>browser sessions\<close> (\<open>apps/api/src/auth\<close>): \<open>Session_Security\<close> (\<open>errors.ts\<close>, \<open>session-security.ts\<close>; credentials, base64url with
  its round trip, encryption of the tokens, CSRF and cookies), \<open>Oidc\<close> (\<open>oidc.ts\<close>; what surrounds the OpenID
  library), \<open>Session_Store\<close> (\<open>session-store.ts\<close>; the Redis keys with their expiries and every Lua script),
  \<open>Session_Registry\<close> (the abstract registry of sessions that the store implements, and what holds in
  every interleaving of its calls with lost replies), \<open>Session_Service\<close> (\<open>session-service.ts\<close>; the handlers, with
  rules in the style of a Hoare logic for their effect on the registry) and \<open>Session_Http\<close> (\<open>http-adapter.ts\<close>).

  \<^bold>\<open>eventing-outbox\<close> (\<open>packages/platform-modules/eventing-outbox/src\<close>): events and jobs that leave and enter the platform.
  \<open>Event_Messages\<close> (\<open>types.ts\<close>, \<open>errors.ts\<close>, \<open>validation.ts\<close>; envelopes, their canonical text and digest: validation
  does not depend on the order of members and is stable; the collation, the number format and SHA-256 of the
  host are fields of \<open>codec\<close>), \<open>Event_Store\<close> (\<open>store.ts\<close>, \<open>memory-store.ts\<close>; actions that may fail and roll back, the
  interface of the store as a record, its contract as a locale over four finite maps and the data of the
  handler's owner, interpreted on the in-memory store), \<open>Event_Core\<close> (\<open>service.ts\<close>; appending, submitting, cancelling
  and consuming, with a Hoare logic for actions; a handler may append messages and write data of its own
  and is asked to leave the inbox, the jobs and the isolations alone), \<open>Event_Publisher\<close> (\<open>publisher.ts\<close>, \<open>operations.ts\<close>,
  \<open>rabbit.ts\<close>; the loop of a batch as a machine that moves from await to await and ends, the confirming transport, and
  the settling of a delivery) and \<open>Event_System\<close> (any number of publishers, calls, deliveries and replays in any
  order with any answers from outside: what is published was confirmed, a handler's effect is
  committed at most once for each message and consumer, nothing is lost). A timer is represented by
  whether it had fired when the work settled; observers, which only report, are left out, and
  acknowledging a delivery is taken not to throw.

  \<^bold>\<open>Not modelled.\<close> The PostgreSQL stores of the organization and of the outbox (the in-memory stores are the
  references of the same contracts); the Redis and HTTP connections themselves; the loading of configuration; the
  modules for audit, tasks, workflow, files, notifications, applications, forms, business configuration,
  AI calls and identity tokens, which are later in the plan; the HTTP controllers and the
  composition of the applications, which call third-party frameworks; the frontends, scripts and generated
  output. Abstractions inside the models are stated in the theories: a JSON text kept in Redis is
  represented by its value, Lua's coercions between numbers and strings are left out, and the
  sign of zero and the overflow of binary64 are not represented.
\<close>

end
